(* ===== verification/Prelude.thy ===== *)
theory Prelude
  imports Main "HOL-Library.Word" "HOL-Library.Multiset" "HOL-Library.List_Lexorder"
begin

text \<open>
  Shared vocabulary of the development: the Go types the components use, errors as values,
  sequencing of fallible steps, Go's fixed-width integers, Go maps with their unspecified
  iteration order, and the generic lemmas on these that the component theories rely on.
\<close>

section \<open>Bytes, strings and machine integers\<close>

type_synonym byte = "8 word"
type_synonym bytes = "byte list"
type_synonym u64 = "64 word"
type_synonym u32 = "32 word"

text \<open>A Go string is an immutable sequence of bytes; a byte slice that may be nil is an option.\<close>

type_synonym gostring = "bytes"
type_synonym nbytes = "bytes option"

text \<open>A nil slice has no bytes.\<close>

definition of_nbytes :: "nbytes \<Rightarrow> bytes" where
  "of_nbytes b = (case b of None \<Rightarrow> [] | Some b \<Rightarrow> b)"

text \<open>
  Go's \<open>int\<close> is 64 bits wide on the supported platforms. \<open>goint i\<close> is the value an
  \<open>int\<close> holds after a computation whose exact result is \<open>i\<close>.
\<close>

definition goint :: "int \<Rightarrow> int" where
  "goint i = sint (word_of_int i :: u64)"

text \<open>The conversions \<open>int(x)\<close> of a \<open>uint64\<close> and \<open>uint64(n)\<close> of an \<open>int\<close>.\<close>

definition int_of_u64 :: "u64 \<Rightarrow> int" where
  "int_of_u64 w = sint w"

definition u64_of_int :: "int \<Rightarrow> u64" where
  "u64_of_int i = word_of_int i"

text \<open>The length of a slice as the \<open>uint64\<close> the encoders write.\<close>

definition u64_len :: "'a list \<Rightarrow> u64" where
  "u64_len xs = u64_of_int (int (length xs))"

text \<open>The largest \<open>int\<close>; every slice and every file is at most this long.\<close>

definition maxint :: int where
  "maxint = 2 ^ 63 - 1"

definition fits :: "'a list \<Rightarrow> bool" where
  "fits xs \<longleftrightarrow> int (length xs) \<le> maxint"

section \<open>Errors as values\<close>

text \<open>
  Every error value the modelled code returns, and \<open>Panic\<close> for a run-time panic. A fallible
  operation has a result of type \<open>error + 'a\<close>, with \<open>Inl\<close> for the error.
\<close>

datatype error =
    ErrUnexpectedEOF
  | ErrOverflow
  | ErrBadByteLength
  | ErrNotFound
  | ErrIO string
  | ErrNotSupported
  | ErrNotYetImplemented
  | ErrAttrNotIndexed
  | ErrNotFoundInIndex
  | ErrUnexpectedEndOfBlockfile
  | ErrMsg string
  | Panic string

definition bindE :: "error + 'a \<Rightarrow> ('a \<Rightarrow> error + 'b) \<Rightarrow> error + 'b" where
  "bindE r f = (case r of Inl e \<Rightarrow> Inl e | Inr x \<Rightarrow> f x)"

lemma bindE_Inl [simp]: "bindE (Inl e) f = Inl e"
  by (simp add: bindE_def)

lemma bindE_Inr [simp]: "bindE (Inr x) f = f x"
  by (simp add: bindE_def)

lemma bindE_eq_Inr_conv: "bindE r f = Inr y \<longleftrightarrow> (\<exists>x. r = Inr x \<and> f x = Inr y)"
  by (cases r) (simp_all add: bindE_def)

lemma bindE_eq_Inl_conv: "bindE r f = Inl e \<longleftrightarrow> r = Inl e \<or> (\<exists>x. r = Inr x \<and> f x = Inl e)"
  by (cases r) (simp_all add: bindE_def)

lemma bindE_cong [fundef_cong]:
  "r = r' \<Longrightarrow> (\<And>x. r' = Inr x \<Longrightarrow> f x = g x) \<Longrightarrow> bindE r f = bindE r' g"
  by (cases r') (simp_all add: bindE_def)

text \<open>Whether a result is an error, and a panic.\<close>

definition is_err :: "error + 'a \<Rightarrow> bool" where
  "is_err r \<longleftrightarrow> (\<exists>e. r = Inl e)"

lemma is_err_simps [simp]: "is_err (Inl e)" "\<not> is_err (Inr x)"
  by (simp_all add: is_err_def)

text \<open>
  Handling a returned error: a panic is not returned but goes on up, any other error is handed to the
  handler.
\<close>

definition is_panic :: "error \<Rightarrow> bool" where
  "is_panic e = (case e of Panic _ \<Rightarrow> True | _ \<Rightarrow> False)"

definition catchE :: "error + 'a \<Rightarrow> (error \<Rightarrow> error + 'b) \<Rightarrow> ('a \<Rightarrow> error + 'b) \<Rightarrow> error + 'b" where
  "catchE r h k = (case r of Inl e \<Rightarrow> if is_panic e then Inl e else h e | Inr x \<Rightarrow> k x)"

lemma is_panic_simps [simp]: "is_panic (Panic m)" "\<not> is_panic (ErrMsg m)"
  by (simp_all add: is_panic_def)

lemma catchE_simps [simp]:
  "catchE (Inr x) h k = k x" "catchE (Inl (ErrMsg m)) h k = h (ErrMsg m)" "catchE (Inl (Panic m)) h k = Inl (Panic m)"
  by (simp_all add: catchE_def)

text \<open>Following a pointer, and indexing a slice with a \<open>uint64\<close>.\<close>

definition deref :: "'a option \<Rightarrow> error + 'a" where
  "deref p = (case p of None \<Rightarrow> Inl (Panic ''nil pointer dereference'') | Some x \<Rightarrow> Inr x)"

definition goindex :: "'a list \<Rightarrow> u64 \<Rightarrow> error + 'a" where
  "goindex xs i = (if unat i < length xs then Inr (xs ! unat i) else Inl (Panic ''index out of range''))"

lemma deref_simps [simp]: "deref (Some x) = Inr x" "deref None = Inl (Panic ''nil pointer dereference'')"
  by (simp_all add: deref_def)

text \<open>
  The slice expression \<open>xs[a:b]\<close>, which panics when the bounds are out of range; a slice is taken to
  have no spare capacity.
\<close>

definition goslice :: "'a list \<Rightarrow> int \<Rightarrow> int \<Rightarrow> error + 'a list" where
  "goslice xs a b =
     (if 0 \<le> a \<and> a \<le> b \<and> b \<le> int (length xs) then Inr (take (nat (b - a)) (drop (nat a) xs))
      else Inl (Panic ''slice bounds out of range''))"

section \<open>Go maps\<close>

text \<open>
  A Go map is an association list with distinct keys. Lookup is \<open>map_of\<close>; \<open>mput\<close> overwrites
  in place or appends; \<open>mdel\<close> removes. The order in which \<open>range\<close> visits a map is not
  specified by the language, so code that ranges over a map takes that order as an argument: a
  function that rearranges the list of entries.
\<close>

type_synonym ('k, 'v) gomap = "('k \<times> 'v) list"

fun mput :: "'k \<Rightarrow> 'v \<Rightarrow> ('k, 'v) gomap \<Rightarrow> ('k, 'v) gomap" where
  "mput k v [] = [(k, v)]"
| "mput k v ((k', v') # m) = (if k' = k then (k, v) # m else (k', v') # mput k v m)"

definition mdel :: "'k \<Rightarrow> ('k, 'v) gomap \<Rightarrow> ('k, 'v) gomap" where
  "mdel k m = filter (\<lambda>(k', _). k' \<noteq> k) m"

definition map_wf :: "('k, 'v) gomap \<Rightarrow> bool" where
  "map_wf m \<longleftrightarrow> distinct (map fst m)"

type_synonym ('k, 'v) map_order = "('k, 'v) gomap \<Rightarrow> ('k, 'v) gomap"

definition order_ok :: "('k, 'v) map_order \<Rightarrow> bool" where
  "order_ok ord \<longleftrightarrow> (\<forall>m. mset (ord m) = mset m)"

lemma map_of_mput [simp]: "map_of (mput k v m) = (map_of m)(k \<mapsto> v)"
  by (induction m) (auto simp: fun_eq_iff)

lemma map_of_mdel [simp]: "map_of (mdel k m) = (map_of m)(k := None)"
  by (induction m) (auto simp: mdel_def fun_eq_iff)

lemma fst_mput: "fst ` set (mput k v m) = insert k (fst ` set m)"
proof (induction m)
  case (Cons p m)
  then show ?case by (cases p) (simp add: insert_commute)
qed simp

lemma map_wf_Nil [simp]: "map_wf []"
  by (simp add: map_wf_def)

lemma map_wf_mput [intro]: "map_wf m \<Longrightarrow> map_wf (mput k v m)"
proof (induction m)
  case (Cons p m)
  obtain k' v' where p: "p = (k', v')" by (cases p)
  from Cons.prems have "k' \<notin> fst ` set m" and wf: "map_wf m"
    by (auto simp: map_wf_def p)
  then have "k' = k \<or> k' \<notin> fst ` set (mput k v m)"
    by (auto simp: fst_mput)
  with Cons.IH [OF wf] Cons.prems show ?case
    by (auto simp: map_wf_def p)
qed (simp add: map_wf_def)

lemma map_wf_mdel [intro]: "map_wf m \<Longrightarrow> map_wf (mdel k m)"
  by (auto simp: map_wf_def mdel_def distinct_map inj_on_def)

lemma order_ok_set: "order_ok ord \<Longrightarrow> set (ord m) = set m"
  by (metis order_ok_def mset_eq_setD)

lemma order_ok_map_wf: "order_ok ord \<Longrightarrow> map_wf m \<Longrightarrow> map_wf (ord m)"
  by (metis map_wf_def mset_eq_imp_distinct_iff mset_map order_ok_def)

lemma order_ok_map_of: "order_ok ord \<Longrightarrow> map_wf m \<Longrightarrow> map_of (ord m) = map_of m"
  by (metis map_of_inject_set map_wf_def order_ok_map_wf order_ok_set)

lemma order_ok_length: "order_ok ord \<Longrightarrow> length (ord m) = length m"
  by (metis order_ok_def mset_eq_length)

lemma order_ok_id: "order_ok (\<lambda>m. m)"
  by (simp add: order_ok_def)

lemma order_ok_rev: "order_ok rev"
  by (simp add: order_ok_def)

lemma map_of_SomeI: "map_wf m \<Longrightarrow> (k, v) \<in> set m \<Longrightarrow> map_of m k = Some v"
  by (simp add: map_wf_def)

section \<open>Generic facts\<close>

lemma goint_id: "- (2 ^ 63) \<le> i \<Longrightarrow> i \<le> maxint \<Longrightarrow> goint i = i"
  by (simp add: goint_def maxint_def sint_uint signed_take_bit_int_eq_self unsigned_of_int signed_take_bit_take_bit)

lemma int_of_u64_of_int: "0 \<le> i \<Longrightarrow> i \<le> maxint \<Longrightarrow> int_of_u64 (u64_of_int i) = i"
  by (simp add: int_of_u64_def u64_of_int_def maxint_def sint_uint signed_take_bit_int_eq_self unsigned_of_int signed_take_bit_take_bit)

lemma int_of_u64_len [simp]: "fits xs \<Longrightarrow> int_of_u64 (u64_len xs) = int (length xs)"
  by (simp add: u64_len_def int_of_u64_of_int fits_def)

lemma fits_append: "fits (xs @ ys) \<Longrightarrow> fits xs \<and> fits ys"
  by (simp add: fits_def)

lemma u64_of_int_inj:
  "\<lbrakk>0 \<le> i; i \<le> maxint; 0 \<le> j; j \<le> maxint; u64_of_int i = u64_of_int j\<rbrakk> \<Longrightarrow> i = j"
  by (metis int_of_u64_of_int)

text \<open>Converting a \<open>uint64\<close> to \<open>int\<close> gives a negative number exactly from \<open>2\<^sup>6\<^sup>3\<close> on.\<close>

lemma int_of_u64_small: "unat w < 2 ^ 63 \<Longrightarrow> int_of_u64 w = int (unat w)"
proof -
  assume "unat w < 2 ^ 63"
  then have "uint w < 2 ^ 63" by (metis of_nat_less_iff of_nat_numeral of_nat_power uint_nat)
  moreover have "- (2 ^ 63) \<le> uint w" by (rule order_trans [OF _ uint_ge_0]) simp
  ultimately show ?thesis unfolding int_of_u64_def sint_uint uint_nat [symmetric]
    by (intro signed_take_bit_int_eq_self) auto
qed

lemma int_of_u64_nonneg: "0 \<le> int_of_u64 w \<Longrightarrow> unat w < 2 ^ 63"
proof (rule ccontr)
  assume s: "0 \<le> int_of_u64 w" and "\<not> unat w < 2 ^ 63"
  then have ge: "2 ^ 63 \<le> uint w" by (metis linorder_not_less of_nat_less_iff of_nat_numeral of_nat_power uint_nat)
  have lt: "uint w < 2 ^ 64" using uint_bounded [of w] by simp
  have "(uint w + 2 ^ 63) mod 2 ^ 64 = (uint w - 2 ^ 63 + 2 ^ 64) mod 2 ^ 64" by (simp add: add.commute)
  also have "\<dots> = (uint w - 2 ^ 63) mod 2 ^ 64" by (rule mod_add_self2)
  also have "\<dots> = uint w - 2 ^ 63" using ge lt by (intro mod_pos_pos_trivial) auto
  finally have "sint w = uint w - 2 ^ 63 - 2 ^ 63"
    by (simp add: sint_uint signed_take_bit_eq_take_bit_shift take_bit_eq_mod)
  then show False using s lt by (simp add: int_of_u64_def)
qed

end
