(* ===== verification/Proto_Wire.thy ===== *)
theory Proto_Wire
  imports Prelude
begin

text \<open>
  The wire primitives of the vendored protobuf package that the ledger uses directly: the
  standalone \<open>EncodeVarint\<close> and \<open>DecodeVarint\<close>, and the methods of \<open>proto.Buffer\<close> that
  write and read varints, byte strings and strings
  (vendor/github.com/golang/protobuf/proto/encode.go and decode.go).
  The lemmas show that every reader undoes the writer of the same name and stops exactly
  where the written bytes end.
\<close>

unbundle bit_operations_syntax

section \<open>Varints\<close>

function EncodeVarint :: "u64 \<Rightarrow> bytes" where
  "EncodeVarint x =
     (if 127 < x then (0x80 OR ucast (x AND 0x7F)) # EncodeVarint (drop_bit 7 x)
      else [ucast x])"
  by pat_completeness auto
termination
proof (relation "measure unat")
  fix x :: u64
  assume "127 < x"
  then have "127 < unat x"
    by (simp add: word_less_nat_alt)
  then show "(drop_bit 7 x, x) \<in> measure unat"
    by (simp add: drop_bit_eq_div unat_div)
qed simp

declare EncodeVarint.simps [simp del]

text \<open>
  \<open>DecodeVarint\<close> on a slice: the value and the number of bytes read, or \<open>(0, 0)\<close> when the
  slice ends too early or the number does not fit.
\<close>

function DecodeVarint_loop :: "nat \<Rightarrow> u64 \<Rightarrow> nat \<Rightarrow> bytes \<Rightarrow> u64 \<times> nat" where
  "DecodeVarint_loop shift x n buf =
     (if shift < 64 then
        if length buf \<le> n then (0, 0)
        else let b = (ucast (buf ! n) :: u64);
                 x' = x OR push_bit shift (b AND 0x7F)
             in if b AND 0x80 = 0 then (x', Suc n)
                else DecodeVarint_loop (shift + 7) x' (Suc n) buf
      else (0, 0))"
  by pat_completeness auto
termination
  by (relation "measure (\<lambda>(shift, _). 64 - shift)") auto

declare DecodeVarint_loop.simps [simp del]

definition DecodeVarint :: "bytes \<Rightarrow> u64 \<times> nat" where
  "DecodeVarint buf = DecodeVarint_loop 0 0 0 buf"

section \<open>proto.Buffer\<close>

text \<open>The bytes of the buffer and the position of the next read.\<close>

record Buffer =
  buf :: bytes
  index :: nat

definition NewBuffer :: "bytes \<Rightarrow> Buffer" where
  "NewBuffer e = \<lparr>buf = e, index = 0\<rparr>"

text \<open>The writers. Their error result is always nil, so they return the buffer.\<close>

function bufEncodeVarint :: "Buffer \<Rightarrow> u64 \<Rightarrow> Buffer" where
  "bufEncodeVarint p x =
     (if 2 ^ 7 \<le> x
      then bufEncodeVarint (p\<lparr>buf := buf p @ [ucast (x AND 0x7F OR 0x80)]\<rparr>) (drop_bit 7 x)
      else p\<lparr>buf := buf p @ [ucast x]\<rparr>)"
  by pat_completeness auto
termination
proof (relation "measure (\<lambda>(p, x). unat x)")
  fix x :: u64 and p :: Buffer
  assume "2 ^ 7 \<le> x"
  then have "128 \<le> unat x"
    by (simp add: word_le_nat_alt)
  then show "((p\<lparr>buf := buf p @ [ucast (x AND 0x7F OR 0x80)]\<rparr>, drop_bit 7 x), p, x)
      \<in> measure (\<lambda>(p, x). unat x)"
    by (simp add: drop_bit_eq_div unat_div)
qed simp

declare bufEncodeVarint.simps [simp del]

definition bufEncodeRawBytes :: "Buffer \<Rightarrow> bytes \<Rightarrow> Buffer" where
  "bufEncodeRawBytes p b = (let p = bufEncodeVarint p (u64_len b) in p\<lparr>buf := buf p @ b\<rparr>)"

definition bufEncodeStringBytes :: "Buffer \<Rightarrow> gostring \<Rightarrow> Buffer" where
  "bufEncodeStringBytes p s = (let p = bufEncodeVarint p (u64_len s) in p\<lparr>buf := buf p @ s\<rparr>)"

text \<open>The readers, which return the value read and the buffer with its position advanced.\<close>

function bufDecodeVarint_loop :: "nat \<Rightarrow> u64 \<Rightarrow> nat \<Rightarrow> Buffer \<Rightarrow> error + u64 \<times> Buffer" where
  "bufDecodeVarint_loop shift x i p =
     (if shift < 64 then
        if length (buf p) \<le> i then Inl ErrUnexpectedEOF
        else let b = buf p ! i;
                 x' = x OR push_bit shift ((ucast b :: u64) AND 0x7F)
             in if b < 0x80 then Inr (x', p\<lparr>index := Suc i\<rparr>)
                else bufDecodeVarint_loop (shift + 7) x' (Suc i) p
      else Inl ErrOverflow)"
  by pat_completeness auto
termination
  by (relation "measure (\<lambda>(shift, _). 64 - shift)") auto

declare bufDecodeVarint_loop.simps [simp del]

definition bufDecodeVarint :: "Buffer \<Rightarrow> error + u64 \<times> Buffer" where
  "bufDecodeVarint p = bufDecodeVarint_loop 0 0 (index p) p"

text \<open>
  \<open>DecodeRawBytes\<close> with \<open>alloc\<close> false: the slice it returns is not nil, even when empty.
  The end of the slice is an \<open>int\<close>, so adding the length may wrap around.
\<close>

definition bufDecodeRawBytes :: "Buffer \<Rightarrow> error + bytes \<times> Buffer" where
  "bufDecodeRawBytes p =
     bindE (bufDecodeVarint p) (\<lambda>(n, p).
       let nb = int_of_u64 n in
       if nb < 0 then Inl ErrBadByteLength
       else let en = goint (int (index p) + nb) in
         if en < int (index p) \<or> int (length (buf p)) < en then Inl ErrUnexpectedEOF
         else Inr (take (nat nb) (drop (index p) (buf p)), p\<lparr>index := nat en\<rparr>))"

definition bufDecodeStringBytes :: "Buffer \<Rightarrow> error + gostring \<times> Buffer" where
  "bufDecodeStringBytes p = bufDecodeRawBytes p"

section \<open>Varints: facts\<close>

lemma low7_mask: "(0x7F :: 'a :: len word) = mask 7"
  by (simp add: mask_eq_exp_minus_1)

lemma bit_0x80: "bit (0x80 :: 'a :: len word) k \<longleftrightarrow> k = 7 \<and> 7 < LENGTH('a)"
proof -
  have "(0x80 :: 'a word) = 2 ^ 7" by simp
  then show ?thesis by (auto simp only: bit_exp_iff possible_bit_word)
qed

lemma bit_0x80_int: "bit (0x80 :: int) k \<longleftrightarrow> k = 7"
proof -
  have "(0x80 :: int) = 2 ^ 7" by simp
  then show ?thesis by (auto simp only: bit_exp_iff possible_bit_int)
qed

lemma small_bits: "\<not> 127 < x \<Longrightarrow> bit x k \<Longrightarrow> k < 7" for x :: u64
proof (rule ccontr)
  assume small: "\<not> 127 < x" and "bit x k" and "\<not> k < 7"
  from \<open>bit x k\<close> have "bit (unat x) k" by (simp add: bit_unsigned_iff bit_imp_possible_bit)
  then have "2 ^ k \<le> unat x"
    by (metis bit_take_bit_iff linorder_not_less order_less_irrefl take_bit_nat_eq_self)
  moreover have "(2::nat) ^ 7 \<le> 2 ^ k" using \<open>\<not> k < 7\<close> by (intro power_increasing) auto
  ultimately show False using small by (simp add: word_less_nat_alt)
qed

lemma ucast_low7: "(ucast (0x80 OR ucast (x AND 0x7F) :: byte) :: u64) AND 0x7F = x AND 0x7F"
  for x :: u64
  unfolding low7_mask by (rule bit_eqI) (auto simp: bit_simps bit_0x80 bit_0x80_int)

lemma high_bit_set: "(ucast (0x80 OR ucast (x AND 0x7F) :: byte) :: u64) AND 0x80 \<noteq> 0"
  for x :: u64
proof -
  have "bit ((ucast (0x80 OR ucast (x AND 0x7F) :: byte) :: u64) AND 0x80) 7"
    by (simp add: bit_simps)
  then show ?thesis by auto
qed

lemma split_low7: "push_bit s y = push_bit s (y AND 0x7F) OR push_bit (s + 7) (drop_bit 7 y)"
  for y :: u64
proof (rule bit_eqI)
  fix n
  have "s + 7 \<le> n \<Longrightarrow> 7 + (n - (s + 7)) = n - s" by simp
  then show "bit (push_bit s y) n =
      bit (push_bit s (y AND 0x7F) OR push_bit (s + 7) (drop_bit 7 y)) n"
    unfolding low7_mask by (cases "s + 7 \<le> n") (auto simp: bit_simps)
qed

lemma ucast_small:
  assumes "\<not> 127 < (y :: u64)"
  shows "(ucast (ucast y :: byte) :: u64) AND 0x7F = y"
    and "(ucast (ucast y :: byte) :: u64) AND 0x80 = 0"
proof -
  have bits: "bit y k \<Longrightarrow> k < 7" for k
    using assms small_bits by blast
  show "(ucast (ucast y :: byte) :: u64) AND 0x7F = y"
    unfolding low7_mask by (rule bit_eqI) (auto simp: bit_simps dest: bits)
  show "(ucast (ucast y :: byte) :: u64) AND 0x80 = 0"
    by (rule bit_eqI) (auto simp: bit_simps bit_0x80 bit_0x80_int dest: bits)
qed

lemma msb_test: "(ucast b :: u64) AND 0x80 = 0 \<longleftrightarrow> b < 0x80" for b :: byte
proof -
  have "(ucast b :: u64) AND 0x80 = 0 \<longleftrightarrow> \<not> bit ((ucast b :: u64) AND 0x80) 7"
  proof
    show "\<not> bit ((ucast b :: u64) AND 0x80) 7" if "(ucast b :: u64) AND 0x80 = 0"
      unfolding that by simp
    show "(ucast b :: u64) AND 0x80 = 0" if "\<not> bit ((ucast b :: u64) AND 0x80) 7"
      using that by (auto intro!: bit_eqI simp: bit_simps bit_0x80 bit_0x80_int)
  qed
  also have "\<dots> \<longleftrightarrow> \<not> bit b 7"
    by (simp add: bit_simps)
  also have "\<dots> \<longleftrightarrow> unat b < 128"
  proof -
    have "bit b 7 \<longleftrightarrow> bit (unat b) 7" by (simp add: bit_unsigned_iff)
    also have "\<dots> \<longleftrightarrow> odd (unat b div 128)" by (simp add: bit_iff_odd)
    also have "unat b div 128 = (if 128 \<le> unat b then 1 else 0)"
      using unsigned_less [where 'a = nat, of b] by (auto intro: div_nat_eqI)
    also have "odd (if 128 \<le> unat b then 1 else 0 :: nat) \<longleftrightarrow> 128 \<le> unat b"
      by simp
    finally show ?thesis by auto
  qed
  finally show ?thesis by (simp add: word_less_nat_alt)
qed

lemma EncodeVarint_more:
  assumes "127 < y"
  shows "EncodeVarint y = (0x80 OR ucast (y AND 0x7F)) # EncodeVarint (drop_bit 7 y)"
  using assms by (subst EncodeVarint.simps) simp

lemma EncodeVarint_last: "\<not> 127 < y \<Longrightarrow> EncodeVarint y = [ucast y]"
  by (subst EncodeVarint.simps) simp

lemma EncodeVarint_neq_Nil [simp]: "EncodeVarint y \<noteq> []"
  by (subst EncodeVarint.simps) simp

lemma drop_bit7_bound:
  assumes "127 < (y :: u64)" and "unat y < 2 ^ (64 - s)" and "s < 64"
  shows "s + 7 < 64" and "unat (drop_bit 7 y) < 2 ^ (64 - (s + 7))"
proof -
  from assms(1) have big: "2 ^ 7 \<le> unat y" by (simp add: word_less_nat_alt)
  show s: "s + 7 < 64"
  proof (rule ccontr)
    assume "\<not> s + 7 < 64"
    then have "(2::nat) ^ (64 - s) \<le> 2 ^ 7" by (intro power_increasing) auto
    with assms(2) big show False by simp
  qed
  from s have "64 - s = (64 - (s + 7)) + 7" by simp
  then have "(2::nat) ^ (64 - s) = 2 ^ (64 - (s + 7)) * 2 ^ 7"
    by (simp only: power_add)
  with assms(2) show "unat (drop_bit 7 y) < 2 ^ (64 - (s + 7))"
    by (simp add: drop_bit_eq_div unat_div less_mult_imp_div_less)
qed

text \<open>Reading back what was written, from any position and with any accumulator.\<close>

lemma drop_Cons_nth: "drop n xs = y # ys \<Longrightarrow> n < length xs \<and> xs ! n = y \<and> drop (Suc n) xs = ys"
  by (metis Cons_nth_drop_Suc drop_all linorder_not_less list.distinct(1) list.inject)

lemma DecodeVarint_loop_enc:
  assumes "drop n bs = EncodeVarint y @ r" and "s < 64" and "unat y < 2 ^ (64 - s)"
  shows "DecodeVarint_loop s x n bs = (x OR push_bit s y, n + length (EncodeVarint y))"
  using assms
proof (induction y arbitrary: n s x rule: EncodeVarint.induct)
  case (1 y)
  show ?case
  proof (cases "127 < y")
    case True
    let ?b = "0x80 OR ucast (y AND 0x7F) :: byte"
    from 1(2) True have n: "n < length bs" "bs ! n = ?b"
      and rest: "drop (Suc n) bs = EncodeVarint (drop_bit 7 y) @ r"
      by (auto simp: EncodeVarint_more dest: drop_Cons_nth)
    note IH = 1(1) [OF True rest drop_bit7_bound [OF True 1(4) 1(3)]]
    have "DecodeVarint_loop s x n bs =
        DecodeVarint_loop (s + 7) (x OR push_bit s (y AND 0x7F)) (Suc n) bs"
      using n 1(3) by (subst DecodeVarint_loop.simps) (simp add: Let_def ucast_low7 high_bit_set del: push_bit_and)
    also have "\<dots> = (x OR push_bit s y, n + length (EncodeVarint y))"
      unfolding IH EncodeVarint_more [OF True] split_low7 [of s y] by (simp only: or.assoc) simp
    finally show ?thesis .
  next
    case False
    from 1(2) False have "n < length bs" "bs ! n = ucast y"
      by (auto simp: EncodeVarint_last dest: drop_Cons_nth)
    with False 1(3) show ?thesis
      by (subst DecodeVarint_loop.simps) (simp add: Let_def ucast_small EncodeVarint_last del: push_bit_and)
  qed
qed

lemma DecodeVarint_EncodeVarint [simp]:
  "DecodeVarint (EncodeVarint y @ r) = (y, length (EncodeVarint y))"
  using DecodeVarint_loop_enc [of 0 "EncodeVarint y @ r" y r 0 0] unsigned_less [where 'a = nat, of y]
  by (simp add: DecodeVarint_def)

lemma DecodeVarint_EncodeVarint0 [simp]:
  "DecodeVarint (EncodeVarint y) = (y, length (EncodeVarint y))"
  using DecodeVarint_EncodeVarint [of y "[]"] by simp

lemma EncodeVarint_prefix_free:
  assumes "EncodeVarint x @ r = EncodeVarint y @ r'"
  shows "x = y \<and> r = r'"
proof -
  have "DecodeVarint (EncodeVarint x @ r) = DecodeVarint (EncodeVarint y @ r')"
    by (simp only: assms)
  then have "x = y" by simp
  with assms show ?thesis by simp
qed

lemma length_EncodeVarint: "unat y < 2 ^ (7 * n) \<Longrightarrow> 0 < n \<Longrightarrow> length (EncodeVarint y) \<le> n"
proof (induction n arbitrary: y)
  case (Suc n)
  show ?case
  proof (cases "127 < y")
    case True
    then have "2 ^ 7 \<le> unat y" by (simp add: word_less_nat_alt)
    with Suc.prems have "n \<noteq> 0" by (cases n) auto
    moreover have "unat (drop_bit 7 y) < 2 ^ (7 * n)"
      using Suc.prems(1) by (simp add: drop_bit_eq_div unat_div power_add less_mult_imp_div_less)
    ultimately show ?thesis using Suc.IH True by (simp add: EncodeVarint_more)
  qed (simp add: EncodeVarint_last)
qed simp

text \<open>The fixed array of ten bytes that \<open>EncodeVarint\<close> fills is large enough.\<close>

lemma length_EncodeVarint_max: "length (EncodeVarint y) \<le> 10"
  by (rule length_EncodeVarint) (use unsigned_less [where 'a = nat, of y] in \<open>simp_all\<close>)

section \<open>proto.Buffer: facts\<close>

lemma ucast_or80: "ucast (x AND 0x7F OR 0x80) = (0x80 OR ucast (x AND 0x7F) :: byte)" for x :: u64
  by (rule bit_eqI) (auto simp: bit_simps bit_0x80)

lemma bufEncodeVarint_eq: "bufEncodeVarint p x = p\<lparr>buf := buf p @ EncodeVarint x\<rparr>"
proof (induction p x rule: bufEncodeVarint.induct)
  case (1 p x)
  have le: "2 ^ 7 \<le> x \<longleftrightarrow> 127 < x"
    by (simp add: word_le_nat_alt word_less_nat_alt) linarith
  show ?case
  proof (cases "127 < x")
    case True
    with 1 show ?thesis
      by (subst bufEncodeVarint.simps) (simp add: le EncodeVarint_more ucast_or80 del: power_numeral)
  next
    case False
    then show ?thesis
      by (subst bufEncodeVarint.simps) (simp add: le EncodeVarint_last del: power_numeral)
  qed
qed

lemma buf_bufEncodeVarint [simp]: "buf (bufEncodeVarint p x) = buf p @ EncodeVarint x"
  by (simp add: bufEncodeVarint_eq)

definition enc_bytes :: "bytes \<Rightarrow> bytes" where
  "enc_bytes b = EncodeVarint (u64_len b) @ b"

lemma buf_bufEncodeRawBytes [simp]: "buf (bufEncodeRawBytes p b) = buf p @ enc_bytes b"
  by (simp add: bufEncodeRawBytes_def enc_bytes_def Let_def)

lemma buf_bufEncodeStringBytes [simp]: "buf (bufEncodeStringBytes p b) = buf p @ enc_bytes b"
  by (simp add: bufEncodeStringBytes_def enc_bytes_def Let_def)

text \<open>
  \<open>at p r\<close>: what the buffer still has to read is \<open>r\<close>. Each reader takes such a buffer past
  the value at its front.
\<close>

definition at :: "Buffer \<Rightarrow> bytes \<Rightarrow> bool" where
  "at p r \<longleftrightarrow> index p \<le> length (buf p) \<and> drop (index p) (buf p) = r \<and> fits (buf p)"

lemma at_NewBuffer: "fits bs \<Longrightarrow> at (NewBuffer bs) bs"
  by (simp add: at_def NewBuffer_def)

lemma at_length: "at p r \<Longrightarrow> length (buf p) = index p + length r"
  unfolding at_def by auto

lemma at_advance:
  assumes "at p (v @ r)"
  shows "at (p\<lparr>index := index p + length v\<rparr>) r"
proof -
  from assms have "drop (index p) (buf p) = v @ r" by (simp add: at_def)
  then have "drop (length v) (drop (index p) (buf p)) = r" by simp
  then have "drop (index p + length v) (buf p) = r" by (simp add: add.commute)
  with at_length [OF assms] assms show ?thesis by (simp add: at_def)
qed

lemma at_fits:
  assumes "at p (v @ r)"
  shows "fits v \<and> fits r"
proof -
  have "int (length (buf p)) \<le> maxint" using assms unfolding at_def fits_def by blast
  then show ?thesis
    using at_length [OF assms] unfolding fits_def length_append by linarith
qed

lemma bufDecodeVarint_loop_enc:
  assumes "drop n (buf p) = EncodeVarint y @ r" and "s < 64" and "unat y < 2 ^ (64 - s)"
  shows "bufDecodeVarint_loop s x n p =
    Inr (x OR push_bit s y, p\<lparr>index := n + length (EncodeVarint y)\<rparr>)"
  using assms
proof (induction y arbitrary: n s x rule: EncodeVarint.induct)
  case (1 y)
  show ?case
  proof (cases "127 < y")
    case True
    let ?b = "0x80 OR ucast (y AND 0x7F) :: byte"
    from 1(2) True have n: "n < length (buf p)" "buf p ! n = ?b"
      and rest: "drop (Suc n) (buf p) = EncodeVarint (drop_bit 7 y) @ r"
      by (auto simp: EncodeVarint_more dest: drop_Cons_nth)
    note IH = 1(1) [OF True rest drop_bit7_bound [OF True 1(4) 1(3)]]
    have "bufDecodeVarint_loop s x n p =
        bufDecodeVarint_loop (s + 7) (x OR push_bit s (y AND 0x7F)) (Suc n) p"
      using n 1(3) high_bit_set [of y]
      by (subst bufDecodeVarint_loop.simps)
        (simp add: Let_def ucast_low7 msb_test del: push_bit_and)
    also have "\<dots> = Inr (x OR push_bit s y, p\<lparr>index := n + length (EncodeVarint y)\<rparr>)"
      unfolding IH EncodeVarint_more [OF True] split_low7 [of s y] by (simp only: or.assoc) simp
    finally show ?thesis .
  next
    case False
    from 1(2) False have "n < length (buf p)" "buf p ! n = ucast y"
      by (auto simp: EncodeVarint_last dest: drop_Cons_nth)
    moreover have "ucast y < (0x80 :: byte)"
      using ucast_small(2) [OF False] msb_test by blast
    ultimately show ?thesis using False 1(3)
      by (subst bufDecodeVarint_loop.simps)
        (simp add: Let_def ucast_small(1) EncodeVarint_last del: push_bit_and)
  qed
qed

lemma bufDecodeVarint_at:
  assumes "at p (EncodeVarint x @ r)"
  obtains p' where "bufDecodeVarint p = Inr (x, p')" and "at p' r"
proof
  let ?p = "p\<lparr>index := index p + length (EncodeVarint x)\<rparr>"
  from assms show "bufDecodeVarint p = Inr (x, ?p)"
    using bufDecodeVarint_loop_enc [of "index p" p x r 0 0] unsigned_less [where 'a = nat, of x]
    by (simp add: bufDecodeVarint_def at_def)
  from assms show "at ?p r" by (rule at_advance)
qed

lemma bufDecodeRawBytes_at:
  assumes "at p (enc_bytes b @ r)"
  obtains p' where "bufDecodeRawBytes p = Inr (b, p')" and "at p' r"
proof -
  from assms have "at p (EncodeVarint (u64_len b) @ (b @ r))"
    by (simp add: enc_bytes_def)
  then obtain q where q: "bufDecodeVarint p = Inr (u64_len b, q)" "at q (b @ r)"
    by (rule bufDecodeVarint_at)
  from q(2) have fits: "fits b" using at_fits by blast
  from q(2) have len: "length (buf q) = index q + length b + length r" "fits (buf q)"
    using at_length [OF q(2)] by (simp_all add: at_def)
  then have "goint (int (index q) + int (length b)) = int (index q + length b)"
    by (simp add: goint_id fits_def)
  with q fits len have "bufDecodeRawBytes p = Inr (b, q\<lparr>index := index q + length b\<rparr>)"
    by (simp add: bufDecodeRawBytes_def Let_def at_def flip: of_nat_add)
  moreover from q(2) have "at (q\<lparr>index := index q + length b\<rparr>) r" by (rule at_advance)
  ultimately show thesis by (rule that)
qed

lemma bufDecodeStringBytes_at:
  assumes "at p (enc_bytes b @ r)"
  obtains p' where "bufDecodeStringBytes p = Inr (b, p')" and "at p' r"
proof -
  from assms obtain p' where "bufDecodeRawBytes p = Inr (b, p')" and "at p' r"
    by (rule bufDecodeRawBytes_at)
  then show thesis by (intro that) (simp_all add: bufDecodeStringBytes_def)
qed

end
