(* ===== verification/Byte_Order.thy ===== *)
theory Byte_Order
  imports Proto_Wire
begin

text \<open>
  Go's \<open>encoding/binary\<close> byte orders, and the order-preserving variable-length encoding of
  block numbers built on them (core/ledger/util/util.go). The database compares keys byte by
  byte, so the encoding has to sort the way the numbers do; the lemmas show this, and that
  decoding undoes encoding.
\<close>

unbundle bit_operations_syntax

section \<open>Fixed-width integers as bytes\<close>

text \<open>The \<open>n\<close> low-order bytes of a word, most significant first, and the word they spell.\<close>

fun be_bytes :: "nat \<Rightarrow> 'a :: len word \<Rightarrow> bytes" where
  "be_bytes 0 w = []"
| "be_bytes (Suc n) w = ucast (drop_bit (8 * n) w) # be_bytes n w"

definition be_word :: "bytes \<Rightarrow> 'a :: len word" where
  "be_word bs = foldl (\<lambda>a b. push_bit 8 a OR ucast b) 0 bs"

definition BigEndian_PutUint64 :: "u64 \<Rightarrow> bytes" where
  "BigEndian_PutUint64 w = be_bytes 8 w"

definition BigEndian_Uint64 :: "bytes \<Rightarrow> u64" where
  "BigEndian_Uint64 bs = be_word bs"

definition LittleEndian_PutUint32 :: "u32 \<Rightarrow> bytes" where
  "LittleEndian_PutUint32 w = rev (be_bytes 4 w)"

definition LittleEndian_Uint32 :: "bytes \<Rightarrow> u32" where
  "LittleEndian_Uint32 bs = be_word (rev bs)"

section \<open>The order-preserving encoding\<close>

text \<open>The search for the first byte that is not zero: its index and how many bytes follow.\<close>

fun first_nonzero :: "nat \<Rightarrow> bytes \<Rightarrow> nat \<times> nat" where
  "first_nonzero i [] = (0, 0)"
| "first_nonzero i (b # bs) = (if b \<noteq> 0 then (i, 8 - i) else first_nonzero (Suc i) bs)"

definition EncodeOrderPreservingVarUint64 :: "u64 \<Rightarrow> error + bytes" where
  "EncodeOrderPreservingVarUint64 number =
     (let bytes = BigEndian_PutUint64 number;
          (startingIndex, sz) = first_nonzero 0 bytes;
          sizeBytes = EncodeVarint (u64_of_int (int sz))
      in if 1 < length sizeBytes then Inl (Panic ''[]sizeBytes should not be more than one byte'')
         else Inr (sizeBytes ! 0 # take sz (drop startingIndex bytes)))"

text \<open>
  Decoding panics when the slice is shorter than its first byte announces or when that byte
  announces more than eight bytes.
\<close>

definition DecodeOrderPreservingVarUint64 :: "bytes \<Rightarrow> error + u64 \<times> int" where
  "DecodeOrderPreservingVarUint64 bytes =
     (let sz = int_of_u64 (fst (DecodeVarint bytes)) in
      if sz < 0 \<or> 8 < sz then Inl (Panic ''slice bounds out of range'')
      else if int (length bytes) < sz + 1 then Inl (Panic ''slice bounds out of range'')
      else Inr (BigEndian_Uint64 (replicate (nat (8 - sz)) 0 @ take (nat sz) (drop 1 bytes)),
                sz + 1))"

section \<open>Bytes as digits\<close>

definition be_val :: "bytes \<Rightarrow> nat" where
  "be_val bs = foldl (\<lambda>a b. 256 * a + unat b) 0 bs"

lemma unat_byte: "unat (b :: byte) < 256"
  using unsigned_less [where 'a = nat, of b] by simp

lemma foldl_be_val: "foldl (\<lambda>a b. 256 * a + unat b) a bs = a * 256 ^ length bs + be_val bs"
proof (induction bs arbitrary: a)
  case (Cons b bs)
  from Cons [of "256 * a + unat b"] Cons [of "unat b"] show ?case
    by (simp add: be_val_def algebra_simps)
qed (simp add: be_val_def)

lemma be_val_Nil [simp]: "be_val [] = 0"
  by (simp add: be_val_def)

lemma be_val_Cons: "be_val (b # bs) = unat b * 256 ^ length bs + be_val bs"
  using foldl_be_val [of "unat b" bs] by (simp add: be_val_def)

lemma be_val_less: "be_val bs < 256 ^ length bs"
proof (induction bs)
  case (Cons b bs)
  have "unat b + 1 \<le> 256" using unat_byte [of b] by simp
  then have "(unat b + 1) * 256 ^ length bs \<le> 256 * 256 ^ length bs"
    by (rule mult_le_mono1)
  then have "unat b * 256 ^ length bs + 256 ^ length bs \<le> 256 ^ length (b # bs)"
    by (simp add: algebra_simps)
  with Cons show ?case unfolding be_val_Cons by linarith
qed simp

lemma length_be_bytes [simp]: "length (be_bytes n w) = n"
  by (induction n) simp_all

lemma unat_ucast_byte: "unat (ucast w :: byte) = unat w mod 256" for w :: "'a :: len word"
  by (simp add: unsigned_ucast_eq take_bit_eq_mod)

lemma be_val_be_bytes: "be_val (be_bytes n w) = unat w mod 256 ^ n" for w :: "'a :: len word"
proof (induction n)
  case (Suc n)
  have "unat (drop_bit (8 * n) w) = unat w div 256 ^ n"
    by (simp only: unat_drop_bit_eq) (simp add: drop_bit_eq_div power_mult)
  with Suc show ?case
    using mod_mult2_eq [of "unat w" "256 ^ n" 256]
    by (simp add: be_val_Cons unat_ucast_byte mult.commute)
qed simp

text \<open>On lists of one length, the order of the database is the order of the values.\<close>

lemma be_val_less_iff:
  "length xs = length ys \<Longrightarrow> xs < ys \<longleftrightarrow> be_val xs < be_val ys" for xs ys :: bytes
proof (induction xs ys rule: list_induct2)
  case (Cons x xs y ys)
  let ?n = "256 ^ length ys :: nat"
  have small: "be_val xs < ?n" "be_val ys < ?n"
    using be_val_less [of xs] be_val_less [of ys] Cons.hyps by simp_all
  consider "unat x < unat y" | "unat x = unat y" | "unat y < unat x" by linarith
  then show ?case
  proof cases
    case 1
    then have "(unat x + 1) * ?n \<le> unat y * ?n" by (intro mult_le_mono1) simp
    with 1 small Cons.hyps show ?thesis by (simp add: be_val_Cons word_less_nat_alt)
  next
    case 2
    with Cons show ?thesis by (simp add: be_val_Cons word_less_nat_alt word_unat_eq_iff)
  next
    case 3
    then have "(unat y + 1) * ?n \<le> unat x * ?n" by (intro mult_le_mono1) simp
    with 3 small Cons.hyps show ?thesis
      by (auto simp: be_val_Cons word_less_nat_alt word_unat_eq_iff)
  qed
qed simp

lemma be_val_snoc: "be_val (bs @ [b]) = 256 * be_val bs + unat b"
  by (simp add: be_val_def)

lemma or_byte:
  fixes m n :: nat
  assumes "m < 256"
  shows "(256 * n) OR m = 256 * n + m"
proof -
  have m: "take_bit 8 m = m" using assms by (simp add: take_bit_nat_eq_self)
  have "push_bit 8 n AND take_bit 8 m = 0"
    by (rule bit_eqI) (auto simp: bit_simps)
  then have "push_bit 8 n + m = push_bit 8 n OR m"
    using m by (simp add: disjunctive_add_eq_or)
  then show ?thesis by (simp add: push_bit_eq_mult mult.commute)
qed

lemma be_word_snoc: "be_word (bs @ [b]) = push_bit 8 (be_word bs) OR ucast b"
  by (simp add: be_word_def)

lemma unat_be_word:
  "8 * length bs \<le> LENGTH('a :: len) \<Longrightarrow> unat (be_word bs :: 'a word) = be_val bs"
proof (induction bs rule: rev_induct)
  case (snoc b bs)
  let ?a = "be_word bs :: 'a word"
  have len: "8 * length bs + 8 \<le> LENGTH('a)" using snoc.prems by simp
  have a: "unat ?a = be_val bs" using snoc by simp
  have "256 * unat ?a < 256 ^ Suc (length bs)"
    using be_val_less [of bs] a by simp
  also have "(256 :: nat) ^ Suc (length bs) = 2 ^ (8 * Suc (length bs))"
    by (simp only: power_mult) simp
  also have "\<dots> \<le> 2 ^ LENGTH('a)"
    using len by (intro power_increasing) simp_all
  finally have "take_bit LENGTH('a) (push_bit 8 (unat ?a)) = 256 * unat ?a"
    by (simp add: push_bit_eq_mult mult.commute take_bit_nat_eq_self)
  then have shifted: "unat (push_bit 8 ?a) = 256 * unat ?a"
    by (simp add: unsigned_push_bit_eq)
  have "take_bit LENGTH('a) (unat b) = unat b"
    using unat_byte [of b] len power_increasing [of 8 "LENGTH('a)" "2 :: nat"]
    by (intro take_bit_nat_eq_self) simp
  then have low: "unat (ucast b :: 'a word) = unat b"
    by (simp add: unsigned_ucast_eq)
  show ?case
    using a shifted low or_byte [OF unat_byte [of b], of "unat ?a"]
    by (simp add: be_word_snoc unsigned_or_eq be_val_snoc)
qed (simp add: be_word_def)

lemma be_word_be_bytes:
  "8 * n \<le> LENGTH('a) \<Longrightarrow> unat w < 256 ^ n \<Longrightarrow> be_word (be_bytes n w) = w" for w :: "'a :: len word"
  by (simp add: word_unat_eq_iff unat_be_word be_val_be_bytes)

lemma BigEndian_roundtrip [simp]: "BigEndian_Uint64 (BigEndian_PutUint64 w) = w"
  using unsigned_less [where 'a = nat, of w]
  by (simp add: BigEndian_Uint64_def BigEndian_PutUint64_def be_word_be_bytes)

lemma LittleEndian_roundtrip [simp]: "LittleEndian_Uint32 (LittleEndian_PutUint32 w) = w"
  using unsigned_less [where 'a = nat, of w]
  by (simp add: LittleEndian_Uint32_def LittleEndian_PutUint32_def be_word_be_bytes)

lemma length_LittleEndian_PutUint32 [simp]: "length (LittleEndian_PutUint32 w) = 4"
  by (simp add: LittleEndian_PutUint32_def)

section \<open>The order-preserving encoding: facts\<close>

text \<open>The significant bytes of a number.\<close>

definition sig_bytes :: "u64 \<Rightarrow> bytes" where
  "sig_bytes n = dropWhile (\<lambda>b. b = 0) (BigEndian_PutUint64 n)"

lemma first_nonzero_take:
  "i + length bs = 8 \<Longrightarrow> length pre = i \<Longrightarrow> first_nonzero i bs = (st, sz) \<Longrightarrow>
     sz \<le> 8 \<and> take sz (drop st (pre @ bs)) = dropWhile (\<lambda>b. b = 0) bs \<and>
     length (dropWhile (\<lambda>b. b = 0) bs) = sz"
proof (induction bs arbitrary: i pre)
  case (Cons b bs)
  show ?case
  proof (cases "b = 0")
    case True
    then show ?thesis using Cons.IH [of "Suc i" "pre @ [b]"] Cons.prems by simp
  next
    case False
    with Cons.prems show ?thesis by auto
  qed
qed auto

lemma length_sig_bytes: "length (sig_bytes n) \<le> 8"
  using length_dropWhile_le [of "\<lambda>b. b = 0" "BigEndian_PutUint64 n"]
  by (simp add: sig_bytes_def BigEndian_PutUint64_def)

lemma unat_small_len: "k \<le> 8 \<Longrightarrow> unat (u64_of_int (int k)) = k"
  by (simp add: u64_of_int_def unsigned_of_nat take_bit_nat_eq_self)

lemma EncodeVarint_small_len: "k \<le> 8 \<Longrightarrow> EncodeVarint (u64_of_int (int k)) = [of_nat k]"
proof -
  assume k: "k \<le> 8"
  then have "\<not> 127 < u64_of_int (int k)"
    by (simp add: word_less_nat_alt unat_small_len)
  then show ?thesis
    using k by (simp add: EncodeVarint_last word_unat_eq_iff unsigned_ucast_eq unat_small_len)
      (simp add: unsigned_of_nat)
qed

lemma EncodeOrderPreserving_eq:
  "EncodeOrderPreservingVarUint64 n = Inr (of_nat (length (sig_bytes n)) # sig_bytes n)"
proof -
  let ?bs = "BigEndian_PutUint64 n"
  obtain st sz where fz: "first_nonzero 0 ?bs = (st, sz)" by (cases "first_nonzero 0 ?bs")
  have "length ?bs = 8" by (simp add: BigEndian_PutUint64_def)
  with first_nonzero_take [of 0 ?bs "[]" st sz] fz
  have "sz \<le> 8" "take sz (drop st ?bs) = sig_bytes n" "length (sig_bytes n) = sz"
    by (simp_all add: sig_bytes_def)
  with fz show ?thesis
    by (simp add: EncodeOrderPreservingVarUint64_def Let_def EncodeVarint_small_len)
qed

lemma be_val_zeros [simp]: "be_val (replicate k 0 @ bs) = be_val bs"
  by (induction k) (simp_all add: be_val_Cons)

lemma dropWhile_zeros: "\<exists>k. bs = replicate k 0 @ dropWhile (\<lambda>b. b = (0 :: byte)) bs"
proof (induction bs)
  case (Cons b bs)
  then obtain k where k: "bs = replicate k 0 @ dropWhile (\<lambda>b. b = 0) bs" by blast
  show ?case
  proof (cases "b = 0")
    case True
    with k have "b # bs = replicate (Suc k) 0 @ dropWhile (\<lambda>b. b = 0) (b # bs)" by simp
    then show ?thesis by blast
  next
    case False
    then have "b # bs = replicate 0 0 @ dropWhile (\<lambda>b. b = 0) (b # bs)" by simp
    then show ?thesis by blast
  qed
qed simp

lemma sig_bytes_pad: "replicate (8 - length (sig_bytes n)) 0 @ sig_bytes n = BigEndian_PutUint64 n"
proof -
  obtain k where k: "BigEndian_PutUint64 n = replicate k 0 @ sig_bytes n"
    using dropWhile_zeros unfolding sig_bytes_def by blast
  then have "k = 8 - length (sig_bytes n)"
    by (auto simp: BigEndian_PutUint64_def dest: arg_cong [where f = length])
  with k show ?thesis by simp
qed

lemma be_val_sig_bytes: "be_val (sig_bytes n) = unat n"
proof -
  have "be_val (sig_bytes n) = be_val (BigEndian_PutUint64 n)"
    by (metis be_val_zeros sig_bytes_pad)
  then show ?thesis
    using unsigned_less [where 'a = nat, of n] by (simp add: BigEndian_PutUint64_def be_val_be_bytes)
qed

lemma sig_bytes_hd: "sig_bytes n \<noteq> [] \<Longrightarrow> hd (sig_bytes n) \<noteq> 0"
  using hd_dropWhile [of "\<lambda>b. b = 0" "BigEndian_PutUint64 n"] by (simp add: sig_bytes_def)

lemma be_val_lower:
  assumes "bs \<noteq> []" and "hd bs \<noteq> 0"
  shows "256 ^ (length bs - 1) \<le> be_val bs"
proof -
  obtain b r where bs: "bs = b # r" using assms(1) by (cases bs) auto
  then have "1 \<le> unat b" using assms(2) by (simp add: unat_gt_0 Suc_le_eq)
  then have "1 * 256 ^ length r \<le> unat b * 256 ^ length r" by (rule mult_le_mono1)
  then show ?thesis unfolding bs be_val_Cons by (simp only: mult_1 length_Cons diff_Suc_1 trans_le_add1)
qed

lemma sig_bytes_shorter:
  assumes "length (sig_bytes x) < length (sig_bytes y)"
  shows "x < y"
proof -
  have "be_val (sig_bytes x) < 256 ^ length (sig_bytes x)" by (rule be_val_less)
  also have "\<dots> \<le> 256 ^ (length (sig_bytes y) - 1)"
    using assms by (intro power_increasing) auto
  also have "\<dots> \<le> be_val (sig_bytes y)"
    using assms by (intro be_val_lower sig_bytes_hd) auto
  finally show ?thesis by (simp add: be_val_sig_bytes word_less_nat_alt)
qed

lemma sig_bytes_less_iff:
  "length (sig_bytes x) = length (sig_bytes y) \<Longrightarrow> sig_bytes x < sig_bytes y \<longleftrightarrow> x < y"
  by (simp add: be_val_less_iff be_val_sig_bytes word_less_nat_alt)

lemma of_nat_byte_less:
  "k \<le> 8 \<Longrightarrow> m \<le> 8 \<Longrightarrow> (of_nat k :: byte) < of_nat m \<longleftrightarrow> k < m"
  "k \<le> 8 \<Longrightarrow> m \<le> 8 \<Longrightarrow> (of_nat k :: byte) = of_nat m \<longleftrightarrow> k = m"
  by (simp_all add: word_less_nat_alt word_unat_eq_iff unsigned_of_nat take_bit_nat_eq_self)

lemma encoded_less_iff:
  "(of_nat (length (sig_bytes x)) # sig_bytes x :: bytes) < of_nat (length (sig_bytes y)) # sig_bytes y
   \<longleftrightarrow> x < y"
proof -
  consider "length (sig_bytes x) < length (sig_bytes y)" | "length (sig_bytes y) < length (sig_bytes x)"
    | "length (sig_bytes x) = length (sig_bytes y)" by linarith
  then show ?thesis
  proof cases
    case 1
    then show ?thesis
      using sig_bytes_shorter [OF 1] by (simp add: of_nat_byte_less length_sig_bytes)
  next
    case 2
    then show ?thesis
      using sig_bytes_shorter [OF 2] by (auto simp: of_nat_byte_less length_sig_bytes)
  next
    case 3
    then show ?thesis
      by (simp add: of_nat_byte_less length_sig_bytes sig_bytes_less_iff)
  qed
qed

lemma DecodeOrderPreserving_sig:
  "DecodeOrderPreservingVarUint64 (of_nat (length (sig_bytes x)) # sig_bytes x @ r) =
     Inr (x, int (length (sig_bytes x)) + 1)"
proof -
  let ?k = "length (sig_bytes x)"
  have k: "?k \<le> 8" by (rule length_sig_bytes)
  have "DecodeVarint (EncodeVarint (u64_of_int (int ?k)) @ (sig_bytes x @ r)) =
      (u64_of_int (int ?k), length (EncodeVarint (u64_of_int (int ?k))))"
    by (rule DecodeVarint_EncodeVarint)
  then have "fst (DecodeVarint (of_nat ?k # sig_bytes x @ r)) = u64_of_int (int ?k)"
    using k by (simp add: EncodeVarint_small_len)
  moreover have "int_of_u64 (u64_of_int (int ?k)) = int ?k"
    using k by (intro int_of_u64_of_int) (simp_all add: maxint_def)
  moreover have "nat (8 - int ?k) = 8 - ?k" by simp
  ultimately show ?thesis
    using k by (simp add: DecodeOrderPreservingVarUint64_def Let_def sig_bytes_pad)
qed

text \<open>C17: \<open>EncodeOrderPreservingVarUint64\<close> never panics; the encodings of two numbers compare
  byte by byte the way the numbers do; and \<open>DecodeOrderPreservingVarUint64\<close> recovers the
  number, with the number of bytes read, from its encoding followed by any bytes.\<close>

theorem order_preserving_encoding:
  "\<exists>ex ey. EncodeOrderPreservingVarUint64 x = Inr ex \<and> EncodeOrderPreservingVarUint64 y = Inr ey \<and>
     (ex < ey \<longleftrightarrow> x < y) \<and>
     DecodeOrderPreservingVarUint64 (ex @ r) = Inr (x, int (length ex))"
  using encoded_less_iff [of x y] DecodeOrderPreserving_sig [of x r]
  by (simp add: EncodeOrderPreserving_eq)

end
