(* ===== verification/RWSet.thy ===== *)
theory RWSet
  imports Proto_Wire
begin

text \<open>
  Read-write sets (core/ledger/kvledger/txmgmt/rwset.go): the data a transaction simulation
  produces and a committer validates, and their wire format. The result of this theory is that
  unmarshalling undoes marshalling, so a committer sees the set the endorser produced.
\<close>

section \<open>Data\<close>

record KVRead =
  rdKey :: gostring
  rdVersion :: u64

record KVWrite =
  wrKey :: gostring
  wrIsDelete :: bool
  wrValue :: nbytes

record NsReadWriteSet =
  NameSpace :: gostring
  Reads :: "KVRead list"
  Writes :: "KVWrite list"

record TxReadWriteSet =
  NsRWs :: "NsReadWriteSet list"

definition NewKVRead :: "gostring \<Rightarrow> u64 \<Rightarrow> KVRead" where
  "NewKVRead key version = \<lparr>rdKey = key, rdVersion = version\<rparr>"

definition NewKVWrite :: "gostring \<Rightarrow> nbytes \<Rightarrow> KVWrite" where
  "NewKVWrite key value = \<lparr>wrKey = key, wrIsDelete = (value = None), wrValue = value\<rparr>"

definition SetValue :: "KVWrite \<Rightarrow> nbytes \<Rightarrow> KVWrite" where
  "SetValue w value = w\<lparr>wrValue := value, wrIsDelete := (value = None)\<rparr>"

section \<open>Marshalling\<close>

definition KVRead_Marshal :: "KVRead \<Rightarrow> Buffer \<Rightarrow> Buffer" where
  "KVRead_Marshal r b =
     (let b = bufEncodeStringBytes b (rdKey r) in bufEncodeVarint b (rdVersion r))"

definition KVWrite_Marshal :: "KVWrite \<Rightarrow> Buffer \<Rightarrow> Buffer" where
  "KVWrite_Marshal w b =
     (let b = bufEncodeStringBytes b (wrKey w);
          deleteMarker = (if wrIsDelete w then 1 else 0);
          b = bufEncodeVarint b deleteMarker
      in if deleteMarker = 0
         then bufEncodeRawBytes b (case wrValue w of None \<Rightarrow> [] | Some v \<Rightarrow> v) else b)"

definition NsReadWriteSet_Marshal :: "NsReadWriteSet \<Rightarrow> Buffer \<Rightarrow> Buffer" where
  "NsReadWriteSet_Marshal nsRW b =
     (let b = bufEncodeStringBytes b (NameSpace nsRW);
          b = bufEncodeVarint b (u64_len (Reads nsRW));
          b = fold KVRead_Marshal (Reads nsRW) b;
          b = bufEncodeVarint b (u64_len (Writes nsRW))
      in fold KVWrite_Marshal (Writes nsRW) b)"

definition TxReadWriteSet_Marshal :: "TxReadWriteSet \<Rightarrow> bytes" where
  "TxReadWriteSet_Marshal txRW =
     (let b = NewBuffer [];
          b = bufEncodeVarint b (u64_len (NsRWs txRW));
          b = fold NsReadWriteSet_Marshal (NsRWs txRW) b
      in buf b)"

section \<open>Unmarshalling\<close>

text \<open>
  The element counts are read as \<open>uint64\<close> and converted to \<open>int\<close> by the loop conditions, so a
  count of \<open>2^63\<close> or more is negative and the loop body does not run.
\<close>

definition KVRead_Unmarshal :: "Buffer \<Rightarrow> error + KVRead \<times> Buffer" where
  "KVRead_Unmarshal b =
     bindE (bufDecodeStringBytes b) (\<lambda>(key, b).
     bindE (bufDecodeVarint b) (\<lambda>(version, b).
       Inr (\<lparr>rdKey = key, rdVersion = version\<rparr>, b)))"

definition KVWrite_Unmarshal :: "Buffer \<Rightarrow> error + KVWrite \<times> Buffer" where
  "KVWrite_Unmarshal b =
     bindE (bufDecodeStringBytes b) (\<lambda>(key, b).
     bindE (bufDecodeVarint b) (\<lambda>(deleteMarker, b).
       if deleteMarker = 1 then Inr (\<lparr>wrKey = key, wrIsDelete = True, wrValue = None\<rparr>, b)
       else bindE (bufDecodeRawBytes b) (\<lambda>(value, b).
         Inr (\<lparr>wrKey = key, wrIsDelete = False, wrValue = Some value\<rparr>, b))))"

fun unmarshal_n ::
  "(Buffer \<Rightarrow> error + 'a \<times> Buffer) \<Rightarrow> nat \<Rightarrow> 'a list \<Rightarrow> Buffer \<Rightarrow> error + 'a list \<times> Buffer" where
  "unmarshal_n f 0 acc b = Inr (acc, b)"
| "unmarshal_n f (Suc n) acc b = bindE (f b) (\<lambda>(x, b). unmarshal_n f n (acc @ [x]) b)"

definition loop_count :: "u64 \<Rightarrow> nat" where
  "loop_count w = nat (int_of_u64 w)"

definition NsReadWriteSet_Unmarshal :: "Buffer \<Rightarrow> error + NsReadWriteSet \<times> Buffer" where
  "NsReadWriteSet_Unmarshal b =
     bindE (bufDecodeStringBytes b) (\<lambda>(ns, b).
     bindE (bufDecodeVarint b) (\<lambda>(numReads, b).
     bindE (unmarshal_n KVRead_Unmarshal (loop_count numReads) [] b) (\<lambda>(reads, b).
     bindE (bufDecodeVarint b) (\<lambda>(numWrites, b).
     bindE (unmarshal_n KVWrite_Unmarshal (loop_count numWrites) [] b) (\<lambda>(writes, b).
       Inr (\<lparr>NameSpace = ns, Reads = reads, Writes = writes\<rparr>, b))))))"

definition TxReadWriteSet_Unmarshal :: "TxReadWriteSet \<Rightarrow> bytes \<Rightarrow> error + TxReadWriteSet" where
  "TxReadWriteSet_Unmarshal txRW bs =
     bindE (bufDecodeVarint (NewBuffer bs)) (\<lambda>(numEntries, b).
     bindE (unmarshal_n NsReadWriteSet_Unmarshal (loop_count numEntries) (NsRWs txRW) b) (\<lambda>(ns, b).
       Inr \<lparr>NsRWs = ns\<rparr>))"

section \<open>The wire format\<close>

text \<open>The bytes each \<open>Marshal\<close> appends.\<close>

definition enc_read :: "KVRead \<Rightarrow> bytes" where
  "enc_read r = enc_bytes (rdKey r) @ EncodeVarint (rdVersion r)"

definition enc_write :: "KVWrite \<Rightarrow> bytes" where
  "enc_write w = enc_bytes (wrKey w) @
     (if wrIsDelete w then EncodeVarint 1
      else EncodeVarint 0 @ enc_bytes (case wrValue w of None \<Rightarrow> [] | Some v \<Rightarrow> v))"

definition enc_list :: "('a \<Rightarrow> bytes) \<Rightarrow> 'a list \<Rightarrow> bytes" where
  "enc_list f xs = EncodeVarint (u64_len xs) @ concat (map f xs)"

definition enc_ns :: "NsReadWriteSet \<Rightarrow> bytes" where
  "enc_ns n = enc_bytes (NameSpace n) @ enc_list enc_read (Reads n) @ enc_list enc_write (Writes n)"

lemma buf_fold:
  assumes "\<And>x b. buf (m x b) = buf b @ f x"
  shows "buf (fold m xs b) = buf b @ concat (map f xs)"
  by (induction xs arbitrary: b) (simp_all add: assms)

lemma buf_KVRead_Marshal: "buf (KVRead_Marshal r b) = buf b @ enc_read r"
  by (simp add: KVRead_Marshal_def enc_read_def Let_def)

lemma buf_KVWrite_Marshal: "buf (KVWrite_Marshal w b) = buf b @ enc_write w"
  by (simp add: KVWrite_Marshal_def enc_write_def Let_def)

lemma buf_NsReadWriteSet_Marshal: "buf (NsReadWriteSet_Marshal n b) = buf b @ enc_ns n"
  by (simp add: NsReadWriteSet_Marshal_def enc_ns_def enc_list_def Let_def
      buf_fold [where f = enc_read, OF buf_KVRead_Marshal]
      buf_fold [where f = enc_write, OF buf_KVWrite_Marshal])

lemma TxReadWriteSet_Marshal_eq: "TxReadWriteSet_Marshal t = enc_list enc_ns (NsRWs t)"
  by (simp add: TxReadWriteSet_Marshal_def enc_list_def Let_def NewBuffer_def
      buf_fold [where f = enc_ns, OF buf_NsReadWriteSet_Marshal])

section \<open>Round trip\<close>

text \<open>
  A write built by \<open>NewKVWrite\<close> and \<open>SetValue\<close> is a delete exactly when its value is nil.
\<close>

definition write_wf :: "KVWrite \<Rightarrow> bool" where
  "write_wf w \<longleftrightarrow> (wrIsDelete w \<longleftrightarrow> wrValue w = None)"

definition ns_wf :: "NsReadWriteSet \<Rightarrow> bool" where
  "ns_wf n \<longleftrightarrow> list_all write_wf (Writes n)"

definition rwset_wf :: "TxReadWriteSet \<Rightarrow> bool" where
  "rwset_wf t \<longleftrightarrow> list_all ns_wf (NsRWs t)"

lemma write_wf_NewKVWrite [simp]: "write_wf (NewKVWrite k v)"
  by (simp add: write_wf_def NewKVWrite_def)

lemma write_wf_SetValue [simp]: "write_wf (SetValue w v)"
  by (simp add: write_wf_def SetValue_def)

text \<open>A reader that takes an encoded value off the front of the buffer.\<close>

definition reads :: "(Buffer \<Rightarrow> error + 'a \<times> Buffer) \<Rightarrow> bytes \<Rightarrow> 'a \<Rightarrow> bool" where
  "reads f e x \<longleftrightarrow> (\<forall>b r. at b (e @ r) \<longrightarrow> (\<exists>b'. f b = Inr (x, b') \<and> at b' r))"

lemma readsE:
  assumes "reads f e x" and "at b (e @ r)"
  obtains b' where "f b = Inr (x, b')" and "at b' r"
  using assms unfolding reads_def by blast

lemma reads_varint: "reads bufDecodeVarint (EncodeVarint x) x"
  unfolding reads_def by (metis bufDecodeVarint_at)

lemma reads_string: "reads bufDecodeStringBytes (enc_bytes x) x"
  unfolding reads_def by (metis bufDecodeStringBytes_at)

lemma reads_bytes: "reads bufDecodeRawBytes (enc_bytes x) x"
  unfolding reads_def by (metis bufDecodeRawBytes_at)

lemma reads_bindE:
  assumes f: "reads f e x" and g: "reads (g x) e' y"
  shows "reads (\<lambda>b. bindE (f b) (\<lambda>(x, b). g x b)) (e @ e') y"
  unfolding reads_def
proof (intro allI impI)
  fix b r
  assume "at b ((e @ e') @ r)"
  then have "at b (e @ (e' @ r))" by simp
  with f obtain b1 where b1: "f b = Inr (x, b1)" "at b1 (e' @ r)" by (rule readsE)
  from g b1(2) obtain b2 where "g x b1 = Inr (y, b2)" "at b2 r" by (rule readsE)
  with b1 show "\<exists>b'. bindE (f b) (\<lambda>(x, b). g x b) = Inr (y, b') \<and> at b' r" by simp
qed

lemma reads_return: "y = x \<Longrightarrow> reads (\<lambda>b. Inr (y, b)) [] x"
  by (simp add: reads_def)

lemma reads_read: "reads KVRead_Unmarshal (enc_read r) r"
proof -
  have "reads KVRead_Unmarshal (enc_bytes (rdKey r) @ EncodeVarint (rdVersion r) @ []) r"
    unfolding KVRead_Unmarshal_def
    by (rule reads_bindE [OF reads_string], rule reads_bindE [OF reads_varint])
      (simp add: reads_return)
  then show ?thesis by (simp add: enc_read_def)
qed

lemma reads_write: "write_wf w \<Longrightarrow> reads KVWrite_Unmarshal (enc_write w) w"
proof (cases "wrIsDelete w")
  case True
  assume "write_wf w"
  with True have w: "wrValue w = None" by (simp add: write_wf_def)
  have "reads KVWrite_Unmarshal (enc_bytes (wrKey w) @ EncodeVarint 1 @ []) w"
    unfolding KVWrite_Unmarshal_def
    by (rule reads_bindE [OF reads_string], rule reads_bindE [OF reads_varint])
      (use True w in \<open>simp add: reads_return\<close>)
  with True show ?thesis by (simp add: enc_write_def)
next
  case False
  assume "write_wf w"
  with False obtain v where w: "wrValue w = Some v" by (auto simp: write_wf_def)
  have "reads (\<lambda>b. bindE (bufDecodeRawBytes b) (\<lambda>(value, b).
      Inr (\<lparr>wrKey = wrKey w, wrIsDelete = False, wrValue = Some value\<rparr>, b))) (enc_bytes v @ []) w"
    by (rule reads_bindE [OF reads_bytes]) (use False w in \<open>simp add: reads_return\<close>)
  then have "reads KVWrite_Unmarshal (enc_bytes (wrKey w) @ EncodeVarint 0 @ (enc_bytes v @ [])) w"
    unfolding KVWrite_Unmarshal_def
    by (intro reads_bindE [OF reads_string] reads_bindE [OF reads_varint]) simp
  with False w show ?thesis by (simp add: enc_write_def)
qed

lemma reads_n:
  assumes "\<And>x. x \<in> set xs \<Longrightarrow> reads f (e x) x"
  shows "reads (unmarshal_n f (length xs) acc) (concat (map e xs)) (acc @ xs)"
  using assms
proof (induction xs arbitrary: acc)
  case Nil
  show ?case by (simp add: reads_return)
next
  case (Cons x xs)
  have "reads (\<lambda>b. bindE (f b) (\<lambda>(y, b). unmarshal_n f (length xs) (acc @ [y]) b))
      (e x @ concat (map e xs)) (acc @ [x] @ xs)"
    using Cons.IH [of "acc @ [x]"] Cons.prems by (intro reads_bindE [where x = x]) auto
  then show ?case by simp
qed

text \<open>A list is no longer than its encoding, so its length fits when the encoding does.\<close>

lemma length_concat_ge: "(\<And>x. e x \<noteq> []) \<Longrightarrow> length xs \<le> length (concat (map e xs))"
proof (induction xs)
  case (Cons x xs)
  have "1 \<le> length (e x)" using Cons.prems [of x] by (cases "e x") simp_all
  with Cons.IH [OF Cons.prems] show ?case by (simp del: One_nat_def)
qed simp

lemma loop_count_len: "fits xs \<Longrightarrow> loop_count (u64_len xs) = length xs"
  by (simp add: loop_count_def)

lemma enc_read_neq_Nil: "enc_read r \<noteq> []"
  by (simp add: enc_read_def)

lemma enc_write_neq_Nil: "enc_write w \<noteq> []"
  by (simp add: enc_write_def)

lemma enc_ns_neq_Nil: "enc_ns n \<noteq> []"
  by (simp add: enc_ns_def enc_list_def)

lemma reads_list:
  assumes each: "\<And>x. x \<in> set xs \<Longrightarrow> reads f (e x) x" and ne: "\<And>x. e x \<noteq> []"
    and g: "reads (g xs) e' y"
  shows "reads (\<lambda>b. bindE (bufDecodeVarint b) (\<lambda>(n, b).
      bindE (unmarshal_n f (loop_count n) [] b) (\<lambda>(xs, b). g xs b))) (enc_list e xs @ e') y"
  unfolding reads_def
proof (intro allI impI)
  fix b r
  assume b: "at b ((enc_list e xs @ e') @ r)"
  then have b': "at b (EncodeVarint (u64_len xs) @ (concat (map e xs) @ (e' @ r)))"
    by (simp add: enc_list_def)
  then obtain b1 where b1: "bufDecodeVarint b = Inr (u64_len xs, b1)"
      "at b1 (concat (map e xs) @ (e' @ r))"
    by (rule bufDecodeVarint_at)
  from at_fits [OF b1(2)] length_concat_ge [of e xs, OF ne] have "fits xs"
    unfolding fits_def by linarith
  then have n: "loop_count (u64_len xs) = length xs" by (rule loop_count_len)
  obtain b2 where b2: "unmarshal_n f (length xs) [] b1 = Inr ([] @ xs, b2)" "at b2 (e' @ r)"
    using readsE [OF reads_n [OF each] b1(2)] by blast
  from g b2(2) obtain b3 where "g xs b2 = Inr (y, b3)" "at b3 r" by (rule readsE)
  with b1 b2 n show "\<exists>b'. bindE (bufDecodeVarint b) (\<lambda>(n, b).
      bindE (unmarshal_n f (loop_count n) [] b) (\<lambda>(xs, b). g xs b)) = Inr (y, b') \<and> at b' r"
    by simp
qed

lemma reads_ns: "ns_wf n \<Longrightarrow> reads NsReadWriteSet_Unmarshal (enc_ns n) n"
proof -
  assume wf: "ns_wf n"
  have "reads NsReadWriteSet_Unmarshal
      (enc_bytes (NameSpace n) @ enc_list enc_read (Reads n) @ enc_list enc_write (Writes n) @ []) n"
    unfolding NsReadWriteSet_Unmarshal_def
  proof (rule reads_bindE [OF reads_string], rule reads_list [OF reads_read enc_read_neq_Nil],
      rule reads_list [OF reads_write enc_write_neq_Nil])
    show "write_wf w" if "w \<in> set (Writes n)" for w
      using wf that by (simp add: ns_wf_def list_all_iff)
    show "reads (\<lambda>b. Inr (\<lparr>NameSpace = NameSpace n, Reads = Reads n, Writes = Writes n\<rparr>, b)) [] n"
      by (simp add: reads_return)
  qed
  then show ?thesis by (simp add: enc_ns_def)
qed

lemma TxReadWriteSet_Unmarshal_Marshal:
  assumes "rwset_wf t" and "fits (TxReadWriteSet_Marshal t)"
  shows "TxReadWriteSet_Unmarshal \<lparr>NsRWs = []\<rparr> (TxReadWriteSet_Marshal t) = Inr t"
proof -
  have "reads (\<lambda>b. bindE (bufDecodeVarint b) (\<lambda>(n, b).
      bindE (unmarshal_n NsReadWriteSet_Unmarshal (loop_count n) [] b) (\<lambda>(ns, b).
        Inr (\<lparr>NsRWs = ns\<rparr>, b)))) (enc_list enc_ns (NsRWs t) @ []) t"
    using assms(1)
    by (intro reads_list reads_ns enc_ns_neq_Nil reads_return)
      (simp_all add: rwset_wf_def list_all_iff)
  moreover have "at (NewBuffer (TxReadWriteSet_Marshal t)) ((enc_list enc_ns (NsRWs t) @ []) @ [])"
    using at_NewBuffer [OF assms(2)] by (simp add: TxReadWriteSet_Marshal_eq)
  ultimately show ?thesis
    unfolding TxReadWriteSet_Unmarshal_def
    by (rule readsE) (auto simp: bindE_eq_Inr_conv split: prod.splits)
qed

text \<open>C15: Unmarshalling the bytes a read-write set marshals to gives the set back, for every set
  whose writes were built by \<open>NewKVWrite\<close> and \<open>SetValue\<close> (a write is a delete exactly when its
  value is nil) and whose encoding is short enough to be a Go slice.\<close>

theorem rwset_roundtrip:
  assumes "rwset_wf t" and "fits (TxReadWriteSet_Marshal t)"
  shows "TxReadWriteSet_Unmarshal \<lparr>NsRWs = []\<rparr> (TxReadWriteSet_Marshal t) = Inr t"
  using assms by (rule TxReadWriteSet_Unmarshal_Marshal)

text \<open>The round trip at a set with a read, a write and a delete.\<close>

definition example_rwset :: TxReadWriteSet where
  "example_rwset = \<lparr>NsRWs = [\<lparr>NameSpace = [99], Reads = [NewKVRead [1, 2] 300],
     Writes = [NewKVWrite [3] (Some [7, 8]), NewKVWrite [4] None]\<rparr>]\<rparr>"

lemma rwset_roundtrip_witness:
  "TxReadWriteSet_Unmarshal \<lparr>NsRWs = []\<rparr> (TxReadWriteSet_Marshal example_rwset) = Inr example_rwset"
proof (rule rwset_roundtrip)
  show "rwset_wf example_rwset"
    by (simp add: example_rwset_def rwset_wf_def ns_wf_def)
  have "length (TxReadWriteSet_Marshal example_rwset) = 19" by code_simp
  then show "fits (TxReadWriteSet_Marshal example_rwset)"
    by (simp add: fits_def maxint_def)
qed

end
