(* ===== verification/SerBlock2.thy ===== *)
theory SerBlock2
  imports RWSet Byte_Order
begin

text \<open>
  The serialized form of a block (protos/peer/ser_block2.go): the previous hash, the transactions one
  after the other, and a trailer with their offsets, found through the last four bytes. Serializing
  is shown to be undone by \<open>ToBlock2\<close>, and the offsets to delimit the transactions.
\<close>

record Block2 =
  PreviousBlockHash :: nbytes
  Transactions :: "bytes list"

record SerBlock2 =
  txOffsets :: "int list option"
  blockHash :: nbytes
  blockBytes :: bytes

definition intToBytes :: "u32 \<Rightarrow> bytes" where
  "intToBytes i = LittleEndian_PutUint32 i"

definition bytesToInt :: "bytes \<Rightarrow> u32" where
  "bytesToInt b = LittleEndian_Uint32 b"

section \<open>Serializing\<close>

text \<open>The loop that appends the transactions and notes where each begins.\<close>

fun appendTxs :: "bytes list \<Rightarrow> bytes \<Rightarrow> int list \<Rightarrow> bytes \<times> int list" where
  "appendTxs [] bs offs = (bs, offs)"
| "appendTxs (tx # txs) bs offs = appendTxs txs (bs @ tx) (offs @ [int (length bs)])"

definition ConstructSerBlock2 :: "Block2 \<Rightarrow> SerBlock2" where
  "ConstructSerBlock2 block =
     (let b = bufEncodeRawBytes (NewBuffer []) (of_nbytes (PreviousBlockHash block));
          (bs, offs) = appendTxs (Transactions block) (buf b) [];
          trailerOffset = int (length bs);
          b = bufEncodeVarint (NewBuffer bs) (u64_len (Transactions block));
          b = fold (\<lambda>off b. bufEncodeVarint b (u64_of_int off)) offs b;
          lastBytes = intToBytes (word_of_int trailerOffset)
      in \<lparr>txOffsets = Some (offs @ [trailerOffset]), blockHash = None, blockBytes = buf b @ lastBytes\<rparr>)"

definition NewSerBlock2 :: "bytes \<Rightarrow> SerBlock2" where
  "NewSerBlock2 bs = \<lparr>txOffsets = None, blockHash = None, blockBytes = bs\<rparr>"

definition GetBytes :: "SerBlock2 \<Rightarrow> bytes" where
  "GetBytes s = blockBytes s"

text \<open>\<open>H\<close> stands for \<open>util.ComputeCryptoHash\<close>, the SHA3 function of an external package.\<close>

definition ComputeHash :: "(bytes \<Rightarrow> bytes) \<Rightarrow> SerBlock2 \<Rightarrow> bytes \<times> SerBlock2" where
  "ComputeHash H s =
     (case blockHash s of
        Some h \<Rightarrow> (h, s)
      | None \<Rightarrow> let h = H (blockBytes s) in (h, s\<lparr>blockHash := Some h\<rparr>))"

section \<open>Deserializing\<close>

definition extractPreviousBlockHash :: "Buffer \<Rightarrow> error + bytes" where
  "extractPreviousBlockHash b = bindE (bufDecodeRawBytes b) (\<lambda>(h, _). Inr h)"

fun decodeOffsets :: "nat \<Rightarrow> int list \<Rightarrow> Buffer \<Rightarrow> error + int list" where
  "decodeOffsets 0 offs b = Inr offs"
| "decodeOffsets (Suc n) offs b =
     bindE (bufDecodeVarint b) (\<lambda>(nextTxOffset, b). decodeOffsets n (offs @ [int_of_u64 nextTxOffset]) b)"

definition extractTxOffsets :: "SerBlock2 \<Rightarrow> error + int list" where
  "extractTxOffsets s =
     (let bs = blockBytes s; n = int (length bs) in
      bindE (goslice bs (n - 4) n) (\<lambda>lastBytes.
      let trailerOffset = uint (bytesToInt lastBytes) in
      bindE (goslice bs trailerOffset n) (\<lambda>trailerBytes.
      bindE (bufDecodeVarint (NewBuffer trailerBytes)) (\<lambda>(numTxs, b).
      bindE (decodeOffsets (loop_count numTxs) [] b) (\<lambda>offs.
        Inr (offs @ [trailerOffset]))))))"

definition GetPreviousBlockHash :: "SerBlock2 \<Rightarrow> error + bytes" where
  "GetPreviousBlockHash s = extractPreviousBlockHash (NewBuffer (blockBytes s))"

definition GetTxOffsets :: "SerBlock2 \<Rightarrow> SerBlock2 \<times> (error + int list)" where
  "GetTxOffsets s =
     (case txOffsets s of
        Some offs \<Rightarrow> (s, Inr offs)
      | None \<Rightarrow>
         (case extractPreviousBlockHash (NewBuffer (blockBytes s)) of
            Inl err \<Rightarrow> (s, Inl err)
          | Inr _ \<Rightarrow>
             (case extractTxOffsets s of
                Inl err \<Rightarrow> (s, Inl err)
              | Inr offs \<Rightarrow> (s\<lparr>txOffsets := Some offs\<rparr>, Inr offs))))"

fun sliceTxs :: "bytes \<Rightarrow> int list \<Rightarrow> error + bytes list" where
  "sliceTxs bs (a # b # offs) =
     bindE (goslice bs a b) (\<lambda>tx. bindE (sliceTxs bs (b # offs)) (\<lambda>txs. Inr (tx # txs)))"
| "sliceTxs bs offs = Inr []"

definition ToBlock2 :: "SerBlock2 \<Rightarrow> error + Block2" where
  "ToBlock2 s =
     bindE (extractPreviousBlockHash (NewBuffer (blockBytes s))) (\<lambda>previousBlockHash.
     bindE (extractTxOffsets s) (\<lambda>offs.
     bindE (sliceTxs (blockBytes s) offs) (\<lambda>txs.
       Inr \<lparr>PreviousBlockHash = Some previousBlockHash, Transactions = txs\<rparr>)))"

section \<open>The layout\<close>

text \<open>Where the transactions begin when the first is at \<open>n\<close>.\<close>

fun offsets_from :: "int \<Rightarrow> bytes list \<Rightarrow> int list" where
  "offsets_from n [] = []"
| "offsets_from n (tx # txs) = n # offsets_from (n + int (length tx)) txs"

definition block_head :: "Block2 \<Rightarrow> bytes" where
  "block_head b = enc_bytes (of_nbytes (PreviousBlockHash b))"

definition block_body :: "Block2 \<Rightarrow> bytes" where
  "block_body b = block_head b @ concat (Transactions b)"

definition block_trailer :: "Block2 \<Rightarrow> bytes" where
  "block_trailer b = EncodeVarint (u64_len (Transactions b)) @
     concat (map (\<lambda>off. EncodeVarint (u64_of_int off))
       (offsets_from (int (length (block_head b))) (Transactions b)))"

definition ser_block :: "Block2 \<Rightarrow> bytes" where
  "ser_block b = block_body b @ block_trailer b @ intToBytes (word_of_int (int (length (block_body b))))"

definition block_offsets :: "Block2 \<Rightarrow> int list" where
  "block_offsets b = offsets_from (int (length (block_head b))) (Transactions b) @ [int (length (block_body b))]"

lemma appendTxs_eq:
  "appendTxs txs bs offs = (bs @ concat txs, offs @ offsets_from (int (length bs)) txs)"
  by (induction txs arbitrary: bs offs) simp_all

lemma ConstructSerBlock2_eq:
  "ConstructSerBlock2 b = \<lparr>txOffsets = Some (block_offsets b), blockHash = None, blockBytes = ser_block b\<rparr>"
  by (simp add: ConstructSerBlock2_def appendTxs_eq NewBuffer_def ser_block_def block_offsets_def
      block_body_def block_head_def block_trailer_def Let_def
      buf_fold [where f = "\<lambda>off. EncodeVarint (u64_of_int off)"])

text \<open>
  A block is serializable when its encoding fits in a slice and the trailer's offset in the four bytes
  kept for it.
\<close>

definition block_wf :: "Block2 \<Rightarrow> bool" where
  "block_wf b \<longleftrightarrow> fits (ser_block b) \<and> length (block_body b) < 2 ^ 32"

lemma length_offsets_from [simp]: "length (offsets_from n txs) = length txs"
  by (induction txs arbitrary: n) simp_all

lemma offsets_from_bounds:
  "off \<in> set (offsets_from n txs) \<Longrightarrow> n \<le> off \<and> off \<le> n + int (length (concat txs))"
proof (induction txs arbitrary: n)
  case (Cons tx txs)
  show ?case
  proof (cases "off = n")
    case False
    with Cons.prems have "off \<in> set (offsets_from (n + int (length tx)) txs)" by simp
    from Cons.IH [OF this] show ?thesis by simp
  qed simp
qed simp

lemma goslice_mid: "goslice (xs @ ys @ zs) (int (length xs)) (int (length xs + length ys)) = Inr ys"
  by (simp add: goslice_def)

lemma decodeOffsets_enc:
  assumes "at p (concat (map (\<lambda>off. EncodeVarint (u64_of_int off)) offs) @ r)"
    and "\<And>off. off \<in> set offs \<Longrightarrow> 0 \<le> off \<and> off \<le> maxint"
  shows "decodeOffsets (length offs) acc p = Inr (acc @ offs)"
  using assms
proof (induction offs arbitrary: acc p)
  case (Cons off offs)
  have "at p (EncodeVarint (u64_of_int off) @ (concat (map (\<lambda>off. EncodeVarint (u64_of_int off)) offs) @ r))"
    using Cons.prems(1) by simp
  then obtain q where q: "bufDecodeVarint p = Inr (u64_of_int off, q)"
    "at q (concat (map (\<lambda>off. EncodeVarint (u64_of_int off)) offs) @ r)"
    by (rule bufDecodeVarint_at)
  have "int_of_u64 (u64_of_int off) = off" using Cons.prems(2) by (simp add: int_of_u64_of_int)
  with q Cons.IH [OF q(2)] Cons.prems(2) show ?case by simp
qed simp

lemma block_lengths:
  assumes "block_wf b"
  shows "fits (Transactions b)"
    "off \<in> set (offsets_from (int (length (block_head b))) (Transactions b)) \<Longrightarrow> 0 \<le> off \<and> off \<le> maxint"
proof -
  let ?offs = "offsets_from (int (length (block_head b))) (Transactions b)"
  have "length (Transactions b) \<le> length (block_trailer b)"
    using length_concat_ge [of "\<lambda>off. EncodeVarint (u64_of_int off)" ?offs]
    by (simp add: block_trailer_def)
  then show "fits (Transactions b)" using assms by (simp add: block_wf_def ser_block_def fits_def)
  assume "off \<in> set ?offs"
  then show "0 \<le> off \<and> off \<le> maxint"
    using offsets_from_bounds [of off "int (length (block_head b))" "Transactions b"] assms
    by (simp add: block_wf_def block_body_def maxint_def)
qed

lemma extractTxOffsets_ser:
  assumes "block_wf b" and "blockBytes s = ser_block b"
  shows "extractTxOffsets s = Inr (block_offsets b)"
proof -
  let ?last = "intToBytes (word_of_int (int (length (block_body b))))"
  let ?n = "int (length (ser_block b))"
  have lens: "length ?last = 4" by (simp add: intToBytes_def)
  have slice1: "goslice (ser_block b) (?n - 4) ?n = Inr ?last"
    using goslice_mid [of "block_body b @ block_trailer b" ?last "[]"] lens
    by (simp add: ser_block_def add.assoc)
  have slice2: "goslice (ser_block b) (int (length (block_body b))) ?n = Inr (block_trailer b @ ?last)"
    using goslice_mid [of "block_body b" "block_trailer b @ ?last" "[]"] by (simp add: ser_block_def)
  have off: "uint (bytesToInt ?last) = int (length (block_body b))"
    using assms(1)
    by (simp add: intToBytes_def bytesToInt_def block_wf_def unsigned_of_nat take_bit_nat_eq_self)
  have "fits (block_trailer b @ ?last)"
    using assms(1) by (simp add: block_wf_def ser_block_def fits_def)
  from at_NewBuffer [OF this] obtain p where
    p: "bufDecodeVarint (NewBuffer (block_trailer b @ ?last)) = Inr (u64_len (Transactions b), p)"
      "at p (concat (map (\<lambda>off. EncodeVarint (u64_of_int off))
         (offsets_from (int (length (block_head b))) (Transactions b))) @ ?last)"
    unfolding block_trailer_def append_assoc by (rule bufDecodeVarint_at)
  have "decodeOffsets (length (Transactions b)) [] p =
      Inr (offsets_from (int (length (block_head b))) (Transactions b))"
    using decodeOffsets_enc [OF p(2) block_lengths(2) [OF assms(1)], of "[]"]
    by simp
  then show ?thesis
    using slice1 slice2 off p(1) loop_count_len [OF block_lengths(1) [OF assms(1)]]
    by (simp add: extractTxOffsets_def assms(2) block_offsets_def Let_def)
qed

lemma extractPreviousBlockHash_ser:
  assumes "block_wf b"
  shows "extractPreviousBlockHash (NewBuffer (ser_block b)) = Inr (of_nbytes (PreviousBlockHash b))"
proof -
  have "fits (ser_block b)" using assms by (simp add: block_wf_def)
  from at_NewBuffer [OF this]
  have "at (NewBuffer (ser_block b)) (enc_bytes (of_nbytes (PreviousBlockHash b)) @
      (concat (Transactions b) @ block_trailer b @ intToBytes (word_of_int (int (length (block_body b))))))"
    by (simp add: ser_block_def block_body_def block_head_def)
  then obtain p where "bufDecodeRawBytes (NewBuffer (ser_block b)) = Inr (of_nbytes (PreviousBlockHash b), p)"
    by (rule bufDecodeRawBytes_at)
  then show ?thesis by (simp add: extractPreviousBlockHash_def)
qed

lemma sliceTxs_layout:
  "sliceTxs (pre @ concat txs @ post) (offsets_from (int (length pre)) txs @ [int (length pre + length (concat txs))])
   = Inr txs"
proof (induction txs arbitrary: pre)
  case (Cons tx txs)
  let ?bs = "pre @ concat (tx # txs) @ post"
  let ?offs = "offsets_from (int (length pre + length tx)) txs @ [int (length pre + length (concat (tx # txs)))]"
  have "sliceTxs ?bs ?offs = Inr txs"
    using Cons.IH [of "pre @ tx"] by (simp add: add.assoc)
  moreover obtain b bs where "?offs = int (length pre + length tx) # bs"
  proof (cases txs)
    case Nil
    then show thesis by (intro that) simp
  next
    case (Cons t ts)
    then show thesis by (intro that) simp
  qed
  moreover have "goslice ?bs (int (length pre)) (int (length pre + length tx)) = Inr tx"
    using goslice_mid [of pre tx "concat txs @ post"] by simp
  ultimately show ?case by simp
qed simp

lemma sliceTxs_ser:
  "sliceTxs (ser_block b) (block_offsets b) = Inr (Transactions b)"
  using sliceTxs_layout [of "block_head b" "Transactions b"
      "block_trailer b @ intToBytes (word_of_int (int (length (block_body b))))"]
  by (simp add: ser_block_def block_offsets_def block_body_def)

text \<open>A nil previous hash comes back as an empty one.\<close>

definition norm_block :: "Block2 \<Rightarrow> Block2" where
  "norm_block b = b\<lparr>PreviousBlockHash := Some (of_nbytes (PreviousBlockHash b))\<rparr>"

lemma ToBlock2_ser:
  assumes "block_wf b" and "blockBytes s = ser_block b"
  shows "ToBlock2 s = Inr (norm_block b)"
  using assms
  by (cases b) (simp add: ToBlock2_def extractPreviousBlockHash_ser extractTxOffsets_ser sliceTxs_ser norm_block_def)

text \<open>
  C16: A serialized block reads back: \<open>ToBlock2\<close> of the bytes \<open>ConstructSerBlock2\<close> produces is the
  block (a nil previous hash comes back empty), the previous hash can be read on its own, and the
  offsets recomputed from the bytes are the ones noted while serializing.
\<close>

theorem serblock_roundtrip:
  assumes "block_wf b"
  shows "ToBlock2 (NewSerBlock2 (GetBytes (ConstructSerBlock2 b))) =
      Inr (b\<lparr>PreviousBlockHash := Some (of_nbytes (PreviousBlockHash b))\<rparr>) \<and>
    GetPreviousBlockHash (NewSerBlock2 (GetBytes (ConstructSerBlock2 b))) = Inr (of_nbytes (PreviousBlockHash b)) \<and>
    snd (GetTxOffsets (NewSerBlock2 (GetBytes (ConstructSerBlock2 b)))) = snd (GetTxOffsets (ConstructSerBlock2 b))"
  using ToBlock2_ser [OF assms] extractPreviousBlockHash_ser [OF assms] extractTxOffsets_ser [OF assms]
  by (simp add: ConstructSerBlock2_eq NewSerBlock2_def GetBytes_def GetPreviousBlockHash_def GetTxOffsets_def
      norm_block_def)

text \<open>A block with two transactions, one of them empty.\<close>

lemma serblock_roundtrip_witness:
  "ToBlock2 (NewSerBlock2 (GetBytes (ConstructSerBlock2 \<lparr>PreviousBlockHash = None, Transactions = [[1, 2, 3], []]\<rparr>))) =
    Inr \<lparr>PreviousBlockHash = Some [], Transactions = [[1, 2, 3], []]\<rparr>"
proof -
  let ?b = "\<lparr>PreviousBlockHash = None, Transactions = [[1, 2, 3], []]\<rparr> :: Block2"
  have "length (ser_block ?b) = 11" by code_simp
  then have "block_wf ?b" by (simp add: block_wf_def fits_def maxint_def ser_block_def)
  from serblock_roundtrip [OF this] show ?thesis by (simp add: of_nbytes_def)
qed

end
