(* ===== verification/LevelDB.thy ===== *)
theory LevelDB
  imports Prelude "HOL-Library.RBT"
begin

text \<open>
  The key-value store under the ledger (core/ledger/util/db/db.go). The wrapper \<open>DB\<close> is
  modelled; the vendored goleveldb library it calls is a parameter, a record of the operations
  the wrapper uses. The locale \<open>leveldb\<close> states what goleveldb documents of them: a read that
  succeeds returns the stored value, \<open>ErrNotFound\<close> means the key is absent, a write that
  succeeds takes effect as a whole, and an iterator yields the entries of a half-open key range
  in ascending order. Any operation may also fail; \<open>leveldb_reliable\<close> adds that none does.
  Both are interpreted by an ordered in-memory store.
\<close>

section \<open>The library as a parameter\<close>

record 'db leveldb_ops =
  ldb_Get :: "'db \<Rightarrow> bytes \<Rightarrow> error + bytes"
  ldb_Put :: "'db \<Rightarrow> bytes \<Rightarrow> bytes \<Rightarrow> error + 'db"
  ldb_Delete :: "'db \<Rightarrow> bytes \<Rightarrow> error + 'db"
  ldb_Write :: "'db \<Rightarrow> (bytes \<times> bytes) list \<Rightarrow> error + 'db"
  ldb_NewIterator :: "'db \<Rightarrow> nbytes \<Rightarrow> nbytes \<Rightarrow> (bytes \<times> bytes) list"
  ldb_Close :: "'db \<Rightarrow> 'db"

text \<open>
  A key lies in the range of an iterator when it is not below the start and below the limit; a
  nil start or limit leaves that side open.
\<close>

definition in_range :: "nbytes \<Rightarrow> nbytes \<Rightarrow> bytes \<Rightarrow> bool" where
  "in_range st lim k \<longleftrightarrow>
     (case st of None \<Rightarrow> True | Some s \<Rightarrow> s \<le> k) \<and> (case lim of None \<Rightarrow> True | Some l \<Rightarrow> k < l)"

text \<open>Applying a batch of puts, in order.\<close>

definition apply_batch :: "(bytes \<times> bytes) list \<Rightarrow> (bytes \<rightharpoonup> bytes) \<Rightarrow> (bytes \<rightharpoonup> bytes)" where
  "apply_batch b m = fold (\<lambda>(k, v) m. m(k \<mapsto> v)) b m"

section \<open>The wrapper\<close>

datatype dbState = closed | opened

record 'db DB =
  dbhandle :: "'db option"
  dbState :: dbState

definition CreateDB :: "'db DB" where
  "CreateDB = \<lparr>dbhandle = None, dbState = closed\<rparr>"

text \<open>
  \<open>Open\<close> takes the outcome of \<open>CreateDirIfMissing\<close> (whether the directory is empty) and of
  \<open>leveldb.OpenFile\<close>, which is told to fail on a missing database unless the directory is empty.
\<close>

definition DB_Open :: "error + bool \<Rightarrow> (bool \<Rightarrow> error + 'db) \<Rightarrow> 'db DB \<Rightarrow> error + 'db DB" where
  "DB_Open createDir openFile d =
     (if dbState d = opened then Inr d
      else case createDir of
        Inl _ \<Rightarrow> Inl (Panic ''Error while trying to open DB'')
      | Inr dirEmpty \<Rightarrow>
          (case openFile (\<not> dirEmpty) of
             Inl _ \<Rightarrow> Inl (Panic ''Error while trying to open DB'')
           | Inr h \<Rightarrow> Inr (d\<lparr>dbhandle := Some h, dbState := opened\<rparr>)))"

definition DB_Close :: "'db leveldb_ops \<Rightarrow> 'db DB \<Rightarrow> 'db DB" where
  "DB_Close L d =
     (if dbState d = closed then d
      else d\<lparr>dbhandle := map_option (ldb_Close L) (dbhandle d), dbState := closed\<rparr>)"

definition isOpen :: "'db DB \<Rightarrow> bool" where
  "isOpen d \<longleftrightarrow> dbState d = opened"

text \<open>Using the wrapper before \<open>Open\<close> dereferences a nil handle.\<close>

definition with_handle :: "'db DB \<Rightarrow> ('db \<Rightarrow> error + 'a) \<Rightarrow> error + 'a" where
  "with_handle d f = (case dbhandle d of None \<Rightarrow> Inl (Panic ''nil pointer dereference'') | Some h \<Rightarrow> f h)"

definition DB_Get :: "'db leveldb_ops \<Rightarrow> 'db DB \<Rightarrow> bytes \<Rightarrow> error + nbytes" where
  "DB_Get L d key =
     with_handle d (\<lambda>h. case ldb_Get L h key of
         Inr value \<Rightarrow> Inr (Some value)
       | Inl err \<Rightarrow> if err = ErrNotFound then Inr None else Inl err)"

definition DB_Put :: "'db leveldb_ops \<Rightarrow> 'db DB \<Rightarrow> bytes \<Rightarrow> bytes \<Rightarrow> error + 'db DB" where
  "DB_Put L d key value =
     with_handle d (\<lambda>h. bindE (ldb_Put L h key value) (\<lambda>h. Inr (d\<lparr>dbhandle := Some h\<rparr>)))"

definition DB_Delete :: "'db leveldb_ops \<Rightarrow> 'db DB \<Rightarrow> bytes \<Rightarrow> error + 'db DB" where
  "DB_Delete L d key =
     with_handle d (\<lambda>h. bindE (ldb_Delete L h key) (\<lambda>h. Inr (d\<lparr>dbhandle := Some h\<rparr>)))"

definition DB_GetIterator ::
  "'db leveldb_ops \<Rightarrow> 'db DB \<Rightarrow> nbytes \<Rightarrow> nbytes \<Rightarrow> error + (bytes \<times> bytes) list" where
  "DB_GetIterator L d startKey endKey =
     with_handle d (\<lambda>h. Inr (ldb_NewIterator L h startKey endKey))"

definition DB_WriteBatch :: "'db leveldb_ops \<Rightarrow> 'db DB \<Rightarrow> (bytes \<times> bytes) list \<Rightarrow> error + 'db DB" where
  "DB_WriteBatch L d batch =
     with_handle d (\<lambda>h. bindE (ldb_Write L h batch) (\<lambda>h. Inr (d\<lparr>dbhandle := Some h\<rparr>)))"

section \<open>The contract of the library\<close>

text \<open>The contents a wrapper gives access to, for a given reading of the store's contents.\<close>

definition db_view :: "('db \<Rightarrow> bytes \<rightharpoonup> bytes) \<Rightarrow> 'db DB \<Rightarrow> bytes \<rightharpoonup> bytes" where
  "db_view contents d = (case dbhandle d of None \<Rightarrow> Map.empty | Some h \<Rightarrow> contents h)"

locale leveldb =
  fixes L :: "'db leveldb_ops" and contents :: "'db \<Rightarrow> bytes \<rightharpoonup> bytes"
  assumes get_found: "ldb_Get L h k = Inr v \<Longrightarrow> contents h k = Some v"
    and get_missing: "ldb_Get L h k = Inl ErrNotFound \<Longrightarrow> contents h k = None"
    and put: "ldb_Put L h k v = Inr h' \<Longrightarrow> contents h' = (contents h)(k \<mapsto> v)"
    and delete: "ldb_Delete L h k = Inr h' \<Longrightarrow> contents h' = (contents h)(k := None)"
    and write_batch: "ldb_Write L h b = Inr h' \<Longrightarrow> contents h' = apply_batch b (contents h)"
    and iter_set: "set (ldb_NewIterator L h st lim) =
      {(k, v). contents h k = Some v \<and> in_range st lim k}"
    and iter_sorted: "sorted_wrt (<) (map fst (ldb_NewIterator L h st lim))"
begin

abbreviation view :: "'db DB \<Rightarrow> bytes \<rightharpoonup> bytes" where
  "view \<equiv> db_view contents"

lemma DB_Get_view: "DB_Get L d k = Inr r \<Longrightarrow> r = view d k"
  by (auto simp: DB_Get_def with_handle_def db_view_def split: option.splits sum.splits if_splits
      dest: get_found get_missing)

lemma DB_Put_view: "DB_Put L d k v = Inr d' \<Longrightarrow> view d' = (view d)(k \<mapsto> v) \<and> dbhandle d' \<noteq> None"
  by (auto simp: DB_Put_def with_handle_def db_view_def bindE_eq_Inr_conv split: option.splits dest: put)

lemma DB_Delete_view: "DB_Delete L d k = Inr d' \<Longrightarrow> view d' = (view d)(k := None)"
  by (auto simp: DB_Delete_def with_handle_def db_view_def bindE_eq_Inr_conv
      split: option.splits dest: delete)

lemma DB_WriteBatch_view: "DB_WriteBatch L d b = Inr d' \<Longrightarrow> view d' = apply_batch b (view d)"
  by (auto simp: DB_WriteBatch_def with_handle_def db_view_def bindE_eq_Inr_conv
      split: option.splits dest: write_batch)

lemma DB_GetIterator_view:
  assumes "DB_GetIterator L d st lim = Inr es"
  shows "set es = {(k, v). view d k = Some v \<and> in_range st lim k}" and "sorted_wrt (<) (map fst es)"
  using assms iter_set iter_sorted
  by (auto simp: DB_GetIterator_def with_handle_def db_view_def split: option.splits)

end

text \<open>A store on which no operation fails.\<close>

locale leveldb_reliable = leveldb +
  assumes get_total: "ldb_Get L h k = (case contents h k of None \<Rightarrow> Inl ErrNotFound | Some v \<Rightarrow> Inr v)"
    and put_total: "\<exists>h'. ldb_Put L h k v = Inr h'"
    and write_total: "\<exists>h'. ldb_Write L h b = Inr h'"
begin

lemma DB_Get_total: "dbhandle d \<noteq> None \<Longrightarrow> DB_Get L d k = Inr (view d k)"
  by (auto simp: DB_Get_def with_handle_def db_view_def get_total split: option.splits)

lemma DB_Put_total: "dbhandle d \<noteq> None \<Longrightarrow> \<exists>d'. DB_Put L d k v = Inr d' \<and> dbhandle d' \<noteq> None"
  using put_total by (fastforce simp: DB_Put_def with_handle_def bindE_eq_Inr_conv split: option.splits)

lemma DB_WriteBatch_total:
  "dbhandle d \<noteq> None \<Longrightarrow> \<exists>d'. DB_WriteBatch L d b = Inr d' \<and> dbhandle d' \<noteq> None"
  using write_total
  by (fastforce simp: DB_WriteBatch_def with_handle_def bindE_eq_Inr_conv split: option.splits)

end

section \<open>An ordered in-memory store\<close>

type_synonym memdb = "(bytes, bytes) rbt"

definition mem_ops :: "memdb leveldb_ops" where
  "mem_ops = \<lparr>
     ldb_Get = (\<lambda>h k. case RBT.lookup h k of None \<Rightarrow> Inl ErrNotFound | Some v \<Rightarrow> Inr v),
     ldb_Put = (\<lambda>h k v. Inr (RBT.insert k v h)),
     ldb_Delete = (\<lambda>h k. Inr (RBT.delete k h)),
     ldb_Write = (\<lambda>h b. Inr (fold (\<lambda>(k, v). RBT.insert k v) b h)),
     ldb_NewIterator = (\<lambda>h st lim. filter (\<lambda>(k, v). in_range st lim k) (RBT.entries h)),
     ldb_Close = (\<lambda>h. h)\<rparr>"

lemma lookup_fold_insert:
  "RBT.lookup (fold (\<lambda>(k, v). RBT.insert k v) b h) = apply_batch b (RBT.lookup h)"
  by (induction b arbitrary: h) (auto simp: apply_batch_def)

lemma sorted_wrt_map_fst_filter:
  "sorted_wrt (<) (map fst es) \<Longrightarrow> sorted_wrt (<) (map fst (filter P es))"
  by (induction es) auto

lemma sorted_wrt_entries: "sorted_wrt (<) (map fst (RBT.entries h))" for h :: memdb
  by (metis RBT.distinct_entries RBT.sorted_entries strict_sorted_iff)

interpretation mem: leveldb_reliable mem_ops "RBT.lookup :: memdb \<Rightarrow> bytes \<rightharpoonup> bytes"
  by unfold_locales
    (auto simp: mem_ops_def lookup_fold_insert RBT.lookup_delete RBT.lookup_in_tree
      intro: sorted_wrt_map_fst_filter sorted_wrt_entries split: option.splits)

end
