(* ===== verification/TxMgr.thy ===== *)
theory TxMgr
  imports SerBlock2 LevelDB
begin

text \<open>
  The lock-based transaction manager
  (core/ledger/kvledger/txmgmt/lockbasedtxmgmt/lockbased\_txmgr.go and
  lockbased\_query\_executer.go): the versioned state database, multi-version validation of the
  transactions of a block, and the commit of their writes.
\<close>

section \<open>Composite keys and versioned values\<close>

definition compositeKeySep :: bytes where
  "compositeKeySep = [0x00]"

definition constructCompositeKey :: "gostring \<Rightarrow> gostring \<Rightarrow> bytes" where
  "constructCompositeKey ns key = ns @ compositeKeySep @ key"

text \<open>\<open>bytes.SplitN(compositeKey, sep, 2)\<close>; without a separator the second part does not exist.\<close>

definition splitCompositeKey :: "bytes \<Rightarrow> error + gostring \<times> gostring" where
  "splitCompositeKey ck =
     (let ns = takeWhile (\<lambda>b. b \<noteq> 0x00) ck; rest = dropWhile (\<lambda>b. b \<noteq> 0x00) ck in
      case rest of [] \<Rightarrow> Inl (Panic ''index out of range'') | _ # key \<Rightarrow> Inr (ns, key))"

record versionedValue =
  vvalue :: nbytes
  vversion :: u64

definition encodeValue :: "nbytes \<Rightarrow> u64 \<Rightarrow> bytes" where
  "encodeValue value version =
     (let versionBytes = EncodeVarint version;
          deleteMarker = (if value = None then 1 else 0);
          encodedValue = versionBytes @ EncodeVarint deleteMarker
      in case value of None \<Rightarrow> encodedValue | Some v \<Rightarrow> encodedValue @ v)"

definition decodeValue :: "bytes \<Rightarrow> nbytes \<times> u64" where
  "decodeValue encodedValue =
     (let (version, len1) = DecodeVarint encodedValue;
          (deleteMarker, len2) = DecodeVarint (drop len1 encodedValue)
      in if deleteMarker = 1 then (None, version)
         else (Some (drop (len1 + len2) encodedValue), version))"

section \<open>The update set and the manager\<close>

type_synonym updateSet = "(bytes, versionedValue) gomap"

definition newUpdateSet :: updateSet where
  "newUpdateSet = []"

definition us_add :: "updateSet \<Rightarrow> bytes \<Rightarrow> versionedValue \<Rightarrow> updateSet" where
  "us_add u compositeKey vv = mput compositeKey vv u"

definition us_exists :: "updateSet \<Rightarrow> bytes \<Rightarrow> bool" where
  "us_exists u compositeKey \<longleftrightarrow> map_of u compositeKey \<noteq> None"

definition us_get :: "updateSet \<Rightarrow> bytes \<Rightarrow> versionedValue option" where
  "us_get u compositeKey = map_of u compositeKey"

text \<open>
  The manager holds the database, the update set of the block being committed (nil between
  blocks) and \<open>commitRWLock\<close>, of which the number of read locks held is kept.
\<close>

record 'db LockBasedTxMgr =
  tmDB :: "'db DB"
  tmUpdateSet :: "updateSet option"
  tmReaders :: nat

definition NewLockBasedTxMgr :: "error + bool \<Rightarrow> (bool \<Rightarrow> error + 'db) \<Rightarrow> error + 'db LockBasedTxMgr" where
  "NewLockBasedTxMgr createDir openFile =
     bindE (DB_Open createDir openFile CreateDB)
       (\<lambda>d. Inr \<lparr>tmDB = d, tmUpdateSet = None, tmReaders = 0\<rparr>)"

definition Shutdown :: "'db leveldb_ops \<Rightarrow> 'db LockBasedTxMgr \<Rightarrow> 'db LockBasedTxMgr" where
  "Shutdown L mgr = mgr\<lparr>tmDB := DB_Close L (tmDB mgr)\<rparr>"

section \<open>Reading the committed state\<close>

definition getCommittedValueAndVersion ::
  "'db leveldb_ops \<Rightarrow> 'db LockBasedTxMgr \<Rightarrow> gostring \<Rightarrow> gostring \<Rightarrow> error + nbytes \<times> u64" where
  "getCommittedValueAndVersion L mgr ns key =
     bindE (DB_Get L (tmDB mgr) (constructCompositeKey ns key)) (\<lambda>encodedValue.
       case encodedValue of None \<Rightarrow> Inr (None, 0) | Some e \<Rightarrow> Inr (decodeValue e))"

definition getCommitedVersion ::
  "'db leveldb_ops \<Rightarrow> 'db LockBasedTxMgr \<Rightarrow> gostring \<Rightarrow> gostring \<Rightarrow> error + u64" where
  "getCommitedVersion L mgr ns key =
     bindE (getCommittedValueAndVersion L mgr ns key) (\<lambda>(_, version). Inr version)"

section \<open>Validation\<close>

text \<open>The two nested loops of \<open>validateTx\<close>: the reads of one namespace, then the namespaces.\<close>

fun validateReads ::
  "'db leveldb_ops \<Rightarrow> 'db LockBasedTxMgr \<Rightarrow> gostring \<Rightarrow> KVRead list \<Rightarrow> error + bool" where
  "validateReads L mgr ns [] = Inr True"
| "validateReads L mgr ns (kvRead # rest) =
     (let compositeKey = constructCompositeKey ns (rdKey kvRead) in
      if (case tmUpdateSet mgr of None \<Rightarrow> False | Some u \<Rightarrow> us_exists u compositeKey) then Inr False
      else bindE (getCommitedVersion L mgr ns (rdKey kvRead)) (\<lambda>currentVersion.
        if currentVersion \<noteq> rdVersion kvRead then Inr False else validateReads L mgr ns rest))"

fun validateNs :: "'db leveldb_ops \<Rightarrow> 'db LockBasedTxMgr \<Rightarrow> NsReadWriteSet list \<Rightarrow> error + bool" where
  "validateNs L mgr [] = Inr True"
| "validateNs L mgr (nsRWSet # rest) =
     bindE (validateReads L mgr (NameSpace nsRWSet) (Reads nsRWSet)) (\<lambda>valid.
       if valid then validateNs L mgr rest else Inr False)"

definition validateTx :: "'db leveldb_ops \<Rightarrow> 'db LockBasedTxMgr \<Rightarrow> TxReadWriteSet \<Rightarrow> error + bool" where
  "validateTx L mgr txRWSet = validateNs L mgr (NsRWs txRWSet)"

text \<open>
  \<open>addWriteSetToBatch\<close> returns the manager also when it fails, since the writes added before
  the failure stay in the update set.
\<close>

fun addWrites ::
  "'db leveldb_ops \<Rightarrow> gostring \<Rightarrow> KVWrite list \<Rightarrow> updateSet \<Rightarrow> 'db LockBasedTxMgr \<Rightarrow>
   updateSet \<times> (error + unit)" where
  "addWrites L ns [] u mgr = (u, Inr ())"
| "addWrites L ns (kvWrite # rest) u mgr =
     (let compositeKey = constructCompositeKey ns (wrKey kvWrite) in
      case (case us_get u compositeKey of
              Some versionedVal \<Rightarrow> Inr (vversion versionedVal)
            | None \<Rightarrow> getCommitedVersion L mgr ns (wrKey kvWrite)) of
        Inl err \<Rightarrow> (u, Inl err)
      | Inr currentVersion \<Rightarrow>
          addWrites L ns rest
            (us_add u compositeKey \<lparr>vvalue = wrValue kvWrite, vversion = currentVersion + 1\<rparr>) mgr)"

fun addNs ::
  "'db leveldb_ops \<Rightarrow> NsReadWriteSet list \<Rightarrow> updateSet \<Rightarrow> 'db LockBasedTxMgr \<Rightarrow>
   updateSet \<times> (error + unit)" where
  "addNs L [] u mgr = (u, Inr ())"
| "addNs L (nsRWSet # rest) u mgr =
     (case addWrites L (NameSpace nsRWSet) (Writes nsRWSet) u mgr of
        (u, Inl err) \<Rightarrow> (u, Inl err)
      | (u, Inr _) \<Rightarrow> addNs L rest u mgr)"

definition addWriteSetToBatch ::
  "'db leveldb_ops \<Rightarrow> TxReadWriteSet \<Rightarrow> 'db LockBasedTxMgr \<Rightarrow> 'db LockBasedTxMgr \<times> (error + unit)" where
  "addWriteSetToBatch L txRWSet mgr =
     (let u = (case tmUpdateSet mgr of None \<Rightarrow> newUpdateSet | Some u \<Rightarrow> u);
          (u, r) = addNs L (NsRWs txRWSet) u mgr
      in (mgr\<lparr>tmUpdateSet := Some u\<rparr>, r))"

datatype InvalidTransaction = RWConflictDuringCommit

text \<open>
  The loop of \<open>ValidateAndPrepare\<close>. \<open>getAction\<close> stands for \<open>putils.GetActionFromEnvelope\<close>
  followed by the field \<open>Results\<close>: the generated protobuf code that takes the simulation results
  out of a transaction envelope.
\<close>

fun validateLoop ::
  "'db leveldb_ops \<Rightarrow> (bytes \<Rightarrow> error + bytes) \<Rightarrow> bytes list \<Rightarrow> Block2 \<Rightarrow> InvalidTransaction list \<Rightarrow>
   'db LockBasedTxMgr \<Rightarrow> 'db LockBasedTxMgr \<times> (error + Block2 \<times> InvalidTransaction list)" where
  "validateLoop L getAction [] vb invalidTxs mgr = (mgr, Inr (vb, invalidTxs))"
| "validateLoop L getAction (envBytes # rest) vb invalidTxs mgr =
     (case bindE (getAction envBytes) (TxReadWriteSet_Unmarshal \<lparr>NsRWs = []\<rparr>) of
        Inl err \<Rightarrow> (mgr, Inl err)
      | Inr txRWSet \<Rightarrow>
         (case validateTx L mgr txRWSet of
            Inl err \<Rightarrow> (mgr, Inl err)
          | Inr valid \<Rightarrow>
             if valid then
               (case addWriteSetToBatch L txRWSet mgr of
                  (mgr, Inl err) \<Rightarrow> (mgr, Inl err)
                | (mgr, Inr _) \<Rightarrow>
                    validateLoop L getAction rest
                      (vb\<lparr>Transactions := Transactions vb @ [envBytes]\<rparr>) invalidTxs mgr)
             else validateLoop L getAction rest vb (invalidTxs @ [RWConflictDuringCommit]) mgr))"

definition ValidateAndPrepare ::
  "'db leveldb_ops \<Rightarrow> (bytes \<Rightarrow> error + bytes) \<Rightarrow> Block2 \<Rightarrow> 'db LockBasedTxMgr \<Rightarrow>
   'db LockBasedTxMgr \<times> (error + Block2 \<times> InvalidTransaction list)" where
  "ValidateAndPrepare L getAction block mgr =
     validateLoop L getAction (Transactions block)
       \<lparr>PreviousBlockHash = PreviousBlockHash block, Transactions = []\<rparr> []
       (mgr\<lparr>tmUpdateSet := Some newUpdateSet\<rparr>)"

section \<open>Commit and rollback\<close>

text \<open>
  \<open>Commit\<close>, once it holds the write lock. \<open>ord\<close> is the order in which the loop ranges over the
  update set. The deferred assignment clears the update set on every path after the lock.
\<close>

definition Commit ::
  "'db leveldb_ops \<Rightarrow> (bytes, versionedValue) map_order \<Rightarrow> 'db LockBasedTxMgr \<Rightarrow>
   'db LockBasedTxMgr \<times> (error + unit)" where
  "Commit L ord mgr =
     (case tmUpdateSet mgr of
        None \<Rightarrow> (mgr, Inl (Panic ''validateAndPrepare() method should have been called before calling commit()''))
      | Some u \<Rightarrow>
          (case DB_WriteBatch L (tmDB mgr) (map (\<lambda>(k, v). (k, encodeValue (vvalue v) (vversion v))) (ord u)) of
             Inl err \<Rightarrow> (mgr\<lparr>tmUpdateSet := None\<rparr>, Inl err)
           | Inr d \<Rightarrow> (mgr\<lparr>tmUpdateSet := None, tmDB := d\<rparr>, Inr ())))"

definition Rollback :: "'db LockBasedTxMgr \<Rightarrow> 'db LockBasedTxMgr" where
  "Rollback mgr = mgr\<lparr>tmUpdateSet := None\<rparr>"

section \<open>Range scans\<close>

record kvScanner =
  scNamespace :: gostring
  scItr :: "(bytes \<times> bytes) list"

record committedKV =
  ckKey :: gostring
  ckVersion :: u64
  ckValue :: nbytes

definition isDelete :: "committedKV \<Rightarrow> bool" where
  "isDelete c \<longleftrightarrow> ckValue c = None"

definition getCommittedRangeScanner ::
  "'db leveldb_ops \<Rightarrow> 'db LockBasedTxMgr \<Rightarrow> gostring \<Rightarrow> gostring \<Rightarrow> gostring \<Rightarrow> error + kvScanner" where
  "getCommittedRangeScanner L mgr namespace startKey endKey =
     (let compositeStartKey = (if startKey \<noteq> [] then Some (constructCompositeKey namespace startKey) else None);
          compositeEndKey = (if endKey \<noteq> [] then Some (constructCompositeKey namespace endKey) else None)
      in bindE (DB_GetIterator L (tmDB mgr) compositeStartKey compositeEndKey)
           (\<lambda>itr. Inr \<lparr>scNamespace = namespace, scItr = itr\<rparr>))"

text \<open>\<open>next\<close> returns nil when the iterator is exhausted.\<close>

definition scanner_next :: "kvScanner \<Rightarrow> error + committedKV option \<times> kvScanner" where
  "scanner_next scanner =
     (case scItr scanner of
        [] \<Rightarrow> Inr (None, scanner)
      | (k, v) # rest \<Rightarrow>
          bindE (splitCompositeKey k) (\<lambda>(_, key).
            let (value, version) = decodeValue v in
            Inr (Some \<lparr>ckKey = key, ckVersion = version, ckValue = value\<rparr>, scanner\<lparr>scItr := rest\<rparr>)))"

section \<open>The query executor\<close>

record RWLockQueryExecutor =
  qdone :: bool

definition NewQueryExecutor ::
  "'db LockBasedTxMgr \<Rightarrow> RWLockQueryExecutor \<times> 'db LockBasedTxMgr" where
  "NewQueryExecutor mgr = (\<lparr>qdone = False\<rparr>, mgr\<lparr>tmReaders := Suc (tmReaders mgr)\<rparr>)"

definition checkDone :: "bool \<Rightarrow> error + unit" where
  "checkDone d = (if d then Inl (Panic ''This method should not be called after calling Done()'') else Inr ())"

definition qe_GetState ::
  "'db leveldb_ops \<Rightarrow> 'db LockBasedTxMgr \<Rightarrow> 'q RWLockQueryExecutor_scheme \<Rightarrow> gostring \<Rightarrow> gostring \<Rightarrow> error + nbytes" where
  "qe_GetState L mgr q ns key =
     bindE (checkDone (qdone q)) (\<lambda>_.
     bindE (getCommittedValueAndVersion L mgr ns key) (\<lambda>(value, _). Inr value))"

fun qe_GetStateMultipleKeys ::
  "'db leveldb_ops \<Rightarrow> 'db LockBasedTxMgr \<Rightarrow> 'q RWLockQueryExecutor_scheme \<Rightarrow> gostring \<Rightarrow> gostring list \<Rightarrow>
   error + nbytes list" where
  "qe_GetStateMultipleKeys L mgr q ns [] = Inr []"
| "qe_GetStateMultipleKeys L mgr q ns (key # keys) =
     bindE (qe_GetState L mgr q ns key) (\<lambda>value.
     bindE (qe_GetStateMultipleKeys L mgr q ns keys) (\<lambda>results. Inr (value # results)))"

definition qe_GetStateRangeScanIterator ::
  "'db leveldb_ops \<Rightarrow> 'db LockBasedTxMgr \<Rightarrow> 'q RWLockQueryExecutor_scheme \<Rightarrow> gostring \<Rightarrow> gostring \<Rightarrow> gostring \<Rightarrow>
   error + kvScanner" where
  "qe_GetStateRangeScanIterator L mgr q namespace startKey endKey =
     bindE (checkDone (qdone q)) (\<lambda>_. getCommittedRangeScanner L mgr namespace startKey endKey)"

definition GetTransactionsForKey :: "gostring \<Rightarrow> gostring \<Rightarrow> error + unit" where
  "GetTransactionsForKey namespace key = Inl ErrNotYetImplemented"

definition ExecuteQuery :: "gostring \<Rightarrow> error + unit" where
  "ExecuteQuery query = Inl ErrNotSupported"

text \<open>Releasing a read lock that is not held is a fatal error of the lock.\<close>

definition qe_Done ::
  "'q RWLockQueryExecutor_scheme \<Rightarrow> 'db LockBasedTxMgr \<Rightarrow>
   error + 'q RWLockQueryExecutor_scheme \<times> 'db LockBasedTxMgr" where
  "qe_Done q mgr =
     (case tmReaders mgr of
        0 \<Rightarrow> Inl (Panic ''sync: RUnlock of unlocked RWMutex'')
      | Suc n \<Rightarrow> Inr (q\<lparr>qdone := True\<rparr>, mgr\<lparr>tmReaders := n\<rparr>))"

lemma scanner_next_shrinks:
  "scanner_next s = Inr (Some c, s') \<Longrightarrow> length (scItr s') < length (scItr s)"
proof (cases "scItr s")
  case (Cons p rest)
  assume "scanner_next s = Inr (Some c, s')"
  with Cons show ?thesis
    by (cases p, cases "decodeValue (snd p)")
      (auto simp: scanner_next_def bindE_eq_Inr_conv Let_def)
qed (simp add: scanner_next_def)

text \<open>
  \<open>qKVItr.Next\<close> calls itself to skip deleted keys; each call consumes an entry of the iterator.
\<close>

function qitr_Next :: "kvScanner \<Rightarrow> error + (gostring \<times> nbytes) option \<times> kvScanner" where
  "qitr_Next s =
     (case scanner_next s of
        Inl err \<Rightarrow> Inl err
      | Inr (None, s') \<Rightarrow> Inr (None, s')
      | Inr (Some c, s') \<Rightarrow> if isDelete c then qitr_Next s' else Inr (Some (ckKey c, ckValue c), s'))"
  by pat_completeness auto
termination
  by (relation "measure (\<lambda>s. length (scItr s))") (auto dest: scanner_next_shrinks)

declare qitr_Next.simps [simp del]

section \<open>Facts on keys and values\<close>

lemma decodeValue_encodeValue [simp]: "decodeValue (encodeValue v ver) = (v, ver)"
  by (cases v) (simp_all add: decodeValue_def encodeValue_def Let_def)

lemma splitCompositeKey_construct:
  "0x00 \<notin> set ns \<Longrightarrow> splitCompositeKey (constructCompositeKey ns key) = Inr (ns, key)"
proof -
  assume "0x00 \<notin> set ns"
  then have "\<And>b. b \<in> set ns \<Longrightarrow> b \<noteq> 0x00" by blast
  then show ?thesis
    by (simp add: splitCompositeKey_def constructCompositeKey_def compositeKeySep_def Let_def
        takeWhile_append2 dropWhile_append2)
qed

lemma constructCompositeKey_inj:
  assumes "0x00 \<notin> set ns" and "0x00 \<notin> set ns'"
    and "constructCompositeKey ns key = constructCompositeKey ns' key'"
  shows "ns = ns' \<and> key = key'"
proof -
  have "splitCompositeKey (constructCompositeKey ns key) =
      splitCompositeKey (constructCompositeKey ns' key')"
    by (simp only: assms(3))
  then show ?thesis by (simp add: splitCompositeKey_construct assms(1,2))
qed

section \<open>The world state and its sequential specification\<close>

text \<open>
  The world state maps a composite key to its value and version; an absent key reads as a nil
  value at version 0.
\<close>

type_synonym wstate = "bytes \<Rightarrow> nbytes \<times> u64"

definition wread :: "(bytes \<rightharpoonup> bytes) \<Rightarrow> wstate" where
  "wread m ck = (case m ck of None \<Rightarrow> (None, 0) | Some e \<Rightarrow> decodeValue e)"

definition state_of :: "('db \<Rightarrow> bytes \<rightharpoonup> bytes) \<Rightarrow> 'db LockBasedTxMgr \<Rightarrow> wstate" where
  "state_of contents mgr = wread (db_view contents (tmDB mgr))"

text \<open>
  The specification (core/ledger/ReadWriteSet.md): transactions are taken one after the other; one
  is valid when each version it read is the current one, given that the preceding valid
  transactions are applied; a valid one sets each key it writes and adds one to its version.
\<close>

definition tx_reads :: "TxReadWriteSet \<Rightarrow> (bytes \<times> u64) list" where
  "tx_reads tx = concat (map (\<lambda>n.
     map (\<lambda>r. (constructCompositeKey (NameSpace n) (rdKey r), rdVersion r)) (Reads n)) (NsRWs tx))"

definition tx_writes :: "TxReadWriteSet \<Rightarrow> (bytes \<times> nbytes) list" where
  "tx_writes tx = concat (map (\<lambda>n.
     map (\<lambda>w. (constructCompositeKey (NameSpace n) (wrKey w), wrValue w)) (Writes n)) (NsRWs tx))"

definition spec_write :: "bytes \<times> nbytes \<Rightarrow> wstate \<Rightarrow> wstate" where
  "spec_write = (\<lambda>(ck, v) W. W(ck := (v, snd (W ck) + 1)))"

definition spec_apply :: "TxReadWriteSet \<Rightarrow> wstate \<Rightarrow> wstate" where
  "spec_apply tx W = fold spec_write (tx_writes tx) W"

definition spec_valid :: "wstate \<Rightarrow> TxReadWriteSet \<Rightarrow> bool" where
  "spec_valid W tx \<longleftrightarrow> list_all (\<lambda>(ck, ver). snd (W ck) = ver) (tx_reads tx)"

fun spec_block :: "wstate \<Rightarrow> TxReadWriteSet list \<Rightarrow> wstate \<times> bool list" where
  "spec_block W [] = (W, [])"
| "spec_block W (tx # txs) =
     (let v = spec_valid W tx;
          (W', flags) = spec_block (if v then spec_apply tx W else W) txs
      in (W', v # flags))"

text \<open>The state a reader would see once the update set is committed.\<close>

definition overlay :: "updateSet \<Rightarrow> wstate \<Rightarrow> wstate" where
  "overlay u W ck = (case map_of u ck of None \<Rightarrow> W ck | Some vv \<Rightarrow> (vvalue vv, vversion vv))"

lemma overlay_Nil [simp]: "overlay newUpdateSet W = W"
  by (simp add: overlay_def newUpdateSet_def fun_eq_iff)

lemma overlay_us_add:
  "overlay (us_add u ck \<lparr>vvalue = v, vversion = ver\<rparr>) W = (overlay u W)(ck := (v, ver))"
  by (auto simp: overlay_def us_add_def fun_eq_iff)

lemma apply_batch_distinct:
  "map_wf b \<Longrightarrow> apply_batch b m k = (case map_of b k of None \<Rightarrow> m k | Some v \<Rightarrow> Some v)"
proof (induction b arbitrary: m)
  case (Cons p b)
  obtain k' v where p: "p = (k', v)" by (cases p)
  from Cons.prems have wf: "map_wf b" and new: "k' \<notin> fst ` set b"
    by (auto simp: map_wf_def p)
  have "apply_batch (p # b) m k = apply_batch b (m(k' \<mapsto> v)) k"
    by (simp add: apply_batch_def p)
  also have "\<dots> = (case map_of b k of None \<Rightarrow> (m(k' \<mapsto> v)) k | Some v \<Rightarrow> Some v)"
    by (rule Cons.IH [OF wf])
  finally have "apply_batch (p # b) m k =
      (case map_of b k of None \<Rightarrow> (m(k' \<mapsto> v)) k | Some v \<Rightarrow> Some v)" .
  moreover have "map_of b k' = None" using new by (simp add: map_of_eq_None_iff)
  ultimately show ?case by (cases "k = k'") (simp_all add: p split: option.split)
qed (simp add: apply_batch_def)

text \<open>Writing the encoded update set, in any order, turns the state into the overlay.\<close>

lemma wread_commit:
  assumes "order_ok ord" and "map_wf u"
  shows "wread (apply_batch (map (\<lambda>(k, v). (k, encodeValue (vvalue v) (vversion v))) (ord u)) m) =
    overlay u (wread m)"
proof
  fix ck
  let ?f = "\<lambda>v. encodeValue (vvalue v) (vversion v)"
  have "map_wf (map (\<lambda>(k, v). (k, ?f v)) (ord u))"
    using order_ok_map_wf [OF assms] by (simp add: map_wf_def comp_def case_prod_unfold)
  then have "apply_batch (map (\<lambda>(k, v). (k, ?f v)) (ord u)) m ck =
      (case map_of (map (\<lambda>(k, v). (k, ?f v)) (ord u)) ck of None \<Rightarrow> m ck | Some v \<Rightarrow> Some v)"
    by (rule apply_batch_distinct)
  moreover have "map_of (map (\<lambda>(k, v). (k, ?f v)) (ord u)) ck = map_option ?f (map_of u ck)"
    using order_ok_map_of [OF assms] map_of_map [of ?f "ord u"] by (simp add: fun_eq_iff)
  ultimately show "wread (apply_batch (map (\<lambda>(k, v). (k, ?f v)) (ord u)) m) ck = overlay u (wread m) ck"
    by (cases "map_of u ck") (simp_all add: wread_def overlay_def)
qed

section \<open>Validation against the specification\<close>

text \<open>
  What the validation loop computes, on the committed state \<open>W\<close>: a transaction is valid when no
  key it read is among the keys \<open>D\<close> written earlier in the block and every version it read is the
  committed one.
\<close>

definition mvcc_valid :: "wstate \<Rightarrow> bytes set \<Rightarrow> TxReadWriteSet \<Rightarrow> bool" where
  "mvcc_valid W D tx \<longleftrightarrow> list_all (\<lambda>(ck, ver). ck \<notin> D \<and> snd (W ck) = ver) (tx_reads tx)"

fun mvcc_block :: "wstate \<Rightarrow> bytes set \<Rightarrow> wstate \<Rightarrow> TxReadWriteSet list \<Rightarrow> wstate \<times> bool list" where
  "mvcc_block W D V [] = (V, [])"
| "mvcc_block W D V (tx # txs) =
     (if mvcc_valid W D tx then
        let (V', flags) = mvcc_block W (D \<union> fst ` set (tx_writes tx)) (spec_apply tx V) txs
        in (V', True # flags)
      else let (V', flags) = mvcc_block W D V txs in (V', False # flags))"

lemma mvcc_valid_Nil [simp]: "mvcc_valid W D \<lparr>NsRWs = []\<rparr>"
  by (simp add: mvcc_valid_def tx_reads_def)

lemma mvcc_valid_Cons:
  "mvcc_valid W D \<lparr>NsRWs = n # ns\<rparr> \<longleftrightarrow>
     list_all (\<lambda>r. let ck = constructCompositeKey (NameSpace n) (rdKey r) in
       ck \<notin> D \<and> snd (W ck) = rdVersion r) (Reads n) \<and> mvcc_valid W D \<lparr>NsRWs = ns\<rparr>"
  by (simp add: mvcc_valid_def tx_reads_def list.pred_map comp_def Let_def)

lemma tx_writes_Nil [simp]: "tx_writes \<lparr>NsRWs = []\<rparr> = []"
  by (simp add: tx_writes_def)

lemma tx_writes_Cons:
  "tx_writes \<lparr>NsRWs = n # ns\<rparr> =
     map (\<lambda>w. (constructCompositeKey (NameSpace n) (wrKey w), wrValue w)) (Writes n) @
     tx_writes \<lparr>NsRWs = ns\<rparr>"
  by (simp add: tx_writes_def)

text \<open>An envelope carries a read-write set.\<close>

definition decodes :: "(bytes \<Rightarrow> error + bytes) \<Rightarrow> bytes \<Rightarrow> TxReadWriteSet \<Rightarrow> bool" where
  "decodes getAction env tx \<longleftrightarrow> bindE (getAction env) (TxReadWriteSet_Unmarshal \<lparr>NsRWs = []\<rparr>) = Inr tx"

definition select :: "bool list \<Rightarrow> 'a list \<Rightarrow> 'a list" where
  "select flags xs = map snd (filter fst (zip flags xs))"

lemma select_simps [simp]:
  "select [] xs = []" "select (True # fs) (x # xs) = x # select fs xs"
  "select (False # fs) (x # xs) = select fs xs"
  by (simp_all add: select_def)

context leveldb_reliable
begin

lemma getCommittedValueAndVersion_total:
  "dbhandle (tmDB mgr) \<noteq> None \<Longrightarrow>
   getCommittedValueAndVersion L mgr ns key = Inr (state_of contents mgr (constructCompositeKey ns key))"
  by (auto simp: getCommittedValueAndVersion_def DB_Get_total state_of_def wread_def
      split: option.splits)

lemma getCommitedVersion_total:
  "dbhandle (tmDB mgr) \<noteq> None \<Longrightarrow>
   getCommitedVersion L mgr ns key = Inr (snd (state_of contents mgr (constructCompositeKey ns key)))"
  by (simp add: getCommitedVersion_def getCommittedValueAndVersion_total case_prod_unfold)

lemma validateReads_total:
  assumes "dbhandle (tmDB mgr) \<noteq> None" and "tmUpdateSet mgr = Some u"
  shows "validateReads L mgr ns rs = Inr (list_all (\<lambda>r.
     let ck = constructCompositeKey ns (rdKey r) in
     ck \<notin> dom (map_of u) \<and> snd (state_of contents mgr ck) = rdVersion r) rs)"
  using assms
  by (induction rs) (auto simp: getCommitedVersion_total us_exists_def Let_def)

lemma validateNs_total:
  assumes "dbhandle (tmDB mgr) \<noteq> None" and "tmUpdateSet mgr = Some u"
  shows "validateNs L mgr ns =
    Inr (mvcc_valid (state_of contents mgr) (dom (map_of u)) \<lparr>NsRWs = ns\<rparr>)"
  by (induction ns) (simp_all add: validateReads_total [OF assms] mvcc_valid_Cons)

lemma validateTx_total:
  assumes "dbhandle (tmDB mgr) \<noteq> None" and "tmUpdateSet mgr = Some u"
  shows "validateTx L mgr tx = Inr (mvcc_valid (state_of contents mgr) (dom (map_of u)) tx)"
  by (cases tx) (simp add: validateTx_def validateNs_total [OF assms])

lemma addWrites_total:
  assumes "dbhandle (tmDB mgr) \<noteq> None" and "map_wf u"
  shows "\<exists>u'. addWrites L ns ws u mgr = (u', Inr ()) \<and> map_wf u' \<and>
    dom (map_of u') = dom (map_of u) \<union> (\<lambda>w. constructCompositeKey ns (wrKey w)) ` set ws \<and>
    overlay u' (state_of contents mgr) =
      fold spec_write (map (\<lambda>w. (constructCompositeKey ns (wrKey w), wrValue w)) ws)
        (overlay u (state_of contents mgr))"
  using assms(2)
proof (induction ws arbitrary: u)
  case (Cons w ws)
  let ?ck = "constructCompositeKey ns (wrKey w)"
  let ?W = "state_of contents mgr"
  let ?u = "us_add u ?ck \<lparr>vvalue = wrValue w, vversion = snd (overlay u ?W ?ck) + 1\<rparr>"
  have step: "addWrites L ns (w # ws) u mgr = addWrites L ns ws ?u mgr"
    using assms(1)
    by (simp add: Let_def us_get_def overlay_def getCommitedVersion_total split: option.split)
  have "map_wf ?u" using Cons.prems by (auto simp: us_add_def)
  moreover have "dom (map_of ?u) = insert ?ck (dom (map_of u))" by (simp add: us_add_def)
  moreover have "overlay ?u ?W = spec_write (?ck, wrValue w) (overlay u ?W)"
    by (simp add: overlay_us_add spec_write_def)
  ultimately show ?case using Cons.IH [of ?u] step by simp
qed simp

lemma addNs_total:
  assumes "dbhandle (tmDB mgr) \<noteq> None" and "map_wf u"
  shows "\<exists>u'. addNs L ns u mgr = (u', Inr ()) \<and> map_wf u' \<and>
    dom (map_of u') = dom (map_of u) \<union> fst ` set (tx_writes \<lparr>NsRWs = ns\<rparr>) \<and>
    overlay u' (state_of contents mgr) = spec_apply \<lparr>NsRWs = ns\<rparr> (overlay u (state_of contents mgr))"
  using assms(2)
proof (induction ns arbitrary: u)
  case (Cons n ns)
  obtain u1 where u1: "addWrites L (NameSpace n) (Writes n) u mgr = (u1, Inr ())" "map_wf u1"
    "dom (map_of u1) = dom (map_of u) \<union> (\<lambda>w. constructCompositeKey (NameSpace n) (wrKey w)) ` set (Writes n)"
    "overlay u1 (state_of contents mgr) =
       fold spec_write (map (\<lambda>w. (constructCompositeKey (NameSpace n) (wrKey w), wrValue w)) (Writes n))
         (overlay u (state_of contents mgr))"
    using addWrites_total [OF assms(1) Cons.prems] by blast
  with Cons.IH [of u1] show ?case
    by (simp add: tx_writes_Cons spec_apply_def image_Un image_image Un_assoc)
qed (simp add: spec_apply_def)

lemma addWriteSetToBatch_total:
  assumes "dbhandle (tmDB mgr) \<noteq> None" and "tmUpdateSet mgr = Some u" and "map_wf u"
  shows "\<exists>u'. addWriteSetToBatch L tx mgr = (mgr\<lparr>tmUpdateSet := Some u'\<rparr>, Inr ()) \<and> map_wf u' \<and>
    dom (map_of u') = dom (map_of u) \<union> fst ` set (tx_writes tx) \<and>
    overlay u' (state_of contents mgr) = spec_apply tx (overlay u (state_of contents mgr))"
proof (cases tx)
  case (fields ns)
  obtain u' where "addNs L ns u mgr = (u', Inr ())" "map_wf u'"
    "dom (map_of u') = dom (map_of u) \<union> fst ` set (tx_writes tx)"
    "overlay u' (state_of contents mgr) = spec_apply tx (overlay u (state_of contents mgr))"
    using addNs_total [OF assms(1,3), of ns] fields by auto
  then show ?thesis
    using assms(2) fields by (intro exI [of _ u']) (simp add: addWriteSetToBatch_def)
qed

lemma validateLoop_total:
  assumes "list_all2 (decodes getAction) envs txs"
    and "dbhandle (tmDB mgr) \<noteq> None" and "tmUpdateSet mgr = Some u" and "map_wf u"
    and "mvcc_block (state_of contents mgr) (dom (map_of u)) (overlay u (state_of contents mgr)) txs
      = (W', flags)"
  shows "\<exists>u'. validateLoop L getAction envs vb invalidTxs mgr =
      (mgr\<lparr>tmUpdateSet := Some u'\<rparr>,
       Inr (vb\<lparr>Transactions := Transactions vb @ select flags envs\<rparr>,
            invalidTxs @ replicate (length (filter Not flags)) RWConflictDuringCommit)) \<and>
    map_wf u' \<and> overlay u' (state_of contents mgr) = W'"
  using assms
proof (induction envs txs arbitrary: u mgr vb invalidTxs flags rule: list_all2_induct)
  case Nil
  then show ?case by (auto intro: exI [of _ u])
next
  case (Cons env envs tx txs)
  note dec = Cons.hyps(1) [unfolded decodes_def]
  note tx_valid = validateTx_total [OF Cons.prems(1,2), of tx]
  show ?case
  proof (cases "mvcc_valid (state_of contents mgr) (dom (map_of u)) tx")
    case True
    obtain u1 where u1: "addWriteSetToBatch L tx mgr = (mgr\<lparr>tmUpdateSet := Some u1\<rparr>, Inr ())"
      "map_wf u1" "dom (map_of u1) = dom (map_of u) \<union> fst ` set (tx_writes tx)"
      "overlay u1 (state_of contents mgr) = spec_apply tx (overlay u (state_of contents mgr))"
      using addWriteSetToBatch_total [OF Cons.prems(1,2,3)] by blast
    from Cons.prems(4) True u1(3,4) obtain flags' where
      blk: "mvcc_block (state_of contents (mgr\<lparr>tmUpdateSet := Some u1\<rparr>)) (dom (map_of u1))
          (overlay u1 (state_of contents (mgr\<lparr>tmUpdateSet := Some u1\<rparr>))) txs = (W', flags')"
        and fl: "flags = True # flags'"
      by (auto simp: state_of_def split: prod.splits)
    show ?thesis
      using Cons.IH [OF _ _ u1(2) blk, of "vb\<lparr>Transactions := Transactions vb @ [env]\<rparr>" invalidTxs]
        Cons.prems(1) dec tx_valid True u1(1) fl by (simp add: state_of_def)
  next
    case False
    from Cons.prems(4) False obtain flags' where
      blk: "mvcc_block (state_of contents mgr) (dom (map_of u)) (overlay u (state_of contents mgr)) txs
        = (W', flags')" and fl: "flags = False # flags'"
      by (auto split: prod.splits)
    show ?thesis
      using Cons.IH [OF Cons.prems(1,2,3) blk, of vb "invalidTxs @ [RWConflictDuringCommit]"]
        dec tx_valid False fl by simp
  qed
qed

lemma Commit_total:
  assumes "order_ok ord" and "dbhandle (tmDB mgr) \<noteq> None" and "tmUpdateSet mgr = Some u" and "map_wf u"
  shows "\<exists>d. Commit L ord mgr = (mgr\<lparr>tmUpdateSet := None, tmDB := d\<rparr>, Inr ()) \<and>
    dbhandle d \<noteq> None \<and>
    state_of contents (mgr\<lparr>tmUpdateSet := None, tmDB := d\<rparr>) = overlay u (state_of contents mgr)"
proof -
  let ?b = "map (\<lambda>(k, v). (k, encodeValue (vvalue v) (vversion v))) (ord u)"
  obtain d where d: "DB_WriteBatch L (tmDB mgr) ?b = Inr d" "dbhandle d \<noteq> None"
    using DB_WriteBatch_total [OF assms(2)] by blast
  have "state_of contents (mgr\<lparr>tmUpdateSet := None, tmDB := d\<rparr>) = overlay u (state_of contents mgr)"
    using DB_WriteBatch_view [OF d(1)] wread_commit [OF assms(1,4)] by (simp add: state_of_def)
  then show ?thesis
    using assms(3) d by (intro exI [of _ d]) (simp add: Commit_def)
qed

end

section \<open>Validation decides the sequential specification\<close>

lemma snd_spec_writes:
  "snd (fold spec_write ws V ck) = snd (V ck) + of_nat (count_list (map fst ws) ck)"
  by (induction ws arbitrary: V) (auto simp: spec_write_def)

lemma spec_writes_other: "ck \<notin> fst ` set ws \<Longrightarrow> fold spec_write ws V ck = V ck"
  by (induction ws arbitrary: V) (auto simp: spec_write_def)

lemma count_list_pos: "x \<in> set xs \<Longrightarrow> 0 < count_list xs x"
  using count_list_0_iff [of xs x] by simp

lemma spec_block_flags_length: "spec_block W txs = (W', flags) \<Longrightarrow> length flags = length txs"
  by (induction txs arbitrary: W W' flags) (auto simp: Let_def split: prod.splits)

text \<open>
  A key that the block has written carries a version above the committed one, so a read at or below
  the committed version fails the sequential test too; an unwritten key still has its committed
  version.
\<close>

lemma mvcc_valid_spec_valid:
  assumes "\<forall>ck. \<exists>c. snd (V ck) = snd (W ck) + of_nat c \<and> (c = 0 \<longleftrightarrow> ck \<notin> D) \<and>
      unat (snd (W ck)) + c < 2 ^ 64"
    and "\<forall>(ck, ver) \<in> set (tx_reads tx). ver \<le> snd (W ck)"
  shows "mvcc_valid W D tx \<longleftrightarrow> spec_valid V tx"
proof -
  have "ck \<notin> D \<and> snd (W ck) = ver \<longleftrightarrow> snd (V ck) = ver" if "(ck, ver) \<in> set (tx_reads tx)" for ck ver
  proof -
    obtain c where c: "snd (V ck) = snd (W ck) + of_nat c" "c = 0 \<longleftrightarrow> ck \<notin> D"
      "unat (snd (W ck)) + c < 2 ^ 64"
      using assms(1) by blast
    have le: "ver \<le> snd (W ck)" using assms(2) that by auto
    have "unat (snd (V ck)) = unat (snd (W ck)) + c"
      using c(1,3) by (simp add: unat_word_ariths unsigned_of_nat take_bit_eq_mod)
    then show ?thesis
      using c(1,2) le by (cases "c = 0") (auto simp: word_le_nat_alt)
  qed
  then show ?thesis unfolding mvcc_valid_def spec_valid_def list_all_iff by fast
qed

lemma mvcc_block_spec_block:
  assumes "\<forall>ck. \<exists>c \<le> k. snd (V ck) = snd (W ck) + of_nat c \<and> (c = 0 \<longleftrightarrow> ck \<notin> D)"
    and "\<forall>ck. unat (snd (W ck)) + k + length (concat (map tx_writes txs)) < 2 ^ 64"
    and "\<forall>tx \<in> set txs. \<forall>(ck, ver) \<in> set (tx_reads tx). ver \<le> snd (W ck)"
  shows "mvcc_block W D V txs = spec_block V txs"
  using assms
proof (induction txs arbitrary: D V k)
  case (Cons tx txs)
  have c: "\<forall>ck. \<exists>c. snd (V ck) = snd (W ck) + of_nat c \<and> (c = 0 \<longleftrightarrow> ck \<notin> D) \<and>
      unat (snd (W ck)) + c < 2 ^ 64"
  proof
    fix ck
    obtain c where "c \<le> k" "snd (V ck) = snd (W ck) + of_nat c" "c = 0 \<longleftrightarrow> ck \<notin> D"
      using Cons.prems(1) by blast
    moreover have "unat (snd (W ck)) + k < 2 ^ 64"
      using Cons.prems(2) [rule_format, of ck] by linarith
    ultimately show "\<exists>c. snd (V ck) = snd (W ck) + of_nat c \<and> (c = 0 \<longleftrightarrow> ck \<notin> D) \<and>
        unat (snd (W ck)) + c < 2 ^ 64"
      by (intro exI [of _ c]) linarith
  qed
  have same: "mvcc_valid W D tx \<longleftrightarrow> spec_valid V tx"
    using mvcc_valid_spec_valid [OF c] Cons.prems(3) by simp
  have "mvcc_block W (D \<union> fst ` set (tx_writes tx)) (spec_apply tx V) txs =
      spec_block (spec_apply tx V) txs"
  proof (rule Cons.IH [where k = "k + length (tx_writes tx)"])
    show "\<forall>ck. \<exists>c \<le> k + length (tx_writes tx). snd (spec_apply tx V ck) = snd (W ck) + of_nat c \<and>
        (c = 0 \<longleftrightarrow> ck \<notin> D \<union> fst ` set (tx_writes tx))"
    proof
      fix ck
      let ?n = "count_list (map fst (tx_writes tx)) ck"
      obtain c where "c \<le> k" "snd (V ck) = snd (W ck) + of_nat c" "c = 0 \<longleftrightarrow> ck \<notin> D"
        using Cons.prems(1) by blast
      moreover have "?n \<le> length (tx_writes tx)"
        using count_le_length [of "map fst (tx_writes tx)" ck] by simp
      moreover have "?n = 0 \<longleftrightarrow> ck \<notin> fst ` set (tx_writes tx)"
        by (simp add: count_list_0_iff)
      ultimately show "\<exists>c \<le> k + length (tx_writes tx). snd (spec_apply tx V ck) = snd (W ck) + of_nat c \<and>
          (c = 0 \<longleftrightarrow> ck \<notin> D \<union> fst ` set (tx_writes tx))"
        by (intro exI [of _ "c + ?n"]) (simp add: spec_apply_def snd_spec_writes)
    qed
  next
    show "\<forall>ck. unat (snd (W ck)) + (k + length (tx_writes tx)) + length (concat (map tx_writes txs)) < 2 ^ 64"
      using Cons.prems(2) by (simp add: add.assoc)
  qed (use Cons.prems(3) in simp)
  moreover have "mvcc_block W D V txs = spec_block V txs"
  proof (rule Cons.IH [OF Cons.prems(1)])
    show "\<forall>ck. unat (snd (W ck)) + k + length (concat (map tx_writes txs)) < 2 ^ 64"
    proof
      fix ck
      show "unat (snd (W ck)) + k + length (concat (map tx_writes txs)) < 2 ^ 64"
        using Cons.prems(2) [rule_format, of ck] by simp
    qed
  qed (use Cons.prems(3) in simp)
  ultimately show ?case by (simp add: same Let_def)
qed simp

lemma ValidateAndPrepare_spec:
  assumes "leveldb_reliable L contents" and "dbhandle (tmDB mgr) \<noteq> None"
    and "list_all2 (decodes getAction) (Transactions block) txs"
    and "\<forall>tx \<in> set txs. \<forall>(ck, ver) \<in> set (tx_reads tx). ver \<le> snd (state_of contents mgr ck)"
    and "\<forall>ck. unat (snd (state_of contents mgr ck)) + length (concat (map tx_writes txs)) < 2 ^ 64"
    and "spec_block (state_of contents mgr) txs = (W', flags)"
  obtains u where "ValidateAndPrepare L getAction block mgr =
      (mgr\<lparr>tmUpdateSet := Some u\<rparr>,
       Inr (block\<lparr>Transactions := select flags (Transactions block)\<rparr>,
            replicate (length (filter Not flags)) RWConflictDuringCommit))"
    "map_wf u" "overlay u (state_of contents mgr) = W'"
proof -
  let ?mgr = "mgr\<lparr>tmUpdateSet := Some newUpdateSet\<rparr>"
  have st: "state_of contents ?mgr = state_of contents mgr" by (simp add: state_of_def)
  have "mvcc_block (state_of contents mgr) {} (state_of contents mgr) txs = (W', flags)"
    using assms(4,5,6) by (subst mvcc_block_spec_block [where k = 0]) auto
  moreover have "dom (map_of newUpdateSet) = {}" and wf: "map_wf newUpdateSet"
    by (simp_all add: newUpdateSet_def map_wf_def)
  ultimately have blk: "mvcc_block (state_of contents ?mgr) (dom (map_of newUpdateSet))
      (overlay newUpdateSet (state_of contents ?mgr)) txs = (W', flags)"
    by (simp only: st overlay_Nil)
  show thesis
    using leveldb_reliable.validateLoop_total [OF assms(1,3) _ _ wf blk,
        of "\<lparr>PreviousBlockHash = PreviousBlockHash block, Transactions = []\<rparr>" "[]"] assms(2) st that
    by (cases block) (auto simp: ValidateAndPrepare_def)
qed

lemma ValidateAndPrepare_Commit_spec:
  assumes "leveldb_reliable L contents" and "dbhandle (tmDB mgr) \<noteq> None" and "order_ok ord"
    and "list_all2 (decodes getAction) (Transactions block) txs"
    and "\<forall>tx \<in> set txs. \<forall>(ck, ver) \<in> set (tx_reads tx). ver \<le> snd (state_of contents mgr ck)"
    and "\<forall>ck. unat (snd (state_of contents mgr ck)) + length (concat (map tx_writes txs)) < 2 ^ 64"
    and "spec_block (state_of contents mgr) txs = (W', flags)"
  shows "\<exists>mgr1 mgr2. ValidateAndPrepare L getAction block mgr =
      (mgr1, Inr (block\<lparr>Transactions := select flags (Transactions block)\<rparr>,
                  replicate (length (filter Not flags)) RWConflictDuringCommit)) \<and>
    state_of contents mgr1 = state_of contents mgr \<and>
    Commit L ord mgr1 = (mgr2, Inr ()) \<and> state_of contents mgr2 = W' \<and> tmUpdateSet mgr2 = None"
proof -
  obtain u where u: "ValidateAndPrepare L getAction block mgr =
      (mgr\<lparr>tmUpdateSet := Some u\<rparr>,
       Inr (block\<lparr>Transactions := select flags (Transactions block)\<rparr>,
            replicate (length (filter Not flags)) RWConflictDuringCommit))"
      "map_wf u" "overlay u (state_of contents mgr) = W'"
    by (rule ValidateAndPrepare_spec [OF assms(1,2,4-7)])
  then show ?thesis
    using leveldb_reliable.Commit_total [OF assms(1,3), of "mgr\<lparr>tmUpdateSet := Some u\<rparr>" u] assms(2)
    by (auto simp: state_of_def)
qed

text \<open>
  C7: Validating a block and committing it implements the sequential specification: taking the
  transactions in block order, \<open>ValidateAndPrepare\<close> keeps exactly the ones the specification finds
  valid and reports one conflict for each other one, leaves the committed state alone, and \<open>Commit\<close>
  then makes the state the one the specification ends in. It needs versions that were read at or
  below the committed ones and versions that do not wrap.
\<close>

theorem mvcc_refines_sequential_spec:
  assumes "leveldb_reliable L contents" and "dbhandle (tmDB mgr) \<noteq> None" and "order_ok ord"
    and "list_all2 (decodes getAction) (Transactions block) txs"
    and "\<forall>tx \<in> set txs. \<forall>(ck, ver) \<in> set (tx_reads tx). ver \<le> snd (state_of contents mgr ck)"
    and "\<forall>ck. unat (snd (state_of contents mgr ck)) + length (concat (map tx_writes txs)) < 2 ^ 64"
    and "spec_block (state_of contents mgr) txs = (W', flags)"
  shows "\<exists>mgr1 mgr2. ValidateAndPrepare L getAction block mgr =
      (mgr1, Inr (block\<lparr>Transactions := select flags (Transactions block)\<rparr>,
                  replicate (length (filter Not flags)) RWConflictDuringCommit)) \<and>
    state_of contents mgr1 = state_of contents mgr \<and>
    Commit L ord mgr1 = (mgr2, Inr ()) \<and> state_of contents mgr2 = W' \<and> tmUpdateSet mgr2 = None"
  using assms by (rule ValidateAndPrepare_Commit_spec)

text \<open>
  Two transactions that both read key 1 at version 0 and write it, then one that only reads key 2:
  the first and the third are valid.
\<close>

definition example_tx :: "bytes \<Rightarrow> bytes option \<Rightarrow> TxReadWriteSet" where
  "example_tx k v = \<lparr>NsRWs = [\<lparr>NameSpace = [99], Reads = [NewKVRead k 0],
     Writes = (case v of None \<Rightarrow> [] | Some x \<Rightarrow> [NewKVWrite k (Some x)])\<rparr>]\<rparr>"

definition example_txs :: "TxReadWriteSet list" where
  "example_txs = [example_tx [1] (Some [7]), example_tx [1] (Some [8]), example_tx [2] None]"

definition example_block :: Block2 where
  "example_block = \<lparr>PreviousBlockHash = None, Transactions = map TxReadWriteSet_Marshal example_txs\<rparr>"

definition example_mgr :: "memdb LockBasedTxMgr" where
  "example_mgr = \<lparr>tmDB = \<lparr>dbhandle = Some RBT.empty, dbState = opened\<rparr>, tmUpdateSet = None, tmReaders = 0\<rparr>"

lemma state_of_example: "state_of RBT.lookup example_mgr = (\<lambda>_. (None, 0))"
  by (simp add: state_of_def example_mgr_def wread_def db_view_def fun_eq_iff)

lemma mvcc_refines_sequential_spec_witness:
  "\<exists>mgr1 mgr2. ValidateAndPrepare mem_ops Inr example_block example_mgr =
      (mgr1, Inr (example_block\<lparr>Transactions :=
         map TxReadWriteSet_Marshal [example_tx [1] (Some [7]), example_tx [2] None]\<rparr>,
       [RWConflictDuringCommit])) \<and>
     Commit mem_ops (\<lambda>m. m) mgr1 = (mgr2, Inr ()) \<and>
     state_of RBT.lookup mgr2 = (\<lambda>_. (None, 0))([99, 0, 1] := (Some [7], 1))"
proof -
  have dec: "list_all2 (decodes Inr) (Transactions example_block) example_txs"
    by (simp add: example_block_def example_txs_def decodes_def) code_simp
  have blk: "spec_block (state_of RBT.lookup example_mgr) example_txs =
      ((\<lambda>_. (None, 0))([99, 0, 1] := (Some [7], 1)), [True, False, True])"
    by (simp add: state_of_example example_txs_def example_tx_def spec_valid_def spec_apply_def
        tx_reads_def tx_writes_def spec_write_def NewKVRead_def NewKVWrite_def SetValue_def
        constructCompositeKey_def compositeKeySep_def)
  have old: "\<forall>tx \<in> set example_txs. \<forall>(ck, ver) \<in> set (tx_reads tx).
      ver \<le> snd (state_of RBT.lookup example_mgr ck)"
    by (simp add: state_of_example example_txs_def example_tx_def tx_reads_def NewKVRead_def)
  have room: "\<forall>ck. unat (snd (state_of RBT.lookup example_mgr ck)) +
      length (concat (map tx_writes example_txs)) < 2 ^ 64"
    by (simp add: state_of_example example_txs_def example_tx_def tx_writes_def)
  have opn: "dbhandle (tmDB example_mgr) \<noteq> None"
    by (simp add: example_mgr_def)
  have kept: "select [True, False, True] (Transactions example_block) =
      map TxReadWriteSet_Marshal [example_tx [1] (Some [7]), example_tx [2] None]"
    by (simp add: example_block_def example_txs_def)
  show ?thesis
    using mvcc_refines_sequential_spec [OF mem.leveldb_reliable_axioms opn order_ok_id dec old room blk]
    unfolding kept by auto
qed

end
