(* ===== verification/TxSimulator.thy ===== *)
theory TxSimulator
  imports TxMgr
begin

text \<open>
  The transaction simulator (core/ledger/kvledger/txmgmt/lockbasedtxmgmt/lockbased_tx_simulator.go):
  it runs a transaction against the committed state, collects what the transaction reads and writes,
  and turns that into the read-write set which the manager validates at commit time. The main result
  is that a block of simulated transactions, once validated and committed, leaves the world state
  that running the valid ones directly, one after the other, would leave.
\<close>

section \<open>State\<close>

record kvReadCache =
  kvRead :: KVRead
  cachedValue :: nbytes

record nsRWs =
  readMap :: "(gostring, kvReadCache) gomap"
  writeMap :: "(gostring, KVWrite) gomap"

definition newNsRWs :: nsRWs where
  "newNsRWs = \<lparr>readMap = [], writeMap = []\<rparr>"

text \<open>The simulator embeds the query executor.\<close>

record LockBasedTxSimulator = RWLockQueryExecutor +
  rwMap :: "(gostring, nsRWs) gomap"

definition NewTxSimulator :: "'db LockBasedTxMgr \<Rightarrow> LockBasedTxSimulator \<times> 'db LockBasedTxMgr" where
  "NewTxSimulator mgr = (\<lparr>qdone = False, rwMap = []\<rparr>, mgr\<lparr>tmReaders := Suc (tmReaders mgr)\<rparr>)"

definition getOrCreateNsRWHolder :: "LockBasedTxSimulator \<Rightarrow> gostring \<Rightarrow> nsRWs \<times> LockBasedTxSimulator" where
  "getOrCreateNsRWHolder s ns =
     (case map_of (rwMap s) ns of
        Some n \<Rightarrow> (n, s)
      | None \<Rightarrow> (newNsRWs, s\<lparr>rwMap := mput ns newNsRWs (rwMap s)\<rparr>))"

text \<open>The holder is shared with \<open>rwMap\<close>: updating it writes it back.\<close>

definition putNs :: "gostring \<Rightarrow> nsRWs \<Rightarrow> LockBasedTxSimulator \<Rightarrow> LockBasedTxSimulator" where
  "putNs ns n s = s\<lparr>rwMap := mput ns n (rwMap s)\<rparr>"

section \<open>Operations\<close>

definition sim_GetState ::
  "'db leveldb_ops \<Rightarrow> 'db LockBasedTxMgr \<Rightarrow> LockBasedTxSimulator \<Rightarrow> gostring \<Rightarrow> gostring \<Rightarrow>
   LockBasedTxSimulator \<times> (error + nbytes)" where
  "sim_GetState L mgr s ns key =
     (case checkDone (qdone s) of
        Inl err \<Rightarrow> (s, Inl err)
      | Inr _ \<Rightarrow>
         (let (n, s) = getOrCreateNsRWHolder s ns in
          case map_of (writeMap n) key of
            Some kvWrite \<Rightarrow> (s, Inr (wrValue kvWrite))
          | None \<Rightarrow>
             (case map_of (readMap n) key of
                Some readCache \<Rightarrow> (s, Inr (cachedValue readCache))
              | None \<Rightarrow>
                 (case getCommittedValueAndVersion L mgr ns key of
                    Inl err \<Rightarrow> (s, Inl err)
                  | Inr (value, version) \<Rightarrow>
                      (putNs ns (n\<lparr>readMap := mput key
                          \<lparr>kvRead = NewKVRead key version, cachedValue = value\<rparr> (readMap n)\<rparr>) s,
                       Inr value)))))"

definition sim_GetStateRangeScanIterator ::
  "'db leveldb_ops \<Rightarrow> 'db LockBasedTxMgr \<Rightarrow> LockBasedTxSimulator \<Rightarrow> gostring \<Rightarrow> gostring \<Rightarrow> gostring \<Rightarrow>
   error + kvScanner" where
  "sim_GetStateRangeScanIterator L mgr s namespace startKey endKey =
     bindE (checkDone (qdone s)) (\<lambda>_. getCommittedRangeScanner L mgr namespace startKey endKey)"

definition SetState ::
  "LockBasedTxSimulator \<Rightarrow> gostring \<Rightarrow> gostring \<Rightarrow> nbytes \<Rightarrow> LockBasedTxSimulator \<times> (error + unit)" where
  "SetState s ns key value =
     (case checkDone (qdone s) of
        Inl err \<Rightarrow> (s, Inl err)
      | Inr _ \<Rightarrow>
         (let (n, s) = getOrCreateNsRWHolder s ns in
          case map_of (writeMap n) key of
            Some kvWrite \<Rightarrow>
              (putNs ns (n\<lparr>writeMap := mput key (SetValue kvWrite value) (writeMap n)\<rparr>) s, Inr ())
          | None \<Rightarrow>
              (putNs ns (n\<lparr>writeMap := mput key (NewKVWrite key value) (writeMap n)\<rparr>) s, Inr ())))"

definition DeleteState ::
  "LockBasedTxSimulator \<Rightarrow> gostring \<Rightarrow> gostring \<Rightarrow> LockBasedTxSimulator \<times> (error + unit)" where
  "DeleteState s ns key = SetState s ns key None"

fun setAll ::
  "LockBasedTxSimulator \<Rightarrow> gostring \<Rightarrow> (gostring \<times> nbytes) list \<Rightarrow> LockBasedTxSimulator \<times> (error + unit)" where
  "setAll s ns [] = (s, Inr ())"
| "setAll s ns ((k, v) # kvs) =
     (case SetState s ns k v of
        (s, Inl err) \<Rightarrow> (s, Inl err)
      | (s, Inr _) \<Rightarrow> setAll s ns kvs)"

definition SetStateMultipleKeys ::
  "(gostring, nbytes) map_order \<Rightarrow> LockBasedTxSimulator \<Rightarrow> gostring \<Rightarrow> (gostring, nbytes) gomap \<Rightarrow>
   LockBasedTxSimulator \<times> (error + unit)" where
  "SetStateMultipleKeys ord s namespace kvs = setAll s namespace (ord kvs)"

definition ExecuteUpdate :: "gostring \<Rightarrow> error + unit" where
  "ExecuteUpdate query = Inl ErrNotSupported"

text \<open>
  \<open>getSortedKeys\<close> returns the keys in the order \<open>MapKeys\<close> gives them, which the language
  leaves open: it does not sort. The three orders are those of the namespaces, the read keys and the
  write keys.
\<close>

definition getSortedKeys :: "('k, 'v) map_order \<Rightarrow> ('k, 'v) gomap \<Rightarrow> 'k list" where
  "getSortedKeys ord m = map fst (ord m)"

record rw_orders =
  nsOrd :: "(gostring, nsRWs) map_order"
  rdOrd :: "(gostring, kvReadCache) map_order"
  wrOrd :: "(gostring, KVWrite) map_order"

definition getTxReadWriteSet :: "rw_orders \<Rightarrow> LockBasedTxSimulator \<Rightarrow> TxReadWriteSet" where
  "getTxReadWriteSet ords s =
     \<lparr>NsRWs = map (\<lambda>ns.
        let n = the (map_of (rwMap s) ns) in
        \<lparr>NameSpace = ns,
         Reads = map (\<lambda>key. kvRead (the (map_of (readMap n) key))) (getSortedKeys (rdOrd ords) (readMap n)),
         Writes = map (\<lambda>key. the (map_of (writeMap n) key)) (getSortedKeys (wrOrd ords) (writeMap n))\<rparr>)
      (getSortedKeys (nsOrd ords) (rwMap s))\<rparr>"

definition GetTxSimulationResults :: "rw_orders \<Rightarrow> LockBasedTxSimulator \<Rightarrow> bytes" where
  "GetTxSimulationResults ords s = TxReadWriteSet_Marshal (getTxReadWriteSet ords s)"

text \<open>\<open>sKVItr.Next\<close> records the read of every key it returns.\<close>

function sitr_Next ::
  "kvScanner \<Rightarrow> LockBasedTxSimulator \<Rightarrow>
   error + (gostring \<times> nbytes) option \<times> kvScanner \<times> LockBasedTxSimulator" where
  "sitr_Next itr s =
     (case scanner_next itr of
        Inl err \<Rightarrow> Inl err
      | Inr (None, itr') \<Rightarrow> Inr (None, itr', s)
      | Inr (Some c, itr') \<Rightarrow>
          if isDelete c then sitr_Next itr' s
          else let (n, s) = getOrCreateNsRWHolder s (scNamespace itr') in
            Inr (Some (ckKey c, ckValue c), itr',
              putNs (scNamespace itr') (n\<lparr>readMap := mput (ckKey c)
                \<lparr>kvRead = \<lparr>rdKey = ckKey c, rdVersion = ckVersion c\<rparr>, cachedValue = ckValue c\<rparr> (readMap n)\<rparr>) s))"
  by pat_completeness auto
termination
  by (relation "measure (\<lambda>(itr, s). length (scItr itr))") (auto dest: scanner_next_shrinks)

declare sitr_Next.simps [simp del]

section \<open>What a simulator has read and written\<close>

definition sim_write :: "LockBasedTxSimulator \<Rightarrow> gostring \<Rightarrow> gostring \<Rightarrow> KVWrite option" where
  "sim_write s ns key = Option.bind (map_of (rwMap s) ns) (\<lambda>n. map_of (writeMap n) key)"

definition sim_read :: "LockBasedTxSimulator \<Rightarrow> gostring \<Rightarrow> gostring \<Rightarrow> kvReadCache option" where
  "sim_read s ns key = Option.bind (map_of (rwMap s) ns) (\<lambda>n. map_of (readMap n) key)"

text \<open>
  The invariant: the maps have distinct keys, a read or write stored under a key is of that key, and
  a write is a delete exactly when its value is nil. Against a committed state \<open>W\<close>, every cached
  read is the value and version of \<open>W\<close>.
\<close>

definition ns_inv :: "nsRWs \<Rightarrow> bool" where
  "ns_inv n \<longleftrightarrow> map_wf (readMap n) \<and> map_wf (writeMap n) \<and>
     (\<forall>k c. map_of (readMap n) k = Some c \<longrightarrow> rdKey (kvRead c) = k) \<and>
     (\<forall>k w. map_of (writeMap n) k = Some w \<longrightarrow> wrKey w = k \<and> write_wf w)"

definition sim_inv :: "LockBasedTxSimulator \<Rightarrow> bool" where
  "sim_inv s \<longleftrightarrow> map_wf (rwMap s) \<and> (\<forall>ns n. map_of (rwMap s) ns = Some n \<longrightarrow> ns_inv n)"

definition reads_from :: "wstate \<Rightarrow> LockBasedTxSimulator \<Rightarrow> bool" where
  "reads_from W s \<longleftrightarrow> (\<forall>ns key c. sim_read s ns key = Some c \<longrightarrow>
     (cachedValue c, rdVersion (kvRead c)) = W (constructCompositeKey ns key))"

text \<open>Facts that carry the operation proofs.\<close>

lemma sim_inv_new: "NewTxSimulator mgr = (s, mgr') \<Longrightarrow> sim_inv s \<and> reads_from W s \<and> qdone s = False \<and> rwMap s = []"
  by (auto simp: NewTxSimulator_def sim_inv_def reads_from_def sim_read_def)

lemma ns_inv_new: "ns_inv newNsRWs"
  by (simp add: ns_inv_def newNsRWs_def)

lemma sim_inv_putNs: "sim_inv s \<Longrightarrow> ns_inv n \<Longrightarrow> sim_inv (putNs ns n s)"
  by (auto simp: sim_inv_def putNs_def split: if_splits)

lemma sim_rw_putNs:
  "sim_write (putNs ns n s) ns' key = (if ns' = ns then map_of (writeMap n) key else sim_write s ns' key)"
  "sim_read (putNs ns n s) ns' key = (if ns' = ns then map_of (readMap n) key else sim_read s ns' key)"
  "dom (map_of (rwMap (putNs ns n s))) = insert ns (dom (map_of (rwMap s)))"
  "qdone (putNs ns n s) = qdone s"
  by (auto simp: sim_write_def sim_read_def putNs_def)

lemma getOrCreateNsRWHolder_props:
  assumes "getOrCreateNsRWHolder s ns = (n, s')" and "sim_inv s"
  shows "sim_inv s'" "ns_inv n" "map_of (writeMap n) = sim_write s ns" "map_of (readMap n) = sim_read s ns"
    "sim_write s' = sim_write s" "sim_read s' = sim_read s"
    "dom (map_of (rwMap s')) = insert ns (dom (map_of (rwMap s)))" "qdone s' = qdone s"
proof -
  have new: "sim_inv s'" "ns_inv n"
    using assms sim_inv_putNs [OF assms(2) ns_inv_new, of ns] ns_inv_new
    by (auto simp: getOrCreateNsRWHolder_def putNs_def sim_inv_def split: option.splits)
  then show "sim_inv s'" "ns_inv n" by simp_all
  show "map_of (writeMap n) = sim_write s ns" "map_of (readMap n) = sim_read s ns"
    "sim_write s' = sim_write s" "sim_read s' = sim_read s"
    "dom (map_of (rwMap s')) = insert ns (dom (map_of (rwMap s)))" "qdone s' = qdone s"
    using assms(1)
    by (auto simp: getOrCreateNsRWHolder_def sim_write_def sim_read_def newNsRWs_def fun_eq_iff
        split: option.splits)
qed

text \<open>The effect of the operations on what has been read and written.\<close>

lemma SetState_props:
  assumes "SetState s ns key value = (s', r)" and "sim_inv s" and "\<not> qdone s"
  shows "r = Inr ()" "sim_inv s'" "sim_read s' = sim_read s" "\<not> qdone s'"
    "dom (map_of (rwMap s')) = insert ns (dom (map_of (rwMap s)))"
    "map_option wrValue (sim_write s' ns' key') =
      (if ns' = ns \<and> key' = key then Some value else map_option wrValue (sim_write s ns' key'))"
proof -
  obtain n s1 where h: "getOrCreateNsRWHolder s ns = (n, s1)" by fastforce
  note hp = getOrCreateNsRWHolder_props [OF h assms(2)]
  define w where "w = (case map_of (writeMap n) key of Some w \<Rightarrow> SetValue w value | None \<Rightarrow> NewKVWrite key value)"
  let ?n = "n\<lparr>writeMap := mput key w (writeMap n)\<rparr>"
  have s': "s' = putNs ns ?n s1" and r: "r = Inr ()"
    using assms(1,3) h by (auto simp: SetState_def checkDone_def w_def split: option.splits)
  have w: "wrKey w = key" "write_wf w" "wrValue w = value"
    using hp(2) by (auto simp: w_def ns_inv_def NewKVWrite_def SetValue_def write_wf_def split: option.splits)
  have "ns_inv ?n"
    using hp(2) w(1,2) by (auto simp: ns_inv_def)
  then show "sim_inv s'" unfolding s' by (rule sim_inv_putNs [OF hp(1)])
  show "r = Inr ()" "sim_read s' = sim_read s" "\<not> qdone s'"
    "dom (map_of (rwMap s')) = insert ns (dom (map_of (rwMap s)))"
    "map_option wrValue (sim_write s' ns' key') =
      (if ns' = ns \<and> key' = key then Some value else map_option wrValue (sim_write s ns' key'))"
    using hp r w(3) assms(3) by (auto simp: s' sim_rw_putNs fun_eq_iff)
qed

context leveldb_reliable
begin

lemma sim_GetState_props:
  assumes "sim_GetState L mgr s ns key = (s', r)" and "sim_inv s" and "\<not> qdone s"
    and "reads_from (state_of contents mgr) s" and "dbhandle (tmDB mgr) \<noteq> None"
  shows "r = Inr (case sim_write s ns key of Some w \<Rightarrow> wrValue w
      | None \<Rightarrow> fst (state_of contents mgr (constructCompositeKey ns key)))"
    "sim_inv s'" "reads_from (state_of contents mgr) s'" "sim_write s' = sim_write s" "\<not> qdone s'"
    "dom (map_of (rwMap s')) = insert ns (dom (map_of (rwMap s)))"
    "sim_write s ns key = None \<Longrightarrow> sim_read s' ns key \<noteq> None"
    "sim_read s ns' key' = Some c \<Longrightarrow> sim_read s' ns' key' = Some c"
proof -
  let ?W = "state_of contents mgr"
  let ?ck = "constructCompositeKey ns key"
  obtain n s1 where h: "getOrCreateNsRWHolder s ns = (n, s1)" by fastforce
  note hp = getOrCreateNsRWHolder_props [OF h assms(2)]
  let ?c = "\<lparr>kvRead = NewKVRead key (snd (?W ?ck)), cachedValue = fst (?W ?ck)\<rparr>"
  let ?n = "n\<lparr>readMap := mput key ?c (readMap n)\<rparr>"
  consider (cached) "sim_write s ns key \<noteq> None \<or> sim_read s ns key \<noteq> None" "s' = s1"
    | (storage) "sim_write s ns key = None" "sim_read s ns key = None" "s' = putNs ns ?n s1"
    using assms(1,3) h hp(3,4) getCommittedValueAndVersion_total [OF assms(5), of ns key]
    by (cases "?W ?ck") (auto simp: sim_GetState_def checkDone_def split: option.splits)
  then have "(sim_inv s' \<and> reads_from ?W s' \<and> sim_write s' = sim_write s \<and> \<not> qdone s' \<and>
    dom (map_of (rwMap s')) = insert ns (dom (map_of (rwMap s)))) \<and>
    (sim_write s ns key = None \<longrightarrow> sim_read s' ns key \<noteq> None) \<and>
    (sim_read s ns' key' = Some c \<longrightarrow> sim_read s' ns' key' = Some c)"
  proof cases
    case cached
    then show ?thesis using hp assms(3,4) by (auto simp: reads_from_def)
  next
    case storage
    have "ns_inv ?n" using hp(2) by (auto simp: ns_inv_def NewKVRead_def)
    then have "sim_inv s'" unfolding storage(3) by (rule sim_inv_putNs [OF hp(1)])
    moreover have "reads_from ?W s'"
      using hp assms(4) by (auto simp: storage(3) reads_from_def sim_rw_putNs NewKVRead_def)
    ultimately show ?thesis
      using hp storage(1,2) assms(3) by (auto simp: storage(3) sim_rw_putNs fun_eq_iff)
  qed
  then show "sim_inv s'" "reads_from ?W s'" "sim_write s' = sim_write s" "\<not> qdone s'"
    "dom (map_of (rwMap s')) = insert ns (dom (map_of (rwMap s)))"
    "sim_write s ns key = None \<Longrightarrow> sim_read s' ns key \<noteq> None"
    "sim_read s ns' key' = Some c \<Longrightarrow> sim_read s' ns' key' = Some c"
    by simp_all
  show "r = Inr (case sim_write s ns key of Some w \<Rightarrow> wrValue w | None \<Rightarrow> fst (?W ?ck))"
  proof (cases "sim_write s ns key = None \<and> sim_read s ns key \<noteq> None")
    case True
    then obtain c where "sim_read s ns key = Some c" by blast
    with True assms(1,3,4) h hp(3,4) show ?thesis
      by (auto simp: sim_GetState_def checkDone_def reads_from_def dest: spec [of _ ns] split: option.splits)
        (metis fst_conv)
  next
    case False
    with assms(1,3) h hp(3,4) getCommittedValueAndVersion_total [OF assms(5), of ns key] show ?thesis
      by (cases "?W ?ck") (auto simp: sim_GetState_def checkDone_def split: option.splits)
  qed
qed

end

section \<open>The read-write set of a simulation\<close>

definition orders_ok :: "rw_orders \<Rightarrow> bool" where
  "orders_ok ords \<longleftrightarrow> order_ok (nsOrd ords) \<and> order_ok (rdOrd ords) \<and> order_ok (wrOrd ords)"

lemma set_getSortedKeys: "order_ok ord \<Longrightarrow> set (getSortedKeys ord m) = dom (map_of m)"
  by (simp add: getSortedKeys_def order_ok_set dom_map_of_conv_image_fst)

text \<open>Whatever the orders are, the reads and writes of the set are those of the simulation.\<close>

lemma tx_reads_sim:
  assumes "orders_ok ords" and "sim_inv s"
  shows "(ck, ver) \<in> set (tx_reads (getTxReadWriteSet ords s)) \<longleftrightarrow>
    (\<exists>ns key c. sim_read s ns key = Some c \<and> ck = constructCompositeKey ns key \<and> ver = rdVersion (kvRead c))"
    (is "?l = ?r")
proof
  assume ?l
  then obtain ns n key c where "map_of (rwMap s) ns = Some n" "map_of (readMap n) key = Some c"
    "ck = constructCompositeKey ns (rdKey (kvRead c))" "ver = rdVersion (kvRead c)"
    using assms(1)
    by (auto simp: tx_reads_def getTxReadWriteSet_def orders_ok_def set_getSortedKeys Let_def)
  then show ?r
    using assms(2)
    by (intro exI [of _ ns] exI [of _ key] exI [of _ c]) (auto simp: sim_inv_def ns_inv_def sim_read_def)
next
  assume ?r
  then obtain ns n key c where r: "map_of (rwMap s) ns = Some n" "map_of (readMap n) key = Some c"
    "ck = constructCompositeKey ns key" "ver = rdVersion (kvRead c)"
    by (auto simp: sim_read_def bind_eq_Some_conv)
  then have "rdKey (kvRead c) = key"
    using assms(2) by (auto simp: sim_inv_def ns_inv_def)
  with r show ?l
    using assms(1)
    by (auto simp: tx_reads_def getTxReadWriteSet_def orders_ok_def set_getSortedKeys Let_def
        intro!: bexI [of _ ns] image_eqI [of _ _ key])
qed

lemma tx_writes_sim:
  assumes "orders_ok ords" and "sim_inv s"
  shows "(ck, v) \<in> set (tx_writes (getTxReadWriteSet ords s)) \<longleftrightarrow>
    (\<exists>ns key w. sim_write s ns key = Some w \<and> ck = constructCompositeKey ns key \<and> v = wrValue w)"
    (is "?l = ?r")
proof
  assume ?l
  then obtain ns n key w where "map_of (rwMap s) ns = Some n" "map_of (writeMap n) key = Some w"
    "ck = constructCompositeKey ns (wrKey w)" "v = wrValue w"
    using assms(1)
    by (auto simp: tx_writes_def getTxReadWriteSet_def orders_ok_def set_getSortedKeys Let_def)
  then show ?r
    using assms(2)
    by (intro exI [of _ ns] exI [of _ key] exI [of _ w]) (auto simp: sim_inv_def ns_inv_def sim_write_def)
next
  assume ?r
  then obtain ns n key w where r: "map_of (rwMap s) ns = Some n" "map_of (writeMap n) key = Some w"
    "ck = constructCompositeKey ns key" "v = wrValue w"
    by (auto simp: sim_write_def bind_eq_Some_conv)
  then have "wrKey w = key"
    using assms(2) by (auto simp: sim_inv_def ns_inv_def)
  with r show ?l
    using assms(1)
    by (auto simp: tx_writes_def getTxReadWriteSet_def orders_ok_def set_getSortedKeys Let_def
        intro!: bexI [of _ ns] image_eqI [of _ _ key])
qed

lemma rwset_wf_sim: "orders_ok ords \<Longrightarrow> sim_inv s \<Longrightarrow> rwset_wf (getTxReadWriteSet ords s)"
  by (auto simp: rwset_wf_def ns_wf_def getTxReadWriteSet_def orders_ok_def set_getSortedKeys
      list_all_iff Let_def sim_inv_def ns_inv_def)

section \<open>Transactions as programs\<close>

text \<open>
  A transaction is a client of the simulator: it reads keys, and what it does next depends on the
  values it has been given. Range scans are left out: the simulator records the keys a scan returns
  but not the range, so a key that appears later goes unnoticed at validation.
\<close>

datatype prog =
    Ret
  | Get gostring gostring "nbytes \<Rightarrow> prog"
  | Set gostring gostring nbytes prog
  | Del gostring gostring prog

primrec run_sim ::
  "'db leveldb_ops \<Rightarrow> 'db LockBasedTxMgr \<Rightarrow> prog \<Rightarrow> LockBasedTxSimulator \<Rightarrow>
   LockBasedTxSimulator \<times> (error + unit)" where
  "run_sim L mgr Ret s = (s, Inr ())"
| "run_sim L mgr (Get ns key p) s =
     (case sim_GetState L mgr s ns key of
        (s, Inl err) \<Rightarrow> (s, Inl err)
      | (s, Inr v) \<Rightarrow> run_sim L mgr (p v) s)"
| "run_sim L mgr (Set ns key v p) s =
     (case SetState s ns key v of
        (s, Inl err) \<Rightarrow> (s, Inl err)
      | (s, Inr _) \<Rightarrow> run_sim L mgr p s)"
| "run_sim L mgr (Del ns key p) s =
     (case DeleteState s ns key of
        (s, Inl err) \<Rightarrow> (s, Inl err)
      | (s, Inr _) \<Rightarrow> run_sim L mgr p s)"

text \<open>Running the same program directly on the values of a world state.\<close>

primrec run_direct :: "prog \<Rightarrow> (bytes \<Rightarrow> nbytes) \<Rightarrow> bytes \<Rightarrow> nbytes" where
  "run_direct Ret V = V"
| "run_direct (Get ns key p) V = run_direct (p (V (constructCompositeKey ns key))) V"
| "run_direct (Set ns key v p) V = run_direct p (V(constructCompositeKey ns key := v))"
| "run_direct (Del ns key p) V = run_direct p (V(constructCompositeKey ns key := None))"

text \<open>The namespaces a program may use: a namespace holds no separator byte.\<close>

definition ns_name :: "gostring \<Rightarrow> bool" where
  "ns_name ns \<longleftrightarrow> 0x00 \<notin> set ns"

inductive names_ok :: "prog \<Rightarrow> bool" where
  "names_ok Ret"
| "ns_name ns \<Longrightarrow> (\<And>v. names_ok (p v)) \<Longrightarrow> names_ok (Get ns key p)"
| "ns_name ns \<Longrightarrow> names_ok p \<Longrightarrow> names_ok (Set ns key v p)"
| "ns_name ns \<Longrightarrow> names_ok p \<Longrightarrow> names_ok (Del ns key p)"

inductive_simps names_ok_simps [simp]:
  "names_ok Ret" "names_ok (Get ns key p)" "names_ok (Set ns key v p)" "names_ok (Del ns key p)"

section \<open>Replay\<close>

text \<open>\<open>V\<close> is \<open>U\<close> with the simulator's writes on top.\<close>

definition matches :: "LockBasedTxSimulator \<Rightarrow> (bytes \<Rightarrow> nbytes) \<Rightarrow> (bytes \<Rightarrow> nbytes) \<Rightarrow> bool" where
  "matches s U V \<longleftrightarrow>
     (\<forall>ns key. ns_name ns \<longrightarrow> V (constructCompositeKey ns key) =
        (case map_option wrValue (sim_write s ns key) of Some v \<Rightarrow> v | None \<Rightarrow> U (constructCompositeKey ns key))) \<and>
     (\<forall>ck. (\<forall>ns key. ns_name ns \<longrightarrow> ck \<noteq> constructCompositeKey ns key) \<longrightarrow> V ck = U ck)"

definition sim_names :: "LockBasedTxSimulator \<Rightarrow> bool" where
  "sim_names s \<longleftrightarrow> (\<forall>ns \<in> dom (map_of (rwMap s)). ns_name ns)"

lemma composite_eq_iff:
  "ns_name ns \<Longrightarrow> ns_name ns' \<Longrightarrow>
   constructCompositeKey ns key = constructCompositeKey ns' key' \<longleftrightarrow> ns = ns' \<and> key = key'"
  using constructCompositeKey_inj [of ns ns' key key'] unfolding ns_name_def by blast

lemma matches_SetState:
  assumes "matches s U V" and "SetState s ns key v = (s', r)" and "sim_inv s" and "\<not> qdone s" and "ns_name ns"
  shows "matches s' U (V(constructCompositeKey ns key := v))"
  using assms(1,5) SetState_props(6) [OF assms(2,3,4)]
  by (auto simp: matches_def composite_eq_iff)

text \<open>What a run keeps, for a run from a state with the invariant.\<close>

definition sim_ok :: "wstate \<Rightarrow> LockBasedTxSimulator \<Rightarrow> bool" where
  "sim_ok W s \<longleftrightarrow> sim_inv s \<and> \<not> qdone s \<and> reads_from W s \<and> sim_names s"

lemma sim_ok_SetState:
  "SetState s ns key v = (s', r) \<Longrightarrow> sim_ok W s \<Longrightarrow> ns_name ns \<Longrightarrow> r = Inr () \<and> sim_ok W s' \<and> sim_read s' = sim_read s"
  using SetState_props [of s ns key v s' r] by (auto simp: sim_ok_def reads_from_def sim_names_def)

context leveldb_reliable
begin

lemma run_sim_replay:
  assumes "names_ok p" and "dbhandle (tmDB mgr) \<noteq> None" and "sim_ok (state_of contents mgr) s"
    and "run_sim L mgr p s = (s', r)" and "matches s U V"
  shows "r = Inr () \<and> sim_ok (state_of contents mgr) s' \<and>
    (\<forall>ns key c. sim_read s ns key = Some c \<longrightarrow> sim_read s' ns key = Some c) \<and>
    ((\<forall>ns key c. sim_read s' ns key = Some c \<longrightarrow>
        U (constructCompositeKey ns key) = fst (state_of contents mgr (constructCompositeKey ns key))) \<longrightarrow>
     matches s' U (run_direct p V))"
  using assms(1,3,4,5)
proof (induction p arbitrary: s V rule: prog.induct)
  case Ret
  then show ?case by simp
next
  case (Get ns key p)
  obtain s1 r1 where g: "sim_GetState L mgr s ns key = (s1, r1)" by fastforce
  have inv: "sim_inv s" "\<not> qdone s" "reads_from (state_of contents mgr) s" "ns_name ns"
    using Get.prems(1,2) by (simp_all add: sim_ok_def)
  note gp = sim_GetState_props [OF g inv(1-3) assms(2)]
  define v where "v = (case sim_write s ns key of Some w \<Rightarrow> wrValue w
      | None \<Rightarrow> fst (state_of contents mgr (constructCompositeKey ns key)))"
  have "sim_ok (state_of contents mgr) s1"
    using gp inv(4) Get.prems(2) by (simp add: sim_ok_def sim_names_def)
  moreover have "run_sim L mgr (p v) s1 = (s', r)"
    using Get.prems(3) g gp(1) by (simp add: v_def)
  moreover have m: "matches s1 U V"
    using Get.prems(4) gp(4) by (simp add: matches_def)
  ultimately have ih: "r = Inr () \<and> sim_ok (state_of contents mgr) s' \<and>
    (\<forall>ns key c. sim_read s1 ns key = Some c \<longrightarrow> sim_read s' ns key = Some c) \<and>
    ((\<forall>ns key c. sim_read s' ns key = Some c \<longrightarrow>
        U (constructCompositeKey ns key) = fst (state_of contents mgr (constructCompositeKey ns key))) \<longrightarrow>
     matches s' U (run_direct (p v) V))"
    using Get.prems(1) by (intro Get.IH) auto
  have "V (constructCompositeKey ns key) = v"
    if eq: "\<forall>ns key c. sim_read s' ns key = Some c \<longrightarrow>
      U (constructCompositeKey ns key) = fst (state_of contents mgr (constructCompositeKey ns key))"
  proof (cases "sim_write s ns key")
    case None
    with gp(7) obtain c where "sim_read s1 ns key = Some c" by blast
    with ih eq have "U (constructCompositeKey ns key) = fst (state_of contents mgr (constructCompositeKey ns key))"
      by blast
    with None m gp(4) inv(4) show ?thesis by (simp add: v_def matches_def)
  next
    case (Some w)
    with m gp(4) inv(4) show ?thesis by (simp add: v_def matches_def)
  qed
  with ih gp(8) show ?case by auto
next
  case (Set ns key v p)
  obtain s1 r1 where g: "SetState s ns key v = (s1, r1)" by fastforce
  have ns: "ns_name ns" and p: "names_ok p" using Set.prems(1) by simp_all
  have ok: "r1 = Inr ()" "sim_ok (state_of contents mgr) s1" "sim_read s1 = sim_read s"
    using sim_ok_SetState [OF g Set.prems(2) ns] by simp_all
  have run: "run_sim L mgr p s1 = (s', r)"
    using Set.prems(3) g ok(1) by (simp)
  have m: "matches s1 U (V(constructCompositeKey ns key := v))"
    using matches_SetState [OF Set.prems(4) g _ _ ns] Set.prems(2) by (simp only: sim_ok_def simp_thms)
  from Set.IH [OF p ok(2) run m] show ?case
    unfolding ok(3) run_direct.simps .
next
  case (Del ns key p)
  obtain s1 r1 where g: "SetState s ns key None = (s1, r1)" by fastforce
  have ns: "ns_name ns" and p: "names_ok p" using Del.prems(1) by simp_all
  have ok: "r1 = Inr ()" "sim_ok (state_of contents mgr) s1" "sim_read s1 = sim_read s"
    using sim_ok_SetState [OF g Del.prems(2) ns] by simp_all
  have run: "run_sim L mgr p s1 = (s', r)"
    using Del.prems(3) g ok(1) by (simp add: DeleteState_def)
  have m: "matches s1 U (V(constructCompositeKey ns key := None))"
    using matches_SetState [OF Del.prems(4) g _ _ ns] Del.prems(2) by (simp only: sim_ok_def simp_thms)
  from Del.IH [OF p ok(2) run m] show ?case
    unfolding ok(3) run_direct.simps .
qed

end

section \<open>Serializability\<close>

text \<open>
  Versions only grow while blocks are committed, so a key that still has the version it was read at
  has not been written since.
\<close>

lemma same_version_same_value:
  assumes "unat (snd (W ck)) + length ws < 2 ^ 64"
  shows "snd (W ck) \<le> snd (fold spec_write ws W ck)"
    "snd (fold spec_write ws W ck) = snd (W ck) \<Longrightarrow> fold spec_write ws W ck = W ck"
proof -
  let ?n = "count_list (map fst ws) ck"
  have "?n \<le> length ws" using count_le_length [of "map fst ws" ck] by simp
  then have v: "unat (snd (fold spec_write ws W ck)) = unat (snd (W ck)) + ?n"
    using assms by (simp add: snd_spec_writes unat_word_ariths unsigned_of_nat take_bit_eq_mod)
  then show "snd (W ck) \<le> snd (fold spec_write ws W ck)" by (simp add: word_le_nat_alt)
  assume "snd (fold spec_write ws W ck) = snd (W ck)"
  with v have "?n = 0" by simp
  then show "fold spec_write ws W ck = W ck"
    by (intro spec_writes_other) (simp add: count_list_0_iff)
qed

lemma unat_snd_spec_writes: "unat (snd (fold spec_write ws W ck)) \<le> unat (snd (W ck)) + length ws"
proof -
  have "count_list (map fst ws) ck \<le> length ws" using count_le_length [of "map fst ws" ck] by simp
  moreover have "unat (snd (fold spec_write ws W ck)) \<le> unat (snd (W ck)) + count_list (map fst ws) ck"
    unfolding snd_spec_writes unat_word_ariths by (simp add: unsigned_of_nat take_bit_eq_mod mod_add_right_eq)
  ultimately show ?thesis by linarith
qed

lemma fst_spec_writes:
  assumes "\<And>v'. (ck, v') \<in> set ws \<Longrightarrow> v' = v" and "ck \<in> fst ` set ws"
  shows "fst (fold spec_write ws W ck) = v"
  using assms
proof (induction ws arbitrary: W)
  case (Cons p ws)
  show ?case
  proof (cases "ck \<in> fst ` set ws")
    case True
    then show ?thesis using Cons.prems(1) by (simp add: Cons.IH)
  next
    case False
    then have "p = (ck, v)" using Cons.prems by (cases p) auto
    with spec_writes_other [OF False, of "spec_write p W"] show ?thesis by (simp add: spec_write_def)
  qed
qed simp

text \<open>Applying the read-write set of a simulation is putting its writes on top.\<close>

lemma spec_apply_matches:
  assumes "orders_ok ords" and "sim_inv s" and "sim_names s" and "matches s (\<lambda>ck. fst (W ck)) V"
  shows "(\<lambda>ck. fst (spec_apply (getTxReadWriteSet ords s) W ck)) = V"
proof
  fix ck
  let ?ws = "tx_writes (getTxReadWriteSet ords s)"
  note ws = tx_writes_sim [OF assms(1,2)]
  have dom_ok: "ns_name ns" if "sim_write s ns key = Some w" for ns key w
    using assms(3) that by (auto simp: sim_names_def sim_write_def bind_eq_Some_conv)
  show "fst (spec_apply (getTxReadWriteSet ords s) W ck) = V ck"
  proof (cases "ck \<in> fst ` set ?ws")
    case True
    then obtain v where v: "(ck, v) \<in> set ?ws" by auto
    then obtain ns key w where w: "sim_write s ns key = Some w" "ck = constructCompositeKey ns key" "v = wrValue w"
      unfolding ws by blast
    have "v' = v" if "(ck, v') \<in> set ?ws" for v'
    proof -
      from that obtain ns' key' w' where w': "sim_write s ns' key' = Some w'"
        "ck = constructCompositeKey ns' key'" "v' = wrValue w'"
        unfolding ws by blast
      then have "ns' = ns \<and> key' = key"
        using w(2) composite_eq_iff [OF dom_ok [OF w'(1)] dom_ok [OF w(1)]] by blast
      with w w' show "v' = v" by simp
    qed
    then have "fst (spec_apply (getTxReadWriteSet ords s) W ck) = v"
      unfolding spec_apply_def using True by (rule fst_spec_writes)
    moreover have "V ck = v"
      using assms(4) dom_ok [OF w(1)] w by (simp add: matches_def)
    ultimately show ?thesis by simp
  next
    case False
    then have "fst (spec_apply (getTxReadWriteSet ords s) W ck) = fst (W ck)"
      by (simp add: spec_apply_def spec_writes_other)
    moreover have "V ck = fst (W ck)"
    proof (cases "\<exists>ns key. ns_name ns \<and> ck = constructCompositeKey ns key")
      case True
      then obtain ns key where k: "ns_name ns" "ck = constructCompositeKey ns key" by blast
      have "sim_write s ns key = None"
      proof (rule ccontr)
        assume "sim_write s ns key \<noteq> None"
        then obtain w where "sim_write s ns key = Some w" by blast
        then have "(ck, wrValue w) \<in> set ?ws" unfolding ws using k(2) by blast
        with False show False by force
      qed
      with assms(4) k show ?thesis by (simp add: matches_def)
    next
      case False
      with assms(4) show ?thesis by (auto simp: matches_def)
    qed
    ultimately show ?thesis by simp
  qed
qed

text \<open>
  \<open>endorsed\<close>: the transaction of an envelope is the simulation of the program \<open>p\<close> on an earlier state
  of the ledger, of which the current state \<open>W\<close> is the outcome of further writes; \<open>room\<close> bounds the
  writes still to come.
\<close>

definition endorsed ::
  "'db leveldb_ops \<Rightarrow> ('db \<Rightarrow> bytes \<rightharpoonup> bytes) \<Rightarrow> (bytes \<Rightarrow> error + bytes) \<Rightarrow> wstate \<Rightarrow> nat \<Rightarrow>
   bytes \<Rightarrow> prog \<times> TxReadWriteSet \<Rightarrow> bool" where
  "endorsed L contents getAction W room env = (\<lambda>(p, tx).
     \<exists>mgr0 mgr s0 s ords ws.
       names_ok p \<and> dbhandle (tmDB mgr0) \<noteq> None \<and> orders_ok ords \<and>
       NewTxSimulator mgr0 = (s0, mgr) \<and> run_sim L mgr p s0 = (s, Inr ()) \<and>
       tx = getTxReadWriteSet ords s \<and>
       getAction env = Inr (GetTxSimulationResults ords s) \<and> fits (GetTxSimulationResults ords s) \<and>
       W = fold spec_write ws (state_of contents mgr0) \<and>
       (\<forall>ck. unat (snd (state_of contents mgr0 ck)) + length ws + room < 2 ^ 64))"

text \<open>What an endorsed transaction needs and does, in terms of the specification only.\<close>

definition replays :: "wstate \<Rightarrow> nat \<Rightarrow> prog \<times> TxReadWriteSet \<Rightarrow> bool" where
  "replays W room = (\<lambda>(p, tx).
     (\<forall>(ck, ver) \<in> set (tx_reads tx). ver \<le> snd (W ck)) \<and>
     (\<forall>ck. unat (snd (W ck)) + room < 2 ^ 64) \<and>
     (\<forall>ws. length ws \<le> room \<longrightarrow> spec_valid (fold spec_write ws W) tx \<longrightarrow>
        (\<lambda>ck. fst (spec_apply tx (fold spec_write ws W) ck)) =
          run_direct p (\<lambda>ck. fst (fold spec_write ws W ck))))"

context leveldb_reliable
begin

lemma endorsed_replays:
  assumes "endorsed L contents getAction W room env (p, tx)"
  shows "decodes getAction env tx" "replays W room (p, tx)"
proof -
  obtain mgr0 mgr s0 s ords ws where e: "names_ok p" "dbhandle (tmDB mgr0) \<noteq> None" "orders_ok ords"
    "NewTxSimulator mgr0 = (s0, mgr)" "run_sim L mgr p s0 = (s, Inr ())"
    "tx = getTxReadWriteSet ords s" "getAction env = Inr (GetTxSimulationResults ords s)"
    "fits (GetTxSimulationResults ords s)" "W = fold spec_write ws (state_of contents mgr0)"
    "\<forall>ck. unat (snd (state_of contents mgr0 ck)) + length ws + room < 2 ^ 64"
    using assms unfolding endorsed_def prod.case by blast
  let ?W0 = "state_of contents mgr0"
  have mgr: "state_of contents mgr = ?W0" "dbhandle (tmDB mgr) \<noteq> None"
    using e(2,4) by (auto simp: NewTxSimulator_def state_of_def)
  have s0: "sim_ok ?W0 s0" and "\<And>U. matches s0 U U"
    using sim_inv_new [OF e(4), of ?W0] by (auto simp: sim_ok_def sim_names_def matches_def sim_write_def)
  then have run: "sim_ok ?W0 s \<and>
      ((\<forall>ns key c. sim_read s ns key = Some c \<longrightarrow>
        U (constructCompositeKey ns key) = fst (?W0 (constructCompositeKey ns key))) \<longrightarrow>
       matches s U (run_direct p U))" for U
    using run_sim_replay [OF e(1) mgr(2) _ e(5), of U U] unfolding mgr(1) by blast
  then have ok: "sim_inv s" "reads_from ?W0 s" "sim_names s" by (simp_all add: sim_ok_def)
  show "decodes getAction env tx"
    using TxReadWriteSet_Unmarshal_Marshal [OF rwset_wf_sim [OF e(3) ok(1)]] e(6-8)
    by (simp add: decodes_def GetTxSimulationResults_def)
  note reads = tx_reads_sim [OF e(3) ok(1), folded e(6)]
  have room: "unat (snd (?W0 ck)) + length (ws @ ws') < 2 ^ 64" if "length ws' \<le> room" for ws' ck
    using e(10) [rule_format, of ck] that unfolding length_append by linarith
  have old: "ver \<le> snd (W ck)" if "(ck, ver) \<in> set (tx_reads tx)" for ck ver
  proof -
    have "ver = snd (?W0 ck)"
      using that ok(2) unfolding reads by (auto simp: reads_from_def) (metis snd_conv)
    then show ?thesis
      using same_version_same_value(1) [of ?W0 ck ws] room [of "[]" ck] by (simp add: e(9))
  qed
  have head: "unat (snd (W ck)) + room < 2 ^ 64" for ck
  proof -
    have "unat (snd (W ck)) \<le> unat (snd (?W0 ck)) + length ws"
      using unat_snd_spec_writes [of ws ?W0 ck] by (simp add: e(9))
    then show ?thesis using e(10) [rule_format, of ck] by linarith
  qed
  have app: "(\<lambda>ck. fst (spec_apply tx (fold spec_write ws' W) ck)) =
      run_direct p (\<lambda>ck. fst (fold spec_write ws' W ck))"
    if len: "length ws' \<le> room" and valid: "spec_valid (fold spec_write ws' W) tx" for ws'
  proof -
    let ?X = "fold spec_write ws' W"
    have W: "?X = fold spec_write (ws @ ws') ?W0" by (simp add: e(9))
    have "fst (?X (constructCompositeKey ns key)) = fst (?W0 (constructCompositeKey ns key))"
      if rd: "sim_read s ns key = Some c" for ns key c
    proof -
      let ?ck = "constructCompositeKey ns key"
      have "(?ck, rdVersion (kvRead c)) \<in> set (tx_reads tx)" unfolding reads using rd by blast
      then have "snd (?X ?ck) = rdVersion (kvRead c)" using valid by (auto simp: spec_valid_def list_all_iff)
      moreover have "rdVersion (kvRead c) = snd (?W0 ?ck)"
        using ok(2) rd unfolding reads_from_def by (metis snd_conv)
      ultimately show ?thesis
        using same_version_same_value(2) [of ?W0 ?ck "ws @ ws'"] room [OF len, of ?ck] unfolding W by simp
    qed
    with run [of "\<lambda>ck. fst (?X ck)"] have "matches s (\<lambda>ck. fst (?X ck)) (run_direct p (\<lambda>ck. fst (?X ck)))"
      by blast
    then show ?thesis
      unfolding e(6) by (rule spec_apply_matches [OF e(3) ok(1,3)])
  qed
  show "replays W room (p, tx)" unfolding replays_def prod.case using old head app by blast
qed

end

lemma spec_block_serial:
  assumes "\<forall>pt \<in> set pts. replays W room pt"
    and "length ws + length (concat (map tx_writes (map snd pts))) \<le> room"
    and "spec_block (fold spec_write ws W) (map snd pts) = (W', flags)"
  shows "(\<lambda>ck. fst (W' ck)) =
    fold run_direct (select flags (map fst pts)) (\<lambda>ck. fst (fold spec_write ws W ck))"
  using assms
proof (induction pts arbitrary: ws flags)
  case (Cons pt pts)
  obtain p tx where pt: "pt = (p, tx)" by (cases pt)
  let ?V = "fold spec_write ws W"
  have r: "replays W room (p, tx)" and rest: "\<forall>pt \<in> set pts. replays W room pt"
    using Cons.prems(1) by (simp_all add: pt)
  show ?case
  proof (cases "spec_valid ?V tx")
    case True
    have V': "spec_apply tx ?V = fold spec_write (ws @ tx_writes tx) W" by (simp add: spec_apply_def)
    obtain flags' where blk: "spec_block (fold spec_write (ws @ tx_writes tx) W) (map snd pts) = (W', flags')"
      and fl: "flags = True # flags'"
      using Cons.prems(3) True V' by (auto simp: pt split: prod.splits)
    have "(\<lambda>ck. fst (fold spec_write (ws @ tx_writes tx) W ck)) = run_direct p (\<lambda>ck. fst (?V ck))"
      using r True Cons.prems(2) unfolding replays_def prod.case V' [symmetric] by simp
    moreover have "length (ws @ tx_writes tx) + length (concat (map tx_writes (map snd pts))) \<le> room"
      using Cons.prems(2) by (simp add: pt)
    ultimately show ?thesis
      using Cons.IH [OF rest _ blk] by (simp add: fl pt)
  next
    case False
    obtain flags' where blk: "spec_block ?V (map snd pts) = (W', flags')" and fl: "flags = False # flags'"
      using Cons.prems(3) False by (auto simp: pt split: prod.splits)
    have "length ws + length (concat (map tx_writes (map snd pts))) \<le> room"
      using Cons.prems(2) by (simp add: pt)
    then show ?thesis
      using Cons.IH [OF rest _ blk] by (simp add: fl pt)
  qed
qed simp

text \<open>
  C1: A committed block is serial. Take a block whose transactions are simulations of programs, each
  run on some earlier state of the ledger: validation keeps the transactions the sequential
  specification finds valid, commit succeeds, and the values of the new world state are those that
  running the programs of the kept transactions directly, in block order, on the old values gives.
\<close>

theorem committed_block_is_serial:
  assumes "leveldb_reliable L contents" and "dbhandle (tmDB mgr) \<noteq> None" and "order_ok ord"
    and "list_all2 (endorsed L contents getAction (state_of contents mgr)
      (length (concat (map tx_writes (map snd pts))))) (Transactions block) pts"
  shows "\<exists>flags mgr1 mgr2.
    flags = snd (spec_block (state_of contents mgr) (map snd pts)) \<and>
    ValidateAndPrepare L getAction block mgr =
      (mgr1, Inr (block\<lparr>Transactions := select flags (Transactions block)\<rparr>,
                  replicate (length (filter Not flags)) RWConflictDuringCommit)) \<and>
    Commit L ord mgr1 = (mgr2, Inr ()) \<and>
    (\<lambda>ck. fst (state_of contents mgr2 ck)) =
      fold run_direct (select flags (map fst pts)) (\<lambda>ck. fst (state_of contents mgr ck))"
proof -
  let ?W = "state_of contents mgr"
  let ?n = "length (concat (map tx_writes (map snd pts)))"
  obtain W' flags where blk: "spec_block ?W (map snd pts) = (W', flags)" by fastforce
  have rep: "\<forall>pt \<in> set pts. replays ?W ?n pt"
  proof
    fix pt
    assume "pt \<in> set pts"
    then obtain env where "endorsed L contents getAction ?W ?n env pt"
      using assms(4) by (metis in_set_conv_nth list_all2_conv_all_nth)
    then show "replays ?W ?n pt"
      using leveldb_reliable.endorsed_replays(2) [OF assms(1)] by (cases pt) blast
  qed
  have dec: "list_all2 (decodes getAction) (Transactions block) (map snd pts)"
    unfolding list_all2_map2 using assms(4)
    by (rule list_all2_mono) (auto dest: leveldb_reliable.endorsed_replays(1) [OF assms(1)])
  have old: "\<forall>tx \<in> set (map snd pts). \<forall>(ck, ver) \<in> set (tx_reads tx). ver \<le> snd (?W ck)"
    using rep by (fastforce simp: replays_def)
  have room: "\<forall>ck. unat (snd (?W ck)) + ?n < 2 ^ 64"
  proof (cases pts)
    case Nil
    then show ?thesis using unsigned_less [where 'a = nat and 'b = 64] by simp
  next
    case (Cons pt rest)
    then show ?thesis using rep by (cases pt) (simp add: replays_def)
  qed
  obtain mgr1 mgr2 where "ValidateAndPrepare L getAction block mgr =
      (mgr1, Inr (block\<lparr>Transactions := select flags (Transactions block)\<rparr>,
                  replicate (length (filter Not flags)) RWConflictDuringCommit))"
    "Commit L ord mgr1 = (mgr2, Inr ())" "state_of contents mgr2 = W'"
    using ValidateAndPrepare_Commit_spec [OF assms(1-3) dec old room blk] by blast
  moreover have "(\<lambda>ck. fst (W' ck)) = fold run_direct (select flags (map fst pts)) (\<lambda>ck. fst (?W ck))"
    using spec_block_serial [OF rep, of "[]"] blk by simp
  ultimately show ?thesis using blk by auto
qed

text \<open>
  Three programs simulated on the empty ledger: two append a byte to the value of the same key, one
  copies another key. The second conflicts with the first.
\<close>

definition example_append :: "byte \<Rightarrow> prog" where
  "example_append b = Get [99] [1] (\<lambda>v. Set [99] [1] (Some (case v of None \<Rightarrow> [b] | Some x \<Rightarrow> x @ [b])) Ret)"

definition example_copy :: prog where
  "example_copy = Get [99] [2] (\<lambda>v. Set [99] [3] v (Del [99] [2] Ret))"

definition example_ords :: rw_orders where
  "example_ords = \<lparr>nsOrd = (\<lambda>m. m), rdOrd = rev, wrOrd = rev\<rparr>"

definition example_rw :: "prog \<Rightarrow> TxReadWriteSet" where
  "example_rw p = getTxReadWriteSet example_ords
     (fst (run_sim mem_ops (snd (NewTxSimulator example_mgr)) p (fst (NewTxSimulator example_mgr))))"

definition example_pts :: "(prog \<times> TxReadWriteSet) list" where
  "example_pts = map (\<lambda>p. (p, example_rw p)) [example_append 7, example_append 8, example_copy]"

lemma example_rw_eqs:
  "example_rw (example_append b) = \<lparr>NsRWs = [\<lparr>NameSpace = [99], Reads = [NewKVRead [1] 0],
     Writes = [NewKVWrite [1] (Some [b])]\<rparr>]\<rparr>"
  "example_rw example_copy = \<lparr>NsRWs = [\<lparr>NameSpace = [99], Reads = [NewKVRead [2] 0],
     Writes = [NewKVWrite [2] None, NewKVWrite [3] None]\<rparr>]\<rparr>"
  "snd (run_sim mem_ops (snd (NewTxSimulator example_mgr)) (example_append b) (fst (NewTxSimulator example_mgr))) = Inr ()"
  "snd (run_sim mem_ops (snd (NewTxSimulator example_mgr)) example_copy (fst (NewTxSimulator example_mgr))) = Inr ()"
  by (simp_all add: example_rw_def example_append_def example_copy_def NewTxSimulator_def example_mgr_def
      sim_GetState_def SetState_def DeleteState_def checkDone_def getOrCreateNsRWHolder_def putNs_def
      newNsRWs_def getCommittedValueAndVersion_def DB_Get_def with_handle_def mem_ops_def
      getTxReadWriteSet_def getSortedKeys_def example_ords_def)

lemma example_endorsed:
  assumes "p = example_append 7 \<or> p = example_append 8 \<or> p = example_copy" and "room < 1000"
  shows "endorsed mem_ops RBT.lookup Inr (state_of RBT.lookup example_mgr) room
    (TxReadWriteSet_Marshal (example_rw p)) (p, example_rw p)"
proof -
  have len: "length (TxReadWriteSet_Marshal (example_rw (example_append 7))) < 100"
    "length (TxReadWriteSet_Marshal (example_rw (example_append 8))) < 100"
    "length (TxReadWriteSet_Marshal (example_rw example_copy)) < 100"
    unfolding example_rw_eqs by code_simp+
  have ok: "names_ok p" "snd (run_sim mem_ops (snd (NewTxSimulator example_mgr)) p (fst (NewTxSimulator example_mgr))) = Inr ()"
    "length (TxReadWriteSet_Marshal (example_rw p)) < 100"
    using assms(1) len example_rw_eqs(3,4) by (auto simp: example_append_def example_copy_def ns_name_def)
  have ords: "orders_ok example_ords"
    by (simp add: orders_ok_def example_ords_def order_ok_id order_ok_rev)
  have opn: "\<exists>h. dbhandle (tmDB example_mgr) = Some h" by (simp add: example_mgr_def)
  show ?thesis
    unfolding endorsed_def prod.case
    by (rule exI [of _ example_mgr], rule exI [of _ "snd (NewTxSimulator example_mgr)"],
        rule exI [of _ "fst (NewTxSimulator example_mgr)"],
        rule exI [of _ "fst (run_sim mem_ops (snd (NewTxSimulator example_mgr)) p (fst (NewTxSimulator example_mgr)))"],
        rule exI [of _ example_ords], rule exI [of _ "[]"])
      (use ok ords opn assms(2) in \<open>auto simp: GetTxSimulationResults_def example_rw_def [symmetric]
        fits_def maxint_def prod_eq_iff state_of_example\<close>)
qed

lemma committed_block_is_serial_witness:
  "\<exists>mgr1 mgr2. ValidateAndPrepare mem_ops Inr
      \<lparr>PreviousBlockHash = None, Transactions = map (\<lambda>p. TxReadWriteSet_Marshal (snd p)) example_pts\<rparr> example_mgr =
      (mgr1, Inr (\<lparr>PreviousBlockHash = None, Transactions =
         map TxReadWriteSet_Marshal [example_rw (example_append 7), example_rw example_copy]\<rparr>,
         [RWConflictDuringCommit])) \<and>
    Commit mem_ops rev mgr1 = (mgr2, Inr ()) \<and>
    (\<lambda>ck. fst (state_of RBT.lookup mgr2 ck)) = run_direct example_copy (run_direct (example_append 7) (\<lambda>_. None))"
proof -
  let ?b = "\<lparr>PreviousBlockHash = None, Transactions = map (\<lambda>p. TxReadWriteSet_Marshal (snd p)) example_pts\<rparr>"
  have n: "length (concat (map tx_writes (map snd example_pts))) < 1000"
    by (simp add: example_pts_def example_rw_eqs tx_writes_def)
  have opn: "dbhandle (tmDB example_mgr) \<noteq> None" by (simp add: example_mgr_def)
  have "list_all2 (endorsed mem_ops RBT.lookup Inr (state_of RBT.lookup example_mgr)
      (length (concat (map tx_writes (map snd example_pts))))) (Transactions ?b) example_pts"
    using example_endorsed [OF _ n] by (simp add: list_all2_map1 list_all2_same) (auto simp: example_pts_def)
  from committed_block_is_serial [OF mem.leveldb_reliable_axioms opn order_ok_rev this]
  show ?thesis
    by (simp add: state_of_example example_pts_def example_rw_eqs spec_valid_def spec_apply_def
        tx_reads_def tx_writes_def spec_write_def NewKVRead_def NewKVWrite_def SetValue_def
        constructCompositeKey_def compositeKeySep_def)
qed

end
