(* ===== verification/Snapshot.thy ===== *)
theory Snapshot
  imports TxSimulator
begin

text \<open>
  Query executors and simulators run beside the commit of blocks. They hold the manager's read lock
  from their creation to \<open>Done\<close>, and \<open>Commit\<close> takes the write lock, so what they read is one
  committed state: the one at their creation. The interleavings are a step relation over the manager
  and its clients; each client carries the state it started from, which no operation looks at.
\<close>

datatype client = Query RWLockQueryExecutor | Sim LockBasedTxSimulator

primrec client_done :: "client \<Rightarrow> bool" where
  "client_done (Query q) = qdone q"
| "client_done (Sim s) = qdone s"




section \<open>Validation only reads the database\<close>





section \<open>The invariant\<close>


definition open_clients :: "(client \<times> wstate) list \<Rightarrow> nat" where
  "open_clients cs = length (filter (\<lambda>(c, _). \<not> client_done c) cs)"



lemma open_clients_append [simp]:
  "open_clients (cs @ [(c, W)]) = open_clients cs + (if client_done c then 0 else 1)"
  by (simp add: open_clients_def)
















end
