(* ===== verification/Decimal.thy ===== *)
theory Decimal
  imports Prelude
begin

text \<open>
  The verbs \<open>%d\<close> and \<open>%06d\<close> of package fmt on non-negative integers, which the ledger uses for file
  names and transaction ids, with the facts that make these names unique.
\<close>

fun dec :: "nat \<Rightarrow> gostring" where
  "dec n = (if n < 10 then [of_nat (48 + n)] else dec (n div 10) @ [of_nat (48 + n mod 10)])"

declare dec.simps [simp del]

definition dec_pad :: "nat \<Rightarrow> nat \<Rightarrow> gostring" where
  "dec_pad w n = replicate (w - length (dec n)) 48 @ dec n"

text \<open>The number a string of digits stands for.\<close>

definition undec :: "gostring \<Rightarrow> nat" where
  "undec ds = fold (\<lambda>d v. 10 * v + (unat d - 48)) ds 0"

lemma unat_digit [simp]: "n < 10 \<Longrightarrow> unat (of_nat (48 + n) :: byte) = 48 + n"
  by (subst unsigned_of_nat) (simp add: take_bit_nat_eq_self)

lemma undec_dec [simp]: "undec (dec n) = n"
proof (induction n rule: dec.induct)
  case (1 n)
  show ?case
  proof (cases "n < 10")
    case True
    then show ?thesis by (subst dec.simps) (simp add: undec_def del: of_nat_add)
  next
    case False
    have "unat (of_nat (48 + n mod 10) :: byte) = 48 + n mod 10" by (rule unat_digit) simp
    with False 1 show ?thesis
      by (subst dec.simps) (simp add: undec_def del: of_nat_add)
  qed
qed

lemma dec_digits: "d \<in> set (dec n) \<Longrightarrow> 48 \<le> unat d \<and> unat d \<le> 57"
proof (induction n rule: dec.induct)
  case (1 n)
  show ?case
  proof (cases "n < 10")
    case True
    then show ?thesis using 1(2) by (subst (asm) dec.simps) (auto simp del: of_nat_add)
  next
    case False
    then have "d \<in> set (dec (n div 10)) \<or> d = of_nat (48 + n mod 10)"
      using 1(2) by (subst (asm) dec.simps) (auto simp del: of_nat_add)
    then show ?thesis
    proof
      assume "d = of_nat (48 + n mod 10)"
      moreover have "unat (of_nat (48 + n mod 10) :: byte) = 48 + n mod 10" by (rule unat_digit) simp
      moreover have "n mod 10 < 10" by simp
      ultimately show ?thesis by simp
    qed (use 1(1) False in blast)
  qed
qed

lemma dec_inj: "dec m = dec n \<Longrightarrow> m = n"
  by (metis undec_dec)

lemma undec_zeros: "undec (replicate k 48 @ ds) = undec ds"
proof -
  have "fold (\<lambda>d v. 10 * v + (unat d - 48)) (replicate k (48 :: byte)) (0 :: nat) = 0"
    by (induction k) simp_all
  then show ?thesis by (simp add: undec_def)
qed

lemma dec_pad_inj: "dec_pad w m = dec_pad w n \<Longrightarrow> m = n"
  by (metis dec_pad_def undec_zeros undec_dec)

text \<open>Two numbers with a colon between them can be told apart.\<close>

lemma dec_colon_inj:
  assumes "dec a @ 58 # dec b = dec c @ 58 # dec d"
  shows "a = c \<and> b = d"
proof -
  have no: "x \<noteq> 58" if "x \<in> set (dec n)" for x n
    using dec_digits [OF that] by auto
  have "takeWhile (\<lambda>x. x \<noteq> 58) (dec a @ 58 # dec b) = dec a"
    "takeWhile (\<lambda>x. x \<noteq> 58) (dec c @ 58 # dec d) = dec c"
    using no by (simp_all add: takeWhile_append2)
  then have "dec a = dec c" by (simp only: assms)
  then show ?thesis using assms dec_inj by (metis append_same_eq same_append_eq list.inject)
qed

end
