(* ===== verification/BlockIndex.thy ===== *)
theory BlockIndex
  imports SerBlock2 LevelDB Decimal
begin

text \<open>
  The block index (core/ledger/blkstorage/fsblkstorage/blockindex.go): where blocks and transactions
  are in the block files, kept in the key-value store beside the checkpoint of the block file manager.
  Shown here: location pointers survive marshalling, and looking up what \<open>indexBlock\<close> has indexed
  finds it, without disturbing the other entries.
\<close>

section \<open>Location pointers\<close>

record locPointer =
  lpOffset :: int
  lpBytesLength :: int

record fileLocPointer = locPointer +
  fileSuffixNum :: int

definition newFileLocationPointer :: "int \<Rightarrow> int \<Rightarrow> locPointer \<Rightarrow> fileLocPointer" where
  "newFileLocationPointer suffix begginingOffset relativeLP =
     \<lparr>lpOffset = goint (begginingOffset + lpOffset relativeLP), lpBytesLength = lpBytesLength relativeLP,
      fileSuffixNum = suffix\<rparr>"

definition flp_marshal :: "fileLocPointer \<Rightarrow> bytes" where
  "flp_marshal flp =
     (let b = bufEncodeVarint (NewBuffer []) (u64_of_int (fileSuffixNum flp));
          b = bufEncodeVarint b (u64_of_int (lpOffset flp));
          b = bufEncodeVarint b (u64_of_int (lpBytesLength flp))
      in buf b)"

text \<open>\<open>unmarshal\<close> fills the fields it can decode; its callers ignore its error.\<close>

definition flp_unmarshal :: "fileLocPointer \<Rightarrow> bytes \<Rightarrow> fileLocPointer \<times> (error + unit)" where
  "flp_unmarshal flp b =
     (case bufDecodeVarint (NewBuffer b) of
        Inl e \<Rightarrow> (flp, Inl e)
      | Inr (i, b) \<Rightarrow>
         (let flp = flp\<lparr>fileSuffixNum := int_of_u64 i\<rparr> in
          case bufDecodeVarint b of
            Inl e \<Rightarrow> (flp, Inl e)
          | Inr (i, b) \<Rightarrow>
             (let flp = flp\<lparr>lpOffset := int_of_u64 i\<rparr> in
              case bufDecodeVarint b of
                Inl e \<Rightarrow> (flp, Inl e)
              | Inr (i, b) \<Rightarrow> (flp\<lparr>lpBytesLength := int_of_u64 i\<rparr>, Inr ()))))"

definition zeroFlp :: fileLocPointer where
  "zeroFlp = \<lparr>lpOffset = 0, lpBytesLength = 0, fileSuffixNum = 0\<rparr>"

section \<open>Keys\<close>

definition blockNumIdxKeyPrefix :: byte where "blockNumIdxKeyPrefix = 110"
definition blockHashIdxKeyPrefix :: byte where "blockHashIdxKeyPrefix = 104"
definition txIDIdxKeyPrefix :: byte where "txIDIdxKeyPrefix = 116"

text \<open>\<open>"indexCheckpointKey"\<close>\<close>

definition indexCheckpointKey :: bytes where
  "indexCheckpointKey = [105, 110, 100, 101, 120, 67, 104, 101, 99, 107, 112, 111, 105, 110, 116, 75, 101, 121]"

definition constructBlockNumKey :: "u64 \<Rightarrow> error + bytes" where
  "constructBlockNumKey blockNum =
     bindE (EncodeOrderPreservingVarUint64 blockNum) (\<lambda>bs. Inr (blockNumIdxKeyPrefix # bs))"

definition constructBlockHashKey :: "bytes \<Rightarrow> bytes" where
  "constructBlockHashKey h = blockHashIdxKeyPrefix # h"

definition constructTxIDKey :: "gostring \<Rightarrow> bytes" where
  "constructTxIDKey txID = txIDIdxKeyPrefix # txID"

text \<open>The transaction number is an index of a list, so it is not negative.\<close>

definition constructTxID :: "u64 \<Rightarrow> nat \<Rightarrow> gostring" where
  "constructTxID blockNum txNum = dec (unat blockNum) @ 58 # dec txNum"

definition encodeBlockNum :: "u64 \<Rightarrow> bytes" where
  "encodeBlockNum blockNum = EncodeVarint blockNum"

definition decodeBlockNum :: "bytes \<Rightarrow> u64" where
  "decodeBlockNum bs = fst (DecodeVarint bs)"

section \<open>The index\<close>

datatype IndexableAttr = IndexableAttrBlockNum | IndexableAttrBlockHash | IndexableAttrTxID

text \<open>
  \<open>items\<close> is \<open>indexItemsMap\<close>, a set of attributes; the store is shared with the manager, so the
  operations take it as an argument.
\<close>

definition newBlockIndex :: "IndexableAttr list \<Rightarrow> IndexableAttr set" where
  "newBlockIndex attrsToIndex = set attrsToIndex"

record blockIdxInfo =
  biBlockNum :: u64
  biBlockHash :: bytes
  biFlp :: fileLocPointer
  biTxOffsets :: "int list"

definition getLastBlockIndexed :: "'db leveldb_ops \<Rightarrow> 'db DB \<Rightarrow> u64" where
  "getLastBlockIndexed L d =
     (case DB_Get L d indexCheckpointKey of
        Inl err \<Rightarrow> 0
      | Inr blockNumBytes \<Rightarrow> decodeBlockNum (of_nbytes blockNumBytes))"

fun txEntries :: "u64 \<Rightarrow> fileLocPointer \<Rightarrow> nat \<Rightarrow> int list \<Rightarrow> (bytes \<times> bytes) list" where
  "txEntries blockNum flp i (a # b # offs) =
     (let txID = constructTxID blockNum i;
          txBytesLength = goint (b - a);
          txFlp = newFileLocationPointer (fileSuffixNum flp) (lpOffset flp) \<lparr>lpOffset = a, lpBytesLength = txBytesLength\<rparr>
      in (constructTxIDKey txID, flp_marshal txFlp) # txEntries blockNum flp (Suc i) (b # offs))"
| "txEntries blockNum flp i offs = []"

definition indexBlock ::
  "'db leveldb_ops \<Rightarrow> IndexableAttr set \<Rightarrow> blockIdxInfo \<Rightarrow> 'db DB \<Rightarrow> error + 'db DB" where
  "indexBlock L items info d =
     (if items = {} then Inr d
      else let flpBytes = flp_marshal (biFlp info);
               b1 = (if IndexableAttrBlockHash \<in> items
                     then [(constructBlockHashKey (biBlockHash info), flpBytes)] else [])
           in bindE (if IndexableAttrBlockNum \<in> items
                     then bindE (constructBlockNumKey (biBlockNum info)) (\<lambda>k. Inr [(k, flpBytes)])
                     else Inr []) (\<lambda>b2.
              let b3 = (if IndexableAttrTxID \<in> items
                        then txEntries (biBlockNum info) (biFlp info) 0 (biTxOffsets info) else []);
                  b4 = [(indexCheckpointKey, encodeBlockNum (biBlockNum info))]
              in DB_WriteBatch L d (b1 @ b2 @ b3 @ b4)))"

definition lookupFlp :: "'db leveldb_ops \<Rightarrow> 'db DB \<Rightarrow> bytes \<Rightarrow> error + fileLocPointer" where
  "lookupFlp L d key =
     bindE (DB_Get L d key) (\<lambda>b.
       case b of None \<Rightarrow> Inl ErrNotFoundInIndex | Some b \<Rightarrow> Inr (fst (flp_unmarshal zeroFlp b)))"

definition getBlockLocByHash ::
  "'db leveldb_ops \<Rightarrow> IndexableAttr set \<Rightarrow> 'db DB \<Rightarrow> bytes \<Rightarrow> error + fileLocPointer" where
  "getBlockLocByHash L items d h =
     (if IndexableAttrBlockHash \<notin> items then Inl ErrAttrNotIndexed
      else lookupFlp L d (constructBlockHashKey h))"

definition getBlockLocByBlockNum ::
  "'db leveldb_ops \<Rightarrow> IndexableAttr set \<Rightarrow> 'db DB \<Rightarrow> u64 \<Rightarrow> error + fileLocPointer" where
  "getBlockLocByBlockNum L items d blockNum =
     (if IndexableAttrBlockNum \<notin> items then Inl ErrAttrNotIndexed
      else bindE (constructBlockNumKey blockNum) (lookupFlp L d))"

definition getTxLoc ::
  "'db leveldb_ops \<Rightarrow> IndexableAttr set \<Rightarrow> 'db DB \<Rightarrow> gostring \<Rightarrow> error + fileLocPointer" where
  "getTxLoc L items d txID =
     (if IndexableAttrTxID \<notin> items then Inl ErrAttrNotIndexed
      else lookupFlp L d (constructTxIDKey txID))"

section \<open>Location pointers: round trip\<close>

definition goint_range :: "int \<Rightarrow> bool" where
  "goint_range i \<longleftrightarrow> 0 \<le> i \<and> i \<le> maxint"

definition flp_wf :: "fileLocPointer \<Rightarrow> bool" where
  "flp_wf flp \<longleftrightarrow> goint_range (fileSuffixNum flp) \<and> goint_range (lpOffset flp) \<and> goint_range (lpBytesLength flp)"

lemma flp_marshal_eq:
  "flp_marshal flp = EncodeVarint (u64_of_int (fileSuffixNum flp)) @
     EncodeVarint (u64_of_int (lpOffset flp)) @ EncodeVarint (u64_of_int (lpBytesLength flp))"
  by (simp add: flp_marshal_def NewBuffer_def Let_def)

lemma three_varints_at:
  obtains p1 p2 p3 where
    "bufDecodeVarint (NewBuffer (EncodeVarint a @ EncodeVarint b @ EncodeVarint c)) = Inr (a, p1)"
    "bufDecodeVarint p1 = Inr (b, p2)" "bufDecodeVarint p2 = Inr (c, p3)"
proof -
  let ?e = "EncodeVarint a @ EncodeVarint b @ EncodeVarint c"
  have "fits ?e"
    using length_EncodeVarint_max [of a] length_EncodeVarint_max [of b] length_EncodeVarint_max [of c]
    by (simp add: fits_def maxint_def)
  then have "at (NewBuffer ?e) (EncodeVarint a @ (EncodeVarint b @ (EncodeVarint c @ [])))"
    using at_NewBuffer [of ?e] by simp
  then obtain p1 where p1: "bufDecodeVarint (NewBuffer ?e) = Inr (a, p1)" "at p1 (EncodeVarint b @ (EncodeVarint c @ []))"
    by (rule bufDecodeVarint_at)
  from p1(2) obtain p2 where p2: "bufDecodeVarint p1 = Inr (b, p2)" "at p2 (EncodeVarint c @ [])"
    by (rule bufDecodeVarint_at)
  from p2(2) obtain p3 where "bufDecodeVarint p2 = Inr (c, p3)" by (rule bufDecodeVarint_at)
  with p1 p2 show thesis by (intro that)
qed

lemma flp_roundtrip: "flp_wf flp \<Longrightarrow> flp_unmarshal flp0 (flp_marshal flp) = (flp, Inr ())"
proof -
  assume wf: "flp_wf flp"
  obtain p1 p2 p3 where
    "bufDecodeVarint (NewBuffer (flp_marshal flp)) = Inr (u64_of_int (fileSuffixNum flp), p1)"
    "bufDecodeVarint p1 = Inr (u64_of_int (lpOffset flp), p2)"
    "bufDecodeVarint p2 = Inr (u64_of_int (lpBytesLength flp), p3)"
    unfolding flp_marshal_eq by (rule three_varints_at)
  with wf show ?thesis
    by (cases flp, cases flp0)
      (simp add: flp_unmarshal_def flp_wf_def goint_range_def int_of_u64_of_int)
qed

section \<open>Keys are distinct\<close>

definition numKey :: "u64 \<Rightarrow> bytes" where
  "numKey n = blockNumIdxKeyPrefix # of_nat (length (sig_bytes n)) # sig_bytes n"

lemma constructBlockNumKey_eq: "constructBlockNumKey n = Inr (numKey n)"
  by (simp add: constructBlockNumKey_def EncodeOrderPreserving_eq numKey_def)

lemma numKey_inj [simp]: "numKey m = numKey n \<longleftrightarrow> m = n"
proof
  assume "numKey m = numKey n"
  then have eq: "(of_nat (length (sig_bytes m)) # sig_bytes m :: bytes) = of_nat (length (sig_bytes n)) # sig_bytes n"
    unfolding numKey_def by (rule list.inject [THEN iffD1, THEN conjunct2])
  have "\<not> m < n" by (simp only: encoded_less_iff [of m n, symmetric] eq order_less_irrefl not_False_eq_True)
  moreover have "\<not> n < m" by (simp only: encoded_less_iff [of n m, symmetric] eq order_less_irrefl not_False_eq_True)
  ultimately show "m = n" unfolding linorder_not_less by (rule order_antisym [rotated])
qed simp

lemma txIDKey_inj [simp]:
  "constructTxIDKey (constructTxID m i) = constructTxIDKey (constructTxID n j) \<longleftrightarrow> m = n \<and> i = j"
  unfolding constructTxIDKey_def constructTxID_def list.inject using dec_colon_inj word_unat_eq_iff by blast

lemma hashKey_inj [simp]: "constructBlockHashKey g = constructBlockHashKey h \<longleftrightarrow> g = h"
  by (simp add: constructBlockHashKey_def)

lemmas key_defs = numKey_def constructBlockHashKey_def constructTxIDKey_def indexCheckpointKey_def
  blockNumIdxKeyPrefix_def blockHashIdxKeyPrefix_def txIDIdxKeyPrefix_def

lemma keys_apart [simp]:
  "numKey n \<noteq> constructBlockHashKey h" "constructBlockHashKey h \<noteq> numKey n"
  "numKey n \<noteq> constructTxIDKey t" "constructTxIDKey t \<noteq> numKey n"
  "numKey n \<noteq> indexCheckpointKey" "indexCheckpointKey \<noteq> numKey n"
  "constructBlockHashKey h \<noteq> constructTxIDKey t" "constructTxIDKey t \<noteq> constructBlockHashKey h"
  "constructBlockHashKey h \<noteq> indexCheckpointKey" "indexCheckpointKey \<noteq> constructBlockHashKey h"
  "constructTxIDKey t \<noteq> indexCheckpointKey" "indexCheckpointKey \<noteq> constructTxIDKey t"
  by (simp_all add: key_defs)

section \<open>What indexing a block adds\<close>

lemma apply_batch_lookup:
  "apply_batch b m k = (case map_of (rev b) k of None \<Rightarrow> m k | Some v \<Rightarrow> Some v)"
proof (induction b arbitrary: m)
  case (Cons p b)
  have "apply_batch (p # b) m k = apply_batch b (m(fst p \<mapsto> snd p)) k"
    by (cases p) (simp add: apply_batch_def)
  then show ?case using Cons.IH by (cases p) (auto simp: map_add_def split: option.split)
qed (simp add: apply_batch_def)

text \<open>Where transaction \<open>j\<close> is, for a block at \<open>flp\<close> with the transaction offsets \<open>offs\<close>.\<close>

definition txFlpOf :: "fileLocPointer \<Rightarrow> int list \<Rightarrow> nat \<Rightarrow> fileLocPointer" where
  "txFlpOf flp offs j = newFileLocationPointer (fileSuffixNum flp) (lpOffset flp)
     \<lparr>lpOffset = offs ! j, lpBytesLength = goint (offs ! Suc j - offs ! j)\<rparr>"

lemma txEntries_eq:
  "txEntries bn flp i offs =
     map (\<lambda>j. (constructTxIDKey (constructTxID bn (i + j)), flp_marshal (txFlpOf flp offs j))) [0..<length offs - 1]"
proof (induction bn flp i offs rule: txEntries.induct)
  case (1 bn flp i a b offs)
  have "[0..<length (a # b # offs) - 1] = 0 # map Suc [0..<length (b # offs) - 1]"
    by (simp add: map_Suc_upt upt_conv_Cons del: upt_Suc)
  with 1 show ?case by (simp add: Let_def txFlpOf_def)
qed simp_all

lemma map_of_txEntries:
  "map_of (rev (txEntries bn flp 0 offs)) (constructTxIDKey (constructTxID m j)) =
     (if m = bn \<and> Suc j < length offs then Some (flp_marshal (txFlpOf flp offs j)) else None)"
proof -
  let ?es = "txEntries bn flp 0 offs"
  let ?k = "constructTxIDKey (constructTxID m j)"
  have dist: "distinct (map fst (rev ?es))"
    by (simp add: txEntries_eq rev_map [symmetric] distinct_map inj_on_def comp_def)
  show ?thesis
  proof (cases "m = bn \<and> Suc j < length offs")
    case True
    then have "(?k, flp_marshal (txFlpOf flp offs j)) \<in> set (rev ?es)"
      by (auto simp: txEntries_eq)
    with dist True show ?thesis by simp
  next
    case False
    then have "?k \<notin> fst ` set (rev ?es)" by (auto simp: txEntries_eq)
    then have "map_of (rev ?es) ?k = None" by (simp add: map_of_eq_None_iff)
    with False show ?thesis by simp
  qed
qed

lemma map_of_txEntries_other: "(\<And>t. k \<noteq> constructTxIDKey t) \<Longrightarrow> map_of (rev (txEntries bn flp 0 offs)) k = None"
  unfolding map_of_eq_None_iff txEntries_eq by force

text \<open>The entries of the batch, and the lookups after it.\<close>

definition idx_batch :: "IndexableAttr set \<Rightarrow> blockIdxInfo \<Rightarrow> (bytes \<times> bytes) list" where
  "idx_batch items info =
     (if IndexableAttrBlockHash \<in> items then [(constructBlockHashKey (biBlockHash info), flp_marshal (biFlp info))] else []) @
     (if IndexableAttrBlockNum \<in> items then [(numKey (biBlockNum info), flp_marshal (biFlp info))] else []) @
     (if IndexableAttrTxID \<in> items then txEntries (biBlockNum info) (biFlp info) 0 (biTxOffsets info) else []) @
     [(indexCheckpointKey, encodeBlockNum (biBlockNum info))]"

lemma indexBlock_eq:
  "indexBlock L items info d = (if items = {} then Inr d else DB_WriteBatch L d (idx_batch items info))"
  by (auto simp: indexBlock_def idx_batch_def constructBlockNumKey_eq Let_def)

lemma idx_batch_lookup:
  "apply_batch (idx_batch items info) m (numKey n) =
     (if IndexableAttrBlockNum \<in> items \<and> n = biBlockNum info then Some (flp_marshal (biFlp info)) else m (numKey n))"
  "apply_batch (idx_batch items info) m (constructBlockHashKey h) =
     (if IndexableAttrBlockHash \<in> items \<and> h = biBlockHash info then Some (flp_marshal (biFlp info))
      else m (constructBlockHashKey h))"
  "apply_batch (idx_batch items info) m (constructTxIDKey (constructTxID n j)) =
     (if IndexableAttrTxID \<in> items \<and> n = biBlockNum info \<and> Suc j < length (biTxOffsets info)
      then Some (flp_marshal (txFlpOf (biFlp info) (biTxOffsets info) j))
      else m (constructTxIDKey (constructTxID n j)))"
  "apply_batch (idx_batch items info) m indexCheckpointKey = Some (encodeBlockNum (biBlockNum info))"
  by (auto simp: apply_batch_lookup idx_batch_def map_of_txEntries map_of_txEntries_other map_add_def
      split: option.splits)

text \<open>Keys with another first byte are left alone.\<close>

definition index_key :: "bytes \<Rightarrow> bool" where
  "index_key k \<longleftrightarrow> k = indexCheckpointKey \<or> (\<exists>n. k = numKey n) \<or> (\<exists>h. k = constructBlockHashKey h) \<or> (\<exists>t. k = constructTxIDKey t)"

lemma idx_batch_other: "\<not> index_key k \<Longrightarrow> apply_batch (idx_batch items info) m k = m k"
  by (auto simp: apply_batch_lookup idx_batch_def index_key_def map_of_txEntries_other map_add_def
      split: option.splits)

lemma decodeBlockNum_encode [simp]: "decodeBlockNum (encodeBlockNum n) = n"
  by (simp add: decodeBlockNum_def encodeBlockNum_def)

lemma txFlpOf_wf:
  assumes "flp_wf flp" and "\<And>off. off \<in> set offs \<Longrightarrow> 0 \<le> off \<and> lpOffset flp + off \<le> maxint"
    and "offs ! j \<le> offs ! Suc j" and "Suc j < length offs"
  shows "flp_wf (txFlpOf flp offs j)"
    "txFlpOf flp offs j = \<lparr>lpOffset = lpOffset flp + offs ! j, lpBytesLength = offs ! Suc j - offs ! j,
       fileSuffixNum = fileSuffixNum flp\<rparr>"
proof -
  have a: "0 \<le> offs ! j" "lpOffset flp + offs ! j \<le> maxint" "lpOffset flp + offs ! Suc j \<le> maxint"
    using assms(2) [of "offs ! j"] assms(2) [of "offs ! Suc j"] assms(4) by simp_all
  have b: "0 \<le> lpOffset flp" "0 \<le> fileSuffixNum flp" "fileSuffixNum flp \<le> maxint"
    using assms(1) by (simp_all add: flp_wf_def goint_range_def)
  have "goint (lpOffset flp + offs ! j) = lpOffset flp + offs ! j"
    using a b by (intro goint_id) auto
  moreover have "goint (offs ! Suc j - offs ! j) = offs ! Suc j - offs ! j"
    using a b assms(3) by (intro goint_id) auto
  ultimately show eq: "txFlpOf flp offs j = \<lparr>lpOffset = lpOffset flp + offs ! j,
      lpBytesLength = offs ! Suc j - offs ! j, fileSuffixNum = fileSuffixNum flp\<rparr>"
    by (simp add: txFlpOf_def newFileLocationPointer_def)
  show "flp_wf (txFlpOf flp offs j)"
    unfolding eq using a b assms(3) by (simp add: flp_wf_def goint_range_def)
qed

end
