(* ===== verification/BlockFiles.thy ===== *)
theory BlockFiles
  imports SerBlock2 Decimal
begin

text \<open>
  Block files (core/ledger/blkstorage/fsblkstorage: blockfile_rw.go, block_stream.go): files to which
  blocks are appended, each behind a varint with its length, and streams that read them back. The
  operating system's files are a map from paths to bytes; a write may fail after having written
  some of its bytes, as the list of faults says. Shown here: a stream returns the blocks of a file in
  order with their placement, and stops at a block that was written only in part.
\<close>

section \<open>Files\<close>

text \<open>
  \<open>fsFaults\<close> holds the outcome of the writes to come: \<open>None\<close> for one that succeeds, \<open>Some (n, err)\<close>
  for one that writes \<open>n\<close> bytes and returns \<open>err\<close> (all of them when it is the sync that fails). Writes
  beyond the list succeed.
\<close>

record FS =
  fsFiles :: "(gostring, bytes) gomap"
  fsFaults :: "(nat \<times> error) option list"

definition fs_write :: "gostring \<Rightarrow> bytes \<Rightarrow> FS \<Rightarrow> FS \<times> (error + unit)" where
  "fs_write path b fs =
     (let old = of_nbytes (map_of (fsFiles fs) path) in
      case fsFaults fs of
        Some (n, err) # rest \<Rightarrow> (fs\<lparr>fsFiles := mput path (old @ take n b) (fsFiles fs), fsFaults := rest\<rparr>, Inl err)
      | _ \<Rightarrow> (fs\<lparr>fsFiles := mput path (old @ b) (fsFiles fs), fsFaults := tl (fsFaults fs)\<rparr>, Inr ()))"

text \<open>\<open>blockfile_\<close> and the six-digit suffix.\<close>

definition blockfilePrefix :: gostring where
  "blockfilePrefix = [98, 108, 111, 99, 107, 102, 105, 108, 101, 95]"

definition fmt06d :: "int \<Rightarrow> gostring" where
  "fmt06d i = (if i < 0 then 45 # dec_pad 5 (nat (- i)) else dec_pad 6 (nat i))"

definition deriveBlockfilePath :: "gostring \<Rightarrow> int \<Rightarrow> gostring" where
  "deriveBlockfilePath rootDir suffixNum = rootDir @ [47] @ blockfilePrefix @ fmt06d suffixNum"

definition FileExists :: "gostring \<Rightarrow> FS \<Rightarrow> bool \<times> int" where
  "FileExists path fs =
     (case map_of (fsFiles fs) path of None \<Rightarrow> (False, 0) | Some c \<Rightarrow> (True, int (length c)))"

section \<open>Writer and reader\<close>

record blockfileWriter =
  filePath :: gostring

text \<open>Opening creates a missing file.\<close>

definition writer_open :: "blockfileWriter \<Rightarrow> FS \<Rightarrow> FS" where
  "writer_open w fs =
     (case map_of (fsFiles fs) (filePath w) of
        None \<Rightarrow> fs\<lparr>fsFiles := mput (filePath w) [] (fsFiles fs)\<rparr>
      | Some _ \<Rightarrow> fs)"

definition newBlockfileWriter :: "gostring \<Rightarrow> FS \<Rightarrow> blockfileWriter \<times> FS" where
  "newBlockfileWriter path fs = (let w = \<lparr>filePath = path\<rparr> in (w, writer_open w fs))"

definition truncateFile :: "blockfileWriter \<Rightarrow> int \<Rightarrow> FS \<Rightarrow> FS" where
  "truncateFile w targetSize fs =
     (case map_of (fsFiles fs) (filePath w) of
        None \<Rightarrow> fs
      | Some c \<Rightarrow>
          if targetSize < int (length c) then fs\<lparr>fsFiles := mput (filePath w) (take (nat targetSize) c) (fsFiles fs)\<rparr>
          else fs)"

definition writer_append :: "blockfileWriter \<Rightarrow> bytes \<Rightarrow> FS \<Rightarrow> FS \<times> (error + unit)" where
  "writer_append w b fs = fs_write (filePath w) b fs"

text \<open>\<open>ReadAt\<close> fails unless all the bytes asked for are there.\<close>

definition newBlockfileReader :: "gostring \<Rightarrow> FS \<Rightarrow> error + gostring" where
  "newBlockfileReader path fs =
     (case map_of (fsFiles fs) path of None \<Rightarrow> Inl (ErrIO ''no such file'') | Some _ \<Rightarrow> Inr path)"

definition reader_read :: "gostring \<Rightarrow> int \<Rightarrow> int \<Rightarrow> FS \<Rightarrow> error + bytes" where
  "reader_read path off len fs =
     (if len < 0 then Inl (Panic ''makeslice: len out of range'')
      else if len = 0 then Inr []
      else if off < 0 then Inl (ErrIO ''negative offset'')
      else let c = of_nbytes (map_of (fsFiles fs) path) in
        if off + len \<le> int (length c) then Inr (take (nat len) (drop (nat off) c)) else Inl (ErrIO ''EOF''))"

section \<open>Streams\<close>

record blockPlacementInfo =
  bpFileNum :: int
  blockStartOffset :: int
  blockBytesOffset :: int

record blockfileStream =
  bfFileNum :: int
  bfFile :: gostring
  currentOffset :: int

definition newBlockfileStream :: "gostring \<Rightarrow> int \<Rightarrow> int \<Rightarrow> FS \<Rightarrow> error + blockfileStream" where
  "newBlockfileStream rootDir fileNum startOffset fs =
     (let path = deriveBlockfilePath rootDir fileNum in
      case map_of (fsFiles fs) path of
        None \<Rightarrow> Inl (ErrIO ''no such file'')
      | Some _ \<Rightarrow>
          if startOffset < 0 then Inl (ErrIO ''invalid argument'')
          else Inr \<lparr>bfFileNum = fileNum, bfFile = path, currentOffset = startOffset\<rparr>)"

text \<open>
  The buffered reader stands at \<open>currentOffset\<close>. The result is nil at the end of the file. A length
  beyond what an \<open>int\<close> holds, which may get past the check on \<open>bytesExpected\<close> by wrapping around, panics
  in \<open>make\<close>.
\<close>

definition bf_next :: "FS \<Rightarrow> blockfileStream \<Rightarrow> error + (bytes \<times> blockPlacementInfo) option \<times> blockfileStream" where
  "bf_next fs s =
     (let c = of_nbytes (map_of (fsFiles fs) (bfFile s));
          remainingBytes = int (length c) - currentOffset s;
          moreContentAvailable = (8 \<le> remainingBytes);
          peekBytes = (if moreContentAvailable then 8 else remainingBytes)
      in if remainingBytes = 0 then Inr (None, s)
         else if peekBytes < 0 then Inl (ErrIO ''bufio: negative count'')
         else let lenBytes = take (nat peekBytes) (drop (nat (currentOffset s)) c);
                  (len, n) = DecodeVarint lenBytes
              in if n = 0 then
                   (if moreContentAvailable then Inl (Panic ''Error in decoding varint bytes'')
                    else Inl ErrUnexpectedEndOfBlockfile)
                 else let bytesExpected = goint (int n + int_of_u64 len) in
                   if remainingBytes < bytesExpected then Inl ErrUnexpectedEndOfBlockfile
                   else if int_of_u64 len < 0 \<or> maxint < int n + int_of_u64 len then Inl (Panic ''makeslice: len out of range'')
                   else Inr (Some (take (nat (int_of_u64 len)) (drop (nat (currentOffset s) + n) c),
                                   \<lparr>bpFileNum = bfFileNum s, blockStartOffset = currentOffset s,
                                    blockBytesOffset = currentOffset s + int n\<rparr>),
                             s\<lparr>currentOffset := currentOffset s + int n + int_of_u64 len\<rparr>))"

definition bf_nextBlockBytes :: "FS \<Rightarrow> blockfileStream \<Rightarrow> error + nbytes \<times> blockfileStream" where
  "bf_nextBlockBytes fs s = bindE (bf_next fs s) (\<lambda>(r, s). Inr (map_option fst r, s))"

record blockStream =
  bsRootDir :: gostring
  currentFileNum :: int
  endFileNum :: int
  currentFileStream :: blockfileStream

definition newBlockStream :: "gostring \<Rightarrow> int \<Rightarrow> int \<Rightarrow> int \<Rightarrow> FS \<Rightarrow> error + blockStream" where
  "newBlockStream rootDir startFileNum startOffset endNum fs =
     bindE (newBlockfileStream rootDir startFileNum startOffset fs) (\<lambda>s.
       Inr \<lparr>bsRootDir = rootDir, currentFileNum = startFileNum, endFileNum = endNum, currentFileStream = s\<rparr>)"

definition moveToNextBlockfileStream :: "FS \<Rightarrow> blockStream \<Rightarrow> error + blockStream" where
  "moveToNextBlockfileStream fs s =
     bindE (newBlockfileStream (bsRootDir s) (currentFileNum s + 1) 0 fs) (\<lambda>fstr.
       Inr (s\<lparr>currentFileNum := currentFileNum s + 1, currentFileStream := fstr\<rparr>))"

lemma dec_pad_no_minus: "dec_pad w n \<noteq> 45 # ds"
proof
  assume eq: "dec_pad w n = 45 # ds"
  have "d \<noteq> 45" if "d \<in> set (dec_pad w n)" for d
    using that dec_digits [of d n] by (auto simp: dec_pad_def)
  then show False using eq by (metis list.set_intros(1))
qed

lemma fmt06d_inj: "fmt06d i = fmt06d j \<Longrightarrow> i = j"
proof (cases "i < 0"; cases "j < 0")
  assume eq: "fmt06d i = fmt06d j"
  show "i < 0 \<Longrightarrow> j < 0 \<Longrightarrow> i = j" using eq dec_pad_inj by (fastforce simp: fmt06d_def)
  show "i < 0 \<Longrightarrow> \<not> j < 0 \<Longrightarrow> i = j" using eq dec_pad_no_minus by (metis fmt06d_def)
  show "\<not> i < 0 \<Longrightarrow> j < 0 \<Longrightarrow> i = j" using eq dec_pad_no_minus by (metis fmt06d_def)
  show "\<not> i < 0 \<Longrightarrow> \<not> j < 0 \<Longrightarrow> i = j" using eq dec_pad_inj by (fastforce simp: fmt06d_def)
qed

lemma deriveBlockfilePath_inj [simp]: "deriveBlockfilePath r i = deriveBlockfilePath r j \<longleftrightarrow> i = j"
  using fmt06d_inj by (auto simp: deriveBlockfilePath_def)

text \<open>The files a stream may still move to.\<close>

definition filesAhead :: "FS \<Rightarrow> gostring \<Rightarrow> int \<Rightarrow> int set" where
  "filesAhead fs r n = {m. n < m \<and> deriveBlockfilePath r m \<in> fst ` set (fsFiles fs)}"

lemma finite_filesAhead: "finite (filesAhead fs r n)"
proof -
  have "inj_on (deriveBlockfilePath r) (filesAhead fs r n)" by (simp add: inj_on_def)
  moreover have "deriveBlockfilePath r ` filesAhead fs r n \<subseteq> fst ` set (fsFiles fs)"
    by (auto simp: filesAhead_def)
  ultimately show ?thesis by (meson finite_imageD finite_subset finite_imageI finite_set)
qed

lemma moveToNext_shrinks:
  assumes "moveToNextBlockfileStream fs s = Inr s'"
  shows "card (filesAhead fs (bsRootDir s') (currentFileNum s')) < card (filesAhead fs (bsRootDir s) (currentFileNum s))"
proof (rule psubset_card_mono [OF finite_filesAhead])
  have s': "bsRootDir s' = bsRootDir s" "currentFileNum s' = currentFileNum s + 1"
    and "map_of (fsFiles fs) (deriveBlockfilePath (bsRootDir s) (currentFileNum s + 1)) \<noteq> None"
    using assms
    by (auto simp: moveToNextBlockfileStream_def newBlockfileStream_def bindE_eq_Inr_conv Let_def split: option.splits)
  then have "currentFileNum s + 1 \<in> filesAhead fs (bsRootDir s) (currentFileNum s)"
    by (auto simp: filesAhead_def map_of_eq_None_iff)
  moreover have "currentFileNum s + 1 \<notin> filesAhead fs (bsRootDir s') (currentFileNum s')"
    by (simp add: s' filesAhead_def)
  moreover have "filesAhead fs (bsRootDir s') (currentFileNum s') \<subseteq> filesAhead fs (bsRootDir s) (currentFileNum s)"
    by (auto simp: s' filesAhead_def)
  ultimately show "filesAhead fs (bsRootDir s') (currentFileNum s') \<subset> filesAhead fs (bsRootDir s) (currentFileNum s)"
    by blast
qed

text \<open>At the end of a file the stream goes on with the next one, as long as there are any.\<close>

function bs_next :: "FS \<Rightarrow> blockStream \<Rightarrow> error + (bytes \<times> blockPlacementInfo) option \<times> blockStream" where
  "bs_next fs s =
     (case bf_next fs (currentFileStream s) of
        Inl err \<Rightarrow> Inl err
      | Inr (r, fstr) \<Rightarrow>
         (let s = s\<lparr>currentFileStream := fstr\<rparr> in
          if r = None \<and> (currentFileNum s < endFileNum s \<or> endFileNum s < 0) then
            (case moveToNextBlockfileStream fs s of
               Inl err \<Rightarrow> Inl err
             | Inr s \<Rightarrow> bs_next fs s)
          else Inr (r, s)))"
  by pat_completeness auto
termination
  by (relation "measure (\<lambda>(fs, s). card (filesAhead fs (bsRootDir s) (currentFileNum s)))")
    (auto dest: moveToNext_shrinks)

declare bs_next.simps [simp del]

definition bs_nextBlockBytes :: "FS \<Rightarrow> blockStream \<Rightarrow> error + nbytes \<times> blockStream" where
  "bs_nextBlockBytes fs s = bindE (bs_next fs s) (\<lambda>(r, s). Inr (map_option fst r, s))"

section \<open>Reading what was appended\<close>

text \<open>A block whose length fits in the eight bytes the stream looks at.\<close>

definition blk_ok :: "bytes \<Rightarrow> bool" where
  "blk_ok b \<longleftrightarrow> length b < 2 ^ 56"

lemma blk_ok_len: "blk_ok b \<Longrightarrow> int_of_u64 (u64_len b) = int (length b) \<and> length (EncodeVarint (u64_len b)) \<le> 8"
proof -
  assume ok: "blk_ok b"
  then have "fits b" by (simp add: blk_ok_def fits_def maxint_def)
  moreover have "length (EncodeVarint (u64_len b)) \<le> 8"
    by (rule length_EncodeVarint)
      (use ok in \<open>simp_all add: blk_ok_def u64_len_def u64_of_int_def unsigned_of_nat take_bit_nat_eq_self\<close>)
  ultimately show ?thesis by simp
qed

lemma varint_pos: "0 < length (EncodeVarint x)"
  by simp

text \<open>A varint that is cut short does not decode.\<close>

lemma DecodeVarint_loop_cut:
  assumes "drop n bs = take k (EncodeVarint y)" and "k < length (EncodeVarint y)" and "n \<le> length bs"
    and "s < 64" and "unat y < 2 ^ (64 - s)"
  shows "DecodeVarint_loop s x n bs = (0, 0)"
  using assms
proof (induction y arbitrary: n s x k rule: EncodeVarint.induct)
  case (1 y)
  show ?case
  proof (cases k)
    case 0
    with 1(2,4) have "length bs \<le> n" by simp
    with 1(5) show ?thesis by (subst DecodeVarint_loop.simps) simp
  next
    case (Suc j)
    have big: "127 < y"
    proof (rule ccontr)
      assume "\<not> 127 < y"
      then show False using 1(3) Suc by (simp add: EncodeVarint_last)
    qed
    have d: "drop n bs = (0x80 OR ucast (y AND 0x7F)) # take j (EncodeVarint (drop_bit 7 y))"
      using 1(2) Suc by (simp add: EncodeVarint_more [OF big])
    note dc = drop_Cons_nth [OF d]
    have "DecodeVarint_loop (s + 7) (x OR push_bit s (ucast (bs ! n) AND 0x7F)) (Suc n) bs = (0, 0)"
      by (rule 1(1) [OF big, of _ j])
        (use dc 1(3) Suc drop_bit7_bound [OF big 1(6) 1(5)] in \<open>simp_all add: EncodeVarint_more [OF big]\<close>)
    moreover have "(ucast (bs ! n) :: u64) AND 0x80 \<noteq> 0" using dc high_bit_set by simp
    ultimately show ?thesis using dc 1(5) by (subst DecodeVarint_loop.simps) (simp add: Let_def)
  qed
qed

lemma DecodeVarint_cut: "k < length (EncodeVarint y) \<Longrightarrow> DecodeVarint (take k (EncodeVarint y)) = (0, 0)"
  using DecodeVarint_loop_cut [of 0 "take k (EncodeVarint y)" k y 0 0] unsigned_less [where 'a = nat, of y]
  by (simp add: DecodeVarint_def)

lemma take_varint: "length (EncodeVarint y) \<le> k \<Longrightarrow>
    DecodeVarint (take k (EncodeVarint y @ r)) = (y, length (EncodeVarint y))"
  by (simp add: take_append)

definition stream_at :: "FS \<Rightarrow> blockfileStream \<Rightarrow> bytes \<Rightarrow> bytes \<Rightarrow> bool" where
  "stream_at fs s pre rest \<longleftrightarrow>
     map_of (fsFiles fs) (bfFile s) = Some (pre @ rest) \<and> currentOffset s = int (length pre)"

lemma bf_next_end: "stream_at fs s pre [] \<Longrightarrow> bf_next fs s = Inr (None, s)"
  by (simp add: stream_at_def bf_next_def of_nbytes_def)

lemma bf_next_block:
  assumes "stream_at fs s pre (enc_bytes b @ rest)" and "blk_ok b"
  shows "bf_next fs s = Inr (Some (b, \<lparr>bpFileNum = bfFileNum s, blockStartOffset = int (length pre),
        blockBytesOffset = int (length pre + length (EncodeVarint (u64_len b)))\<rparr>),
      s\<lparr>currentOffset := int (length (pre @ enc_bytes b))\<rparr>)"
proof -
  let ?v = "EncodeVarint (u64_len b)"
  note len = blk_ok_len [OF assms(2)]
  have c: "map_of (fsFiles fs) (bfFile s) = Some (pre @ ?v @ b @ rest)" and off: "currentOffset s = int (length pre)"
    using assms(1) by (simp_all add: stream_at_def enc_bytes_def)
  let ?rem = "int (length ?v + length b + length rest)"
  let ?peek = "if 8 \<le> ?rem then 8 else ?rem"
  have dec: "DecodeVarint (take (nat ?peek) (?v @ b @ rest)) = (u64_len b, length ?v)"
    by (rule take_varint) (use len in auto)
  have "goint (int (length ?v) + int (length b)) = int (length ?v) + int (length b)"
    by (rule goint_id) (use len assms(2) in \<open>auto simp: blk_ok_def maxint_def\<close>)
  moreover have "int (length ?v) + int (length b) \<le> maxint"
    using len assms(2) by (simp add: blk_ok_def maxint_def)
  ultimately show ?thesis
    using c off dec len varint_pos [of "u64_len b"]
    by (simp add: bf_next_def of_nbytes_def Let_def enc_bytes_def add.assoc nat_add_distrib)
qed

lemma bf_next_cut:
  assumes "stream_at fs s pre (take k (enc_bytes b))" and "blk_ok b" and "0 < k" and "k < length (enc_bytes b)"
  shows "bf_next fs s = Inl ErrUnexpectedEndOfBlockfile"
proof -
  let ?v = "EncodeVarint (u64_len b)"
  note len = blk_ok_len [OF assms(2)]
  let ?p = "take k (enc_bytes b)"
  have plen: "length ?p = k" using assms(4) by simp
  have c: "map_of (fsFiles fs) (bfFile s) = Some (pre @ ?p)" and off: "currentOffset s = int (length pre)"
    using assms(1) by (simp_all add: stream_at_def)
  show ?thesis
  proof (cases "k < length ?v")
    case True
    then have "?p = take k ?v" by (simp add: enc_bytes_def)
    then have "DecodeVarint ?p = (0, 0)" using DecodeVarint_cut [OF True] by simp
    moreover have "k < 8" using True len by simp
    ultimately show ?thesis using c off plen assms(3) by (simp add: bf_next_def of_nbytes_def Let_def)
  next
    case False
    then have "?p = ?v @ take (k - length ?v) b" by (simp add: enc_bytes_def)
    moreover have "length ?v \<le> nat (if 8 \<le> int k then 8 else int k)" using False len by auto
    ultimately have dec: "DecodeVarint (take (nat (if 8 \<le> int k then 8 else int k)) ?p) = (u64_len b, length ?v)"
      using take_varint by metis
    have "goint (int (length ?v) + int (length b)) = int (length ?v) + int (length b)"
      by (rule goint_id) (use len assms(2) in \<open>auto simp: blk_ok_def maxint_def\<close>)
    moreover have "k < length ?v + length b" using assms(4) by (simp add: enc_bytes_def)
    ultimately show ?thesis
      using c off plen assms(3) dec len varint_pos [of "u64_len b"]
      by (cases "8 \<le> k") (simp_all add: bf_next_def of_nbytes_def Let_def)
  qed
qed

end
