(* ===== verification/BlockfileMgr.thy ===== *)
theory BlockfileMgr
  imports BlockIndex BlockFiles
begin

text \<open>
  The block file manager (core/ledger/blkstorage/fsblkstorage: blockfile_mgr.go, blocks_itr.go,
  fs_blockstore.go): it appends blocks to numbered files, keeps a checkpoint and an index in the
  key-value store, brings both in line with the files when it starts, and retrieves blocks by number,
  by hash and in sequence. This theory holds its definitions.
\<close>

section \<open>The checkpoint\<close>

record checkpointInfo =
  latestFileChunkSuffixNum :: int
  latestFileChunksize :: int
  lastBlockNumber :: u64

definition cp_marshal :: "checkpointInfo \<Rightarrow> bytes" where
  "cp_marshal i =
     (let b = bufEncodeVarint (NewBuffer []) (u64_of_int (latestFileChunkSuffixNum i));
          b = bufEncodeVarint b (u64_of_int (latestFileChunksize i));
          b = bufEncodeVarint b (lastBlockNumber i)
      in buf b)"

definition cp_unmarshal :: "bytes \<Rightarrow> error + checkpointInfo" where
  "cp_unmarshal b =
     bindE (bufDecodeVarint (NewBuffer b)) (\<lambda>(v1, b).
     bindE (bufDecodeVarint b) (\<lambda>(v2, b).
     bindE (bufDecodeVarint b) (\<lambda>(v3, b).
       Inr \<lparr>latestFileChunkSuffixNum = int_of_u64 v1, latestFileChunksize = int_of_u64 v2, lastBlockNumber = v3\<rparr>)))"

text \<open>\<open>"blkMgrInfo"\<close>\<close>

definition blkMgrInfoKey :: bytes where
  "blkMgrInfoKey = [98, 108, 107, 77, 103, 114, 73, 110, 102, 111]"

definition loadCurrentInfo :: "'db leveldb_ops \<Rightarrow> 'db DB \<Rightarrow> error + checkpointInfo option" where
  "loadCurrentInfo L d =
     bindE (DB_Get L d blkMgrInfoKey) (\<lambda>b.
       case b of None \<Rightarrow> Inr None | Some b \<Rightarrow> bindE (cp_unmarshal b) (\<lambda>i. Inr (Some i)))"

definition saveCurrentInfo :: "'db leveldb_ops \<Rightarrow> checkpointInfo \<Rightarrow> 'db DB \<Rightarrow> error + 'db DB" where
  "saveCurrentInfo L i d = DB_Put L d blkMgrInfoKey (cp_marshal i)"

section \<open>The manager\<close>

record BlockchainInfo =
  Height :: u64
  CurrentBlockHash :: nbytes
  bcPreviousBlockHash :: nbytes

record 'db blockfileMgr =
  rootDir :: gostring
  maxBlockfileSize :: int
  mgrFS :: FS
  mgrDB :: "'db DB"
  mgrIndex :: "IndexableAttr set"
  cpInfo :: checkpointInfo
  currentFileWriter :: blockfileWriter
  bcInfo :: BlockchainInfo

definition updateCheckpoint :: "checkpointInfo \<Rightarrow> 'db blockfileMgr \<Rightarrow> 'db blockfileMgr" where
  "updateCheckpoint i mgr = mgr\<lparr>cpInfo := i\<rparr>"

definition updateBlockchainInfo :: "bytes \<Rightarrow> Block2 \<Rightarrow> 'db blockfileMgr \<Rightarrow> 'db blockfileMgr" where
  "updateBlockchainInfo latestBlockHash latestBlock mgr =
     mgr\<lparr>bcInfo := \<lparr>Height = Height (bcInfo mgr) + 1, CurrentBlockHash = Some latestBlockHash,
       bcPreviousBlockHash = PreviousBlockHash latestBlock\<rparr>\<rparr>"

definition moveToNextFile :: "'db leveldb_ops \<Rightarrow> 'db blockfileMgr \<Rightarrow> error + 'db blockfileMgr" where
  "moveToNextFile L mgr =
     (let i = \<lparr>latestFileChunkSuffixNum = latestFileChunkSuffixNum (cpInfo mgr) + 1, latestFileChunksize = 0,
               lastBlockNumber = lastBlockNumber (cpInfo mgr)\<rparr>;
          (nextFileWriter, fs) = newBlockfileWriter (deriveBlockfilePath (rootDir mgr) (latestFileChunkSuffixNum i)) (mgrFS mgr)
      in case saveCurrentInfo L i (mgrDB mgr) of
           Inl err \<Rightarrow> Inl (Panic ''Could not save next block file info to db'')
         | Inr d \<Rightarrow> Inr (updateCheckpoint i (mgr\<lparr>mgrFS := fs, mgrDB := d, currentFileWriter := nextFileWriter\<rparr>)))"

text \<open>
  \<open>addBlock\<close> appends the length and the block, saves the checkpoint, and indexes the block; the error of
  the last step is dropped. When an append or the checkpoint fails the file is cut back to its size
  before.
\<close>

definition appendRecord :: "bytes \<Rightarrow> bytes \<Rightarrow> 'db blockfileMgr \<Rightarrow> FS \<times> (error + unit)" where
  "appendRecord lenBytes bs mgr =
     (case writer_append (currentFileWriter mgr) lenBytes (mgrFS mgr) of
        (fs, Inl err) \<Rightarrow> (fs, Inl err)
      | (fs, Inr _) \<Rightarrow> writer_append (currentFileWriter mgr) bs fs)"

definition appendBlock ::
  "'db leveldb_ops \<Rightarrow> Block2 \<Rightarrow> bytes \<Rightarrow> bytes \<Rightarrow> int list \<Rightarrow> int \<Rightarrow> 'db blockfileMgr \<Rightarrow>
   'db blockfileMgr \<times> (error + unit)" where
  "appendBlock L block bs hash offs curOffset mgr =
     (let lenBytes = EncodeVarint (u64_len bs) in
      case appendRecord lenBytes bs mgr of
        (fs, Inl err) \<Rightarrow>
          (mgr\<lparr>mgrFS := truncateFile (currentFileWriter mgr) (latestFileChunksize (cpInfo mgr)) fs\<rparr>,
           Inl (ErrMsg ''Error while appending block to file''))
      | (fs, Inr _) \<Rightarrow>
         (let newCPInfo =
                \<lparr>latestFileChunkSuffixNum = latestFileChunkSuffixNum (cpInfo mgr),
                 latestFileChunksize = latestFileChunksize (cpInfo mgr) + int (length bs + length lenBytes),
                 lastBlockNumber = lastBlockNumber (cpInfo mgr) + 1\<rparr>
          in case saveCurrentInfo L newCPInfo (mgrDB mgr) of
               Inl err \<Rightarrow>
                 (mgr\<lparr>mgrFS := truncateFile (currentFileWriter mgr) (latestFileChunksize (cpInfo mgr)) fs\<rparr>,
                  Inl (ErrMsg ''Error while saving current file info to db''))
             | Inr d \<Rightarrow>
                (let info =
                       \<lparr>biBlockNum = lastBlockNumber newCPInfo, biBlockHash = hash,
                        biFlp = \<lparr>lpOffset = curOffset, lpBytesLength = 0,
                                 fileSuffixNum = latestFileChunkSuffixNum newCPInfo\<rparr>,
                        biTxOffsets = map (\<lambda>off. off + int (length lenBytes)) offs\<rparr>;
                     d = (case indexBlock L (mgrIndex mgr) info d of Inl _ \<Rightarrow> d | Inr d \<Rightarrow> d)
                 in (updateBlockchainInfo hash block
                       (updateCheckpoint newCPInfo (mgr\<lparr>mgrFS := fs, mgrDB := d\<rparr>)),
                     Inr ()))))"

definition addBlock ::
  "'db leveldb_ops \<Rightarrow> (bytes \<Rightarrow> bytes) \<Rightarrow> Block2 \<Rightarrow> 'db blockfileMgr \<Rightarrow> 'db blockfileMgr \<times> (error + unit)" where
  "addBlock L H block mgr =
     (let serBlock = ConstructSerBlock2 block;
          bs = GetBytes serBlock;
          (hash, serBlock) = ComputeHash H serBlock
      in case GetTxOffsets serBlock of
           (_, Inl err) \<Rightarrow> (mgr, Inl (ErrMsg ''Error while serializing block''))
         | (_, Inr offs) \<Rightarrow>
            (let curOffset = latestFileChunksize (cpInfo mgr);
                 totalBytesToAppend = int (length bs + length (EncodeVarint (u64_len bs)))
             in if maxBlockfileSize mgr < curOffset + totalBytesToAppend then
                  (case moveToNextFile L mgr of
                     Inl err \<Rightarrow> (mgr, Inl err)
                   | Inr mgr \<Rightarrow> appendBlock L block bs hash offs 0 mgr)
                else appendBlock L block bs hash offs curOffset mgr))"

section \<open>Retrieval\<close>

definition fetchBlockBytes :: "'db blockfileMgr \<Rightarrow> fileLocPointer \<Rightarrow> error + nbytes" where
  "fetchBlockBytes mgr lp =
     bindE (newBlockfileStream (rootDir mgr) (fileSuffixNum lp) (lpOffset lp) (mgrFS mgr)) (\<lambda>stream.
     bindE (bf_nextBlockBytes (mgrFS mgr) stream) (\<lambda>(b, _). Inr b))"

definition fetchSerBlock :: "'db blockfileMgr \<Rightarrow> fileLocPointer \<Rightarrow> error + SerBlock2" where
  "fetchSerBlock mgr lp = bindE (fetchBlockBytes mgr lp) (\<lambda>b. Inr (NewSerBlock2 (of_nbytes b)))"

definition fetchBlock :: "'db blockfileMgr \<Rightarrow> fileLocPointer \<Rightarrow> error + Block2" where
  "fetchBlock mgr lp = bindE (fetchSerBlock mgr lp) ToBlock2"

definition fetchRawBytes :: "'db blockfileMgr \<Rightarrow> fileLocPointer \<Rightarrow> error + bytes" where
  "fetchRawBytes mgr lp =
     bindE (newBlockfileReader (deriveBlockfilePath (rootDir mgr) (fileSuffixNum lp)) (mgrFS mgr)) (\<lambda>reader.
       reader_read reader (lpOffset lp) (lpBytesLength lp) (mgrFS mgr))"

text \<open>
  \<open>extractTransaction\<close> stands for the function of that name, which calls the generated protobuf code.
\<close>

definition fetchTransaction ::
  "(bytes \<Rightarrow> error + 'tx) \<Rightarrow> 'db blockfileMgr \<Rightarrow> fileLocPointer \<Rightarrow> error + 'tx" where
  "fetchTransaction extractTransaction mgr lp = bindE (fetchRawBytes mgr lp) extractTransaction"

definition retrieveBlockByHash :: "'db leveldb_ops \<Rightarrow> 'db blockfileMgr \<Rightarrow> bytes \<Rightarrow> error + Block2" where
  "retrieveBlockByHash L mgr h = bindE (getBlockLocByHash L (mgrIndex mgr) (mgrDB mgr) h) (fetchBlock mgr)"

definition retrieveBlockByNumber :: "'db leveldb_ops \<Rightarrow> 'db blockfileMgr \<Rightarrow> u64 \<Rightarrow> error + Block2" where
  "retrieveBlockByNumber L mgr n = bindE (getBlockLocByBlockNum L (mgrIndex mgr) (mgrDB mgr) n) (fetchBlock mgr)"

definition retrieveSerBlockByNumber :: "'db leveldb_ops \<Rightarrow> 'db blockfileMgr \<Rightarrow> u64 \<Rightarrow> error + SerBlock2" where
  "retrieveSerBlockByNumber L mgr n =
     bindE (getBlockLocByBlockNum L (mgrIndex mgr) (mgrDB mgr) n) (fetchSerBlock mgr)"

definition retrieveTransactionByID ::
  "'db leveldb_ops \<Rightarrow> (bytes \<Rightarrow> error + 'tx) \<Rightarrow> 'db blockfileMgr \<Rightarrow> gostring \<Rightarrow> error + 'tx" where
  "retrieveTransactionByID L extractTransaction mgr txID =
     bindE (getTxLoc L (mgrIndex mgr) (mgrDB mgr) txID) (fetchTransaction extractTransaction mgr)"

section \<open>Progress of the streams\<close>

lemma bf_next_progress:
  assumes "bf_next fs s = Inr (Some r, s')"
  shows "bfFile s' = bfFile s \<and> currentOffset s < currentOffset s' \<and>
    currentOffset s' \<le> int (length (of_nbytes (map_of (fsFiles fs) (bfFile s))))"
proof -
  let ?c = "of_nbytes (map_of (fsFiles fs) (bfFile s))"
  let ?rem = "int (length ?c) - currentOffset s"
  obtain len n where "n \<noteq> 0" "\<not> ?rem < goint (int n + int_of_u64 len)" "0 \<le> int_of_u64 len"
    "int n + int_of_u64 len \<le> maxint" "s' = s\<lparr>currentOffset := currentOffset s + int n + int_of_u64 len\<rparr>"
    using assms by (auto simp: bf_next_def Let_def split: if_splits prod.splits)
  moreover from this have "goint (int n + int_of_u64 len) = int n + int_of_u64 len"
    by (intro goint_id) auto
  ultimately show ?thesis by simp
qed

definition remaining :: "FS \<Rightarrow> blockfileStream \<Rightarrow> nat" where
  "remaining fs s = nat (int (length (of_nbytes (map_of (fsFiles fs) (bfFile s)))) - currentOffset s)"

lemma bf_next_remaining: "bf_next fs s = Inr (Some r, s') \<Longrightarrow> remaining fs s' < remaining fs s"
  using bf_next_progress [of fs s r s'] by (auto simp: remaining_def)

lemma bs_next_progress:
  assumes "bs_next fs s = Inr (Some r, s')"
  shows "card (filesAhead fs (bsRootDir s') (currentFileNum s')) < card (filesAhead fs (bsRootDir s) (currentFileNum s)) \<or>
    card (filesAhead fs (bsRootDir s') (currentFileNum s')) = card (filesAhead fs (bsRootDir s) (currentFileNum s)) \<and>
    remaining fs (currentFileStream s') < remaining fs (currentFileStream s)"
  using assms
proof (induction fs s rule: bs_next.induct)
  case (1 fs s)
  obtain x fstr where b: "bf_next fs (currentFileStream s) = Inr (x, fstr)"
    using 1(2) by (subst (asm) bs_next.simps) (auto split: sum.splits prod.splits)
  let ?s = "s\<lparr>currentFileStream := fstr\<rparr>"
  show ?case
  proof (cases "x = None \<and> (currentFileNum ?s < endFileNum ?s \<or> endFileNum ?s < 0)")
    case True
    then obtain s2 where m: "moveToNextBlockfileStream fs ?s = Inr s2" "bs_next fs s2 = Inr (Some r, s')"
      using 1(2) b by (subst (asm) bs_next.simps) (auto split: sum.splits)
    have "card (filesAhead fs (bsRootDir s') (currentFileNum s')) \<le> card (filesAhead fs (bsRootDir s2) (currentFileNum s2))"
      using 1(1) [OF b refl refl _ m(1) m(2)] True by auto
    moreover have "card (filesAhead fs (bsRootDir s2) (currentFileNum s2)) < card (filesAhead fs (bsRootDir s) (currentFileNum s))"
      using moveToNext_shrinks [OF m(1)] by simp
    ultimately show ?thesis by simp
  next
    case False
    then have "x = Some r" "s' = ?s"
      using 1(2) b by (subst (asm) bs_next.simps, auto split: sum.splits if_splits)+
    with b bf_next_remaining show ?thesis by auto
  qed
qed

section \<open>Bringing checkpoint and index in line with the files\<close>

text \<open>The scan counts the blocks up to the end of the file or the first error.\<close>

function scan_loop :: "FS \<Rightarrow> blockfileStream \<Rightarrow> nat \<Rightarrow> blockfileStream \<times> nat \<times> error option" where
  "scan_loop fs s n =
     (case bf_next fs s of
        Inl err \<Rightarrow> (s, n, Some err)
      | Inr (None, s) \<Rightarrow> (s, n, None)
      | Inr (Some _, s) \<Rightarrow> scan_loop fs s (Suc n))"
  by pat_completeness auto
termination
  by (relation "measure (\<lambda>(fs, s, n). remaining fs s)") (auto intro: bf_next_remaining)

declare scan_loop.simps [simp del]

definition scanForLastCompleteBlock :: "gostring \<Rightarrow> int \<Rightarrow> int \<Rightarrow> FS \<Rightarrow> error + int \<times> nat" where
  "scanForLastCompleteBlock root fileNum startingOffset fs =
     bindE (newBlockfileStream root fileNum startingOffset fs) (\<lambda>s.
       case scan_loop fs s 0 of
         (s, numBlocks, errRead) \<Rightarrow>
           (case errRead of
              None \<Rightarrow> Inr (currentOffset s, numBlocks)
            | Some err \<Rightarrow>
                if err = ErrUnexpectedEndOfBlockfile then Inr (currentOffset s, numBlocks) else Inl err))"

definition syncCPInfoFromFS :: "gostring \<Rightarrow> checkpointInfo \<Rightarrow> FS \<Rightarrow> error + checkpointInfo" where
  "syncCPInfoFromFS root i fs =
     (let (exists, sz) = FileExists (deriveBlockfilePath root (latestFileChunkSuffixNum i)) fs in
      if \<not> exists \<or> sz = latestFileChunksize i then Inr i
      else case scanForLastCompleteBlock root (latestFileChunkSuffixNum i) (latestFileChunksize i) fs of
             Inl err \<Rightarrow> Inl (Panic ''Could not open current file for detecting last block in the file'')
           | Inr (endOffsetLastBlock, numBlocks) \<Rightarrow>
               Inr (i\<lparr>lastBlockNumber := lastBlockNumber i + of_nat numBlocks, latestFileChunksize := endOffsetLastBlock\<rparr>))"

text \<open>The loop of \<open>syncIndex\<close>: every block the stream yields is indexed.\<close>

function sync_loop ::
  "'db leveldb_ops \<Rightarrow> (bytes \<Rightarrow> bytes) \<Rightarrow> IndexableAttr set \<Rightarrow> FS \<Rightarrow> blockStream \<Rightarrow> u64 \<Rightarrow> 'db DB \<Rightarrow>
   'db DB \<times> (error + unit)" where
  "sync_loop L H items fs s blockNum d =
     (case bs_next fs s of
        Inl err \<Rightarrow> (d, Inl err)
      | Inr (None, s) \<Rightarrow> (d, Inr ())
      | Inr (Some (bs, info), s) \<Rightarrow>
         (case GetTxOffsets (NewSerBlock2 bs) of
            (_, Inl err) \<Rightarrow> (d, Inl err)
          | (serBlock2, Inr offs) \<Rightarrow>
             (case indexBlock L items
                     \<lparr>biBlockNum = blockNum, biBlockHash = fst (ComputeHash H serBlock2),
                      biFlp = \<lparr>lpOffset = blockStartOffset info, lpBytesLength = 0, fileSuffixNum = bpFileNum info\<rparr>,
                      biTxOffsets = map (\<lambda>off. off + blockBytesOffset info) offs\<rparr> d of
                Inl err \<Rightarrow> (d, Inl err)
              | Inr d \<Rightarrow> sync_loop L H items fs s (blockNum + 1) d)))"
  by pat_completeness auto
termination
  by (relation "(\<lambda>(L, H, items, fs, s, n, d). card (filesAhead fs (bsRootDir s) (currentFileNum s))) <*mlex*>
      measure (\<lambda>(L, H, items, fs, s, n, d). remaining fs (currentFileStream s))")
    (auto simp: wf_mlex mlex_iff dest!: bs_next_progress)

declare sync_loop.simps [simp del]

definition syncIndex ::
  "'db leveldb_ops \<Rightarrow> (bytes \<Rightarrow> bytes) \<Rightarrow> 'db blockfileMgr \<Rightarrow> 'db blockfileMgr \<times> (error + unit)" where
  "syncIndex L H mgr =
     (let lastBlockIndexed = getLastBlockIndexed L (mgrDB mgr);
          endNum = latestFileChunkSuffixNum (cpInfo mgr)
      in case (if lastBlockIndexed \<noteq> 0
               then bindE (getBlockLocByBlockNum L (mgrIndex mgr) (mgrDB mgr) lastBlockIndexed) (\<lambda>flp.
                      Inr (fileSuffixNum flp, lpOffset flp, lastBlockIndexed))
               else Inr (0, 0, 1)) of
           Inl err \<Rightarrow> (mgr, Inl err)
         | Inr (startFileNum, startOffset, blockNum) \<Rightarrow>
            (case newBlockStream (rootDir mgr) startFileNum startOffset endNum (mgrFS mgr) of
               Inl err \<Rightarrow> (mgr, Inl err)
             | Inr stream \<Rightarrow>
                (case sync_loop L H (mgrIndex mgr) (mgrFS mgr) stream blockNum (mgrDB mgr) of
                   (d, r) \<Rightarrow> (mgr\<lparr>mgrDB := d\<rparr>, r))))"

section \<open>Starting\<close>

text \<open>
  \<open>newBlockfileMgr\<close>, given the outcome of creating the directory and of opening the store. The error of
  \<open>syncIndex\<close> is dropped.
\<close>

definition zeroCP :: checkpointInfo where
  "zeroCP = \<lparr>latestFileChunkSuffixNum = 0, latestFileChunksize = 0, lastBlockNumber = 0\<rparr>"

definition initCP :: "'db leveldb_ops \<Rightarrow> 'db DB \<Rightarrow> error + checkpointInfo \<times> 'db DB" where
  "initCP L d =
     (case loadCurrentInfo L d of
        Inl err \<Rightarrow> Inl (Panic ''Could not get block file info for current block file from db'')
      | Inr (Some i) \<Rightarrow> Inr (i, d)
      | Inr None \<Rightarrow>
         (case saveCurrentInfo L zeroCP d of
            Inl err \<Rightarrow> Inl (Panic ''Could not save next block file info to db'')
          | Inr d \<Rightarrow> Inr (zeroCP, d)))"

definition initBCInfo ::
  "'db leveldb_ops \<Rightarrow> (bytes \<Rightarrow> bytes) \<Rightarrow> 'db blockfileMgr \<Rightarrow> error + BlockchainInfo" where
  "initBCInfo L H mgr =
     (if 0 < lastBlockNumber (cpInfo mgr) then
        (case retrieveSerBlockByNumber L mgr (lastBlockNumber (cpInfo mgr)) of
           Inl err \<Rightarrow> Inl (Panic ''Could not retrieve last block form file'')
         | Inr lastBlock \<Rightarrow>
            (let (lastBlockHash, lastBlock) = ComputeHash H lastBlock in
             case GetPreviousBlockHash lastBlock of
               Inl err \<Rightarrow> Inl (Panic ''Error in decoding block'')
             | Inr prev \<Rightarrow>
                 Inr \<lparr>Height = lastBlockNumber (cpInfo mgr), CurrentBlockHash = Some lastBlockHash,
                      bcPreviousBlockHash = Some prev\<rparr>))
      else Inr \<lparr>Height = 0, CurrentBlockHash = None, bcPreviousBlockHash = None\<rparr>)"

definition newBlockfileMgr ::
  "'db leveldb_ops \<Rightarrow> (bytes \<Rightarrow> bytes) \<Rightarrow> gostring \<Rightarrow> int \<Rightarrow> IndexableAttr list \<Rightarrow>
   error + bool \<Rightarrow> error + 'db DB \<Rightarrow> FS \<Rightarrow> error + 'db blockfileMgr" where
  "newBlockfileMgr L H root maxSize attrsToIndex createDir initDB fs =
     (case createDir of
        Inl err \<Rightarrow> Inl (Panic ''Error'')
      | Inr _ \<Rightarrow>
         bindE initDB (\<lambda>d.
         bindE (initCP L d) (\<lambda>(i, d).
         bindE (syncCPInfoFromFS root i fs) (\<lambda>i.
           let (w, fs) = newBlockfileWriter (deriveBlockfilePath root (latestFileChunkSuffixNum i)) fs;
               fs = truncateFile w (latestFileChunksize i) fs;
               mgr = \<lparr>rootDir = root, maxBlockfileSize = maxSize, mgrFS = fs, mgrDB = d,
                      mgrIndex = newBlockIndex attrsToIndex, cpInfo = i, currentFileWriter = w,
                      bcInfo = \<lparr>Height = 0, CurrentBlockHash = None, bcPreviousBlockHash = None\<rparr>\<rparr>;
               (mgr, _) = syncIndex L H mgr
           in bindE (initBCInfo L H mgr) (\<lambda>bc. Inr (mgr\<lparr>bcInfo := bc\<rparr>))))))"

section \<open>Iterating over blocks\<close>

text \<open>
  \<open>Next\<close> waits until the block it wants is there or the iterator is closed; waiting is the result None.
  An iterator result of \<open>Inr None\<close> is nil.
\<close>

record BlocksItr =
  maxBlockNumAvailable :: u64
  blockNumToRetrieve :: u64
  itrStream :: "blockStream option"
  closeMarker :: bool

definition newBlockItr :: "'db blockfileMgr \<Rightarrow> u64 \<Rightarrow> BlocksItr" where
  "newBlockItr mgr startBlockNum =
     \<lparr>maxBlockNumAvailable = lastBlockNumber (cpInfo mgr), blockNumToRetrieve = startBlockNum,
      itrStream = None, closeMarker = False\<rparr>"

definition waitForBlock :: "'db blockfileMgr \<Rightarrow> BlocksItr \<Rightarrow> u64 \<Rightarrow> u64 option" where
  "waitForBlock mgr itr blockNum =
     (if lastBlockNumber (cpInfo mgr) < blockNum \<and> \<not> closeMarker itr then None
      else Some (lastBlockNumber (cpInfo mgr)))"

definition initStream :: "'db leveldb_ops \<Rightarrow> 'db blockfileMgr \<Rightarrow> BlocksItr \<Rightarrow> error + BlocksItr" where
  "initStream L mgr itr =
     bindE (getBlockLocByBlockNum L (mgrIndex mgr) (mgrDB mgr) (blockNumToRetrieve itr)) (\<lambda>lp.
     bindE (newBlockStream (rootDir mgr) (fileSuffixNum lp) (lpOffset lp) (- 1) (mgrFS mgr)) (\<lambda>s.
       Inr (itr\<lparr>itrStream := Some s\<rparr>)))"

definition itr_Next ::
  "'db leveldb_ops \<Rightarrow> 'db blockfileMgr \<Rightarrow> BlocksItr \<Rightarrow> (BlocksItr \<times> (error + nbytes option)) option" where
  "itr_Next L mgr itr =
     (case (if maxBlockNumAvailable itr < blockNumToRetrieve itr
            then map_option (\<lambda>n. itr\<lparr>maxBlockNumAvailable := n\<rparr>) (waitForBlock mgr itr (blockNumToRetrieve itr))
            else Some itr) of
        None \<Rightarrow> None
      | Some itr \<Rightarrow>
          Some (if closeMarker itr then (itr, Inr None)
            else case (case itrStream itr of None \<Rightarrow> initStream L mgr itr | Some _ \<Rightarrow> Inr itr) of
                Inl err \<Rightarrow> (itr, Inl err)
              | Inr itr \<Rightarrow>
                 (case bs_nextBlockBytes (mgrFS mgr) (the (itrStream itr)) of
                    Inl err \<Rightarrow> (itr, Inl err)
                  | Inr (b, s) \<Rightarrow>
                      (itr\<lparr>itrStream := Some s, blockNumToRetrieve := blockNumToRetrieve itr + 1\<rparr>, Inr (Some b)))))"

text \<open>\<open>Close\<close> closes the stream, which is a nil pointer until the first \<open>Next\<close>.\<close>

definition itr_Close :: "BlocksItr \<Rightarrow> error + BlocksItr" where
  "itr_Close itr =
     (case itrStream itr of
        None \<Rightarrow> Inl (Panic ''nil pointer dereference'')
      | Some _ \<Rightarrow> Inr (itr\<lparr>closeMarker := True\<rparr>))"

text \<open>\<open>GetBlock\<close> of a block holder.\<close>

definition bh_GetBlock :: "bytes \<Rightarrow> error + Block2" where
  "bh_GetBlock bs =
     (case ToBlock2 (NewSerBlock2 bs) of Inl err \<Rightarrow> Inl (Panic ''Problem in deserialzing block'') | Inr b \<Rightarrow> Inr b)"

section \<open>Shutting down\<close>

definition mgr_close :: "'db leveldb_ops \<Rightarrow> 'db blockfileMgr \<Rightarrow> 'db blockfileMgr" where
  "mgr_close L mgr = mgr\<lparr>mgrDB := DB_Close L (mgrDB mgr)\<rparr>"

end
