(* ===== verification/BlockStore.thy ===== *)
theory BlockStore
  imports BlockfileMgr
begin

text \<open>
  What the block file manager promises: it is a list of blocks. The invariant ties the files, the
  checkpoint and the index to a list of blocks divided over the files. \<open>addBlock\<close> appends to the list, or
  leaves it alone when a write fails, and retrieval by number, by hash and by iterator returns its
  elements.
\<close>

section \<open>The layout of the files\<close>

text \<open>A segment is the list of blocks of one file.\<close>

definition seg_bytes :: "Block2 list \<Rightarrow> bytes" where
  "seg_bytes bs = concat (map (\<lambda>b. enc_bytes (ser_block b)) bs)"

lemma seg_bytes_simps [simp]:
  "seg_bytes [] = []" "seg_bytes (b # bs) = enc_bytes (ser_block b) @ seg_bytes bs"
  "seg_bytes (bs @ cs) = seg_bytes bs @ seg_bytes cs"
  by (simp_all add: seg_bytes_def)

text \<open>Block \<open>i\<close> is in the file and at the offset that \<open>loc segs i\<close> gives.\<close>

fun loc :: "Block2 list list \<Rightarrow> nat \<Rightarrow> nat \<times> nat" where
  "loc [] i = (0, 0)"
| "loc (seg # segs) i =
     (if i < length seg then (0, length (seg_bytes (take i seg)))
      else case loc segs (i - length seg) of (k, off) \<Rightarrow> (Suc k, off))"

definition flp_at :: "nat \<times> nat \<Rightarrow> fileLocPointer" where
  "flp_at p = \<lparr>lpOffset = int (snd p), lpBytesLength = 0, fileSuffixNum = int (fst p)\<rparr>"

lemma loc_split:
  assumes "i < length (concat segs)"
  obtains j where "fst (loc segs i) < length segs" "j < length (segs ! fst (loc segs i))"
    "concat segs ! i = segs ! fst (loc segs i) ! j"
    "snd (loc segs i) = length (seg_bytes (take j (segs ! fst (loc segs i))))"
    "i = length (concat (take (fst (loc segs i)) segs)) + j"
proof -
  have "\<exists>j. fst (loc segs i) < length segs \<and> j < length (segs ! fst (loc segs i)) \<and>
    concat segs ! i = segs ! fst (loc segs i) ! j \<and>
    snd (loc segs i) = length (seg_bytes (take j (segs ! fst (loc segs i)))) \<and>
    i = length (concat (take (fst (loc segs i)) segs)) + j"
    using assms
  proof (induction segs arbitrary: i)
    case (Cons seg segs)
    show ?case
    proof (cases "i < length seg")
      case True
      then show ?thesis by (auto simp: nth_append)
    next
      case False
      with Cons.prems have "i - length seg < length (concat segs)" by simp
      from Cons.IH [OF this] False show ?thesis
        by (cases "loc segs (i - length seg)") (auto simp: nth_append)
    qed
  qed simp
  then show thesis using that by blast
qed

lemma loc_append: "i < length (concat segs) \<Longrightarrow> loc (segs @ segs') i = loc segs i"
proof (induction segs arbitrary: i)
  case (Cons seg segs)
  then show ?case using Cons.IH [of "i - length seg"] by auto
qed simp

lemma loc_last:
  "loc (segs @ [seg]) (length (concat segs) + j) =
     (if j < length seg then (length segs, length (seg_bytes (take j seg))) else (Suc (length segs), 0))"
  by (induction segs) auto

text \<open>Adding a block to the last segment.\<close>

definition add_last :: "Block2 list list \<Rightarrow> Block2 \<Rightarrow> Block2 list list" where
  "add_last segs b = butlast segs @ [last segs @ [b]]"

lemma add_last_props:
  assumes "segs \<noteq> []"
  shows "length (add_last segs b) = length segs" "concat (add_last segs b) = concat segs @ [b]"
    "last (add_last segs b) = last segs @ [b]" "add_last segs b \<noteq> []"
    "k < length segs - 1 \<Longrightarrow> add_last segs b ! k = segs ! k" "add_last segs b ! (length segs - 1) = last segs @ [b]"
proof -
  show "length (add_last segs b) = length segs" using assms by (simp add: add_last_def)
  have "concat segs = concat (butlast segs) @ last segs"
    using assms by (metis append_butlast_last_id concat_append concat.simps append_Nil2)
  then show "concat (add_last segs b) = concat segs @ [b]" by (simp add: add_last_def)
  show "last (add_last segs b) = last segs @ [b]" "add_last segs b \<noteq> []" by (simp_all add: add_last_def)
  show "k < length segs - 1 \<Longrightarrow> add_last segs b ! k = segs ! k" by (simp add: add_last_def nth_append nth_butlast)
  show "add_last segs b ! (length segs - 1) = last segs @ [b]" by (simp add: add_last_def nth_append)
qed

lemma loc_add_last:
  assumes "segs \<noteq> []"
  shows "i < length (concat segs) \<Longrightarrow> loc (add_last segs b) i = loc segs i"
    "loc (add_last segs b) (length (concat segs)) = (length segs - 1, length (seg_bytes (last segs)))"
proof -
  have segs: "segs = butlast segs @ [last segs]" using assms by simp
  have len: "length (concat segs) = length (concat (butlast segs)) + length (last segs)"
    by (subst segs) simp
  show "loc (add_last segs b) (length (concat segs)) = (length segs - 1, length (seg_bytes (last segs)))"
    unfolding len add_last_def by (subst loc_last) simp
  assume i: "i < length (concat segs)"
  show "loc (add_last segs b) i = loc segs i"
  proof (cases "i < length (concat (butlast segs))")
    case True
    then show ?thesis
      using loc_append [OF True, of "[last segs]"] loc_append [OF True, of "[last segs @ [b]]"] assms
      by (simp add: add_last_def)
  next
    case False
    then obtain j where j: "i = length (concat (butlast segs)) + j" by (metis le_iff_add linorder_not_less)
    with i len have "j < length (last segs)" by simp
    then show ?thesis
      using loc_last [of "butlast segs" "last segs" j] loc_last [of "butlast segs" "last segs @ [b]" j] assms
      by (simp add: j add_last_def)
  qed
qed

section \<open>The invariant\<close>

text \<open>
  The index has an entry for the number of each of the first \<open>n\<close> blocks, and for its hash when no later
  one of them has the same. The checkpoint in the store may lag behind the one in memory, by blocks
  that are in the last file.
\<close>

definition seg_ok :: "Block2 list \<Rightarrow> bool" where
  "seg_ok seg \<longleftrightarrow> (\<forall>b \<in> set seg. block_wf b \<and> blk_ok (ser_block b)) \<and> fits (seg_bytes seg)"

definition files_ok :: "gostring \<Rightarrow> FS \<Rightarrow> Block2 list list \<Rightarrow> bool" where
  "files_ok root fs segs \<longleftrightarrow>
     (\<forall>k < length segs. map_of (fsFiles fs) (deriveBlockfilePath root (int k)) = Some (seg_bytes (segs ! k))) \<and>
     (\<forall>k \<ge> length segs. of_nbytes (map_of (fsFiles fs) (deriveBlockfilePath root (int k))) = [])"

definition num_index_ok :: "(bytes \<rightharpoonup> bytes) \<Rightarrow> Block2 list list \<Rightarrow> nat \<Rightarrow> bool" where
  "num_index_ok m segs n \<longleftrightarrow> (\<forall>i < n. m (numKey (of_nat (Suc i))) = Some (flp_marshal (flp_at (loc segs i))))"

definition hash_index_ok :: "(bytes \<Rightarrow> bytes) \<Rightarrow> (bytes \<rightharpoonup> bytes) \<Rightarrow> Block2 list list \<Rightarrow> nat \<Rightarrow> bool" where
  "hash_index_ok H m segs n \<longleftrightarrow> (\<forall>i < n.
     (\<forall>j < n. i < j \<longrightarrow> H (ser_block (concat segs ! j)) \<noteq> H (ser_block (concat segs ! i))) \<longrightarrow>
     m (constructBlockHashKey (H (ser_block (concat segs ! i)))) = Some (flp_marshal (flp_at (loc segs i))))"

definition index_ok :: "(bytes \<Rightarrow> bytes) \<Rightarrow> (bytes \<rightharpoonup> bytes) \<Rightarrow> Block2 list list \<Rightarrow> nat \<Rightarrow> bool" where
  "index_ok H m segs n \<longleftrightarrow> num_index_ok m segs n \<and> hash_index_ok H m segs n \<and>
     m indexCheckpointKey = (if n = 0 then None else Some (encodeBlockNum (of_nat n)))"

definition cp_of :: "Block2 list list \<Rightarrow> checkpointInfo" where
  "cp_of segs = \<lparr>latestFileChunkSuffixNum = int (length segs) - 1,
     latestFileChunksize = int (length (seg_bytes (last segs))), lastBlockNumber = of_nat (length (concat segs))\<rparr>"

text \<open>The checkpoint as of the first \<open>m\<close> blocks of the last file.\<close>

definition cp_at :: "Block2 list list \<Rightarrow> nat \<Rightarrow> checkpointInfo" where
  "cp_at segs m = \<lparr>latestFileChunkSuffixNum = int (length segs) - 1,
     latestFileChunksize = int (length (seg_bytes (take m (last segs)))),
     lastBlockNumber = of_nat (length (concat (butlast segs)) + m)\<rparr>"

definition segs_ok :: "Block2 list list \<Rightarrow> bool" where
  "segs_ok segs \<longleftrightarrow> segs \<noteq> [] \<and> list_all seg_ok segs \<and> int (length segs) \<le> maxint \<and> length (concat segs) < 2 ^ 64"

definition bc_of :: "(bytes \<Rightarrow> bytes) \<Rightarrow> Block2 list \<Rightarrow> BlockchainInfo" where
  "bc_of H bs = \<lparr>Height = of_nat (length bs),
     CurrentBlockHash = (if bs = [] then None else Some (H (ser_block (last bs)))),
     bcPreviousBlockHash = (if bs = [] then None else PreviousBlockHash (last bs))\<rparr>"

definition allAttrs :: "IndexableAttr set" where
  "allAttrs = {IndexableAttrBlockHash, IndexableAttrBlockNum, IndexableAttrTxID}"

definition store_core ::
  "('db \<Rightarrow> bytes \<rightharpoonup> bytes) \<Rightarrow> (bytes \<Rightarrow> bytes) \<Rightarrow> Block2 list list \<Rightarrow> 'db blockfileMgr \<Rightarrow> bool" where
  "store_core contents H segs mgr \<longleftrightarrow>
     segs_ok segs \<and> dbhandle (mgrDB mgr) \<noteq> None \<and> mgrIndex mgr = allAttrs \<and>
     files_ok (rootDir mgr) (mgrFS mgr) segs \<and>
     filePath (currentFileWriter mgr) = deriveBlockfilePath (rootDir mgr) (int (length segs) - 1) \<and>
     cpInfo mgr = cp_of segs \<and>
     (\<exists>m \<le> length (last segs). db_view contents (mgrDB mgr) blkMgrInfoKey = Some (cp_marshal (cp_at segs m))) \<and>
     index_ok H (db_view contents (mgrDB mgr)) segs (length (concat segs))"

definition store_inv ::
  "('db \<Rightarrow> bytes \<rightharpoonup> bytes) \<Rightarrow> (bytes \<Rightarrow> bytes) \<Rightarrow> Block2 list list \<Rightarrow> 'db blockfileMgr \<Rightarrow> bool" where
  "store_inv contents H segs mgr \<longleftrightarrow> store_core contents H segs mgr \<and>
     Height (bcInfo mgr) = of_nat (length (concat segs)) \<and>
     CurrentBlockHash (bcInfo mgr) = CurrentBlockHash (bc_of H (concat segs))"

lemmas store_defs = store_inv_def store_core_def

lemma blkMgrInfoKey_apart: "\<not> index_key blkMgrInfoKey"
  by (auto simp: index_key_def key_defs blkMgrInfoKey_def)

lemma blkMgrInfoKey_neq [simp]:
  "numKey n \<noteq> blkMgrInfoKey" "constructBlockHashKey h \<noteq> blkMgrInfoKey" "constructTxIDKey t \<noteq> blkMgrInfoKey"
  "indexCheckpointKey \<noteq> blkMgrInfoKey"
  by (auto simp: key_defs blkMgrInfoKey_def)

section \<open>Adding a block\<close>

lemma concat_butlast: "segs \<noteq> [] \<Longrightarrow> length (concat segs) = length (concat (butlast segs)) + length (last segs)"
  by (metis append_butlast_last_id concat_append length_append concat.simps append_Nil2)

lemma cp_at_full: "segs \<noteq> [] \<Longrightarrow> cp_at segs (length (last segs)) = cp_of segs"
  by (simp add: cp_at_def cp_of_def concat_butlast)

lemma unat_of_nat64: "n < 2 ^ 64 \<Longrightarrow> unat (of_nat n :: u64) = n"
  by (simp add: unsigned_of_nat take_bit_nat_eq_self)

lemma of_nat64_inj: "m < 2 ^ 64 \<Longrightarrow> n < 2 ^ 64 \<Longrightarrow> (of_nat m :: u64) = of_nat n \<longleftrightarrow> m = n"
  using unat_of_nat64 by metis

lemma fs_write_cases:
  assumes "fs_write p b fs = (fs', r)" and "map_of (fsFiles fs) p = Some c"
  obtains "r = Inr ()" "map_of (fsFiles fs') = (map_of (fsFiles fs))(p \<mapsto> c @ b)" "fsFaults fs' = tl (fsFaults fs)"
  | e n where "r = Inl e" "map_of (fsFiles fs') = (map_of (fsFiles fs))(p \<mapsto> c @ take n b)" "fsFaults fs \<noteq> []"
  using assms unfolding fs_write_def
  by (auto simp: of_nbytes_def Let_def split: list.splits option.splits)

lemma appendRecord_cases:
  assumes "appendRecord lb bs mgr = (fs, r)"
    and "map_of (fsFiles (mgrFS mgr)) (filePath (currentFileWriter mgr)) = Some c"
  obtains "r = Inr ()"
    "map_of (fsFiles fs) = (map_of (fsFiles (mgrFS mgr)))(filePath (currentFileWriter mgr) \<mapsto> c @ lb @ bs)"
  | e x where "r = Inl e"
    "map_of (fsFiles fs) = (map_of (fsFiles (mgrFS mgr)))(filePath (currentFileWriter mgr) \<mapsto> c @ x)"
    "fsFaults (mgrFS mgr) \<noteq> []"
proof -
  let ?p = "filePath (currentFileWriter mgr)"
  obtain fs1 r1 where w1: "fs_write ?p lb (mgrFS mgr) = (fs1, r1)" by fastforce
  from w1 assms(2) show thesis
  proof (cases rule: fs_write_cases)
    case 1
    have w2: "fs_write ?p bs fs1 = (fs, r)"
      using assms(1) w1 1(1) by (simp add: appendRecord_def writer_append_def)
    have c1: "map_of (fsFiles fs1) ?p = Some (c @ lb)" using 1 by simp
    from w2 c1 show thesis
    proof (cases rule: fs_write_cases)
      case 11: 1
      then show thesis using that(1) 1(2) by simp
    next
      case (2 e n)
      then show thesis using that(2) [of e "lb @ take n bs"] 1 by (cases "fsFaults (mgrFS mgr)") auto
    qed
  next
    case (2 e n)
    then have "r = Inl e" "fs = fs1" using assms(1) w1 by (simp_all add: appendRecord_def writer_append_def)
    then show thesis using that(2) [of e "take n lb"] 2 by simp
  qed
qed

lemma truncateFile_back:
  assumes "map_of (fsFiles fs) = m(filePath w \<mapsto> c @ x)"
  shows "map_of (fsFiles (truncateFile w (int (length c)) fs)) = m(filePath w \<mapsto> c)"
  using assms by (auto simp: truncateFile_def)

lemma files_ok_add:
  assumes "files_ok root fs segs" and "segs \<noteq> []"
    and "map_of (fsFiles fs') = (map_of (fsFiles fs))(deriveBlockfilePath root (int (length segs) - 1) \<mapsto> seg_bytes (last segs @ [b]))"
  shows "files_ok root fs' (add_last segs b)"
proof -
  note e = add_last_props [OF assms(2)]
  have "map_of (fsFiles fs') (deriveBlockfilePath root (int k)) = Some (seg_bytes (add_last segs b ! k))"
    if "k < length segs" for k
  proof (cases "k = length segs - 1")
    case True
    then have "int k = int (length segs) - 1" using that by simp
    then show ?thesis using assms(3) e(6) True by simp
  next
    case False
    then have "int k \<noteq> int (length segs) - 1" "k < length segs - 1" using that by auto
    then show ?thesis using assms(1,3) e(5) that by (simp add: files_ok_def)
  qed
  moreover have "of_nbytes (map_of (fsFiles fs') (deriveBlockfilePath root (int k))) = []" if "length segs \<le> k" for k
  proof -
    have "int k \<noteq> int (length segs) - 1" using that by auto
    then show ?thesis using assms(1,3) that by (simp add: files_ok_def)
  qed
  ultimately show ?thesis by (simp add: files_ok_def e(1))
qed

lemma files_ok_same:
  "files_ok root fs segs \<Longrightarrow> map_of (fsFiles fs') = map_of (fsFiles fs) \<Longrightarrow> files_ok root fs' segs"
  by (simp add: files_ok_def)

lemma files_ok_last:
  assumes "files_ok root fs segs" and "segs \<noteq> []"
  shows "map_of (fsFiles fs) (deriveBlockfilePath root (int (length segs) - 1)) = Some (seg_bytes (last segs))"
proof -
  obtain n where n: "length segs = Suc n" using assms(2) by (cases segs) auto
  then have "int (length segs) - 1 = int n" by simp
  then show ?thesis using assms n by (simp add: files_ok_def last_conv_nth)
qed

text \<open>The index after one more block.\<close>

definition idx_info :: "(bytes \<Rightarrow> bytes) \<Rightarrow> Block2 list list \<Rightarrow> nat \<Rightarrow> int list \<Rightarrow> blockIdxInfo" where
  "idx_info H segs n offs = \<lparr>biBlockNum = of_nat (Suc n), biBlockHash = H (ser_block (concat segs ! n)),
     biFlp = flp_at (loc segs n), biTxOffsets = offs\<rparr>"

lemma index_ok_step:
  assumes "index_ok H m segs n" and "n < length (concat segs)" and "length (concat segs) < 2 ^ 64"
  shows "index_ok H (apply_batch (idx_batch allAttrs (idx_info H segs n offs)) m) segs (Suc n)"
proof -
  let ?m = "apply_batch (idx_batch allAttrs (idx_info H segs n offs)) m"
  have num: "?m (numKey (of_nat (Suc i))) = Some (flp_marshal (flp_at (loc segs i)))" if "i < Suc n" for i
  proof -
    have "(of_nat (Suc i) :: u64) = of_nat (Suc n) \<longleftrightarrow> i = n"
      using that assms(2,3) of_nat64_inj [of "Suc i" "Suc n"] by (simp del: of_nat_Suc)
    then show ?thesis
      using assms(1) that
      by (auto simp: idx_batch_lookup(1) idx_info_def allAttrs_def index_ok_def num_index_ok_def less_Suc_eq simp del: of_nat_Suc)
  qed
  have hash: "?m (constructBlockHashKey (H (ser_block (concat segs ! i)))) = Some (flp_marshal (flp_at (loc segs i)))"
    if "i < Suc n" "\<forall>j < Suc n. i < j \<longrightarrow> H (ser_block (concat segs ! j)) \<noteq> H (ser_block (concat segs ! i))" for i
  proof (cases "i = n")
    case True
    then show ?thesis by (simp add: idx_batch_lookup(2) idx_info_def allAttrs_def)
  next
    case False
    with that have "i < n" "H (ser_block (concat segs ! n)) \<noteq> H (ser_block (concat segs ! i))"
      "\<forall>j < n. i < j \<longrightarrow> H (ser_block (concat segs ! j)) \<noteq> H (ser_block (concat segs ! i))" by auto
    then show ?thesis
      using assms(1) by (auto simp: idx_batch_lookup(2) idx_info_def allAttrs_def index_ok_def hash_index_ok_def)
  qed
  show ?thesis
    using num hash
    by (simp add: index_ok_def num_index_ok_def hash_index_ok_def idx_batch_lookup(4) idx_info_def del: of_nat_Suc)
qed

lemma index_ok_other:
  "index_ok H m segs n \<Longrightarrow> index_ok H (m(blkMgrInfoKey \<mapsto> v)) segs n"
  by (simp add: index_ok_def num_index_ok_def hash_index_ok_def del: of_nat_Suc)

lemma index_ok_grow:
  assumes "index_ok H m segs (length (concat segs))"
    and "\<And>i. i < length (concat segs) \<Longrightarrow> loc segs' i = loc segs i \<and> concat segs' ! i = concat segs ! i"
  shows "index_ok H m segs' (length (concat segs))"
  using assms by (simp add: index_ok_def num_index_ok_def hash_index_ok_def del: of_nat_Suc)

text \<open>The database view is one in which block \<open>n\<close> was the last to be indexed, as \<open>addBlock\<close> does it.\<close>

definition tx_indexed :: "(bytes \<Rightarrow> bytes) \<Rightarrow> (bytes \<rightharpoonup> bytes) \<Rightarrow> Block2 list list \<Rightarrow> nat \<Rightarrow> Block2 \<Rightarrow> bool" where
  "tx_indexed H m segs n b \<longleftrightarrow> (\<exists>m0. m = apply_batch (idx_batch allAttrs (idx_info H segs n
     (map (\<lambda>off. off + int (length (EncodeVarint (u64_len (ser_block b))))) (block_offsets b)))) m0)"

context leveldb_reliable
begin

lemma saveCurrentInfo_total:
  assumes "dbhandle d \<noteq> None"
  obtains d' where "saveCurrentInfo L i d = Inr d'" "dbhandle d' \<noteq> None"
    "view d' = (view d)(blkMgrInfoKey \<mapsto> cp_marshal i)"
  using DB_Put_total [OF assms, of blkMgrInfoKey "cp_marshal i"] DB_Put_view
  by (auto simp: saveCurrentInfo_def intro: that)

lemma indexBlock_total:
  assumes "dbhandle d \<noteq> None"
  obtains d' where "indexBlock L allAttrs info d = Inr d'" "dbhandle d' \<noteq> None"
    "view d' = apply_batch (idx_batch allAttrs info) (view d)"
  using DB_WriteBatch_total [OF assms, of "idx_batch allAttrs info"] DB_WriteBatch_view
  by (auto simp: indexBlock_eq allAttrs_def intro: that)

lemma moveToNextFile_inv:
  assumes inv: "store_inv contents H segs mgr" and "int (length segs) + 1 \<le> maxint"
  obtains mgr' where "moveToNextFile L mgr = Inr mgr'" "store_inv contents H (segs @ [[]]) mgr'"
    "fsFaults (mgrFS mgr') = fsFaults (mgrFS mgr)" "rootDir mgr' = rootDir mgr"
    "maxBlockfileSize mgr' = maxBlockfileSize mgr" "bcInfo mgr' = bcInfo mgr"
proof -
  let ?segs = "segs @ [[]]"
  let ?p = "deriveBlockfilePath (rootDir mgr) (int (length segs))"
  have segs: "segs_ok segs" and files: "files_ok (rootDir mgr) (mgrFS mgr) segs" and cp: "cpInfo mgr = cp_of segs"
    and db: "dbhandle (mgrDB mgr) \<noteq> None"
    using inv by (simp_all add: store_defs)
  have i: "\<lparr>latestFileChunkSuffixNum = latestFileChunkSuffixNum (cpInfo mgr) + 1, latestFileChunksize = 0,
      lastBlockNumber = lastBlockNumber (cpInfo mgr)\<rparr> = cp_of ?segs"
    by (simp add: cp cp_of_def)
  obtain d where d: "saveCurrentInfo L (cp_of ?segs) (mgrDB mgr) = Inr d" "dbhandle d \<noteq> None"
    "view d = (view (mgrDB mgr))(blkMgrInfoKey \<mapsto> cp_marshal (cp_of ?segs))"
    using saveCurrentInfo_total [OF db] by blast
  define fs where "fs = writer_open \<lparr>filePath = ?p\<rparr> (mgrFS mgr)"
  let ?mgr = "updateCheckpoint (cp_of ?segs) (mgr\<lparr>mgrFS := fs, mgrDB := d, currentFileWriter := \<lparr>filePath = ?p\<rparr>\<rparr>)"
  have mv: "moveToNextFile L mgr = Inr ?mgr"
    using d(1) i by (simp add: moveToNextFile_def newBlockfileWriter_def fs_def cp_of_def Let_def)
  have empty: "of_nbytes (map_of (fsFiles (mgrFS mgr)) ?p) = []" using files by (simp add: files_ok_def)
  have fmap: "map_of (fsFiles fs) = (map_of (fsFiles (mgrFS mgr)))(?p \<mapsto> [])" and faults: "fsFaults fs = fsFaults (mgrFS mgr)"
    using empty by (auto simp: fs_def writer_open_def of_nbytes_def split: option.splits)
  have "files_ok (rootDir mgr) fs ?segs"
    using files by (auto simp: files_ok_def fmap nth_append less_Suc_eq of_nbytes_def)
  moreover have "segs_ok ?segs"
    using segs assms(2) by (simp add: segs_ok_def seg_ok_def fits_def maxint_def)
  moreover have "index_ok H (view d) ?segs (length (concat ?segs))"
    using inv unfolding d(3) by (auto simp: store_defs loc_append intro!: index_ok_other index_ok_grow)
  moreover have "cp_marshal (cp_of ?segs) = cp_marshal (cp_at ?segs 0)" by (simp add: cp_of_def cp_at_def)
  ultimately have "store_inv contents H ?segs ?mgr"
    using inv d(2,3) by (simp add: store_defs updateCheckpoint_def)
  with mv faults show thesis by (intro that [of ?mgr]) (simp_all add: updateCheckpoint_def)
qed

text \<open>Appending to the last file, whatever the faults: the block is added, or nothing changes.\<close>

lemma appendBlock_inv:
  assumes inv: "store_inv contents H segs mgr" and b: "block_wf b" "blk_ok (ser_block b)"
    and room: "Suc (length (concat segs)) < 2 ^ 64" "fits (seg_bytes (last segs @ [b]))"
    and run: "appendBlock L b (ser_block b) (H (ser_block b)) (block_offsets b) (latestFileChunksize (cpInfo mgr)) mgr = (mgr', r)"
  shows "r = Inr () \<and> store_inv contents H (add_last segs b) mgr' \<and>
      tx_indexed H (view (mgrDB mgr')) (add_last segs b) (length (concat segs)) b \<or>
    (\<exists>e. r = Inl e) \<and> store_inv contents H segs mgr' \<and> fsFaults (mgrFS mgr) \<noteq> []"
proof -
  let ?p = "filePath (currentFileWriter mgr)"
  let ?c = "seg_bytes (last segs)"
  let ?lb = "EncodeVarint (u64_len (ser_block b))"
  let ?segs = "add_last segs b"
  have segs: "segs_ok segs" "segs \<noteq> []" and files: "files_ok (rootDir mgr) (mgrFS mgr) segs"
    and cp: "cpInfo mgr = cp_of segs" and db: "dbhandle (mgrDB mgr) \<noteq> None" and items: "mgrIndex mgr = allAttrs"
    and p: "?p = deriveBlockfilePath (rootDir mgr) (int (length segs) - 1)"
    using inv by (simp_all add: store_defs segs_ok_def)
  have c: "map_of (fsFiles (mgrFS mgr)) ?p = Some ?c" unfolding p by (rule files_ok_last [OF files segs(2)])
  obtain fs r1 where ap: "appendRecord ?lb (ser_block b) mgr = (fs, r1)" by fastforce
  from ap c show ?thesis
  proof (cases rule: appendRecord_cases)
    case (2 e x)
    let ?fs = "truncateFile (currentFileWriter mgr) (latestFileChunksize (cpInfo mgr)) fs"
    have run': "mgr' = mgr\<lparr>mgrFS := ?fs\<rparr>" "\<exists>e. r = Inl e"
      using run ap 2(1) by (auto simp: appendBlock_def)
    have "map_of (fsFiles ?fs) = (map_of (fsFiles (mgrFS mgr)))(?p \<mapsto> ?c)"
      using truncateFile_back [OF 2(2)] by (simp add: cp cp_of_def)
    then have "map_of (fsFiles ?fs) = map_of (fsFiles (mgrFS mgr))" using c by (simp add: map_upd_triv)
    then have "store_inv contents H segs mgr'"
      using inv files_ok_same [OF files] by (simp add: store_defs run'(1))
    with run'(2) 2(3) show ?thesis by blast
  next
    case 1
    note e = add_last_props [OF segs(2), where b = b]
    have newcp: "\<lparr>latestFileChunkSuffixNum = latestFileChunkSuffixNum (cpInfo mgr),
        latestFileChunksize = latestFileChunksize (cpInfo mgr) + int (length (ser_block b) + length ?lb),
        lastBlockNumber = lastBlockNumber (cpInfo mgr) + 1\<rparr> = cp_of ?segs"
      by (simp add: cp cp_of_def e enc_bytes_def)
    obtain d where d: "saveCurrentInfo L (cp_of ?segs) (mgrDB mgr) = Inr d" "dbhandle d \<noteq> None"
      "view d = (view (mgrDB mgr))(blkMgrInfoKey \<mapsto> cp_marshal (cp_of ?segs))"
      using saveCurrentInfo_total [OF db] by blast
    let ?n = "length (concat segs)"
    let ?info = "idx_info H ?segs ?n (map (\<lambda>off. off + int (length ?lb)) (block_offsets b))"
    have info: "\<lparr>biBlockNum = lastBlockNumber (cp_of ?segs), biBlockHash = H (ser_block b),
        biFlp = \<lparr>lpOffset = latestFileChunksize (cpInfo mgr), lpBytesLength = 0,
                 fileSuffixNum = latestFileChunkSuffixNum (cp_of ?segs)\<rparr>,
        biTxOffsets = map (\<lambda>off. off + int (length ?lb)) (block_offsets b)\<rparr> = ?info"
      using segs(2)
      by (simp add: idx_info_def cp cp_of_def e flp_at_def loc_add_last(2) of_nat_diff Suc_le_eq)
    obtain d' where d': "indexBlock L allAttrs ?info d = Inr d'" "dbhandle d' \<noteq> None"
      "view d' = apply_batch (idx_batch allAttrs ?info) (view d)"
      using indexBlock_total [OF d(2)] by blast
    have r: "r = Inr ()" and mgr': "mgr' = updateBlockchainInfo (H (ser_block b)) b
        (updateCheckpoint (cp_of ?segs) (mgr\<lparr>mgrFS := fs, mgrDB := d'\<rparr>))"
      using run ap 1(1) d(1) d'(1) newcp info items by (simp_all add: appendBlock_def)
    have "map_of (fsFiles fs) = (map_of (fsFiles (mgrFS mgr)))
        (deriveBlockfilePath (rootDir mgr) (int (length segs) - 1) \<mapsto> seg_bytes (last segs @ [b]))"
      using 1(2) by (simp add: p enc_bytes_def)
    then have "files_ok (rootDir mgr) fs ?segs" by (rule files_ok_add [OF files segs(2)])
    moreover have "set ?segs \<subseteq> insert (last segs @ [b]) (set segs)"
      by (auto simp: add_last_def dest: in_set_butlastD)
    then have "segs_ok ?segs"
      using segs b room by (fastforce simp: segs_ok_def e(1,2,4) list_all_iff seg_ok_def)
    moreover have "index_ok H (view d') ?segs (Suc ?n)"
      unfolding d'(3)
    proof (rule index_ok_step)
      have "index_ok H (view (mgrDB mgr)) ?segs ?n"
        using inv by (auto simp: store_defs loc_add_last [OF segs(2)] e nth_append intro!: index_ok_grow)
      then show "index_ok H (view d) ?segs ?n" unfolding d(3) by (rule index_ok_other)
    qed (use room(1) e in simp_all)
    moreover have "view d' blkMgrInfoKey = Some (cp_marshal (cp_at ?segs (length (last ?segs))))"
      using cp_at_full [OF e(4)] by (simp add: d'(3) idx_batch_other [OF blkMgrInfoKey_apart] d(3))
    ultimately have "store_inv contents H ?segs mgr'"
      using inv d'(2)
      by (auto simp: store_defs mgr' updateBlockchainInfo_def updateCheckpoint_def e(1,2,4) p bc_of_def)
    moreover have "tx_indexed H (view (mgrDB mgr')) ?segs ?n b"
      using d'(3) by (auto simp: tx_indexed_def mgr' updateBlockchainInfo_def updateCheckpoint_def)
    ultimately show ?thesis using r by blast
  qed
qed

lemma addBlock_inv:
  assumes inv: "store_inv contents H segs mgr" and b: "block_wf b" "blk_ok (ser_block b)"
    and room: "Suc (length (concat segs)) < 2 ^ 64" "int (length segs) + 1 \<le> maxint" "maxBlockfileSize mgr \<le> maxint"
    and run: "addBlock L H b mgr = (mgr', r)"
  shows "\<exists>segs'. store_inv contents H segs' mgr' \<and> length segs' \<le> Suc (length segs) \<and>
    (r = Inr () \<and> concat segs' = concat segs @ [b] \<and> tx_indexed H (view (mgrDB mgr')) segs' (length (concat segs)) b \<or>
     (\<exists>e. r = Inl e) \<and> concat segs' = concat segs \<and> fsFaults (mgrFS mgr) \<noteq> [])"
proof -
  let ?total = "int (length (enc_bytes (ser_block b)))"
  have segs: "segs \<noteq> []" and cp: "cpInfo mgr = cp_of segs" using inv by (simp_all add: store_defs segs_ok_def)
  have total: "int (length (ser_block b) + length (EncodeVarint (u64_len (ser_block b)))) = ?total"
    by (simp add: enc_bytes_def)
  show ?thesis
  proof (cases "maxBlockfileSize mgr < latestFileChunksize (cpInfo mgr) + ?total")
    case True
    obtain mgr1 where m: "moveToNextFile L mgr = Inr mgr1" "store_inv contents H (segs @ [[]]) mgr1"
      "fsFaults (mgrFS mgr1) = fsFaults (mgrFS mgr)"
      using moveToNextFile_inv [OF inv room(2)] by blast
    have "latestFileChunksize (cpInfo mgr1) = 0" using m(2) by (simp add: store_defs cp_of_def)
    then have "appendBlock L b (ser_block b) (H (ser_block b)) (block_offsets b) (latestFileChunksize (cpInfo mgr1)) mgr1 = (mgr', r)"
      using run True m(1) total by (simp add: addBlock_def ConstructSerBlock2_eq GetBytes_def ComputeHash_def GetTxOffsets_def Let_def)
    moreover have "fits (seg_bytes (last (segs @ [[]]) @ [b]))"
      using b(2) blk_ok_len [OF b(2)] by (simp add: blk_ok_def fits_def enc_bytes_def maxint_def)
    ultimately show ?thesis
      using appendBlock_inv [OF m(2) b] room(1) m(3) add_last_props(1,2) [of "segs @ [[]]" b] by fastforce
  next
    case False
    then have "appendBlock L b (ser_block b) (H (ser_block b)) (block_offsets b) (latestFileChunksize (cpInfo mgr)) mgr = (mgr', r)"
      using run total by (simp add: addBlock_def ConstructSerBlock2_eq GetBytes_def ComputeHash_def GetTxOffsets_def Let_def)
    moreover have "fits (seg_bytes (last segs @ [b]))"
      using False room(3) by (simp add: fits_def cp cp_of_def)
    ultimately show ?thesis
      using appendBlock_inv [OF inv b room(1)] add_last_props(1,2) [OF segs, of b] by fastforce
  qed
qed

section \<open>Retrieval\<close>

lemma flp_at_wf:
  assumes "segs_ok segs" and "i < length (concat segs)"
  shows "flp_wf (flp_at (loc segs i))"
proof -
  obtain j where j: "fst (loc segs i) < length segs" "snd (loc segs i) = length (seg_bytes (take j (segs ! fst (loc segs i))))"
    using loc_split [OF assms(2)] by metis
  have "fits (seg_bytes (segs ! fst (loc segs i)))"
    using assms(1) j(1) by (simp add: segs_ok_def list_all_length seg_ok_def)
  moreover have "length (seg_bytes (take j seg)) \<le> length (seg_bytes seg)" for seg
    by (metis append_take_drop_id length_append le_add1 seg_bytes_simps(3))
  ultimately have "int (snd (loc segs i)) \<le> maxint"
    unfolding j(2) fits_def by (meson of_nat_mono order_trans)
  moreover have "int (fst (loc segs i)) \<le> maxint" using assms(1) j(1) by (simp add: segs_ok_def)
  ultimately show ?thesis by (simp add: flp_wf_def goint_range_def flp_at_def maxint_def)
qed

lemma fetchBlockBytes_loc:
  assumes "files_ok (rootDir mgr) (mgrFS mgr) segs" and "segs_ok segs" and "i < length (concat segs)"
  shows "fetchBlockBytes mgr (flp_at (loc segs i)) = Inr (Some (ser_block (concat segs ! i)))"
proof -
  let ?k = "fst (loc segs i)"
  obtain j where j: "?k < length segs" "j < length (segs ! ?k)" "concat segs ! i = segs ! ?k ! j"
    "snd (loc segs i) = length (seg_bytes (take j (segs ! ?k)))"
    using loc_split [OF assms(3)] by metis
  let ?b = "segs ! ?k ! j"
  let ?pre = "seg_bytes (take j (segs ! ?k))"
  let ?s = "\<lparr>bfFileNum = int ?k, bfFile = deriveBlockfilePath (rootDir mgr) (int ?k), currentOffset = int (length ?pre)\<rparr>"
  have "segs ! ?k = take j (segs ! ?k) @ ?b # drop (Suc j) (segs ! ?k)"
    using j(2) by (simp add: id_take_nth_drop)
  then have "seg_bytes (segs ! ?k) = ?pre @ enc_bytes (ser_block ?b) @ seg_bytes (drop (Suc j) (segs ! ?k))"
    by (metis seg_bytes_simps(2,3))
  moreover have f: "map_of (fsFiles (mgrFS mgr)) (deriveBlockfilePath (rootDir mgr) (int ?k)) = Some (seg_bytes (segs ! ?k))"
    using assms(1) j(1) by (simp add: files_ok_def)
  ultimately have "stream_at (mgrFS mgr) ?s ?pre (enc_bytes (ser_block ?b) @ seg_bytes (drop (Suc j) (segs ! ?k)))"
    by (simp add: stream_at_def)
  moreover have "blk_ok (ser_block ?b)"
    using assms(2) j(1,2) by (auto simp: segs_ok_def list_all_length seg_ok_def)
  ultimately have "bf_nextBlockBytes (mgrFS mgr) ?s = Inr (Some (ser_block ?b), ?s\<lparr>currentOffset := int (length (?pre @ enc_bytes (ser_block ?b)))\<rparr>)"
    by (simp add: bf_nextBlockBytes_def bf_next_block)
  with f show ?thesis
    by (simp add: fetchBlockBytes_def newBlockfileStream_def flp_at_def j(3,4) Let_def)
qed

lemma lookup_num:
  assumes "store_core contents H segs mgr" and "i < length (concat segs)"
  shows "getBlockLocByBlockNum L (mgrIndex mgr) (mgrDB mgr) (of_nat (Suc i)) = Inr (flp_at (loc segs i))"
proof -
  have "dbhandle (mgrDB mgr) \<noteq> None" "mgrIndex mgr = allAttrs" "segs_ok segs"
    "view (mgrDB mgr) (numKey (of_nat (Suc i))) = Some (flp_marshal (flp_at (loc segs i)))"
    using assms by (simp_all add: store_core_def index_ok_def num_index_ok_def del: of_nat_Suc)
  then show ?thesis
    using flp_roundtrip [OF flp_at_wf [OF _ assms(2)]]
    by (simp add: getBlockLocByBlockNum_def allAttrs_def constructBlockNumKey_eq lookupFlp_def DB_Get_total del: of_nat_Suc)
qed

lemma fetch_loc:
  assumes "store_core contents H segs mgr" and "i < length (concat segs)"
  shows "fetchSerBlock mgr (flp_at (loc segs i)) = Inr (NewSerBlock2 (ser_block (concat segs ! i)))"
    "fetchBlock mgr (flp_at (loc segs i)) = Inr (norm_block (concat segs ! i))"
proof -
  have inv: "files_ok (rootDir mgr) (mgrFS mgr) segs" "segs_ok segs" using assms(1) by (simp_all add: store_core_def)
  have wf: "block_wf (concat segs ! i)"
    using inv(2) nth_mem [OF assms(2)] by (auto simp: segs_ok_def list_all_iff seg_ok_def)
  show f: "fetchSerBlock mgr (flp_at (loc segs i)) = Inr (NewSerBlock2 (ser_block (concat segs ! i)))"
    using fetchBlockBytes_loc [OF inv assms(2)] by (simp add: fetchSerBlock_def of_nbytes_def)
  then show "fetchBlock mgr (flp_at (loc segs i)) = Inr (norm_block (concat segs ! i))"
    using ToBlock2_ser [OF wf] by (simp add: fetchBlock_def NewSerBlock2_def)
qed

lemma retrieveBlockByNumber_inv:
  "store_core contents H segs mgr \<Longrightarrow> i < length (concat segs) \<Longrightarrow>
   retrieveBlockByNumber L mgr (of_nat (Suc i)) = Inr (norm_block (concat segs ! i))"
  using lookup_num fetch_loc(2) by (simp add: retrieveBlockByNumber_def del: of_nat_Suc)

lemma retrieveBlockByHash_inv:
  assumes "store_core contents H segs mgr" and "i < length (concat segs)"
    and "\<forall>j < length (concat segs). i < j \<longrightarrow> H (ser_block (concat segs ! j)) \<noteq> H (ser_block (concat segs ! i))"
  shows "retrieveBlockByHash L mgr (H (ser_block (concat segs ! i))) = Inr (norm_block (concat segs ! i))"
proof -
  have "dbhandle (mgrDB mgr) \<noteq> None" "mgrIndex mgr = allAttrs" "segs_ok segs"
    "view (mgrDB mgr) (constructBlockHashKey (H (ser_block (concat segs ! i)))) = Some (flp_marshal (flp_at (loc segs i)))"
    using assms by (simp_all add: store_core_def index_ok_def hash_index_ok_def)
  then show ?thesis
    using flp_roundtrip [OF flp_at_wf [OF _ assms(2)]] fetch_loc(2) [OF assms(1,2)]
    by (simp add: retrieveBlockByHash_def getBlockLocByHash_def allAttrs_def lookupFlp_def DB_Get_total)
qed

end

end
