(* ===== verification/BlockRecovery.thy ===== *)
theory BlockRecovery
  imports BlockStore
begin

text \<open>
  Starting a block file manager on what a crash left behind: the last file may end in a block that
  was written only in part, the checkpoint may be older than the files, and the index older than both.
  \<open>newBlockfileMgr\<close> is shown to come up with the blocks that are completely in the files, whichever
  point of \<open>addBlock\<close> the crash came at.
\<close>

section \<open>The checkpoint\<close>

lemma cp_roundtrip:
  assumes "goint_range (latestFileChunkSuffixNum i)" and "goint_range (latestFileChunksize i)"
  shows "cp_unmarshal (cp_marshal i) = Inr i"
proof -
  obtain p1 p2 p3 where
    "bufDecodeVarint (NewBuffer (cp_marshal i)) = Inr (u64_of_int (latestFileChunkSuffixNum i), p1)"
    "bufDecodeVarint p1 = Inr (u64_of_int (latestFileChunksize i), p2)"
    "bufDecodeVarint p2 = Inr (lastBlockNumber i, p3)"
    using three_varints_at [of "u64_of_int (latestFileChunkSuffixNum i)" "u64_of_int (latestFileChunksize i)" "lastBlockNumber i"]
    by (metis (no_types, lifting) cp_marshal_def NewBuffer_def buf_bufEncodeVarint Buffer.select_convs(1) append.assoc append_Nil)
  with assms show ?thesis by (simp add: cp_unmarshal_def goint_range_def int_of_u64_of_int)
qed

section \<open>Scanning the last file\<close>

text \<open>The tail of a file: a block that is there only in part, or nothing.\<close>

definition partial_block :: "bytes \<Rightarrow> bool" where
  "partial_block p \<longleftrightarrow> (\<exists>b k. p = take k (enc_bytes b) \<and> k < length (enc_bytes b) \<and> blk_ok b)"

lemma scan_loop_blocks:
  assumes "stream_at fs s pre (seg_bytes bs @ p)" and "\<And>b. b \<in> set bs \<Longrightarrow> blk_ok (ser_block b)"
    and "partial_block p"
  shows "\<exists>e. scan_loop fs s n = (s\<lparr>currentOffset := int (length (pre @ seg_bytes bs))\<rparr>, n + length bs, e) \<and>
    (e = None \<or> e = Some ErrUnexpectedEndOfBlockfile)"
  using assms
proof (induction bs arbitrary: s pre n)
  case Nil
  then have at: "stream_at fs s pre p" by simp
  then have off: "s\<lparr>currentOffset := int (length pre)\<rparr> = s" by (simp add: stream_at_def)
  obtain b k where p: "p = take k (enc_bytes b)" "k < length (enc_bytes b)" "blk_ok b"
    using Nil.prems(3) by (auto simp: partial_block_def)
  show ?case
  proof (cases "k = 0")
    case True
    then have "bf_next fs s = Inr (None, s)" using bf_next_end at p(1) by simp
    then show ?thesis by (subst scan_loop.simps) (simp add: off)
  next
    case False
    then have "bf_next fs s = Inl ErrUnexpectedEndOfBlockfile" using bf_next_cut at p by blast
    then show ?thesis by (subst scan_loop.simps) (simp add: off)
  qed
next
  case (Cons b bs)
  let ?s = "s\<lparr>currentOffset := int (length (pre @ enc_bytes (ser_block b)))\<rparr>"
  have at: "stream_at fs s pre (enc_bytes (ser_block b) @ (seg_bytes bs @ p))" using Cons.prems(1) by simp
  have "stream_at fs ?s (pre @ enc_bytes (ser_block b)) (seg_bytes bs @ p)"
    using at by (simp add: stream_at_def)
  from Cons.IH [OF this, of "Suc n"] Cons.prems(2,3)
  show ?case using bf_next_block [OF at] Cons.prems(2) by (subst scan_loop.simps) simp
qed

lemma length_seg_bytes_pos: "bs \<noteq> [] \<Longrightarrow> seg_bytes bs \<noteq> []"
  by (cases bs) (simp_all add: enc_bytes_def)

lemma syncCPInfoFromFS_eq:
  assumes "segs_ok segs" and "m \<le> length (last segs)" and "partial_block p"
    and "map_of (fsFiles fs) (deriveBlockfilePath root (int (length segs) - 1)) = Some (seg_bytes (last segs) @ p)"
  shows "syncCPInfoFromFS root (cp_at segs m) fs = Inr (cp_of segs)"
proof -
  let ?path = "deriveBlockfilePath root (int (length segs) - 1)"
  let ?pre = "seg_bytes (take m (last segs))"
  let ?rest = "drop m (last segs)"
  have split: "seg_bytes (last segs) = ?pre @ seg_bytes ?rest" by (metis append_take_drop_id seg_bytes_simps(3))
  have ne: "segs \<noteq> []" using assms(1) by (simp add: segs_ok_def)
  then have ok: "blk_ok (ser_block b)" if "b \<in> set (last segs)" for b
    using assms(1) that by (auto simp: segs_ok_def list_all_iff seg_ok_def)
  show ?thesis
  proof (cases "int (length (seg_bytes (last segs) @ p)) = latestFileChunksize (cp_at segs m)")
    case True
    then have "int (length (seg_bytes ?rest)) + int (length p) = 0" using split by (simp add: cp_at_def)
    then have "length (seg_bytes ?rest) = 0" by linarith
    then have "m = length (last segs)" using length_seg_bytes_pos [of ?rest] assms(2) by auto
    with True assms(4) ne show ?thesis
      by (simp add: syncCPInfoFromFS_def FileExists_def cp_at_full) (simp add: cp_of_def)
  next
    case False
    let ?s = "\<lparr>bfFileNum = int (length segs) - 1, bfFile = ?path, currentOffset = int (length ?pre)\<rparr>"
    have "stream_at fs ?s ?pre (seg_bytes ?rest @ p)" using assms(4) split by (simp add: stream_at_def)
    then obtain e where e: "scan_loop fs ?s 0 = (?s\<lparr>currentOffset := int (length (?pre @ seg_bytes ?rest))\<rparr>, length ?rest, e)"
      "e = None \<or> e = Some ErrUnexpectedEndOfBlockfile"
      using scan_loop_blocks [OF _ _ assms(3), of fs ?s ?pre ?rest 0] ok in_set_dropD by fastforce
    have "newBlockfileStream root (int (length segs) - 1) (int (length ?pre)) fs = Inr ?s"
      using assms(4) by (simp add: newBlockfileStream_def Let_def)
    then have "scanForLastCompleteBlock root (int (length segs) - 1) (int (length ?pre)) fs =
        Inr (int (length (seg_bytes (last segs))), length (last segs) - m)"
      using e by (auto simp: scanForLastCompleteBlock_def split)
    moreover have "(of_nat (length (concat (butlast segs)) + m) :: u64) + of_nat (length (last segs) - m) = of_nat (length (concat segs))"
      using assms(2) concat_butlast [OF ne] by (simp add: of_nat_diff)
    ultimately show ?thesis
      using False assms(4) by (simp add: syncCPInfoFromFS_def FileExists_def cp_at_def cp_of_def)
  qed
qed

section \<open>Reading through the files\<close>

text \<open>The stream stands before block \<open>n\<close>: at block \<open>j\<close> of file \<open>k\<close>, with the last file as its end.\<close>

definition before_block :: "gostring \<Rightarrow> FS \<Rightarrow> Block2 list list \<Rightarrow> blockStream \<Rightarrow> nat \<Rightarrow> nat \<Rightarrow> bool" where
  "before_block root fs segs s k j \<longleftrightarrow> k < length segs \<and> j \<le> length (segs ! k) \<and>
     bsRootDir s = root \<and> currentFileNum s = int k \<and>
     bfFileNum (currentFileStream s) = int k \<and> bfFile (currentFileStream s) = deriveBlockfilePath root (int k) \<and>
     currentOffset (currentFileStream s) = int (length (seg_bytes (take j (segs ! k))))"

lemma before_block_at:
  assumes "before_block root fs segs s k j" and "files_ok root fs segs"
  shows "stream_at fs (currentFileStream s) (seg_bytes (take j (segs ! k))) (seg_bytes (drop j (segs ! k)))"
proof -
  have "map_of (fsFiles fs) (deriveBlockfilePath root (int k)) = Some (seg_bytes (segs ! k))"
    using assms by (simp add: before_block_def files_ok_def)
  moreover have "seg_bytes (segs ! k) = seg_bytes (take j (segs ! k)) @ seg_bytes (drop j (segs ! k))"
    by (metis append_take_drop_id seg_bytes_simps(3))
  ultimately show ?thesis using assms(1) by (simp add: stream_at_def before_block_def)
qed

lemma loc_before:
  assumes "k < length segs" and "j < length (segs ! k)"
  shows "length (concat (take k segs)) + j < length (concat segs)"
    "concat segs ! (length (concat (take k segs)) + j) = segs ! k ! j"
    "loc segs (length (concat (take k segs)) + j) = (k, length (seg_bytes (take j (segs ! k))))"
proof -
  have segs: "segs = take k segs @ segs ! k # drop (Suc k) segs" using assms(1) by (simp add: id_take_nth_drop)
  have c: "concat segs = concat (take k segs) @ segs ! k @ concat (drop (Suc k) segs)"
    by (subst segs) simp
  show "length (concat (take k segs)) + j < length (concat segs)"
    "concat segs ! (length (concat (take k segs)) + j) = segs ! k ! j"
    unfolding c using assms(2) by (simp_all add: nth_append)
  have "loc ((take k segs @ [segs ! k]) @ drop (Suc k) segs) (length (concat (take k segs)) + j) =
      loc (take k segs @ [segs ! k]) (length (concat (take k segs)) + j)"
    by (rule loc_append) (use assms(2) in simp)
  then show "loc segs (length (concat (take k segs)) + j) = (k, length (seg_bytes (take j (segs ! k))))"
    using segs assms by (simp add: loc_last)
qed

lemma bs_next_here:
  assumes "before_block root fs segs s k j" and "files_ok root fs segs" and "segs_ok segs" and "j < length (segs ! k)"
  shows "\<exists>s'. bs_next fs s = Inr (Some (ser_block (segs ! k ! j),
      \<lparr>bpFileNum = int k, blockStartOffset = int (length (seg_bytes (take j (segs ! k)))),
       blockBytesOffset = int (length (seg_bytes (take j (segs ! k))) + length (EncodeVarint (u64_len (ser_block (segs ! k ! j)))))\<rparr>), s') \<and>
    before_block root fs segs s' k (Suc j) \<and> endFileNum s' = endFileNum s"
proof -
  let ?b = "segs ! k ! j"
  have k: "k < length segs" using assms(1) by (simp add: before_block_def)
  have "drop j (segs ! k) = ?b # drop (Suc j) (segs ! k)" using assms(4) by (simp add: Cons_nth_drop_Suc)
  then have at: "stream_at fs (currentFileStream s) (seg_bytes (take j (segs ! k)))
      (enc_bytes (ser_block ?b) @ seg_bytes (drop (Suc j) (segs ! k)))"
    using before_block_at [OF assms(1,2)] by simp
  have ok: "blk_ok (ser_block ?b)" using assms(3,4) k by (auto simp: segs_ok_def list_all_length seg_ok_def)
  have "seg_bytes (take (Suc j) (segs ! k)) = seg_bytes (take j (segs ! k)) @ enc_bytes (ser_block ?b)"
    using assms(4) by (simp add: take_Suc_conv_app_nth)
  then show ?thesis
    using bf_next_block [OF at ok] assms(1,4)
    by (subst bs_next.simps) (simp add: before_block_def Let_def)
qed

lemma bs_next_skip:
  assumes "before_block root fs segs s k (length (segs ! k))" and "files_ok root fs segs"
    and "Suc k < length segs" and "endFileNum s = int (length segs) - 1"
  shows "\<exists>s'. bs_next fs s = bs_next fs s' \<and> before_block root fs segs s' (Suc k) 0 \<and> endFileNum s' = endFileNum s"
proof -
  have "bf_next fs (currentFileStream s) = Inr (None, currentFileStream s)"
    using bf_next_end before_block_at [OF assms(1,2)] by simp
  moreover have "map_of (fsFiles fs) (deriveBlockfilePath root (int (Suc k))) = Some (seg_bytes (segs ! Suc k))"
    using assms(2,3) unfolding files_ok_def by blast
  ultimately show ?thesis
    using assms(1,3,4)
    by (subst bs_next.simps)
      (auto simp: before_block_def moveToNextBlockfileStream_def newBlockfileStream_def Let_def add.commute)
qed

lemma bs_next_done:
  assumes "before_block root fs segs s k (length (segs ! k))" and "files_ok root fs segs"
    and "Suc k = length segs" and "endFileNum s = int (length segs) - 1"
  shows "bs_next fs s = Inr (None, s)"
proof -
  have "bf_next fs (currentFileStream s) = Inr (None, currentFileStream s)"
    using bf_next_end before_block_at [OF assms(1,2)] by simp
  then show ?thesis using assms(1,3,4) by (subst bs_next.simps) (auto simp: before_block_def Let_def)
qed

text \<open>The next block of the stream, over the empty files between.\<close>

lemma bs_next_before:
  assumes "before_block root fs segs s k j" and "files_ok root fs segs" and "segs_ok segs"
    and "endFileNum s = int (length segs) - 1"
  shows "length (concat (take k segs)) + j = length (concat segs) \<and> (\<exists>s'. bs_next fs s = Inr (None, s')) \<or>
    (\<exists>k' j' s'. k' < length segs \<and> j' < length (segs ! k') \<and>
      length (concat (take k' segs)) + j' = length (concat (take k segs)) + j \<and>
      bs_next fs s = Inr (Some (ser_block (segs ! k' ! j'),
        \<lparr>bpFileNum = int k', blockStartOffset = int (length (seg_bytes (take j' (segs ! k')))),
         blockBytesOffset = int (length (seg_bytes (take j' (segs ! k'))) + length (EncodeVarint (u64_len (ser_block (segs ! k' ! j')))))\<rparr>), s') \<and>
      before_block root fs segs s' k' (Suc j') \<and> endFileNum s' = endFileNum s)"
  using assms
proof (induction "length segs - k" arbitrary: k j s)
  case 0
  then show ?case by (simp add: before_block_def)
next
  case (Suc x)
  have k: "k < length segs" "j \<le> length (segs ! k)" using Suc.prems(1) by (simp_all add: before_block_def)
  show ?case
  proof (cases "j < length (segs ! k)")
    case True
    then show ?thesis using bs_next_here [OF Suc.prems(1-3) True] k by blast
  next
    case False
    with k have j: "j = length (segs ! k)" by simp
    have split: "concat (take (Suc k) segs) = concat (take k segs) @ segs ! k"
      using k by (simp add: take_Suc_conv_app_nth)
    show ?thesis
    proof (cases "Suc k < length segs")
      case True
      obtain s2 where s2: "bs_next fs s = bs_next fs s2" "before_block root fs segs s2 (Suc k) 0" "endFileNum s2 = endFileNum s"
        using bs_next_skip [OF Suc.prems(1)[unfolded j] Suc.prems(2) True Suc.prems(4)] by blast
      have "x = length segs - Suc k" using Suc.hyps(2) by simp
      from Suc.hyps(1) [OF this s2(2) Suc.prems(2,3)] s2 Suc.prems(4) split j show ?thesis
        by (simp add: add.assoc)
    next
      case False
      with k have "Suc k = length segs" by simp
      moreover from this have "concat segs = concat (take k segs) @ segs ! k" using split by simp
      ultimately show ?thesis
        using bs_next_done [OF Suc.prems(1)[unfolded j] Suc.prems(2) _ Suc.prems(4)] j by simp
    qed
  qed
qed

section \<open>Rebuilding the index\<close>

text \<open>Indexing the last indexed block again changes nothing the index is asked for.\<close>

lemma index_ok_again:
  assumes "index_ok H m segs (Suc n)" and "n < length (concat segs)" and "length (concat segs) < 2 ^ 64"
  shows "index_ok H (apply_batch (idx_batch allAttrs (idx_info H segs n offs)) m) segs (Suc n)"
proof -
  let ?m = "apply_batch (idx_batch allAttrs (idx_info H segs n offs)) m"
  have "?m (numKey (of_nat (Suc i))) = m (numKey (of_nat (Suc i)))" if "i < Suc n" for i
  proof (cases "i = n")
    case True
    then show ?thesis
      using assms(1) by (simp add: idx_batch_lookup(1) idx_info_def index_ok_def num_index_ok_def del: of_nat_Suc)
  next
    case False
    then have "(of_nat (Suc i) :: u64) \<noteq> of_nat (Suc n)"
      using that assms(2,3) of_nat64_inj [of "Suc i" "Suc n"] by (simp del: of_nat_Suc)
    then show ?thesis by (simp add: idx_batch_lookup(1) idx_info_def del: of_nat_Suc)
  qed
  moreover have "?m (constructBlockHashKey h) = m (constructBlockHashKey h)" for h
  proof (cases "h = H (ser_block (concat segs ! n))")
    case True
    then show ?thesis
      using assms(1) by (simp add: idx_batch_lookup(2) idx_info_def index_ok_def hash_index_ok_def)
  qed (simp add: idx_batch_lookup(2) idx_info_def)
  ultimately show ?thesis
    using assms(1)
    by (simp add: index_ok_def num_index_ok_def hash_index_ok_def idx_batch_lookup(4) idx_info_def del: of_nat_Suc)
qed

lemma GetTxOffsets_ser:
  "block_wf b \<Longrightarrow> GetTxOffsets (NewSerBlock2 (ser_block b)) =
     (\<lparr>txOffsets = Some (block_offsets b), blockHash = None, blockBytes = ser_block b\<rparr>, Inr (block_offsets b))"
  by (simp add: GetTxOffsets_def NewSerBlock2_def extractPreviousBlockHash_ser extractTxOffsets_ser)

context leveldb_reliable
begin

lemma sync_loop_total:
  assumes "before_block root fs segs s k j" and "files_ok root fs segs" and "segs_ok segs"
    and "endFileNum s = int (length segs) - 1" and "dbhandle d \<noteq> None"
    and "n = length (concat (take k segs)) + j"
    and "index_ok H (view d) segs n \<or> n < length (concat segs) \<and> index_ok H (view d) segs (Suc n)"
  shows "\<exists>d'. sync_loop L H allAttrs fs s (of_nat (Suc n)) d = (d', Inr ()) \<and> dbhandle d' \<noteq> None \<and>
    index_ok H (view d') segs (length (concat segs)) \<and> view d' blkMgrInfoKey = view d blkMgrInfoKey"
  using assms
proof (induction "length (concat segs) - n" arbitrary: s k j d n rule: less_induct)
  case less
  from bs_next_before [OF less.prems(1-4)] show ?case
  proof (elim disjE exE conjE)
    fix s'
    assume "length (concat (take k segs)) + j = length (concat segs)" and "bs_next fs s = Inr (None, s')"
    then show ?thesis using less.prems(5,6,7) by (subst sync_loop.simps) auto
  next
    fix k' j' s'
    let ?b = "segs ! k' ! j'"
    let ?info = "\<lparr>bpFileNum = int k', blockStartOffset = int (length (seg_bytes (take j' (segs ! k')))),
         blockBytesOffset = int (length (seg_bytes (take j' (segs ! k'))) + length (EncodeVarint (u64_len (ser_block ?b))))\<rparr>"
    assume kj: "k' < length segs" "j' < length (segs ! k')" "length (concat (take k' segs)) + j' = length (concat (take k segs)) + j"
      and nxt: "bs_next fs s = Inr (Some (ser_block ?b, ?info), s')"
      and s': "before_block root fs segs s' k' (Suc j')" "endFileNum s' = endFileNum s"
    note l = loc_before [OF kj(1,2)]
    have n: "n = length (concat (take k' segs)) + j'" "n < length (concat segs)" "concat segs ! n = ?b"
      "loc segs n = (k', length (seg_bytes (take j' (segs ! k'))))"
      using less.prems(6) kj(3) l by simp_all
    have wf: "block_wf ?b" using less.prems(3) kj by (auto simp: segs_ok_def list_all_length seg_ok_def)
    have len: "length (concat segs) < 2 ^ 64" using less.prems(3) by (simp add: segs_ok_def)
    let ?idx = "idx_info H segs n (map (\<lambda>off. off + blockBytesOffset ?info) (block_offsets ?b))"
    have idx: "\<lparr>biBlockNum = of_nat (Suc n), biBlockHash = H (ser_block ?b),
        biFlp = \<lparr>lpOffset = blockStartOffset ?info, lpBytesLength = 0, fileSuffixNum = bpFileNum ?info\<rparr>,
        biTxOffsets = map (\<lambda>off. off + blockBytesOffset ?info) (block_offsets ?b)\<rparr> = ?idx"
      by (simp add: idx_info_def n(3,4) flp_at_def)
    obtain d1 where d1: "indexBlock L allAttrs ?idx d = Inr d1" "dbhandle d1 \<noteq> None"
      "view d1 = apply_batch (idx_batch allAttrs ?idx) (view d)"
      using indexBlock_total [OF less.prems(5)] by blast
    have ok: "index_ok H (view d1) segs (Suc n)"
      unfolding d1(3) using less.prems(7) index_ok_step [OF _ n(2) len] index_ok_again [OF _ n(2) len] by blast
    have "\<exists>d'. sync_loop L H allAttrs fs s' (of_nat (Suc (Suc n))) d1 = (d', Inr ()) \<and> dbhandle d' \<noteq> None \<and>
        index_ok H (view d') segs (length (concat segs)) \<and> view d' blkMgrInfoKey = view d1 blkMgrInfoKey"
      by (rule less.hyps [OF _ s'(1) less.prems(2,3) _ d1(2)]) (use n s'(2) less.prems(4) ok in auto)
    moreover have "view d1 blkMgrInfoKey = view d blkMgrInfoKey"
      unfolding d1(3) by (rule idx_batch_other [OF blkMgrInfoKey_apart])
    moreover have "sync_loop L H allAttrs fs s (of_nat (Suc n)) d = sync_loop L H allAttrs fs s' (of_nat (Suc n) + 1) d1"
      using nxt GetTxOffsets_ser [OF wf] idx d1(1) by (subst sync_loop.simps) (simp add: ComputeHash_def Let_def)
    moreover have "(of_nat (Suc n) + 1 :: u64) = of_nat (Suc (Suc n))" by simp
    ultimately show ?thesis by (simp only: simp_thms) 
  qed
qed

lemma syncIndex_total:
  assumes "segs_ok segs" and "files_ok (rootDir mgr) (mgrFS mgr) segs" and "cpInfo mgr = cp_of segs"
    and "mgrIndex mgr = allAttrs" and "dbhandle (mgrDB mgr) \<noteq> None"
    and "q \<le> length (concat segs)" and "index_ok H (view (mgrDB mgr)) segs q"
  shows "\<exists>d'. syncIndex L H mgr = (mgr\<lparr>mgrDB := d'\<rparr>, Inr ()) \<and> dbhandle d' \<noteq> None \<and>
    index_ok H (view d') segs (length (concat segs)) \<and> view d' blkMgrInfoKey = view (mgrDB mgr) blkMgrInfoKey"
proof -
  have ne: "segs \<noteq> []" and len: "length (concat segs) < 2 ^ 64" using assms(1) by (simp_all add: segs_ok_def)
  have last: "getLastBlockIndexed L (mgrDB mgr) = of_nat q"
  proof (cases "q = 0")
    case True
    then have "view (mgrDB mgr) indexCheckpointKey = None" using assms(7) by (simp add: index_ok_def)
    then show ?thesis using True DB_Get_total [OF assms(5)]
      by (simp add: getLastBlockIndexed_def of_nbytes_def decodeBlockNum_def DecodeVarint_def DecodeVarint_loop.simps)
  next
    case False
    then have "view (mgrDB mgr) indexCheckpointKey = Some (encodeBlockNum (of_nat q))"
      using assms(7) by (simp add: index_ok_def)
    then show ?thesis using DB_Get_total [OF assms(5)]
      by (simp add: getLastBlockIndexed_def of_nbytes_def decodeBlockNum_def encodeBlockNum_def)
  qed
  obtain k j where kj: "k < length segs" "j \<le> length (segs ! k)" "q - 1 = length (concat (take k segs)) + j"
      "q \<noteq> 0 \<Longrightarrow> loc segs (q - 1) = (k, length (seg_bytes (take j (segs ! k))))" "q = 0 \<Longrightarrow> k = 0 \<and> j = 0"
  proof (cases "q = 0")
    case True
    then show thesis using ne by (intro that [of 0 0]) auto
  next
    case False
    then have "q - 1 < length (concat segs)" using assms(6) by simp
    from loc_split [OF this] show thesis using that False by (metis less_imp_le prod.collapse)
  qed
  define s where "s = \<lparr>bsRootDir = rootDir mgr, currentFileNum = int k, endFileNum = int (length segs) - 1,
    currentFileStream = \<lparr>bfFileNum = int k, bfFile = deriveBlockfilePath (rootDir mgr) (int k),
      currentOffset = int (length (seg_bytes (take j (segs ! k))))\<rparr>\<rparr>"
  have s: "before_block (rootDir mgr) (mgrFS mgr) segs s k j" "endFileNum s = int (length segs) - 1"
    using kj(1,2) by (simp_all add: before_block_def s_def)
  have "map_of (fsFiles (mgrFS mgr)) (deriveBlockfilePath (rootDir mgr) (int k)) = Some (seg_bytes (segs ! k))"
    using assms(2) kj(1) by (simp add: files_ok_def)
  then have new: "newBlockStream (rootDir mgr) (int k) (int (length (seg_bytes (take j (segs ! k))))) (int (length segs) - 1) (mgrFS mgr) = Inr s"
    by (simp add: newBlockStream_def newBlockfileStream_def s_def)
  have idx: "index_ok H (view (mgrDB mgr)) segs (q - 1) \<or> q - 1 < length (concat segs) \<and> index_ok H (view (mgrDB mgr)) segs (Suc (q - 1))"
    using assms(6,7) by (cases q) auto
  obtain d' where d': "sync_loop L H allAttrs (mgrFS mgr) s (of_nat (Suc (q - 1))) (mgrDB mgr) = (d', Inr ())"
    "dbhandle d' \<noteq> None" "index_ok H (view d') segs (length (concat segs))" "view d' blkMgrInfoKey = view (mgrDB mgr) blkMgrInfoKey"
    using sync_loop_total [OF s(1) assms(2,1) s(2) assms(5) kj(3) idx] by blast
  have "syncIndex L H mgr = (mgr\<lparr>mgrDB := d'\<rparr>, Inr ())"
  proof (cases "q = 0")
    case True
    then show ?thesis using last new d'(1) kj(5) assms(3,4) by (simp add: syncIndex_def cp_of_def)
  next
    case False
    have q: "(of_nat q :: u64) \<noteq> 0" using False assms(6) len of_nat64_inj [of q 0] by simp
    have "q - 1 < length (concat segs)" using False assms(6) by simp
    note wf = flp_at_wf [OF assms(1) this]
    have "view (mgrDB mgr) (numKey (of_nat q)) = Some (flp_marshal (flp_at (loc segs (q - 1))))"
      using assms(7) False by (cases q) (simp_all add: index_ok_def num_index_ok_def del: of_nat_Suc)
    then have "getBlockLocByBlockNum L allAttrs (mgrDB mgr) (of_nat q) = Inr (flp_at (loc segs (q - 1)))"
      using flp_roundtrip [OF wf] DB_Get_total [OF assms(5)]
      by (simp add: getBlockLocByBlockNum_def allAttrs_def constructBlockNumKey_eq lookupFlp_def)
    moreover have "of_nat (Suc (q - 1)) = (of_nat q :: u64)" using False by (simp del: of_nat_Suc)
    ultimately show ?thesis
      using last q new d'(1) kj(4) [OF False] assms(3,4)
      by (simp add: syncIndex_def cp_of_def flp_at_def del: of_nat_Suc)
  qed
  with d' show ?thesis by blast
qed

lemma initBCInfo_total:
  assumes "store_core contents H segs mgr"
  obtains bc where "initBCInfo L H mgr = Inr bc" "Height bc = of_nat (length (concat segs))"
    "CurrentBlockHash bc = CurrentBlockHash (bc_of H (concat segs))"
proof (cases "concat segs = []")
  case True
  then have "length (concat segs) = 0" by (simp del: concat_eq_Nil_conv)
  then have "lastBlockNumber (cpInfo mgr) = 0" using assms by (simp only: store_core_def cp_of_def) simp
  then show thesis using True
    by (intro that [of "\<lparr>Height = 0, CurrentBlockHash = None, bcPreviousBlockHash = None\<rparr>"])
      (simp_all add: initBCInfo_def bc_of_def del: concat_eq_Nil_conv)
next
  case False
  let ?n = "length (concat segs)"
  let ?b = "concat segs ! (?n - 1)"
  have len: "?n < 2 ^ 64" and cp: "lastBlockNumber (cpInfo mgr) = of_nat ?n" and ok: "segs_ok segs"
    using assms by (simp_all add: store_core_def cp_of_def segs_ok_def)
  have pos: "0 < ?n" using False by (simp del: concat_eq_Nil_conv)
  then have n: "?n - 1 < ?n" "of_nat (Suc (?n - 1)) = (of_nat ?n :: u64)" by (simp_all del: of_nat_Suc)
  have gt: "0 < (of_nat ?n :: u64)"
    using pos of_nat64_inj [of ?n 0] len by (simp only: word_gt_0 of_nat_0) auto
  have wf: "block_wf ?b" using ok nth_mem [OF n(1)] by (auto simp: segs_ok_def list_all_iff seg_ok_def)
  have "retrieveSerBlockByNumber L mgr (of_nat ?n) = Inr (NewSerBlock2 (ser_block ?b))"
    using lookup_num [OF assms n(1)] fetch_loc(1) [OF assms n(1)] unfolding n(2)
    by (simp add: retrieveSerBlockByNumber_def)
  then have "initBCInfo L H mgr = Inr \<lparr>Height = of_nat ?n, CurrentBlockHash = Some (H (ser_block ?b)),
      bcPreviousBlockHash = Some (of_nbytes (PreviousBlockHash ?b))\<rparr>"
    unfolding initBCInfo_def cp
    by (simp only: gt if_True sum.case NewSerBlock2_def ComputeHash_def)
      (simp add: GetPreviousBlockHash_def extractPreviousBlockHash_ser [OF wf, simplified] Let_def)
  moreover have "CurrentBlockHash (bc_of H (concat segs)) = Some (H (ser_block ?b))"
    using False by (simp add: bc_of_def last_conv_nth del: concat_eq_Nil_conv)
  ultimately show thesis by (intro that [of "\<lparr>Height = of_nat ?n, CurrentBlockHash = Some (H (ser_block ?b)),
      bcPreviousBlockHash = Some (of_nbytes (PreviousBlockHash ?b))\<rparr>"]) simp_all
qed

text \<open>Everything after the checkpoint has been found: the writer, the index, and the chain information.\<close>

lemma start_total:
  assumes "segs_ok segs" and "dbhandle d \<noteq> None" and "q \<le> length (concat segs)" and "index_ok H (view d) segs q"
    and "m \<le> length (last segs)" and "view d blkMgrInfoKey = Some (cp_marshal (cp_at segs m))"
    and "initCP L d0 = Inr (i, d)" and "syncCPInfoFromFS root i fs = Inr (cp_of segs)"
    and "set attrs = allAttrs"
    and "newBlockfileWriter (deriveBlockfilePath root (int (length segs) - 1)) fs = (w, fs1)"
    and "files_ok root (truncateFile w (int (length (seg_bytes (last segs)))) fs1) segs"
  shows "\<exists>mgr. newBlockfileMgr L H root maxSize attrs (Inr e) (Inr d0) fs = Inr mgr \<and>
    store_inv contents H segs mgr \<and> rootDir mgr = root \<and> maxBlockfileSize mgr = maxSize"
proof -
  let ?fs = "truncateFile w (int (length (seg_bytes (last segs)))) fs1"
  let ?mgr = "\<lparr>rootDir = root, maxBlockfileSize = maxSize, mgrFS = ?fs, mgrDB = d, mgrIndex = newBlockIndex attrs,
    cpInfo = cp_of segs, currentFileWriter = w, bcInfo = \<lparr>Height = 0, CurrentBlockHash = None, bcPreviousBlockHash = None\<rparr>\<rparr>"
  have items: "newBlockIndex attrs = allAttrs" using assms(9) by (simp add: newBlockIndex_def)
  have w: "filePath w = deriveBlockfilePath root (int (length segs) - 1)"
    using assms(10) by (auto simp: newBlockfileWriter_def Let_def)
  obtain d' where d': "syncIndex L H ?mgr = (?mgr\<lparr>mgrDB := d'\<rparr>, Inr ())" "dbhandle d' \<noteq> None"
    "index_ok H (view d') segs (length (concat segs))" "view d' blkMgrInfoKey = view d blkMgrInfoKey"
    using syncIndex_total [OF assms(1), of ?mgr q H] assms(2,3,4,11) items by auto
  have core: "store_core contents H segs (?mgr\<lparr>mgrDB := d'\<rparr>)"
    using d'(2-4) assms(1,5,6,11) items w by (auto simp: store_core_def)
  obtain bc where bc: "initBCInfo L H (?mgr\<lparr>mgrDB := d'\<rparr>) = Inr bc" "Height bc = of_nat (length (concat segs))"
    "CurrentBlockHash bc = CurrentBlockHash (bc_of H (concat segs))"
    using initBCInfo_total [OF core] by metis
  have "newBlockfileMgr L H root maxSize attrs (Inr e) (Inr d0) fs = Inr (?mgr\<lparr>mgrDB := d', bcInfo := bc\<rparr>)"
    using assms(7,8,10) d'(1) bc(1) by (simp add: newBlockfileMgr_def cp_of_def)
  moreover have "store_inv contents H segs (?mgr\<lparr>mgrDB := d', bcInfo := bc\<rparr>)"
    using core bc(2,3) by (simp add: store_defs)
  ultimately show ?thesis by auto
qed

end

text \<open>
  What a crash leaves: complete blocks \<open>segs\<close>, possibly a partial block after them, a checkpoint of the last
  file and an index of a prefix of the blocks.
\<close>

definition crash_disk ::
  "('db \<Rightarrow> bytes \<rightharpoonup> bytes) \<Rightarrow> (bytes \<Rightarrow> bytes) \<Rightarrow> gostring \<Rightarrow> Block2 list list \<Rightarrow> FS \<Rightarrow> 'db DB \<Rightarrow> bool" where
  "crash_disk contents H root segs fs d \<longleftrightarrow> segs_ok segs \<and> dbhandle d \<noteq> None \<and>
     (\<exists>p fs0. partial_block p \<and> files_ok root fs0 segs \<and> map_of (fsFiles fs) =
        (map_of (fsFiles fs0))(deriveBlockfilePath root (int (length segs) - 1) \<mapsto> seg_bytes (last segs) @ p)) \<and>
     (\<exists>m \<le> length (last segs). db_view contents d blkMgrInfoKey = Some (cp_marshal (cp_at segs m))) \<and>
     (\<exists>q \<le> length (concat segs). index_ok H (db_view contents d) segs q)"

context leveldb_reliable
begin

lemma cp_at_range:
  assumes "segs_ok segs"
  shows "goint_range (latestFileChunkSuffixNum (cp_at segs m))" "goint_range (latestFileChunksize (cp_at segs m))"
proof -
  have "fits (seg_bytes (last segs))" and len: "segs \<noteq> []" "int (length segs) \<le> maxint"
    using assms by (auto simp: segs_ok_def list_all_iff seg_ok_def)
  moreover have "length (seg_bytes (take m (last segs))) \<le> length (seg_bytes (last segs))"
    by (metis append_take_drop_id length_append le_add1 seg_bytes_simps(3))
  ultimately show "goint_range (latestFileChunksize (cp_at segs m))" "goint_range (latestFileChunkSuffixNum (cp_at segs m))"
    by (auto simp: goint_range_def cp_at_def fits_def maxint_def)
qed

lemma newBlockfileMgr_recovers:
  assumes "crash_disk contents H root segs fs d" and "set attrs = allAttrs"
  shows "\<exists>mgr. newBlockfileMgr L H root maxSize attrs (Inr e) (Inr d) fs = Inr mgr \<and>
    store_inv contents H segs mgr \<and> rootDir mgr = root \<and> maxBlockfileSize mgr = maxSize"
proof -
  let ?path = "deriveBlockfilePath root (int (length segs) - 1)"
  obtain p fs0 m q where segs: "segs_ok segs" and db: "dbhandle d \<noteq> None" and p: "partial_block p"
    and fs0: "files_ok root fs0 segs" "map_of (fsFiles fs) = (map_of (fsFiles fs0))(?path \<mapsto> seg_bytes (last segs) @ p)"
    and m: "m \<le> length (last segs)" "view d blkMgrInfoKey = Some (cp_marshal (cp_at segs m))"
    and q: "q \<le> length (concat segs)" "index_ok H (view d) segs q"
    using assms(1) unfolding crash_disk_def by blast
  have "initCP L d = Inr (cp_at segs m, d)"
    using m(2) DB_Get_total [OF db] cp_roundtrip [OF cp_at_range [OF segs]]
    by (simp add: initCP_def loadCurrentInfo_def)
  moreover have "syncCPInfoFromFS root (cp_at segs m) fs = Inr (cp_of segs)"
    using syncCPInfoFromFS_eq [OF segs m(1) p] fs0(2) by simp
  moreover have "newBlockfileWriter ?path fs = (\<lparr>filePath = ?path\<rparr>, fs)"
    using fs0(2) by (simp add: newBlockfileWriter_def writer_open_def)
  moreover have "map_of (fsFiles (truncateFile \<lparr>filePath = ?path\<rparr> (int (length (seg_bytes (last segs)))) fs)) =
      (map_of (fsFiles fs0))(?path \<mapsto> seg_bytes (last segs))"
    using truncateFile_back [of fs "map_of (fsFiles fs0)" "\<lparr>filePath = ?path\<rparr>"] fs0(2) by simp
  then have "map_of (fsFiles (truncateFile \<lparr>filePath = ?path\<rparr> (int (length (seg_bytes (last segs)))) fs)) = map_of (fsFiles fs0)"
    using files_ok_last [OF fs0(1)] segs by (simp add: segs_ok_def map_upd_triv)
  then have "files_ok root (truncateFile \<lparr>filePath = ?path\<rparr> (int (length (seg_bytes (last segs)))) fs) segs"
    by (rule files_ok_same [OF fs0(1)])
  ultimately show ?thesis using start_total [OF segs db q m _ _ assms(2)] by blast
qed

text \<open>The first start, with nothing on disk.\<close>

lemma newBlockfileMgr_fresh:
  assumes "dbhandle d \<noteq> None" and "view d = Map.empty" and "fsFiles fs = []" and "set attrs = allAttrs"
  shows "\<exists>mgr. newBlockfileMgr L H root maxSize attrs (Inr e) (Inr d) fs = Inr mgr \<and>
    store_inv contents H [[]] mgr \<and> rootDir mgr = root \<and> maxBlockfileSize mgr = maxSize"
proof -
  let ?path = "deriveBlockfilePath root 0"
  have segs: "segs_ok [[]]" by (simp add: segs_ok_def seg_ok_def fits_def maxint_def)
  obtain d' where d': "saveCurrentInfo L zeroCP d = Inr d'" "dbhandle d' \<noteq> None" "view d' = (view d)(blkMgrInfoKey \<mapsto> cp_marshal zeroCP)"
    using saveCurrentInfo_total [OF assms(1)] by blast
  have "initCP L d = Inr (zeroCP, d')"
    using assms(2) DB_Get_total [OF assms(1)] d'(1) by (simp add: initCP_def loadCurrentInfo_def)
  moreover have "syncCPInfoFromFS root zeroCP fs = Inr (cp_of [[]])"
    using assms(3) by (simp add: syncCPInfoFromFS_def FileExists_def cp_of_def zeroCP_def)
  moreover have "index_ok H (view d') [[]] 0"
    using assms(2) d'(3) by (simp add: index_ok_def num_index_ok_def hash_index_ok_def)
  moreover have "view d' blkMgrInfoKey = Some (cp_marshal (cp_at [[]] 0))"
    using d'(3) by (simp add: cp_at_def zeroCP_def)
  moreover have "files_ok root (truncateFile \<lparr>filePath = ?path\<rparr> 0 (writer_open \<lparr>filePath = ?path\<rparr> fs)) [[]]"
    using assms(3) by (simp add: files_ok_def writer_open_def truncateFile_def of_nbytes_def)
  ultimately show ?thesis
    using start_total [OF segs d'(2), of 0 H 0 d zeroCP root fs attrs "\<lparr>filePath = ?path\<rparr>" "writer_open \<lparr>filePath = ?path\<rparr> fs"] assms(4)
    by (simp add: newBlockfileWriter_def Let_def)
qed

end

section \<open>Crashes while a block is added\<close>

text \<open>
  The states of the disk and the database that \<open>addBlock\<close> goes through: before it begins; after the next
  file was created; with any part of the block's record written; with the checkpoint saved; and at the end.
\<close>

definition target :: "'db leveldb_ops \<Rightarrow> Block2 \<Rightarrow> 'db blockfileMgr \<Rightarrow> 'db blockfileMgr option" where
  "target L b mgr =
     (if maxBlockfileSize mgr < latestFileChunksize (cpInfo mgr) + int (length (enc_bytes (ser_block b)))
      then (case moveToNextFile L mgr of Inl _ \<Rightarrow> None | Inr mgr' \<Rightarrow> Some mgr') else Some mgr)"

definition with_record :: "nat \<Rightarrow> Block2 \<Rightarrow> 'db blockfileMgr \<Rightarrow> FS" where
  "with_record k b mgr =
     (let p = filePath (currentFileWriter mgr); fs = mgrFS mgr in
      fs\<lparr>fsFiles := mput p (of_nbytes (map_of (fsFiles fs) p) @ take k (enc_bytes (ser_block b))) (fsFiles fs)\<rparr>)"

definition cp_after :: "Block2 \<Rightarrow> checkpointInfo \<Rightarrow> checkpointInfo" where
  "cp_after b i = i\<lparr>latestFileChunksize := latestFileChunksize i + int (length (enc_bytes (ser_block b))),
     lastBlockNumber := lastBlockNumber i + 1\<rparr>"

inductive crash_point ::
  "'db leveldb_ops \<Rightarrow> (bytes \<Rightarrow> bytes) \<Rightarrow> Block2 \<Rightarrow> 'db blockfileMgr \<Rightarrow> FS \<Rightarrow> 'db DB \<Rightarrow> bool"
  for L :: "'db leveldb_ops" and H :: "bytes \<Rightarrow> bytes" and b :: Block2 and mgr :: "'db blockfileMgr" where
  cr_before: "crash_point L H b mgr (mgrFS mgr) (mgrDB mgr)"
| cr_file: "crash_point L H b mgr
    (snd (newBlockfileWriter (deriveBlockfilePath (rootDir mgr) (latestFileChunkSuffixNum (cpInfo mgr) + 1)) (mgrFS mgr))) (mgrDB mgr)"
| cr_written: "target L b mgr = Some mgr1 \<Longrightarrow> crash_point L H b mgr (with_record k b mgr1) (mgrDB mgr1)"
| cr_saved: "target L b mgr = Some mgr1 \<Longrightarrow> saveCurrentInfo L (cp_after b (cpInfo mgr1)) (mgrDB mgr1) = Inr d \<Longrightarrow>
    crash_point L H b mgr (with_record (length (enc_bytes (ser_block b))) b mgr1) d"
| cr_done: "addBlock L H b mgr = (mgr', Inr ()) \<Longrightarrow> crash_point L H b mgr (mgrFS mgr') (mgrDB mgr')"

inductive_cases crash_pointE: "crash_point L H b mgr fs d"

lemma partial_block_Nil [simp]: "blk_ok b \<Longrightarrow> partial_block []"
  by (auto simp: partial_block_def enc_bytes_def intro!: exI [of _ b] exI [of _ 0])

lemma crash_disk_inv:
  assumes "store_inv contents H segs mgr" and "map_of (fsFiles fs) = map_of (fsFiles (mgrFS mgr)) \<or> files_ok (rootDir mgr) fs segs"
  shows "crash_disk contents H (rootDir mgr) segs fs (mgrDB mgr)"
proof -
  have segs: "segs_ok segs" "segs \<noteq> []" using assms(1) by (auto simp: store_defs segs_ok_def)
  have files: "files_ok (rootDir mgr) fs segs"
    using assms files_ok_same by (auto simp: store_defs)
  have "blk_ok []" by (simp add: blk_ok_def)
  with files_ok_last [OF files segs(2)] files have "\<exists>p fs0. partial_block p \<and> files_ok (rootDir mgr) fs0 segs \<and> map_of (fsFiles fs) =
      (map_of (fsFiles fs0))(deriveBlockfilePath (rootDir mgr) (int (length segs) - 1) \<mapsto> seg_bytes (last segs) @ p)"
    by (intro exI [of _ "[]"] exI [of _ fs]) (simp add: map_upd_triv)
  then show ?thesis using assms(1) by (auto simp: crash_disk_def store_defs)
qed

lemma rootDir_appendBlock: "rootDir (fst (appendBlock L b bs h offs o1 mgr)) = rootDir mgr"
  by (simp add: appendBlock_def updateBlockchainInfo_def updateCheckpoint_def Let_def split: prod.splits sum.splits)

lemma rootDir_addBlock: "rootDir (fst (addBlock L H b mgr)) = rootDir mgr"
  by (auto simp: addBlock_def rootDir_appendBlock moveToNextFile_def updateCheckpoint_def Let_def
      split: prod.splits sum.splits)

lemma with_record_files:
  assumes "files_ok (rootDir mgr) (mgrFS mgr) segs" and "segs \<noteq> []"
    and "filePath (currentFileWriter mgr) = deriveBlockfilePath (rootDir mgr) (int (length segs) - 1)"
  shows "map_of (fsFiles (with_record k b mgr)) = (map_of (fsFiles (mgrFS mgr)))
    (deriveBlockfilePath (rootDir mgr) (int (length segs) - 1) \<mapsto> seg_bytes (last segs) @ take k (enc_bytes (ser_block b)))"
  using files_ok_last [OF assms(1,2)] assms(3) by (simp add: with_record_def of_nbytes_def Let_def)

lemma crash_disk_partial:
  assumes "store_inv contents H segs mgr" and "k < length (enc_bytes (ser_block b))" and "blk_ok (ser_block b)"
  shows "crash_disk contents H (rootDir mgr) segs (with_record k b mgr) (mgrDB mgr)"
proof -
  have files: "files_ok (rootDir mgr) (mgrFS mgr) segs" "segs \<noteq> []"
    "filePath (currentFileWriter mgr) = deriveBlockfilePath (rootDir mgr) (int (length segs) - 1)"
    using assms(1) by (auto simp: store_defs segs_ok_def)
  have "partial_block (take k (enc_bytes (ser_block b)))" using assms(2,3) by (auto simp: partial_block_def)
  with with_record_files [OF files] files(1) show ?thesis
    using assms(1) by (auto simp: crash_disk_def store_defs)
qed

lemma cp_at_add_last: "segs \<noteq> [] \<Longrightarrow> m \<le> length (last segs) \<Longrightarrow> cp_at (add_last segs b) m = cp_at segs m"
  by (simp add: cp_at_def add_last_def)

lemma segs_ok_add_last:
  assumes "segs_ok segs" and "block_wf b" "blk_ok (ser_block b)"
    and "Suc (length (concat segs)) < 2 ^ 64" "fits (seg_bytes (last segs @ [b]))"
  shows "segs_ok (add_last segs b)"
proof -
  have ne: "segs \<noteq> []" using assms(1) by (simp add: segs_ok_def)
  have "set (add_last segs b) \<subseteq> insert (last segs @ [b]) (set segs)"
    by (auto simp: add_last_def dest: in_set_butlastD)
  then show ?thesis
    using assms ne by (fastforce simp: segs_ok_def add_last_props(1,2,4) [OF ne] list_all_iff seg_ok_def)
qed

lemma crash_disk_added:
  assumes "store_inv contents H segs mgr" and "segs_ok (add_last segs b)" and "dbhandle d \<noteq> None"
    and "db_view contents d = db_view contents (mgrDB mgr) \<or>
      db_view contents d = (db_view contents (mgrDB mgr))(blkMgrInfoKey \<mapsto> cp_marshal (cp_of (add_last segs b)))"
  shows "crash_disk contents H (rootDir mgr) (add_last segs b) (with_record (length (enc_bytes (ser_block b))) b mgr) d"
proof -
  let ?segs = "add_last segs b"
  let ?fs = "with_record (length (enc_bytes (ser_block b))) b mgr"
  have files: "files_ok (rootDir mgr) (mgrFS mgr) segs" and ne: "segs \<noteq> []"
    and w: "filePath (currentFileWriter mgr) = deriveBlockfilePath (rootDir mgr) (int (length segs) - 1)"
    using assms(1) by (auto simp: store_defs segs_ok_def)
  note e = add_last_props [OF ne, where b = b]
  have fs: "map_of (fsFiles ?fs) = (map_of (fsFiles (mgrFS mgr)))
      (deriveBlockfilePath (rootDir mgr) (int (length segs) - 1) \<mapsto> seg_bytes (last segs @ [b]))"
    using with_record_files [OF files ne w] by simp
  have ok: "files_ok (rootDir mgr) ?fs ?segs" by (rule files_ok_add [OF files ne fs])
  have "partial_block []" by (rule partial_block_Nil [of "[]"]) (simp add: blk_ok_def)
  with files_ok_last [OF ok e(4)] ok have "\<exists>p fs0. partial_block p \<and> files_ok (rootDir mgr) fs0 ?segs \<and> map_of (fsFiles ?fs) =
      (map_of (fsFiles fs0))(deriveBlockfilePath (rootDir mgr) (int (length ?segs) - 1) \<mapsto> seg_bytes (last ?segs) @ p)"
    by (intro exI [of _ "[]"] exI [of _ ?fs]) (simp add: map_upd_triv)
  moreover have "\<exists>q \<le> length (concat ?segs). index_ok H (db_view contents d) ?segs q"
  proof -
    have "index_ok H (db_view contents (mgrDB mgr)) ?segs (length (concat segs))"
      using assms(1) by (auto simp: store_defs loc_add_last [OF ne] e nth_append intro!: index_ok_grow)
    then have "index_ok H (db_view contents d) ?segs (length (concat segs))" using assms(4) index_ok_other by auto
    then show ?thesis by (rule exI [of _ "length (concat segs)", OF conjI, rotated]) (simp add: e(2))
  qed
  moreover have "\<exists>m \<le> length (last ?segs). db_view contents d blkMgrInfoKey = Some (cp_marshal (cp_at ?segs m))"
    using assms(4)
  proof
    assume "db_view contents d = db_view contents (mgrDB mgr)"
    moreover obtain m where "m \<le> length (last segs)" "db_view contents (mgrDB mgr) blkMgrInfoKey = Some (cp_marshal (cp_at segs m))"
      using assms(1) by (auto simp: store_defs)
    ultimately show ?thesis using cp_at_add_last [OF ne, of m b] e(2) by (auto simp: add_last_def intro!: exI [of _ m])
  next
    assume "db_view contents d = (db_view contents (mgrDB mgr))(blkMgrInfoKey \<mapsto> cp_marshal (cp_of ?segs))"
    then show ?thesis using cp_at_full [OF e(4)] by auto
  qed
  ultimately show ?thesis using assms(2,3) unfolding crash_disk_def by blast
qed

context leveldb_reliable
begin

lemma target_inv:
  assumes "store_inv contents H segs mgr" and "target L b mgr = Some mgr1" and "block_wf b" "blk_ok (ser_block b)"
    and "Suc (length (concat segs)) < 2 ^ 64" "int (length segs) + 1 \<le> maxint" "maxBlockfileSize mgr \<le> maxint"
  obtains segs1 where "store_inv contents H segs1 mgr1" "concat segs1 = concat segs" "segs_ok (add_last segs1 b)"
    "rootDir mgr1 = rootDir mgr" "segs1 \<noteq> []" "length segs1 \<le> Suc (length segs)"
proof -
  have segs: "segs_ok segs" "segs \<noteq> []" "cpInfo mgr = cp_of segs" using assms(1) by (auto simp: store_defs segs_ok_def)
  show thesis
  proof (cases "maxBlockfileSize mgr < latestFileChunksize (cpInfo mgr) + int (length (enc_bytes (ser_block b)))")
    case True
    obtain mgr' where m: "moveToNextFile L mgr = Inr mgr'" "store_inv contents H (segs @ [[]]) mgr'" "rootDir mgr' = rootDir mgr"
      using moveToNextFile_inv [OF assms(1,6)] by metis
    have ok: "segs_ok (segs @ [[]])" using m(2) by (simp add: store_defs)
    have "fits (seg_bytes (last (segs @ [[]]) @ [b]))"
      using assms(4) blk_ok_len [OF assms(4)] by (simp add: blk_ok_def fits_def enc_bytes_def maxint_def)
    then have "segs_ok (add_last (segs @ [[]]) b)" by (intro segs_ok_add_last [OF ok assms(3,4)]) (use assms(5) in simp_all)
    then show thesis using that m True assms(2) by (auto simp: target_def)
  next
    case False
    then have "fits (seg_bytes (last segs @ [b]))" using assms(7) segs(3) by (simp add: fits_def cp_of_def)
    then have "segs_ok (add_last segs b)" by (rule segs_ok_add_last [OF segs(1) assms(3-5)])
    then show thesis using that [of segs] assms(1,2) segs(2) False by (simp add: target_def)
  qed
qed

lemma crash_point_disk:
  assumes inv: "store_inv contents H segs mgr" and b: "block_wf b" "blk_ok (ser_block b)"
    and room: "Suc (length (concat segs)) < 2 ^ 64" "int (length segs) + 1 \<le> maxint" "maxBlockfileSize mgr \<le> maxint"
    and crash: "crash_point L H b mgr fs d"
  shows "\<exists>segs'. crash_disk contents H (rootDir mgr) segs' fs d \<and> length segs' \<le> Suc (length segs) \<and>
    (concat segs' = concat segs \<or> concat segs' = concat segs @ [b])"
  using crash
proof (cases rule: crash_point.cases)
  case cr_before
  then show ?thesis using crash_disk_inv [OF inv, of fs] by (intro exI [of _ segs]) simp
next
  case cr_file
  have cp: "latestFileChunkSuffixNum (cpInfo mgr) + 1 = int (length segs)" using inv by (simp add: store_defs cp_of_def)
  have files: "files_ok (rootDir mgr) (mgrFS mgr) segs" using inv by (simp add: store_defs)
  then have "files_ok (rootDir mgr) fs segs"
    using cr_file(1) unfolding cp
    by (auto simp: files_ok_def newBlockfileWriter_def writer_open_def of_nbytes_def Let_def split: option.splits)
  then show ?thesis using crash_disk_inv [OF inv] cr_file(2) le_SucI by blast
next
  case (cr_written mgr1 k)
  obtain segs1 where s1: "store_inv contents H segs1 mgr1" "concat segs1 = concat segs" "segs_ok (add_last segs1 b)"
    "rootDir mgr1 = rootDir mgr" "segs1 \<noteq> []" "length segs1 \<le> Suc (length segs)"
    using target_inv [OF inv cr_written(3) b room] by blast
  show ?thesis
  proof (cases "k < length (enc_bytes (ser_block b))")
    case True
    then show ?thesis using crash_disk_partial [OF s1(1) True b(2)] s1(2,4,6) cr_written(1,2) by metis
  next
    case False
    then have "with_record k b mgr1 = with_record (length (enc_bytes (ser_block b))) b mgr1"
      by (simp add: with_record_def)
    moreover have "dbhandle (mgrDB mgr1) \<noteq> None" using s1(1) by (simp add: store_defs)
    ultimately have "crash_disk contents H (rootDir mgr) (add_last segs1 b) fs d"
      using crash_disk_added [OF s1(1,3)] s1(4) cr_written(1,2) by simp
    then show ?thesis using add_last_props(1,2) [OF s1(5), of b] s1(2,6) by auto
  qed
next
  case (cr_saved mgr1)
  obtain segs1 where s1: "store_inv contents H segs1 mgr1" "concat segs1 = concat segs" "segs_ok (add_last segs1 b)"
    "rootDir mgr1 = rootDir mgr" "segs1 \<noteq> []" "length segs1 \<le> Suc (length segs)"
    using target_inv [OF inv cr_saved(2) b room] by blast
  have db: "dbhandle (mgrDB mgr1) \<noteq> None" and cp: "cpInfo mgr1 = cp_of segs1" using s1(1) by (simp_all add: store_defs)
  have "cp_after b (cpInfo mgr1) = cp_of (add_last segs1 b)"
    using s1(5) by (simp add: cp cp_after_def cp_of_def add_last_props)
  then have "dbhandle d \<noteq> None" "view d = (view (mgrDB mgr1))(blkMgrInfoKey \<mapsto> cp_marshal (cp_of (add_last segs1 b)))"
    using saveCurrentInfo_total [OF db, of "cp_of (add_last segs1 b)"] cr_saved(3) by auto
  then have "crash_disk contents H (rootDir mgr) (add_last segs1 b) fs d"
    using crash_disk_added [OF s1(1,3)] s1(4) cr_saved(1) by simp
  then show ?thesis using add_last_props(1,2) [OF s1(5), of b] s1(2,6) by auto
next
  case (cr_done mgr')
  then obtain segs' where s': "store_inv contents H segs' mgr'" "concat segs' = concat segs @ [b]" "length segs' \<le> Suc (length segs)"
    using addBlock_inv [OF inv b room cr_done(3)] by auto
  then show ?thesis using crash_disk_inv [OF s'(1)] cr_done(1,2) rootDir_addBlock [of L H b mgr] cr_done(3) by auto
qed

end

end
