(* ===== verification/BlockLedger.thy ===== *)
theory BlockLedger
  imports BlockRecovery
begin

text \<open>
  The block store over its whole life: blocks are added, additions fail, the process stops at any point of
  an addition and is started again. What can be read back is stated over such histories.
\<close>

section \<open>Histories\<close>

text \<open>
  \<open>history L H root maxSize d0 n bs mgr\<close>: after \<open>n\<close> operations on a store that was empty at first the
  manager is \<open>mgr\<close>, and \<open>bs\<close> are the blocks it has acknowledged, together with those a restart reported
  to be complete. The faults of the file system are arbitrary, and so is the point at which the process
  stops.
\<close>

definition all_attrs :: "IndexableAttr list" where
  "all_attrs = [IndexableAttrBlockHash, IndexableAttrBlockNum, IndexableAttrTxID]"

definition restart ::
  "'db leveldb_ops \<Rightarrow> (bytes \<Rightarrow> bytes) \<Rightarrow> gostring \<Rightarrow> int \<Rightarrow> FS \<Rightarrow> 'db DB \<Rightarrow> error + 'db blockfileMgr" where
  "restart L H root maxSize fs d = newBlockfileMgr L H root maxSize all_attrs (Inr True) (Inr d) fs"

definition storable :: "Block2 \<Rightarrow> bool" where
  "storable b \<longleftrightarrow> block_wf b \<and> blk_ok (ser_block b)"

inductive history ::
  "'db leveldb_ops \<Rightarrow> (bytes \<Rightarrow> bytes) \<Rightarrow> gostring \<Rightarrow> int \<Rightarrow> 'db DB \<Rightarrow> nat \<Rightarrow> Block2 list \<Rightarrow> 'db blockfileMgr \<Rightarrow> bool"
  for L :: "'db leveldb_ops" and H :: "bytes \<Rightarrow> bytes" and root :: gostring and maxSize :: int and d0 :: "'db DB" where
  h_start: "fsFiles fs = [] \<Longrightarrow> restart L H root maxSize fs d0 = Inr mgr \<Longrightarrow> history L H root maxSize d0 0 [] mgr"
| h_add: "history L H root maxSize d0 n bs mgr \<Longrightarrow> storable b \<Longrightarrow> addBlock L H b mgr = (mgr', Inr ()) \<Longrightarrow>
    history L H root maxSize d0 (Suc n) (bs @ [b]) mgr'"
| h_fail: "history L H root maxSize d0 n bs mgr \<Longrightarrow> storable b \<Longrightarrow> addBlock L H b mgr = (mgr', Inl e) \<Longrightarrow>
    history L H root maxSize d0 (Suc n) bs mgr'"
| h_crash: "history L H root maxSize d0 n bs mgr \<Longrightarrow> storable b \<Longrightarrow> crash_point L H b mgr fs d \<Longrightarrow>
    restart L H root maxSize (fs\<lparr>fsFaults := faults\<rparr>) d = Inr mgr' \<Longrightarrow> bs' = bs \<or> bs' = bs @ [b] \<Longrightarrow>
    Height (bcInfo mgr') = of_nat (length bs') \<Longrightarrow> history L H root maxSize d0 (Suc n) bs' mgr'"

definition hist_inv ::
  "('db \<Rightarrow> bytes \<rightharpoonup> bytes) \<Rightarrow> (bytes \<Rightarrow> bytes) \<Rightarrow> gostring \<Rightarrow> int \<Rightarrow> nat \<Rightarrow> Block2 list \<Rightarrow> 'db blockfileMgr \<Rightarrow> bool" where
  "hist_inv contents H root maxSize n bs mgr \<longleftrightarrow>
     rootDir mgr = root \<and> maxBlockfileSize mgr = maxSize \<and> length bs \<le> n \<and>
     (\<exists>segs. store_inv contents H segs mgr \<and> concat segs = bs \<and> length segs \<le> Suc n)"

lemma maxBlockfileSize_appendBlock: "maxBlockfileSize (fst (appendBlock L b bs h offs o1 mgr)) = maxBlockfileSize mgr"
  by (simp add: appendBlock_def updateBlockchainInfo_def updateCheckpoint_def Let_def split: prod.splits sum.splits)

lemma maxBlockfileSize_addBlock: "maxBlockfileSize (fst (addBlock L H b mgr)) = maxBlockfileSize mgr"
  by (auto simp: addBlock_def maxBlockfileSize_appendBlock moveToNextFile_def updateCheckpoint_def Let_def
      split: prod.splits sum.splits)

lemma crash_disk_faults: "crash_disk contents H root segs (fs\<lparr>fsFaults := x\<rparr>) d = crash_disk contents H root segs fs d"
  by (simp add: crash_disk_def)

context leveldb_reliable
begin

lemma hist_inv_add:
  assumes "hist_inv contents H root maxSize n bs mgr" and "storable b" and "addBlock L H b mgr = (mgr', r)"
    and "n < 2 ^ 62" and "maxSize \<le> maxint"
  shows "hist_inv contents H root maxSize (Suc n) (if r = Inr () then bs @ [b] else bs) mgr'"
proof -
  obtain segs where segs: "store_inv contents H segs mgr" "concat segs = bs" "length segs \<le> Suc n"
    using assms(1) by (auto simp: hist_inv_def)
  have room: "Suc (length (concat segs)) < 2 ^ 64" "int (length segs) + 1 \<le> maxint" "maxBlockfileSize mgr \<le> maxint"
    using assms(1,4,5) segs by (auto simp: hist_inv_def maxint_def)
  have "rootDir mgr' = root" "maxBlockfileSize mgr' = maxSize" "length bs \<le> n"
    using rootDir_addBlock [of L H b mgr] maxBlockfileSize_addBlock [of L H b mgr] assms(1,3) by (simp_all add: hist_inv_def)
  then show ?thesis
    using addBlock_inv [OF segs(1) _ _ room assms(3)] assms(2) segs(2,3)
    by (fastforce simp: hist_inv_def storable_def)
qed

lemma hist_inv_crash:
  assumes "hist_inv contents H root maxSize n bs mgr" and "storable b" and "crash_point L H b mgr fs d"
    and "n < 2 ^ 62" and "maxSize \<le> maxint"
  obtains mgr' bs' where "restart L H root maxSize (fs\<lparr>fsFaults := faults\<rparr>) d = Inr mgr'" "bs' = bs \<or> bs' = bs @ [b]"
    "hist_inv contents H root maxSize (Suc n) bs' mgr'"
proof -
  obtain segs where segs: "store_inv contents H segs mgr" "concat segs = bs" "length segs \<le> Suc n"
    using assms(1) by (auto simp: hist_inv_def)
  have room: "Suc (length (concat segs)) < 2 ^ 64" "int (length segs) + 1 \<le> maxint" "maxBlockfileSize mgr \<le> maxint"
    using assms(1,4,5) segs by (auto simp: hist_inv_def maxint_def)
  obtain segs' where s': "crash_disk contents H (rootDir mgr) segs' fs d" "length segs' \<le> Suc (length segs)"
    "concat segs' = concat segs \<or> concat segs' = concat segs @ [b]"
    using crash_point_disk [OF segs(1) _ _ room assms(3)] assms(2) by (auto simp: storable_def)
  have "crash_disk contents H root segs' (fs\<lparr>fsFaults := faults\<rparr>) d"
    using s'(1) assms(1) by (simp add: crash_disk_faults hist_inv_def)
  moreover have "set all_attrs = allAttrs" by (simp add: all_attrs_def allAttrs_def)
  ultimately obtain mgr' where "restart L H root maxSize (fs\<lparr>fsFaults := faults\<rparr>) d = Inr mgr'"
    "store_inv contents H segs' mgr'" "rootDir mgr' = root" "maxBlockfileSize mgr' = maxSize"
    using newBlockfileMgr_recovers unfolding restart_def by blast
  moreover have "length (concat segs') \<le> Suc n" using s'(3) segs(2) assms(1) by (auto simp: hist_inv_def)
  ultimately show thesis
    using that [of mgr' "concat segs'"] s'(2,3) segs(2,3) by (fastforce simp: hist_inv_def)
qed

lemma hist_inv_Height:
  "hist_inv contents H root maxSize n bs mgr \<Longrightarrow> Height (bcInfo mgr) = of_nat (length bs)"
  by (auto simp: hist_inv_def store_inv_def)

lemma history_inv:
  assumes "history L H root maxSize d0 n bs mgr" and "n < 2 ^ 62" and "maxSize \<le> maxint"
    and "dbhandle d0 \<noteq> None" and "view d0 = Map.empty"
  shows "hist_inv contents H root maxSize n bs mgr"
  using assms
proof (induction rule: history.induct)
  case (h_start fs mgr)
  have "set all_attrs = allAttrs" by (simp add: all_attrs_def allAttrs_def)
  then obtain mgr' where m: "restart L H root maxSize fs d0 = Inr mgr'" "store_inv contents H [[]] mgr'"
    "rootDir mgr' = root" "maxBlockfileSize mgr' = maxSize"
    using newBlockfileMgr_fresh [OF h_start.prems(3,4) h_start.hyps(1)] unfolding restart_def by blast
  then show ?case using h_start.hyps(2) by (fastforce simp: hist_inv_def intro: exI [of _ "[[]]"])
next
  case (h_add n bs mgr b mgr')
  then show ?case using hist_inv_add [of H root maxSize n bs mgr b mgr' "Inr ()"] by simp
next
  case (h_fail n bs mgr b mgr' e)
  then show ?case using hist_inv_add [of H root maxSize n bs mgr b mgr' "Inl e"] by simp
next
  case (h_crash n bs mgr b fs d faults mgr' bs')
  have "hist_inv contents H root maxSize n bs mgr" using h_crash.IH h_crash.prems by simp
  from hist_inv_crash [OF this h_crash.hyps(2,3) _ h_crash.prems(2), of faults]
  obtain bs2 where bs2: "bs2 = bs \<or> bs2 = bs @ [b]" "hist_inv contents H root maxSize (Suc n) bs2 mgr'"
    using h_crash.hyps(4) h_crash.prems(1) by auto
  have "length bs \<le> n" using h_crash.IH h_crash.prems by (simp add: hist_inv_def)
  moreover have "(of_nat (length bs2) :: u64) = of_nat (length bs')" using hist_inv_Height [OF bs2(2)] h_crash.hyps(6) by simp
  ultimately have "length bs2 = length bs'"
    using of_nat64_inj [of "length bs2" "length bs'"] bs2(1) h_crash.hyps(5) h_crash.prems(1) by auto
  then have "bs2 = bs'" using bs2(1) h_crash.hyps(5) by auto
  with bs2(2) show ?case by simp
qed

lemma hist_inv_retrieve:
  assumes "hist_inv contents H root maxSize n bs mgr" and "i < length bs"
  shows "retrieveBlockByNumber L mgr (of_nat (Suc i)) = Inr (norm_block (bs ! i))"
    "(\<forall>j < length bs. i < j \<longrightarrow> H (ser_block (bs ! j)) \<noteq> H (ser_block (bs ! i))) \<Longrightarrow>
      retrieveBlockByHash L mgr (H (ser_block (bs ! i))) = Inr (norm_block (bs ! i))"
  using assms retrieveBlockByNumber_inv retrieveBlockByHash_inv by (auto simp: hist_inv_def store_inv_def simp del: of_nat_Suc)

end

section \<open>Transactions\<close>

lemma offsets_from_nth: "j < length txs \<Longrightarrow> offsets_from n txs ! j = n + int (length (concat (take j txs)))"
  by (induction txs arbitrary: n j) (auto simp: nth_Cons split: nat.split)

lemma block_offsets_nth:
  "j \<le> length (Transactions b) \<Longrightarrow> block_offsets b ! j = int (length (block_head b) + length (concat (take j (Transactions b))))"
  by (auto simp: block_offsets_def nth_append offsets_from_nth block_body_def le_less)

lemma ser_block_tx:
  assumes "j < length (Transactions b)"
  obtains pre post where "ser_block b = pre @ Transactions b ! j @ post"
    "block_offsets b ! j = int (length pre)" "block_offsets b ! Suc j = int (length pre + length (Transactions b ! j))"
proof -
  have "concat (Transactions b) = concat (take j (Transactions b)) @ Transactions b ! j @ concat (drop (Suc j) (Transactions b))"
    using assms by (metis concat.simps(2) concat_append id_take_nth_drop)
  then have "ser_block b = (block_head b @ concat (take j (Transactions b))) @ Transactions b ! j @
      (concat (drop (Suc j) (Transactions b)) @ block_trailer b @ intToBytes (word_of_int (int (length (block_body b)))))"
    by (simp add: ser_block_def block_body_def)
  from this show thesis
    by (rule that) (simp_all add: block_offsets_nth take_Suc_conv_app_nth assms Suc_leI less_imp_le)
qed

lemma block_offsets_le:
  assumes "off \<in> set (block_offsets b)"
  shows "0 \<le> off" "off \<le> int (length (ser_block b))"
  using assms offsets_from_bounds [of off "int (length (block_head b))" "Transactions b"]
  by (auto simp: block_offsets_def ser_block_def block_body_def)

context leveldb_reliable
begin

lemma retrieveTransactionByID_inv:
  assumes "store_core contents H segs mgr" and "n < length (concat segs)" and "j < length (Transactions b)"
    and "b = concat segs ! n" and "tx_indexed H (view (mgrDB mgr)) segs n b"
  shows "retrieveTransactionByID L f mgr (constructTxID (of_nat (Suc n)) j) = f (Transactions b ! j)"
proof -
  let ?lb = "EncodeVarint (u64_len (ser_block b))"
  let ?offs = "map (\<lambda>off. off + int (length ?lb)) (block_offsets b)"
  let ?flp = "flp_at (loc segs n)"
  let ?k = "fst (loc segs n)"
  have db: "dbhandle (mgrDB mgr) \<noteq> None" and items: "mgrIndex mgr = allAttrs" and segs: "segs_ok segs"
    and files: "files_ok (rootDir mgr) (mgrFS mgr) segs"
    using assms(1) by (simp_all add: store_core_def)
  obtain i where i: "?k < length segs" "i < length (segs ! ?k)" "b = segs ! ?k ! i"
    "snd (loc segs n) = length (seg_bytes (take i (segs ! ?k)))"
    using loc_split [OF assms(2)] assms(4) by metis
  let ?pre = "seg_bytes (take i (segs ! ?k))"
  have cont: "map_of (fsFiles (mgrFS mgr)) (deriveBlockfilePath (rootDir mgr) (int ?k)) = Some (seg_bytes (segs ! ?k))"
    using files i(1) by (simp add: files_ok_def)
  have "segs ! ?k = take i (segs ! ?k) @ b # drop (Suc i) (segs ! ?k)" using i(2,3) by (simp add: id_take_nth_drop)
  then have content: "seg_bytes (segs ! ?k) = ?pre @ (?lb @ ser_block b) @ seg_bytes (drop (Suc i) (segs ! ?k))"
    by (metis seg_bytes_simps(2,3) enc_bytes_def)
  have "fits (seg_bytes (segs ! ?k))" using segs i(1) by (simp add: segs_ok_def list_all_length seg_ok_def)
  then have max: "int (length ?pre) + int (length ?lb) + int (length (ser_block b)) \<le> maxint"
    using content by (simp add: fits_def)
  obtain p1 p2 where tx: "ser_block b = p1 @ Transactions b ! j @ p2" "block_offsets b ! j = int (length p1)"
    "block_offsets b ! Suc j = int (length p1 + length (Transactions b ! j))"
    using ser_block_tx [OF assms(3)] by blast
  have len: "Suc j < length ?offs" using assms(3) by (simp add: block_offsets_def)
  have nth: "?offs ! j = int (length p1 + length ?lb)" "?offs ! Suc j = int (length p1 + length (Transactions b ! j) + length ?lb)"
    using len tx(2,3) by simp_all
  have bnd: "0 \<le> off \<and> lpOffset ?flp + off \<le> maxint" if "off \<in> set ?offs" for off
    using that block_offsets_le [of _ b] max i(4) by (fastforce simp: flp_at_def)
  note w = txFlpOf_wf [OF flp_at_wf [OF segs assms(2)] bnd _ len]
  have le: "?offs ! j \<le> ?offs ! Suc j" unfolding nth by simp
  have "view (mgrDB mgr) (constructTxIDKey (constructTxID (of_nat (Suc n)) j)) = Some (flp_marshal (txFlpOf ?flp ?offs j))"
    using assms(5) len unfolding tx_indexed_def
    by (auto simp: idx_batch_lookup(3) idx_info_def allAttrs_def simp del: of_nat_Suc)
  then have "getTxLoc L (mgrIndex mgr) (mgrDB mgr) (constructTxID (of_nat (Suc n)) j) = Inr (txFlpOf ?flp ?offs j)"
    using flp_roundtrip [OF w(1) [OF _ le]] db
    by (simp add: getTxLoc_def items allAttrs_def lookupFlp_def DB_Get_total del: of_nat_Suc)
  moreover have "txFlpOf ?flp ?offs j = \<lparr>lpOffset = int (length (?pre @ ?lb @ p1)),
      lpBytesLength = int (length (Transactions b ! j)), fileSuffixNum = int ?k\<rparr>"
    using w(2) [OF _ le] i(4) unfolding nth by (simp add: flp_at_def)
  moreover have "fetchRawBytes mgr \<lparr>lpOffset = int (length (?pre @ ?lb @ p1)),
      lpBytesLength = int (length (Transactions b ! j)), fileSuffixNum = int ?k\<rparr> = Inr (Transactions b ! j)"
    using cont content tx(1)
    by (simp add: fetchRawBytes_def newBlockfileReader_def reader_read_def of_nbytes_def Let_def)
  ultimately show ?thesis by (simp add: retrieveTransactionByID_def fetchTransaction_def del: of_nat_Suc)
qed

end

section \<open>What can be read back\<close>

text \<open>
  C6: Whatever was added, failed, or was cut off by a stop of the process, the manager that is running holds
  exactly the acknowledged blocks in their order: its height is their number, each is returned by its
  number, and by its hash as long as no later block has the same hash.
\<close>

theorem acknowledged_blocks_readable:
  assumes "leveldb_reliable L contents" and "history L H root maxSize d0 n bs mgr" and "n < 2 ^ 62"
    and "maxSize \<le> maxint" and "dbhandle d0 \<noteq> None" and "db_view contents d0 = Map.empty" and "i < length bs"
  shows "Height (bcInfo mgr) = of_nat (length bs) \<and>
    retrieveBlockByNumber L mgr (of_nat (Suc i)) = Inr (norm_block (bs ! i)) \<and>
    ((\<forall>j < length bs. i < j \<longrightarrow> H (ser_block (bs ! j)) \<noteq> H (ser_block (bs ! i))) \<longrightarrow>
      retrieveBlockByHash L mgr (H (ser_block (bs ! i))) = Inr (norm_block (bs ! i)))"
  using leveldb_reliable.history_inv [OF assms(1-6)] leveldb_reliable.hist_inv_Height [OF assms(1)]
    leveldb_reliable.hist_inv_retrieve [OF assms(1) _ assms(7)] by blast

text \<open>
  C4: A stop of the process at any point of adding a block is recovered from: the manager starts again, its
  height is that of before or one more, and every block acknowledged before is still returned.
\<close>

theorem crash_recovers:
  assumes "leveldb_reliable L contents" and "history L H root maxSize d0 n bs mgr" and "n < 2 ^ 62"
    and "maxSize \<le> maxint" and "dbhandle d0 \<noteq> None" and "db_view contents d0 = Map.empty"
    and "storable b" and "crash_point L H b mgr fs d"
  shows "\<exists>mgr'. restart L H root maxSize (fs\<lparr>fsFaults := faults\<rparr>) d = Inr mgr' \<and>
    (Height (bcInfo mgr') = of_nat (length bs) \<or>
     Height (bcInfo mgr') = of_nat (Suc (length bs)) \<and>
       retrieveBlockByNumber L mgr' (of_nat (Suc (length bs))) = Inr (norm_block b)) \<and>
    (\<forall>i < length bs. retrieveBlockByNumber L mgr' (of_nat (Suc i)) = Inr (norm_block (bs ! i)))"
proof -
  note inv = leveldb_reliable.history_inv [OF assms(1-6)]
  obtain mgr' bs' where r: "restart L H root maxSize (fs\<lparr>fsFaults := faults\<rparr>) d = Inr mgr'" "bs' = bs \<or> bs' = bs @ [b]"
    "hist_inv contents H root maxSize (Suc n) bs' mgr'"
    using leveldb_reliable.hist_inv_crash [OF assms(1) inv assms(7,8,3,4)] by blast
  have get: "retrieveBlockByNumber L mgr' (of_nat (Suc i)) = Inr (norm_block (bs' ! i))" if "i < length bs'" for i
    using leveldb_reliable.hist_inv_retrieve(1) [OF assms(1) r(3) that] .
  have "\<forall>i < length bs. retrieveBlockByNumber L mgr' (of_nat (Suc i)) = Inr (norm_block (bs ! i))"
    using get r(2) by (metis length_append_singleton less_Suc_eq nth_append)
  moreover have "Height (bcInfo mgr') = of_nat (length bs')" by (rule leveldb_reliable.hist_inv_Height [OF assms(1) r(3)])
  ultimately show ?thesis using r(1,2) get [of "length bs"] by auto
qed

text \<open>
  C13: When \<open>addBlock\<close> has returned, each transaction of the block is returned by its id, the number of the
  block and its position: the bytes handed to \<open>extractTransaction\<close> are those of the transaction.
\<close>

theorem added_transactions_readable:
  assumes "leveldb_reliable L contents" and "history L H root maxSize d0 n bs mgr" and "n < 2 ^ 62"
    and "maxSize \<le> maxint" and "dbhandle d0 \<noteq> None" and "db_view contents d0 = Map.empty"
    and "storable b" and "addBlock L H b mgr = (mgr', Inr ())" and "j < length (Transactions b)"
  shows "retrieveTransactionByID L extractTransaction mgr' (constructTxID (of_nat (Suc (length bs))) j) =
    extractTransaction (Transactions b ! j)"
proof -
  obtain segs where segs: "store_inv contents H segs mgr" "concat segs = bs" "length segs \<le> Suc n"
    and m: "length bs \<le> n" "maxBlockfileSize mgr = maxSize"
    using leveldb_reliable.history_inv [OF assms(1-6)] by (auto simp: hist_inv_def)
  have room: "Suc (length (concat segs)) < 2 ^ 64" "int (length segs) + 1 \<le> maxint" "maxBlockfileSize mgr \<le> maxint"
    using m assms(3,4) segs by (auto simp: maxint_def)
  obtain segs' where s': "store_core contents H segs' mgr'" "concat segs' = bs @ [b]"
      "tx_indexed H (db_view contents (mgrDB mgr')) segs' (length bs) b"
    using leveldb_reliable.addBlock_inv [OF assms(1) segs(1) _ _ room assms(8)] assms(7) segs(2)
    by (auto simp: storable_def store_inv_def)
  show ?thesis
    by (rule leveldb_reliable.retrieveTransactionByID_inv [OF assms(1) s'(1) _ assms(9) _ s'(3)]) (simp_all add: s'(2))
qed

section \<open>An example\<close>

definition example_db :: "memdb DB" where
  "example_db = \<lparr>dbhandle = Some RBT.empty, dbState = opened\<rparr>"

definition example_fs :: FS where
  "example_fs = \<lparr>fsFiles = [], fsFaults = []\<rparr>"

definition example_blk :: Block2 where
  "example_blk = \<lparr>PreviousBlockHash = None, Transactions = [[1, 2, 3], []]\<rparr>"

definition example_start :: "memdb blockfileMgr" where
  "example_start = projr (restart mem_ops rev [47] 100 example_fs example_db)"

definition example_added :: "memdb blockfileMgr \<times> (error + unit)" where
  "example_added = addBlock mem_ops rev example_blk example_start"

lemma example_runs:
  "\<not> isl (restart mem_ops rev [47] 100 example_fs example_db)" "snd example_added = Inr ()"
  by code_simp+

definition example_blk2 :: Block2 where
  "example_blk2 = \<lparr>PreviousBlockHash = Some [7], Transactions = [[9, 9, 9, 9], [8]]\<rparr>"

definition example_two :: "memdb blockfileMgr \<times> (error + unit)" where
  "example_two = addBlock mem_ops rev example_blk2 (fst example_added)"

definition example_again :: "memdb blockfileMgr" where
  "example_again = projr (restart mem_ops rev [47] 100 (mgrFS (fst example_two)) (mgrDB (fst example_two)))"

lemma example_storable: "storable example_blk" "storable example_blk2"
proof -
  have "length (ser_block example_blk) = 11" "length (ser_block example_blk2) = 14" "length (block_body example_blk) = 4"
    "length (block_body example_blk2) = 7" by code_simp+
  then show "storable example_blk" "storable example_blk2"
    by (simp_all add: storable_def block_wf_def blk_ok_def fits_def maxint_def)
qed

lemma example_history: "history mem_ops rev [47] 100 example_db 1 [example_blk] (fst example_added)"
proof -
  have "restart mem_ops rev [47] 100 example_fs example_db = Inr example_start"
    using example_runs(1) by (simp add: example_start_def)
  then have "history mem_ops rev [47] 100 example_db 0 [] example_start"
    by (rule h_start [rotated]) (simp add: example_fs_def)
  moreover have "addBlock mem_ops rev example_blk example_start = (fst example_added, Inr ())"
    using example_runs(2) by (simp add: example_added_def prod_eq_iff)
  ultimately show ?thesis using h_add example_storable(1) by fastforce
qed

lemma example_db_props:
  "dbhandle example_db \<noteq> None" "db_view RBT.lookup example_db = Map.empty" "(1 :: nat) < 2 ^ 62" "100 \<le> maxint"
  by (simp_all add: example_db_def db_view_def maxint_def)

lemmas example_hyps = mem.leveldb_reliable_axioms example_history example_db_props(3,4,1,2)

text \<open>The store after its first block.\<close>

lemma acknowledged_blocks_readable_witness:
  "Height (bcInfo (fst example_added)) = 1 \<and>
   retrieveBlockByNumber mem_ops (fst example_added) 1 = Inr (norm_block example_blk)"
  using acknowledged_blocks_readable [OF example_hyps, of 0] by simp

text \<open>The process stops when three bytes of the second block are in the file.\<close>

lemma crash_recovers_witness:
  "\<exists>mgr'. restart mem_ops rev [47] 100 ((with_record 3 example_blk2 (fst example_added))\<lparr>fsFaults := []\<rparr>)
      (mgrDB (fst example_added)) = Inr mgr' \<and> retrieveBlockByNumber mem_ops mgr' 1 = Inr (norm_block example_blk)"
proof -
  have "maxBlockfileSize (fst example_added) = 100" "latestFileChunksize (cpInfo (fst example_added)) = 12"
    "length (enc_bytes (ser_block example_blk2)) = 15" by code_simp+
  then have "target mem_ops example_blk2 (fst example_added) = Some (fst example_added)" by (simp add: target_def)
  then have "crash_point mem_ops rev example_blk2 (fst example_added) (with_record 3 example_blk2 (fst example_added))
      (mgrDB (fst example_added))" by (rule cr_written)
  from crash_recovers [OF example_hyps example_storable(2) this, of "[]"] show ?thesis by auto
qed

text \<open>The second transaction of the second block.\<close>

lemma added_transactions_readable_witness:
  "retrieveTransactionByID mem_ops Inr (fst example_two) (constructTxID 2 1) = Inr [8]"
proof -
  have "snd example_two = Inr ()" by code_simp
  then have "addBlock mem_ops rev example_blk2 (fst example_added) = (fst example_two, Inr ())"
    by (simp add: example_two_def prod_eq_iff)
  from added_transactions_readable [OF example_hyps example_storable(2) this, of 1 Inr]
  show ?thesis by (simp add: example_blk2_def)
qed

text \<open>
  A restart damages the transaction index. \<open>syncIndex\<close> indexes the last block again, and adds to the
  offsets of its transactions the offset of the block in the file, which is added a second time when the
  location is formed. Here the second of two blocks is read back whole before and after the restart, and
  its second transaction only before.
\<close>

theorem restart_loses_transactions:
  "retrieveTransactionByID mem_ops Inr (fst example_two) (constructTxID 2 1) = Inr [8] \<and>
   retrieveBlockByNumber mem_ops example_again 2 = Inr (norm_block example_blk2) \<and>
   retrieveTransactionByID mem_ops Inr example_again (constructTxID 2 1) = Inl (ErrIO ''EOF'')"
  by code_simp

end
