(* ===== verification/Fs_Store.thy ===== *)
theory Fs_Store
  imports BlockLedger
begin

text \<open>
  The block storage interface (core/ledger/blkstorage/blockstorage.go), its file-system implementation
  (fsblkstorage/fs_blockstore.go, config.go), and the contract its clients rely on: a store is the list of
  the blocks that were added.
\<close>

section \<open>Configuration\<close>

text \<open>\<open>strings.HasSuffix(path, "/")\<close>\<close>

definition withSlash :: "gostring \<Rightarrow> gostring" where
  "withSlash path = (if path \<noteq> [] \<and> last path = 47 then path else path @ [47])"

definition defaultMaxBlockfileSize :: int where
  "defaultMaxBlockfileSize = 64 * 1024 * 1024"

record fsConf =
  blockfilesDir :: gostring
  fsDbPath :: gostring
  fsMaxBlockfileSize :: int

text \<open>\<open>"blocks"\<close> and \<open>"db"\<close>\<close>

definition blocks_str :: gostring where
  "blocks_str = [98, 108, 111, 99, 107, 115]"

definition db_str :: gostring where
  "db_str = [100, 98]"

definition fs_NewConf :: "gostring \<Rightarrow> int \<Rightarrow> fsConf" where
  "fs_NewConf filesystemPath maxSize =
     (let filesystemPath = withSlash filesystemPath;
          maxSize = (if maxSize \<le> 0 then defaultMaxBlockfileSize else maxSize)
      in \<lparr>blockfilesDir = filesystemPath @ blocks_str, fsDbPath = filesystemPath @ db_str,
          fsMaxBlockfileSize = maxSize\<rparr>)"

section \<open>The store\<close>

record 'db FsBlockStore =
  fileMgr :: "'db blockfileMgr"

text \<open>
  The arguments of \<open>NewFsBlockStore\<close> that follow the configuration are what creating the directory and
  opening the database give, and the file system.
\<close>

definition NewFsBlockStore ::
  "'db leveldb_ops \<Rightarrow> (bytes \<Rightarrow> bytes) \<Rightarrow> fsConf \<Rightarrow> IndexableAttr list \<Rightarrow> error + bool \<Rightarrow> error + 'db DB \<Rightarrow> FS \<Rightarrow>
   error + 'db FsBlockStore" where
  "NewFsBlockStore L H conf attrsToIndex createDir initDB fs =
     bindE (newBlockfileMgr L H (blockfilesDir conf) (fsMaxBlockfileSize conf) attrsToIndex createDir initDB fs)
       (\<lambda>mgr. Inr \<lparr>fileMgr = mgr\<rparr>)"

definition fs_AddBlock ::
  "'db leveldb_ops \<Rightarrow> (bytes \<Rightarrow> bytes) \<Rightarrow> Block2 \<Rightarrow> 'db FsBlockStore \<Rightarrow> 'db FsBlockStore \<times> (error + unit)" where
  "fs_AddBlock L H block store =
     (case addBlock L H block (fileMgr store) of (mgr, r) \<Rightarrow> (store\<lparr>fileMgr := mgr\<rparr>, r))"

definition getBlockchainInfo :: "'db blockfileMgr \<Rightarrow> BlockchainInfo" where
  "getBlockchainInfo mgr = bcInfo mgr"

definition fs_GetBlockchainInfo :: "'db FsBlockStore \<Rightarrow> error + BlockchainInfo" where
  "fs_GetBlockchainInfo store = Inr (getBlockchainInfo (fileMgr store))"

definition retrieveBlocks :: "'db blockfileMgr \<Rightarrow> u64 \<Rightarrow> error + BlocksItr" where
  "retrieveBlocks mgr startNum = Inr (newBlockItr mgr startNum)"

definition fs_RetrieveBlocks :: "u64 \<Rightarrow> 'db FsBlockStore \<Rightarrow> error + BlocksItr" where
  "fs_RetrieveBlocks startNum store = retrieveBlocks (fileMgr store) startNum"

definition fs_RetrieveBlockByHash :: "'db leveldb_ops \<Rightarrow> bytes \<Rightarrow> 'db FsBlockStore \<Rightarrow> error + Block2" where
  "fs_RetrieveBlockByHash L h store = retrieveBlockByHash L (fileMgr store) h"

definition fs_RetrieveBlockByNumber :: "'db leveldb_ops \<Rightarrow> u64 \<Rightarrow> 'db FsBlockStore \<Rightarrow> error + Block2" where
  "fs_RetrieveBlockByNumber L blockNum store = retrieveBlockByNumber L (fileMgr store) blockNum"

definition fs_RetrieveTxByID ::
  "'db leveldb_ops \<Rightarrow> (bytes \<Rightarrow> error + 'tx) \<Rightarrow> gostring \<Rightarrow> 'db FsBlockStore \<Rightarrow> error + 'tx" where
  "fs_RetrieveTxByID L extractTransaction txID store =
     retrieveTransactionByID L extractTransaction (fileMgr store) txID"

definition fs_Shutdown :: "'db leveldb_ops \<Rightarrow> 'db FsBlockStore \<Rightarrow> 'db FsBlockStore" where
  "fs_Shutdown L store = store\<lparr>fileMgr := mgr_close L (fileMgr store)\<rparr>"

section \<open>The interface\<close>

text \<open>The methods of an implementation with state \<open>'b\<close>, iterators \<open>'i\<close> and transactions \<open>'tx\<close>.\<close>

record ('b, 'i, 'tx) BlockStoreOps =
  AddBlock :: "Block2 \<Rightarrow> 'b \<Rightarrow> 'b \<times> (error + unit)"
  GetBlockchainInfo :: "'b \<Rightarrow> error + BlockchainInfo"
  RetrieveBlocks :: "u64 \<Rightarrow> 'b \<Rightarrow> error + 'i"
  RetrieveBlockByHash :: "bytes \<Rightarrow> 'b \<Rightarrow> error + Block2"
  RetrieveBlockByNumber :: "u64 \<Rightarrow> 'b \<Rightarrow> error + Block2"
  RetrieveTxByID :: "gostring \<Rightarrow> 'b \<Rightarrow> error + 'tx"
  bsShutdown :: "'b \<Rightarrow> 'b"

definition fsBlockStore ::
  "'db leveldb_ops \<Rightarrow> (bytes \<Rightarrow> bytes) \<Rightarrow> (bytes \<Rightarrow> error + 'tx) \<Rightarrow> ('db FsBlockStore, BlocksItr, 'tx) BlockStoreOps" where
  "fsBlockStore L H extractTransaction =
     \<lparr>AddBlock = fs_AddBlock L H, GetBlockchainInfo = fs_GetBlockchainInfo, RetrieveBlocks = fs_RetrieveBlocks,
      RetrieveBlockByHash = fs_RetrieveBlockByHash L, RetrieveBlockByNumber = fs_RetrieveBlockByNumber L,
      RetrieveTxByID = fs_RetrieveTxByID L extractTransaction, bsShutdown = fs_Shutdown L\<rparr>"

text \<open>
  What clients rely on. \<open>holds n s bs\<close> says that the store \<open>s\<close> holds the blocks \<open>bs\<close> after at most \<open>n\<close> additions;
  numbers stay in range while \<open>n\<close> is below \<open>2 ^ 62\<close>.
\<close>

locale block_store =
  fixes B :: "('b, 'i, 'tx) BlockStoreOps"
    and holds :: "nat \<Rightarrow> 'b \<Rightarrow> Block2 list \<Rightarrow> bool"
  assumes holds_add: "holds n s bs \<Longrightarrow> storable b \<Longrightarrow> n < 2 ^ 62 \<Longrightarrow> AddBlock B b s = (s', r) \<Longrightarrow>
      holds (Suc n) s' (if r = Inr () then bs @ [b] else bs)"
    and holds_height: "holds n s bs \<Longrightarrow> \<exists>info. GetBlockchainInfo B s = Inr info \<and> Height info = of_nat (length bs)"
    and holds_get: "holds n s bs \<Longrightarrow> i < length bs \<Longrightarrow>
      RetrieveBlockByNumber B (of_nat (Suc i)) s = Inr (norm_block (bs ! i))"

definition fs_holds ::
  "('db \<Rightarrow> bytes \<rightharpoonup> bytes) \<Rightarrow> (bytes \<Rightarrow> bytes) \<Rightarrow> nat \<Rightarrow> 'db FsBlockStore \<Rightarrow> Block2 list \<Rightarrow> bool" where
  "fs_holds contents H n s bs \<longleftrightarrow> (\<exists>root maxSize. maxSize \<le> maxint \<and> hist_inv contents H root maxSize n bs (fileMgr s))"

lemma block_store_fs:
  assumes "leveldb_reliable L contents"
  shows "block_store (fsBlockStore L H extractTransaction) (fs_holds contents H)"
proof
  fix n bs b r and s s' :: "'a FsBlockStore"
  assume holds: "fs_holds contents H n s bs" and b: "storable b" and n: "n < 2 ^ 62"
    and add: "AddBlock (fsBlockStore L H extractTransaction) b s = (s', r)"
  obtain root maxSize where h: "maxSize \<le> maxint" "hist_inv contents H root maxSize n bs (fileMgr s)"
    using holds by (auto simp: fs_holds_def)
  have "addBlock L H b (fileMgr s) = (fileMgr s', r)"
    using add by (auto simp: fsBlockStore_def fs_AddBlock_def split: prod.splits)
  from leveldb_reliable.hist_inv_add [OF assms h(2) b this n h(1)] h(1)
  show "fs_holds contents H (Suc n) s' (if r = Inr () then bs @ [b] else bs)" unfolding fs_holds_def by blast
next
  fix n bs and s :: "'a FsBlockStore"
  assume "fs_holds contents H n s bs"
  then show "\<exists>info. GetBlockchainInfo (fsBlockStore L H extractTransaction) s = Inr info \<and> Height info = of_nat (length bs)"
    using leveldb_reliable.hist_inv_Height [OF assms]
    by (auto simp: fs_holds_def fsBlockStore_def fs_GetBlockchainInfo_def getBlockchainInfo_def)
next
  fix n bs i and s :: "'a FsBlockStore"
  assume "fs_holds contents H n s bs" and "i < length bs"
  then show "RetrieveBlockByNumber (fsBlockStore L H extractTransaction) (of_nat (Suc i)) s = Inr (norm_block (bs ! i))"
    using leveldb_reliable.hist_inv_retrieve(1) [OF assms]
    by (auto simp: fs_holds_def fsBlockStore_def fs_RetrieveBlockByNumber_def simp del: of_nat_Suc)
qed

interpretation fsmem: block_store "fsBlockStore mem_ops rev Inr" "fs_holds RBT.lookup rev"
  by (rule block_store_fs [OF mem.leveldb_reliable_axioms])

text \<open>A store that is opened on an empty directory and an empty database holds no block.\<close>

lemma fs_holds_new:
  assumes "leveldb_reliable L contents" and "fsFiles fs = []" and "dbhandle d \<noteq> None" and "db_view contents d = Map.empty"
    and "NewFsBlockStore L H conf all_attrs (Inr True) (Inr d) fs = Inr s" and "fsMaxBlockfileSize conf \<le> maxint"
  shows "fs_holds contents H 0 s []"
proof -
  have "restart L H (blockfilesDir conf) (fsMaxBlockfileSize conf) fs d = Inr (fileMgr s)"
    using assms(5) by (auto simp: NewFsBlockStore_def restart_def bindE_eq_Inr_conv)
  then have "history L H (blockfilesDir conf) (fsMaxBlockfileSize conf) d 0 [] (fileMgr s)"
    by (rule h_start [OF assms(2)])
  from leveldb_reliable.history_inv [OF assms(1) this _ assms(6,3,4)] assms(6) show ?thesis
    by (auto simp: fs_holds_def)
qed

end
