(* ===== verification/KV_Ledger.thy ===== *)
theory KV_Ledger
  imports Fs_Store TxSimulator
begin

text \<open>
  The key-value ledger (core/ledger/kvledger/kv_ledger.go, kv_ledgers.go): it validates a block, adds it to
  the block store and commits its writes to the state. The two components are behind interfaces; the
  ledger's own lemmas are proved once over the contracts of both, and reach the code through the
  instances for the file-system store and the lock-based transaction manager.
\<close>

section \<open>The transaction manager interface\<close>

text \<open>The interface of kvledger/txmgmt/txmgmt.go, for an implementation with state \<open>'t\<close>.\<close>

record ('t, 's, 'q) TxMgrOps =
  tmNewQueryExecutor :: "'t \<Rightarrow> error + 'q \<times> 't"
  tmNewTxSimulator :: "'t \<Rightarrow> error + 's \<times> 't"
  tmValidateAndPrepare :: "Block2 \<Rightarrow> 't \<Rightarrow> 't \<times> (error + Block2 \<times> InvalidTransaction list)"
  tmCommit :: "'t \<Rightarrow> 't \<times> (error + unit)"
  tmRollback :: "'t \<Rightarrow> 't"
  tmShutdown :: "'t \<Rightarrow> 't"

definition lockBasedTxMgr ::
  "'db leveldb_ops \<Rightarrow> (bytes, versionedValue) map_order \<Rightarrow> (bytes \<Rightarrow> error + bytes) \<Rightarrow>
   ('db LockBasedTxMgr, LockBasedTxSimulator, RWLockQueryExecutor) TxMgrOps" where
  "lockBasedTxMgr L ord getAction =
     \<lparr>tmNewQueryExecutor = (\<lambda>t. Inr (NewQueryExecutor t)), tmNewTxSimulator = (\<lambda>t. Inr (NewTxSimulator t)),
      tmValidateAndPrepare = ValidateAndPrepare L getAction, tmCommit = Commit L ord, tmRollback = Rollback,
      tmShutdown = Shutdown L\<rparr>"

text \<open>
  The contract. A manager has a world state; \<open>run b w\<close> is the state, the valid part and the number of invalid
  transactions of a block run on state \<open>w\<close>. Validation leaves the state alone, and when it succeeds it has prepared the
  state that the commit puts in place. The valid part consists of transactions of the block, and all of it is valid when it is run alone.
\<close>

locale tx_manager =
  fixes T :: "('t, 's, 'q) TxMgrOps"
    and ok :: "'t \<Rightarrow> bool" and state :: "'t \<Rightarrow> 'w" and prepared :: "'t \<Rightarrow> 'w option"
    and run :: "Block2 \<Rightarrow> 'w \<Rightarrow> 'w \<times> Block2 \<times> nat"
  assumes prepare: "ok t \<Longrightarrow> tmValidateAndPrepare T b t = (t', r) \<Longrightarrow> ok t' \<and> state t' = state t \<and>
      (\<forall>vb bad. r = Inr (vb, bad) \<longrightarrow>
        (\<exists>w' k. run b (state t) = (w', vb, k) \<and> bad = replicate k RWConflictDuringCommit \<and> prepared t' = Some w'))"
    and commit: "ok t \<Longrightarrow> prepared t = Some w' \<Longrightarrow>
      \<exists>t'. tmCommit T t = (t', Inr ()) \<and> ok t' \<and> state t' = w'"
    and rollback: "ok t \<Longrightarrow> ok (tmRollback T t) \<and> state (tmRollback T t) = state t"
    and simulate: "ok t \<Longrightarrow> tmNewTxSimulator T t = Inr (sm, t') \<Longrightarrow> ok t' \<and> state t' = state t \<and> prepared t' = prepared t"
    and query: "ok t \<Longrightarrow> tmNewQueryExecutor T t = Inr (q, t') \<Longrightarrow> ok t' \<and> state t' = state t \<and> prepared t' = prepared t"
    and run_part: "run b w = (w', vb, bad) \<Longrightarrow> \<exists>flags. vb = b\<lparr>Transactions := select flags (Transactions b)\<rparr>"
    and run_again: "run b w = (w', vb, bad) \<Longrightarrow> run vb w = (w', vb, 0)"

section \<open>The ledger\<close>

record Conf =
  blockStorageDir :: gostring
  confMaxBlockfileSize :: int
  txMgrDBPath :: gostring

text \<open>\<open>"txMgmgt/db"\<close>\<close>

definition txMgmt_str :: gostring where
  "txMgmt_str = [116, 120, 77, 103, 109, 103, 116, 47, 100, 98]"

definition NewConf :: "gostring \<Rightarrow> int \<Rightarrow> Conf" where
  "NewConf filesystemPath maxSize =
     (let filesystemPath = withSlash filesystemPath
      in \<lparr>blockStorageDir = filesystemPath @ blocks_str, confMaxBlockfileSize = maxSize,
          txMgrDBPath = filesystemPath @ txMgmt_str\<rparr>)"

record ('b, 't) KVLedger =
  blockStore :: 'b
  txtmgmt :: 't
  pendingBlockToCommit :: "Block2 option"

text \<open>
  The arguments of \<open>NewKVLedger\<close> are the constructors it calls and the setting that selects CouchDB.
\<close>

definition NewKVLedger ::
  "(fsConf \<Rightarrow> IndexableAttr list \<Rightarrow> error + 'b) \<Rightarrow> bool \<Rightarrow> (gostring \<Rightarrow> error + 't) \<Rightarrow> (gostring \<Rightarrow> error + 't) \<Rightarrow> Conf \<Rightarrow>
   error + ('b, 't) KVLedger" where
  "NewKVLedger newFsBlockStore isCouchDBEnabled newCouchDBTxMgr newLockBasedTxMgr conf =
     (let attrsToIndex = [IndexableAttrBlockHash, IndexableAttrBlockNum, IndexableAttrTxID];
          blockStorageConf = fs_NewConf (blockStorageDir conf) (confMaxBlockfileSize conf)
      in bindE (newFsBlockStore blockStorageConf attrsToIndex) (\<lambda>bs.
           if isCouchDBEnabled then
             bindE (newCouchDBTxMgr (txMgrDBPath conf)) (\<lambda>t.
               Inr \<lparr>blockStore = bs, txtmgmt = t, pendingBlockToCommit = None\<rparr>)
           else
             bindE (newLockBasedTxMgr (txMgrDBPath conf)) (\<lambda>t.
               Inr \<lparr>blockStore = bs, txtmgmt = t, pendingBlockToCommit = None\<rparr>)))"

definition GetTransactionByID :: "('b, 'i, 'tx) BlockStoreOps \<Rightarrow> ('b, 't) KVLedger \<Rightarrow> gostring \<Rightarrow> error + 'tx" where
  "GetTransactionByID B l txID = RetrieveTxByID B txID (blockStore l)"

definition kv_GetBlockchainInfo :: "('b, 'i, 'tx) BlockStoreOps \<Rightarrow> ('b, 't) KVLedger \<Rightarrow> error + BlockchainInfo" where
  "kv_GetBlockchainInfo B l = GetBlockchainInfo B (blockStore l)"

definition GetBlockByNumber :: "('b, 'i, 'tx) BlockStoreOps \<Rightarrow> ('b, 't) KVLedger \<Rightarrow> u64 \<Rightarrow> error + Block2" where
  "GetBlockByNumber B l blockNumber = RetrieveBlockByNumber B blockNumber (blockStore l)"

definition GetBlocksIterator :: "('b, 'i, 'tx) BlockStoreOps \<Rightarrow> ('b, 't) KVLedger \<Rightarrow> u64 \<Rightarrow> error + 'i" where
  "GetBlocksIterator B l startBlockNumber = RetrieveBlocks B startBlockNumber (blockStore l)"

definition GetBlockByHash :: "('b, 'i, 'tx) BlockStoreOps \<Rightarrow> ('b, 't) KVLedger \<Rightarrow> bytes \<Rightarrow> error + Block2" where
  "GetBlockByHash B l h = RetrieveBlockByHash B h (blockStore l)"

definition Prune :: "('b, 't) KVLedger \<Rightarrow> 'p \<Rightarrow> error + unit" where
  "Prune l policy = Inl ErrNotYetImplemented"

definition kv_NewTxSimulator ::
  "('t, 's, 'q) TxMgrOps \<Rightarrow> ('b, 't) KVLedger \<Rightarrow> error + 's \<times> ('b, 't) KVLedger" where
  "kv_NewTxSimulator T l = bindE (tmNewTxSimulator T (txtmgmt l)) (\<lambda>(sm, t). Inr (sm, l\<lparr>txtmgmt := t\<rparr>))"

definition kv_NewQueryExecutor ::
  "('t, 's, 'q) TxMgrOps \<Rightarrow> ('b, 't) KVLedger \<Rightarrow> error + 'q \<times> ('b, 't) KVLedger" where
  "kv_NewQueryExecutor T l = bindE (tmNewQueryExecutor T (txtmgmt l)) (\<lambda>(q, t). Inr (q, l\<lparr>txtmgmt := t\<rparr>))"

definition RemoveInvalidTransactionsAndPrepare ::
  "('t, 's, 'q) TxMgrOps \<Rightarrow> Block2 \<Rightarrow> ('b, 't) KVLedger \<Rightarrow>
   ('b, 't) KVLedger \<times> (error + Block2 \<times> InvalidTransaction list)" where
  "RemoveInvalidTransactionsAndPrepare T block l =
     (case tmValidateAndPrepare T block (txtmgmt l) of
        (t, Inl err) \<Rightarrow> (l\<lparr>txtmgmt := t\<rparr>, Inl err)
      | (t, Inr (validBlock, invalidTxs)) \<Rightarrow>
          (l\<lparr>txtmgmt := t, pendingBlockToCommit := Some validBlock\<rparr>, Inr (validBlock, invalidTxs)))"

definition kv_Commit ::
  "('b, 'i, 'tx) BlockStoreOps \<Rightarrow> ('t, 's, 'q) TxMgrOps \<Rightarrow> ('b, 't) KVLedger \<Rightarrow> ('b, 't) KVLedger \<times> (error + unit)" where
  "kv_Commit B T l =
     (case pendingBlockToCommit l of
        None \<Rightarrow> (l, Inl (Panic ''Nothing to commit''))
      | Some block \<Rightarrow>
         (case AddBlock B block (blockStore l) of
            (s, Inl err) \<Rightarrow> (l\<lparr>blockStore := s\<rparr>, Inl err)
          | (s, Inr _) \<Rightarrow>
             (case tmCommit T (txtmgmt l) of
                (t, Inl err) \<Rightarrow> (l\<lparr>blockStore := s, txtmgmt := t\<rparr>, Inl (Panic ''Error during commit to txmgr''))
              | (t, Inr _) \<Rightarrow> (l\<lparr>blockStore := s, txtmgmt := t, pendingBlockToCommit := None\<rparr>, Inr ()))))"

definition kv_Rollback :: "('t, 's, 'q) TxMgrOps \<Rightarrow> ('b, 't) KVLedger \<Rightarrow> ('b, 't) KVLedger" where
  "kv_Rollback T l = l\<lparr>txtmgmt := tmRollback T (txtmgmt l), pendingBlockToCommit := None\<rparr>"

definition kv_Close :: "('b, 'i, 'tx) BlockStoreOps \<Rightarrow> ('t, 's, 'q) TxMgrOps \<Rightarrow> ('b, 't) KVLedger \<Rightarrow> ('b, 't) KVLedger" where
  "kv_Close B T l = l\<lparr>blockStore := bsShutdown B (blockStore l), txtmgmt := tmShutdown T (txtmgmt l)\<rparr>"


section \<open>The ledger manager\<close>

text \<open>
  A ledger is held as a pointer, of type \<open>'l\<close>; \<open>new\<close> is \<open>NewKVLedger\<close> returning one. \<open>create\<close> may return a
  ledger and an error both.
\<close>

record 'l ledgerManager =
  ledgerPath :: gostring
  ledgers :: "(gostring, 'l) gomap"

text \<open>\<open>"ledger/"\<close>\<close>

definition ledger_str :: gostring where
  "ledger_str = [108, 101, 100, 103, 101, 114, 47]"

definition Initialize :: "gostring \<Rightarrow> error + 'l ledgerManager" where
  "Initialize lpath =
     (if lpath = [] then Inl (Panic ''DB path not specified'')
      else Inr \<lparr>ledgerPath = withSlash lpath @ ledger_str, ledgers = []\<rparr>)"

definition lm_create ::
  "(Conf \<Rightarrow> error + 'l) \<Rightarrow> gostring \<Rightarrow> 'l ledgerManager \<Rightarrow> error + 'l ledgerManager \<times> 'l option \<times> error option" where
  "lm_create new name lMgr =
     (let lPath = ledgerPath lMgr @ name in
      case map_of (ledgers lMgr) lPath of
        Some lgr \<Rightarrow> Inr (lMgr, Some lgr, Some (ErrMsg ''ledger exists''))
      | None \<Rightarrow>
          catchE (new (NewConf lPath 0))
            (\<lambda>err. Inr (lMgr, None, Some (ErrMsg ''ledger creation failed'')))
            (\<lambda>lgr. Inr (lMgr\<lparr>ledgers := mput lPath lgr (ledgers lMgr)\<rparr>, Some lgr, None)))"

definition GetLedger ::
  "(Conf \<Rightarrow> error + 'l) \<Rightarrow> gostring \<Rightarrow> 'l ledgerManager option \<Rightarrow> error + 'l \<times> 'l ledgerManager option" where
  "GetLedger new name lManager =
     bindE (deref lManager) (\<lambda>lMgr.
     bindE (lm_create new name lMgr) (\<lambda>(lMgr, lgr, err).
       case lgr of None \<Rightarrow> Inl (Panic ''Cannot get ledger'') | Some lgr \<Rightarrow> Inr (lgr, Some lMgr)))"

section \<open>Runs of a ledger\<close>

text \<open>The blocks that the block files can hold: less than 4 GiB, in less than \<open>2 ^ 32\<close> transactions.\<close>

definition bounded_block :: "Block2 \<Rightarrow> bool" where
  "bounded_block b \<longleftrightarrow> length (block_body b) < 2 ^ 32 \<and> length (Transactions b) < 2 ^ 32"

lemma bounded_block_storable: "bounded_block b \<Longrightarrow> storable b"
proof -
  assume b: "bounded_block b"
  have offs: "length (concat (map (\<lambda>off. EncodeVarint (u64_of_int off)) xs)) \<le> 10 * length xs" for xs
    by (induction xs) (use length_EncodeVarint_max in \<open>auto intro: add_mono\<close>)
  have "length (block_trailer b) \<le> 10 + 10 * length (Transactions b)"
    using add_mono [OF length_EncodeVarint_max [of "u64_len (Transactions b)"]
        offs [of "offsets_from (int (length (block_head b))) (Transactions b)"]] by (simp add: block_trailer_def)
  then have "length (ser_block b) < 2 ^ 56" using b by (simp add: ser_block_def bounded_block_def intToBytes_def)
  then show "storable b" using b by (simp add: storable_def block_wf_def blk_ok_def fits_def maxint_def bounded_block_def)
qed

lemma bounded_block_select: "bounded_block b \<Longrightarrow> bounded_block (b\<lparr>Transactions := select flags (Transactions b)\<rparr>)"
proof -
  have "length (select flags xs) \<le> length xs \<and> length (concat (select flags xs)) \<le> length (concat xs)" for xs :: "bytes list"
    by (induction flags xs rule: list_induct2') (simp_all add: select_def)
  from this [of "Transactions b"] show "bounded_block b \<Longrightarrow> bounded_block (b\<lparr>Transactions := select flags (Transactions b)\<rparr>)"
    by (simp add: bounded_block_def block_body_def block_head_def)
qed

text \<open>
  \<open>kv_run B T l0 n bs c l\<close>: from ledger \<open>l0\<close> a sequence of calls with \<open>n\<close> commits among them leads to \<open>l\<close>, and
  \<open>bs\<close> are the blocks whose commit returned without error. Any call may fail and be repeated. After a preparation that has
  failed, \<open>c\<close> is False until a preparation succeeds or is rolled back, and \<open>Commit\<close> is not called in between, as in
  \<open>CommitBlock\<close>.
\<close>

inductive kv_run ::
  "('b, 'i, 'tx) BlockStoreOps \<Rightarrow> ('t, 's, 'q) TxMgrOps \<Rightarrow> ('b, 't) KVLedger \<Rightarrow> nat \<Rightarrow> Block2 list \<Rightarrow> bool \<Rightarrow> ('b, 't) KVLedger \<Rightarrow> bool"
  for B :: "('b, 'i, 'tx) BlockStoreOps" and T :: "('t, 's, 'q) TxMgrOps" and l0 :: "('b, 't) KVLedger" where
  kv_start: "kv_run B T l0 0 [] True l0"
| kv_simulate: "kv_run B T l0 n bs c l \<Longrightarrow> kv_NewTxSimulator T l = Inr (sm, l') \<Longrightarrow> kv_run B T l0 n bs c l'"
| kv_query: "kv_run B T l0 n bs c l \<Longrightarrow> kv_NewQueryExecutor T l = Inr (q, l') \<Longrightarrow> kv_run B T l0 n bs c l'"
| kv_prepare: "kv_run B T l0 n bs c l \<Longrightarrow> bounded_block b \<Longrightarrow>
    RemoveInvalidTransactionsAndPrepare T b l = (l', Inr (vb, bad)) \<Longrightarrow> kv_run B T l0 n bs True l'"
| kv_prepare_fail: "kv_run B T l0 n bs c l \<Longrightarrow> RemoveInvalidTransactionsAndPrepare T b l = (l', Inl e) \<Longrightarrow>
    kv_run B T l0 n bs False l'"
| kv_rollback: "kv_run B T l0 n bs c l \<Longrightarrow> kv_run B T l0 n bs True (kv_Rollback T l)"
| kv_commit: "kv_run B T l0 n bs True l \<Longrightarrow> pendingBlockToCommit l = Some vb \<Longrightarrow> kv_Commit B T l = (l', Inr ()) \<Longrightarrow>
    kv_run B T l0 (Suc n) (bs @ [vb]) True l'"
| kv_commit_fail: "kv_run B T l0 n bs True l \<Longrightarrow> kv_Commit B T l = (l', Inl e) \<Longrightarrow> \<not> is_panic e \<Longrightarrow>
    kv_run B T l0 (Suc n) bs True l'"

lemma kv_run_length: "kv_run B T l0 n bs c l \<Longrightarrow> length bs \<le> n"
  by (induction rule: kv_run.induct) simp_all

locale kv_ledger = block_store B holds + tx_manager T ok state prepared run
  for B :: "('b, 'i, 'tx) BlockStoreOps" and holds :: "nat \<Rightarrow> 'b \<Rightarrow> Block2 list \<Rightarrow> bool"
    and T :: "('t, 's, 'q) TxMgrOps" and ok :: "'t \<Rightarrow> bool" and state :: "'t \<Rightarrow> 'w" and prepared :: "'t \<Rightarrow> 'w option"
    and run :: "Block2 \<Rightarrow> 'w \<Rightarrow> 'w \<times> Block2 \<times> nat"
begin

definition replay :: "Block2 list \<Rightarrow> 'w \<Rightarrow> 'w" where
  "replay bs w = fold (\<lambda>b w. fst (run b w)) bs w"

text \<open>A block all of which is valid on a state, and a chain of such blocks.\<close>

definition valid_on :: "'w \<Rightarrow> Block2 \<Rightarrow> bool" where
  "valid_on w b \<longleftrightarrow> bounded_block b \<and> snd (run b w) = (b, 0)"

definition chain_ok :: "'w \<Rightarrow> Block2 list \<Rightarrow> bool" where
  "chain_ok w0 bs \<longleftrightarrow> (\<forall>i < length bs. valid_on (replay (take i bs) w0) (bs ! i))"

definition ledger_inv :: "'w \<Rightarrow> nat \<Rightarrow> Block2 list \<Rightarrow> bool \<Rightarrow> ('b, 't) KVLedger \<Rightarrow> bool" where
  "ledger_inv w0 n bs c l \<longleftrightarrow> holds n (blockStore l) bs \<and> ok (txtmgmt l) \<and> state (txtmgmt l) = replay bs w0 \<and> chain_ok w0 bs \<and>
     (\<forall>vb. c \<longrightarrow> pendingBlockToCommit l = Some vb \<longrightarrow>
        valid_on (replay bs w0) vb \<and> prepared (txtmgmt l) = Some (fst (run vb (replay bs w0))))"

lemma chain_ok_snoc: "chain_ok w0 (bs @ [b]) \<longleftrightarrow> chain_ok w0 bs \<and> valid_on (replay bs w0) b"
  by (auto simp: chain_ok_def nth_append less_Suc_eq)

lemma valid_part_valid:
  assumes "run b w = (w', vb, bad)" and "bounded_block b"
  shows "valid_on w vb \<and> fst (run vb w) = w'"
  using run_again [OF assms(1)] run_part [OF assms(1)] bounded_block_select [OF assms(2)] by (auto simp: valid_on_def)

lemma ledger_inv_prepare:
  assumes "ledger_inv w0 n bs c l" and "RemoveInvalidTransactionsAndPrepare T b l = (l', r)"
  shows "ledger_inv w0 n bs False l'"
    "r = Inr (vb, bad) \<Longrightarrow> pendingBlockToCommit l' = Some vb \<and> (\<exists>w' k. run b (state (txtmgmt l)) = (w', vb, k))"
    "r = Inr (vb, bad) \<Longrightarrow> bounded_block b \<Longrightarrow> ledger_inv w0 n bs True l'"
proof -
  obtain t' r' where t': "tmValidateAndPrepare T b (txtmgmt l) = (t', r')" by fastforce
  have p: "ok t'" "state t' = state (txtmgmt l)"
    "\<And>vb bad. r' = Inr (vb, bad) \<Longrightarrow> \<exists>w' k. run b (state (txtmgmt l)) = (w', vb, k) \<and> prepared t' = Some w'"
    using prepare [OF _ t'] assms(1) unfolding ledger_inv_def by blast+
  have l': "l' = (case r' of Inl _ \<Rightarrow> l\<lparr>txtmgmt := t'\<rparr> | Inr (vb, _) \<Rightarrow> l\<lparr>txtmgmt := t', pendingBlockToCommit := Some vb\<rparr>)" "r = r'"
    using assms(2) t' by (auto simp: RemoveInvalidTransactionsAndPrepare_def split: sum.splits)
  show "ledger_inv w0 n bs False l'" using assms(1) p(1,2) l'(1) by (auto simp: ledger_inv_def split: sum.split)
  show "pendingBlockToCommit l' = Some vb \<and> (\<exists>w' k. run b (state (txtmgmt l)) = (w', vb, k))" if "r = Inr (vb, bad)"
    using that p(3) l' by auto
  show "ledger_inv w0 n bs True l'" if r: "r = Inr (vb, bad)" "bounded_block b"
  proof -
    obtain w' k where "run b (state (txtmgmt l)) = (w', vb, k)" "prepared t' = Some w'" using p(3) r(1) l'(2) by blast
    moreover have "state (txtmgmt l) = replay bs w0" using assms(1) by (simp add: ledger_inv_def)
    ultimately show ?thesis using valid_part_valid [of b "replay bs w0" w' vb k] r l' p(1,2) assms(1) by (simp add: ledger_inv_def)
  qed
qed

lemma ledger_inv_commit:
  assumes "ledger_inv w0 n bs True l" and "n < 2 ^ 62" and "pendingBlockToCommit l = Some vb" and "kv_Commit B T l = (l', r)"
  shows "ledger_inv w0 (Suc n) (if r = Inr () then bs @ [vb] else bs) True l'"
proof -
  obtain s r1 where add: "AddBlock B vb (blockStore l) = (s, r1)" by fastforce
  have st: "valid_on (replay bs w0) vb" "prepared (txtmgmt l) = Some (fst (run vb (replay bs w0)))" and "ok (txtmgmt l)"
    using assms(1,3) by (simp_all add: ledger_inv_def)
  then obtain t where t: "tmCommit T (txtmgmt l) = (t, Inr ())" "ok t" "state t = fst (run vb (replay bs w0))"
    using commit by blast
  have "storable vb" using st(1) bounded_block_storable by (simp add: valid_on_def)
  then have h: "holds (Suc n) s (if r1 = Inr () then bs @ [vb] else bs)"
    using holds_add [OF _ _ assms(2) add] assms(1) by (simp add: ledger_inv_def)
  show ?thesis
  proof (cases r1)
    case (Inl e)
    then show ?thesis using assms(1,3,4) add h by (auto simp: kv_Commit_def ledger_inv_def)
  next
    case (Inr u)
    then have "l' = l\<lparr>blockStore := s, txtmgmt := t, pendingBlockToCommit := None\<rparr>" "r = Inr ()"
      using assms(3,4) add t(1) by (auto simp: kv_Commit_def)
    moreover have "chain_ok w0 bs" using assms(1) by (simp add: ledger_inv_def)
    moreover have "replay (bs @ [vb]) w0 = fst (run vb (replay bs w0))" by (simp add: replay_def)
    ultimately show ?thesis using h Inr t(2,3) st(1) by (simp add: ledger_inv_def chain_ok_snoc)
  qed
qed

lemma kv_run_inv:
  assumes "kv_run B T l0 n bs c l" and "n < 2 ^ 62" and "ledger_inv w0 0 [] True l0"
  shows "ledger_inv w0 n bs c l"
  using assms
proof (induction rule: kv_run.induct)
  case (kv_simulate n bs c l sm l')
  then obtain t' where "tmNewTxSimulator T (txtmgmt l) = Inr (sm, t')" "l' = l\<lparr>txtmgmt := t'\<rparr>"
    by (auto simp: kv_NewTxSimulator_def bindE_eq_Inr_conv)
  moreover have "ledger_inv w0 n bs c l" using kv_simulate by blast
  ultimately show ?case using simulate [of "txtmgmt l" sm t'] by (simp add: ledger_inv_def)
next
  case (kv_query n bs c l q l')
  then obtain t' where "tmNewQueryExecutor T (txtmgmt l) = Inr (q, t')" "l' = l\<lparr>txtmgmt := t'\<rparr>"
    by (auto simp: kv_NewQueryExecutor_def bindE_eq_Inr_conv)
  moreover have "ledger_inv w0 n bs c l" using kv_query by blast
  ultimately show ?case using query [of "txtmgmt l" q t'] by (simp add: ledger_inv_def)
next
  case (kv_prepare n bs c l b l' vb bad)
  then show ?case using ledger_inv_prepare(3) by blast
next
  case (kv_prepare_fail n bs c l b l' e)
  then show ?case using ledger_inv_prepare(1) by blast
next
  case (kv_rollback n bs c l)
  then have "ledger_inv w0 n bs c l" by blast
  then show ?case using rollback [of "txtmgmt l"] by (simp add: ledger_inv_def kv_Rollback_def)
next
  case (kv_commit n bs l vb l')
  then show ?case using ledger_inv_commit [of w0 n bs l vb l' "Inr ()"] by simp
next
  case (kv_commit_fail n bs l l' e)
  obtain vb where "pendingBlockToCommit l = Some vb"
    using kv_commit_fail.hyps(2,3) by (cases "pendingBlockToCommit l") (auto simp: kv_Commit_def)
  then show ?case using ledger_inv_commit [of w0 n bs l vb l' "Inl e"] kv_commit_fail by simp
qed

lemma ledger_inv_reads:
  assumes "ledger_inv w0 n bs c l"
  shows "state (txtmgmt l) = replay bs w0" "chain_ok w0 bs"
    "\<exists>info. kv_GetBlockchainInfo B l = Inr info \<and> Height info = of_nat (length bs)"
    "i < length bs \<Longrightarrow> GetBlockByNumber B l (of_nat (Suc i)) = Inr (norm_block (bs ! i))"
  using assms holds_height holds_get
  by (auto simp: ledger_inv_def kv_GetBlockchainInfo_def GetBlockByNumber_def simp del: of_nat_Suc)

end


section \<open>The lock-based transaction manager behind the interface\<close>

definition block_txs :: "(bytes \<Rightarrow> error + bytes) \<Rightarrow> Block2 \<Rightarrow> TxReadWriteSet list" where
  "block_txs getAction b =
     map (\<lambda>e. projr (bindE (getAction e) (TxReadWriteSet_Unmarshal \<lparr>NsRWs = []\<rparr>))) (Transactions b)"

definition block_run :: "(bytes \<Rightarrow> error + bytes) \<Rightarrow> Block2 \<Rightarrow> wstate \<Rightarrow> wstate \<times> Block2 \<times> nat" where
  "block_run getAction b W =
     (case mvcc_block W {} W (block_txs getAction b) of
        (W', flags) \<Rightarrow> (W', b\<lparr>Transactions := select flags (Transactions b)\<rparr>, length (filter Not flags)))"

definition lb_ok :: "'db LockBasedTxMgr \<Rightarrow> bool" where
  "lb_ok t \<longleftrightarrow> dbhandle (tmDB t) \<noteq> None \<and> (\<forall>u. tmUpdateSet t = Some u \<longrightarrow> map_wf u)"

definition lb_prepared :: "('db \<Rightarrow> bytes \<rightharpoonup> bytes) \<Rightarrow> 'db LockBasedTxMgr \<Rightarrow> wstate option" where
  "lb_prepared contents t = map_option (\<lambda>u. overlay u (state_of contents t)) (tmUpdateSet t)"

lemma select_map: "select flags (map f xs) = map f (select flags xs)"
  by (induction flags xs rule: list_induct2') (simp_all add: select_def)

lemma select_all [simp]: "select (replicate (length xs) True) xs = xs"
  by (induction xs) (simp_all add: select_def)

lemma filter_replicate_Not [simp]: "filter Not (replicate n True) = []"
  by (induction n) simp_all

text \<open>The valid transactions of a block are all valid when they are run alone, and run alone they apply their writes in order.\<close>

lemma mvcc_block_select:
  "mvcc_block W D V txs = (V', flags) \<Longrightarrow> mvcc_block W D V (select flags txs) = (V', replicate (length (select flags txs)) True)"
proof (induction txs arbitrary: D V flags)
  case (Cons tx txs)
  show ?case
  proof (cases "mvcc_valid W D tx")
    case True
    obtain V1 fl where r: "mvcc_block W (D \<union> fst ` set (tx_writes tx)) (spec_apply tx V) txs = (V1, fl)" by fastforce
    with Cons.prems True have "flags = True # fl" "V1 = V'" by simp_all
    with Cons.IH [OF r [unfolded \<open>V1 = V'\<close>]] True show ?thesis by simp
  next
    case False
    obtain V1 fl where r: "mvcc_block W D V txs = (V1, fl)" by fastforce
    with Cons.prems False have "flags = False # fl" "V1 = V'" by simp_all
    with Cons.IH [OF r [unfolded \<open>V1 = V'\<close>]] show ?thesis by simp
  qed
qed simp

lemma mvcc_block_valid: "mvcc_block W D V txs = (V', flags) \<Longrightarrow> False \<notin> set flags \<Longrightarrow> V' = fold spec_apply txs V"
  by (induction txs arbitrary: D V flags) (auto simp: Let_def split: if_splits prod.splits)

lemma block_run_again: "block_run getAction b W = (W', vb, bad) \<Longrightarrow> block_run getAction vb W = (W', vb, 0)"
proof -
  assume run: "block_run getAction b W = (W', vb, bad)"
  obtain flags where m: "mvcc_block W {} W (block_txs getAction b) = (W', flags)"
    and vb: "vb = b\<lparr>Transactions := select flags (Transactions b)\<rparr>"
    using run by (auto simp: block_run_def split: prod.splits)
  have tx: "block_txs getAction vb = select flags (block_txs getAction b)" by (simp add: vb block_txs_def select_map)
  have len: "length (select flags (block_txs getAction b)) = length (Transactions vb)" by (simp add: vb block_txs_def select_map)
  show ?thesis
    using mvcc_block_select [OF m] unfolding block_run_def tx len by (simp add: vb)
qed

lemma Inr_projr: "\<not> is_err r \<Longrightarrow> Inr (projr r) = r"
  by (cases r) (auto simp: is_err_def)

lemma decodes_block_txs:
  "\<forall>e \<in> set (Transactions b). \<not> is_err (bindE (getAction e) (TxReadWriteSet_Unmarshal \<lparr>NsRWs = []\<rparr>)) \<Longrightarrow>
   list_all2 (decodes getAction) (Transactions b) (block_txs getAction b)"
  by (auto simp: list_all2_conv_all_nth block_txs_def decodes_def Inr_projr)

context leveldb_reliable
begin

text \<open>Validation, successful or not, changes only the update set, and it succeeds only when every transaction can be decoded.\<close>

lemma validateLoop_ends:
  assumes "validateLoop L getAction envs vb bad mgr = (mgr', r)" and "dbhandle (tmDB mgr) \<noteq> None" and "tmUpdateSet mgr = Some u" and "map_wf u"
  shows "\<exists>u'. mgr' = mgr\<lparr>tmUpdateSet := Some u'\<rparr> \<and> map_wf u' \<and>
    (\<not> isl r \<longrightarrow> (\<forall>e \<in> set envs. \<not> is_err (bindE (getAction e) (TxReadWriteSet_Unmarshal \<lparr>NsRWs = []\<rparr>))))"
  using assms
proof (induction envs arbitrary: u vb bad mgr)
  case Nil
  then show ?case by (intro exI [of _ u]) simp
next
  case (Cons e envs)
  show ?case
  proof (cases "bindE (getAction e) (TxReadWriteSet_Unmarshal \<lparr>NsRWs = []\<rparr>)")
    case (Inl err)
    then show ?thesis using Cons.prems by (intro exI [of _ u]) auto
  next
    case (Inr tx)
    obtain u1 where u1: "addWriteSetToBatch L tx mgr = (mgr\<lparr>tmUpdateSet := Some u1\<rparr>, Inr ())" "map_wf u1"
      using addWriteSetToBatch_total [OF Cons.prems(2-4)] by blast
    have tx: "\<not> is_err (Inr tx :: error + TxReadWriteSet)" by (simp add: is_err_def)
    show ?thesis
    proof (cases "mvcc_valid (state_of contents mgr) (dom (map_of u)) tx")
      case True
      then have "validateLoop L getAction envs (vb\<lparr>Transactions := Transactions vb @ [e]\<rparr>) bad (mgr\<lparr>tmUpdateSet := Some u1\<rparr>) = (mgr', r)"
        using Cons.prems(1) Inr validateTx_total [OF Cons.prems(2,3)] u1(1) by simp
      from Cons.IH [OF this _ _ u1(2)] show ?thesis using Cons.prems(2) Inr tx by simp
    next
      case False
      then have "validateLoop L getAction envs vb (bad @ [RWConflictDuringCommit]) mgr = (mgr', r)"
        using Cons.prems(1) Inr validateTx_total [OF Cons.prems(2,3)] by simp
      from Cons.IH [OF this Cons.prems(2-4)] show ?thesis using Inr tx by simp
    qed
  qed
qed

lemma lockBased_prepare:
  assumes "lb_ok t" and "ValidateAndPrepare L getAction b t = (t', r)"
  shows "lb_ok t' \<and> state_of contents t' = state_of contents t" (is ?thesis1)
    and "r = Inr (vb, bad) \<Longrightarrow> \<exists>w' k. block_run getAction b (state_of contents t) = (w', vb, k) \<and>
      bad = replicate k RWConflictDuringCommit \<and> lb_prepared contents t' = Some w'"
proof -
  let ?t = "t\<lparr>tmUpdateSet := Some newUpdateSet\<rparr>"
  have loop: "validateLoop L getAction (Transactions b) \<lparr>PreviousBlockHash = PreviousBlockHash b, Transactions = []\<rparr> [] ?t = (t', r)"
    using assms(2) by (simp add: ValidateAndPrepare_def)
  have wf: "map_wf newUpdateSet" by (simp add: newUpdateSet_def map_wf_def)
  have h: "dbhandle (tmDB ?t) \<noteq> None" "tmUpdateSet ?t = Some newUpdateSet" using assms(1) by (simp_all add: lb_ok_def)
  have st: "state_of contents ?t = state_of contents t" by (simp add: state_of_def)
  obtain u where u: "t' = t\<lparr>tmUpdateSet := Some u\<rparr>" "map_wf u"
    "\<not> isl r \<longrightarrow> (\<forall>e \<in> set (Transactions b). \<not> is_err (bindE (getAction e) (TxReadWriteSet_Unmarshal \<lparr>NsRWs = []\<rparr>)))"
    using validateLoop_ends [OF loop h wf] by auto
  show ?thesis1 using u(1,2) assms(1) by (simp add: lb_ok_def state_of_def)
  assume r: "r = Inr (vb, bad)"
  then have dec: "list_all2 (decodes getAction) (Transactions b) (block_txs getAction b)" using u(3) decodes_block_txs by simp
  obtain w' flags where m: "mvcc_block (state_of contents t) {} (state_of contents t) (block_txs getAction b) = (w', flags)" by fastforce
  have "dom (map_of newUpdateSet) = {}" by (simp add: newUpdateSet_def)
  with m have "mvcc_block (state_of contents ?t) (dom (map_of newUpdateSet)) (overlay newUpdateSet (state_of contents ?t)) (block_txs getAction b) = (w', flags)"
    by (simp only: st overlay_Nil)
  from validateLoop_total [OF dec h wf this, of "\<lparr>PreviousBlockHash = PreviousBlockHash b, Transactions = []\<rparr>" "[]"]
  obtain u' where u': "t' = t\<lparr>tmUpdateSet := Some u'\<rparr>" "overlay u' (state_of contents t) = w'"
    "vb = b\<lparr>Transactions := select flags (Transactions b)\<rparr>" "bad = replicate (length (filter Not flags)) RWConflictDuringCommit"
    using loop r st by (cases b) auto
  have "block_run getAction b (state_of contents t) = (w', vb, length (filter Not flags))" by (simp add: block_run_def m u'(3))
  moreover have "lb_prepared contents t' = Some w'" using u'(1,2) by (simp add: lb_prepared_def state_of_def)
  ultimately show "\<exists>w' k. block_run getAction b (state_of contents t) = (w', vb, k) \<and>
      bad = replicate k RWConflictDuringCommit \<and> lb_prepared contents t' = Some w'"
    using u'(4) by blast
qed

end

lemma tx_manager_lockBased:
  assumes "leveldb_reliable L contents" and "order_ok ord"
  shows "tx_manager (lockBasedTxMgr L ord getAction) lb_ok (state_of contents) (lb_prepared contents) (block_run getAction)"
proof
  fix t t' :: "'a LockBasedTxMgr" and b :: Block2 and r
  assume "lb_ok t" and "tmValidateAndPrepare (lockBasedTxMgr L ord getAction) b t = (t', r)"
  then show "lb_ok t' \<and> state_of contents t' = state_of contents t \<and> (\<forall>vb bad. r = Inr (vb, bad) \<longrightarrow>
      (\<exists>w' k. block_run getAction b (state_of contents t) = (w', vb, k) \<and> bad = replicate k RWConflictDuringCommit \<and>
        lb_prepared contents t' = Some w'))"
    using leveldb_reliable.lockBased_prepare [OF assms(1)] by (simp add: lockBasedTxMgr_def)
next
  fix t :: "'a LockBasedTxMgr" and w'
  assume t: "lb_ok t" and "lb_prepared contents t = Some w'"
  then obtain u where u: "tmUpdateSet t = Some u" "map_wf u" "w' = overlay u (state_of contents t)"
    by (auto simp: lb_prepared_def lb_ok_def)
  then show "\<exists>t'. tmCommit (lockBasedTxMgr L ord getAction) t = (t', Inr ()) \<and> lb_ok t' \<and> state_of contents t' = w'"
    using leveldb_reliable.Commit_total [OF assms _ u(1,2)] t by (auto simp: lockBasedTxMgr_def lb_ok_def)
next
  fix t :: "'a LockBasedTxMgr"
  assume "lb_ok t"
  then show "lb_ok (tmRollback (lockBasedTxMgr L ord getAction) t) \<and>
      state_of contents (tmRollback (lockBasedTxMgr L ord getAction) t) = state_of contents t"
    by (simp add: lockBasedTxMgr_def lb_ok_def Rollback_def state_of_def)
next
  fix t t' :: "'a LockBasedTxMgr" and sm
  assume "lb_ok t" and "tmNewTxSimulator (lockBasedTxMgr L ord getAction) t = Inr (sm, t')"
  then show "lb_ok t' \<and> state_of contents t' = state_of contents t \<and> lb_prepared contents t' = lb_prepared contents t"
    by (auto simp: lockBasedTxMgr_def NewTxSimulator_def lb_ok_def state_of_def lb_prepared_def)
next
  fix t t' :: "'a LockBasedTxMgr" and q
  assume "lb_ok t" and "tmNewQueryExecutor (lockBasedTxMgr L ord getAction) t = Inr (q, t')"
  then show "lb_ok t' \<and> state_of contents t' = state_of contents t \<and> lb_prepared contents t' = lb_prepared contents t"
    by (auto simp: lockBasedTxMgr_def NewQueryExecutor_def lb_ok_def state_of_def lb_prepared_def)
next
  fix b vb :: Block2 and w w' bad
  assume "block_run getAction b w = (w', vb, bad)"
  then show "block_run getAction vb w = (w', vb, 0)" by (rule block_run_again)
next
  fix b vb :: Block2 and w w' bad
  assume "block_run getAction b w = (w', vb, bad)"
  then show "\<exists>flags. vb = b\<lparr>Transactions := select flags (Transactions b)\<rparr>"
    by (auto simp: block_run_def split: prod.splits)
qed

lemma kv_ledger_instance:
  assumes "leveldb_reliable L contents" and "order_ok ord"
  shows "kv_ledger (fsBlockStore L H extractTransaction) (fs_holds contents H) (lockBasedTxMgr L ord getAction) lb_ok
    (state_of contents) (lb_prepared contents) (block_run getAction)"
  unfolding kv_ledger_def using block_store_fs [OF assms(1)] tx_manager_lockBased [OF assms] by blast

interpretation kvmem: kv_ledger "fsBlockStore mem_ops rev Inr" "fs_holds RBT.lookup rev"
  "lockBasedTxMgr mem_ops (\<lambda>m. m) Inr" lb_ok "state_of RBT.lookup" "lb_prepared RBT.lookup" "block_run Inr"
  by (rule kv_ledger_instance [OF mem.leveldb_reliable_axioms order_ok_id])


section \<open>The state is the replay of the chain\<close>

lemma NewKVLedger_fresh:
  assumes "leveldb_reliable L contents"
    and "NewKVLedger (\<lambda>c a. NewFsBlockStore L H c a (Inr True) (Inr d) fs) False newCouch
      (\<lambda>p. NewLockBasedTxMgr (Inr True) (\<lambda>_. Inr h)) conf = Inr l"
    and "fsFiles fs = []" and "dbhandle d \<noteq> None" and "db_view contents d = Map.empty" and "contents h = Map.empty"
    and "confMaxBlockfileSize conf \<le> maxint"
  shows "fs_holds contents H 0 (blockStore l) []" "lb_ok (txtmgmt l)" "pendingBlockToCommit l = None"
    "state_of contents (txtmgmt l) = (\<lambda>_. (None, 0))"
proof -
  let ?c = "fs_NewConf (blockStorageDir conf) (confMaxBlockfileSize conf)"
  have s: "NewFsBlockStore L H ?c all_attrs (Inr True) (Inr d) fs = Inr (blockStore l)"
    and t: "NewLockBasedTxMgr (Inr True) (\<lambda>_. Inr h) = Inr (txtmgmt l)" and p: "pendingBlockToCommit l = None"
    using assms(2) by (auto simp: NewKVLedger_def all_attrs_def bindE_eq_Inr_conv)
  have "fsMaxBlockfileSize ?c \<le> maxint"
    using assms(7) by (simp add: fs_NewConf_def defaultMaxBlockfileSize_def maxint_def Let_def)
  from fs_holds_new [OF assms(1,3-5) s this] show "fs_holds contents H 0 (blockStore l) []" .
  show "lb_ok (txtmgmt l)" "state_of contents (txtmgmt l) = (\<lambda>_. (None, 0))"
    using t [symmetric] assms(6)
    by (simp_all add: NewLockBasedTxMgr_def DB_Open_def CreateDB_def lb_ok_def state_of_def wread_def db_view_def fun_eq_iff)
  show "pendingBlockToCommit l = None" by (rule p)
qed

text \<open>
  The state that the write sets of a chain of blocks make, from an empty one, and the rule of validation for each block of a chain: all of
  its transactions are valid on the state that the blocks before it make.
\<close>

definition chain_state :: "(bytes \<Rightarrow> error + bytes) \<Rightarrow> Block2 list \<Rightarrow> wstate" where
  "chain_state getAction bs = fold (\<lambda>b W. fold spec_apply (block_txs getAction b) W) bs (\<lambda>_. (None, 0))"

definition chain_valid :: "(bytes \<Rightarrow> error + bytes) \<Rightarrow> Block2 list \<Rightarrow> bool" where
  "chain_valid getAction bs \<longleftrightarrow> (\<forall>i < length bs. let W = chain_state getAction (take i bs) in
     False \<notin> set (snd (mvcc_block W {} W (block_txs getAction (bs ! i)))))"

definition kv_inv ::
  "('db \<Rightarrow> bytes \<rightharpoonup> bytes) \<Rightarrow> (bytes \<Rightarrow> bytes) \<Rightarrow> (bytes \<Rightarrow> error + bytes) \<Rightarrow> nat \<Rightarrow> Block2 list \<Rightarrow> bool \<Rightarrow>
   ('db FsBlockStore, 'db LockBasedTxMgr) KVLedger \<Rightarrow> bool" where
  "kv_inv contents H getAction = kv_ledger.ledger_inv (fs_holds contents H) lb_ok (state_of contents) (lb_prepared contents)
     (block_run getAction) (\<lambda>_. (None, 0))"

lemma valid_block_run: "snd (block_run getAction b W) = (b', 0) \<Longrightarrow>
    False \<notin> set (snd (mvcc_block W {} W (block_txs getAction b))) \<and> fst (block_run getAction b W) = fold spec_apply (block_txs getAction b) W"
proof -
  obtain V flags where m: "mvcc_block W {} W (block_txs getAction b) = (V, flags)" by fastforce
  assume "snd (block_run getAction b W) = (b', 0)"
  then have "False \<notin> set flags" using m by (auto simp: block_run_def filter_empty_conv)
  with mvcc_block_valid [OF m this] m show ?thesis by (simp add: block_run_def)
qed

text \<open>What is common to the uses of a ledger of the two implementations.\<close>

lemma kv_inv_reads:
  fixes ord :: "(bytes, versionedValue) map_order"
  assumes "leveldb_reliable L contents" and "order_ok ord" and "kv_inv contents H getAction n bs c l"
  shows "state_of contents (txtmgmt l) = chain_state getAction bs" "chain_valid getAction bs"
    "\<exists>info. kv_GetBlockchainInfo (fsBlockStore L H extractTransaction) l = Inr info \<and> Height info = of_nat (length bs)"
    "i < length bs \<Longrightarrow> GetBlockByNumber (fsBlockStore L H extractTransaction) l (of_nat (Suc i)) = Inr (norm_block (bs ! i))"
proof -
  note kv = kv_ledger_instance [OF assms(1,2), of H extractTransaction getAction]
  note r = kv_ledger.ledger_inv_reads [OF kv assms(3) [unfolded kv_inv_def]]
  let ?replay = "\<lambda>bs. kv_ledger.replay (block_run getAction) bs (\<lambda>_. (None, 0))"
  have v: "snd (block_run getAction (bs ! i) (?replay (take i bs))) = (bs ! i, 0)" if "i < length bs" for i
    using r(2) that by (simp add: kv_ledger.chain_ok_def [OF kv] kv_ledger.valid_on_def [OF kv])
  have s: "?replay (take i bs) = chain_state getAction (take i bs)" if "i \<le> length bs" for i
    using that
  proof (induction i)
    case (Suc i)
    then show ?case
      using v [of i] valid_block_run [of getAction "bs ! i"]
      by (simp add: take_Suc_conv_app_nth kv_ledger.replay_def [OF kv] chain_state_def)
  qed (simp add: kv_ledger.replay_def [OF kv] chain_state_def)
  show "state_of contents (txtmgmt l) = chain_state getAction bs" using r(1) s [of "length bs"] by simp
  show "chain_valid getAction bs"
    unfolding chain_valid_def Let_def using v s valid_block_run by (metis less_imp_le_nat)
  show "\<exists>info. kv_GetBlockchainInfo (fsBlockStore L H extractTransaction) l = Inr info \<and> Height info = of_nat (length bs)" by (rule r(3))
  show "GetBlockByNumber (fsBlockStore L H extractTransaction) l (of_nat (Suc i)) = Inr (norm_block (bs ! i))" if "i < length bs"
    by (rule r(4) [OF that])
qed

lemma kv_run_fresh:
  assumes "leveldb_reliable L contents" and "order_ok ord"
    and "NewKVLedger (\<lambda>c a. NewFsBlockStore L H c a (Inr True) (Inr d) fs) False newCouch
      (\<lambda>p. NewLockBasedTxMgr (Inr True) (\<lambda>_. Inr h)) conf = Inr l0"
    and "fsFiles fs = []" and "dbhandle d \<noteq> None" and "db_view contents d = Map.empty" and "contents h = Map.empty"
    and "confMaxBlockfileSize conf \<le> maxint" and "n < 2 ^ 62"
    and "kv_run (fsBlockStore L H extractTransaction) (lockBasedTxMgr L ord getAction) l0 n bs c l"
  shows "kv_inv contents H getAction n bs c l"
proof -
  note kv = kv_ledger_instance [OF assms(1,2), of H extractTransaction getAction]
  note fresh = NewKVLedger_fresh [OF assms(1,3-8)]
  show ?thesis unfolding kv_inv_def
    by (rule kv_ledger.kv_run_inv [OF kv, OF assms(10,9)])
      (simp add: kv_ledger.ledger_inv_def [OF kv] kv_ledger.replay_def [OF kv] kv_ledger.chain_ok_def [OF kv] fresh)
qed

text \<open>
  C2: The ledger keeps the block chain and the state in step. From a ledger created on empty storage, take any sequence of simulations,
  queries, preparations, roll-backs and commits, in which preparations and commits may fail and be repeated, blocks have less than 4 GiB,
  and \<open>Commit\<close> is not called between a failed preparation and the next successful one or the next roll-back. Afterwards the
  chain holds exactly the blocks whose commit succeeded, each of their transactions is valid in its place, and the world state is what
  the write sets of these transactions make, one after the other.
\<close>

theorem state_is_replay:
  assumes "leveldb_reliable L contents" and "order_ok ord"
    and "NewKVLedger (\<lambda>c a. NewFsBlockStore L H c a (Inr True) (Inr d) fs) False newCouch
      (\<lambda>p. NewLockBasedTxMgr (Inr True) (\<lambda>_. Inr h)) conf = Inr l0"
    and "fsFiles fs = []" and "dbhandle d \<noteq> None" and "db_view contents d = Map.empty" and "contents h = Map.empty"
    and "confMaxBlockfileSize conf \<le> maxint" and "n < 2 ^ 62"
    and "kv_run (fsBlockStore L H extractTransaction) (lockBasedTxMgr L ord getAction) l0 n bs c l"
  shows "state_of contents (txtmgmt l) = chain_state getAction bs \<and> chain_valid getAction bs \<and>
    (\<exists>info. kv_GetBlockchainInfo (fsBlockStore L H extractTransaction) l = Inr info \<and> Height info = of_nat (length bs)) \<and>
    (\<forall>i < length bs. GetBlockByNumber (fsBlockStore L H extractTransaction) l (of_nat (Suc i)) = Inr (norm_block (bs ! i)))"
  using kv_inv_reads(1,2) [OF assms(1,2) kv_run_fresh [OF assms]]
    kv_inv_reads(3,4) [OF assms(1,2) kv_run_fresh [OF assms], where extractTransaction = extractTransaction] by blast

section \<open>Examples\<close>

type_synonym memledger = "(memdb FsBlockStore, memdb LockBasedTxMgr) KVLedger"

definition mem_new :: "FS \<Rightarrow> memdb DB \<Rightarrow> memdb \<Rightarrow> error + memledger" where
  "mem_new fs d h = NewKVLedger (\<lambda>c a. NewFsBlockStore mem_ops rev c a (Inr True) (Inr d) fs) False (\<lambda>_. Inl ErrNotSupported)
     (\<lambda>p. NewLockBasedTxMgr (Inr True) (\<lambda>_. Inr h)) (NewConf [47] 0)"

definition mem_B :: "(memdb FsBlockStore, BlocksItr, bytes) BlockStoreOps" where
  "mem_B = fsBlockStore mem_ops rev Inr"

definition mem_T :: "(memdb LockBasedTxMgr, LockBasedTxSimulator, RWLockQueryExecutor) TxMgrOps" where
  "mem_T = lockBasedTxMgr mem_ops (\<lambda>m. m) Inr"

definition ledger0 :: memledger where
  "ledger0 = projr (mem_new example_fs example_db RBT.empty)"

definition ledger1 :: memledger where
  "ledger1 = fst (RemoveInvalidTransactionsAndPrepare mem_T example_block ledger0)"

definition ledger2 :: memledger where
  "ledger2 = fst (kv_Commit mem_B mem_T ledger1)"

definition valid_block :: Block2 where
  "valid_block = example_block\<lparr>Transactions := map TxReadWriteSet_Marshal [example_tx [1] (Some [7]), example_tx [2] None]\<rparr>"

lemma ledger_example_runs:
  "\<not> isl (mem_new example_fs example_db RBT.empty)"
  "snd (RemoveInvalidTransactionsAndPrepare mem_T example_block ledger0) = Inr (valid_block, [RWConflictDuringCommit])"
  "snd (kv_Commit mem_B mem_T ledger1) = Inr ()" "length (ser_block valid_block) < 100" "length (block_body valid_block) < 100"
  by code_simp+

lemma ledger0_new: "mem_new example_fs example_db RBT.empty = Inr ledger0"
  using ledger_example_runs(1) by (simp add: ledger0_def)

lemmas ledger0_fresh = NewKVLedger_fresh [OF mem.leveldb_reliable_axioms ledger0_new [unfolded mem_new_def]]

text \<open>A block with a transaction that writes key 2, followed by one that cannot be decoded.\<close>

definition bad_block :: Block2 where
  "bad_block = \<lparr>PreviousBlockHash = None, Transactions = [TxReadWriteSet_Marshal (example_tx [2] (Some [5])), []]\<rparr>"

text \<open>The bad block is refused, then the block of the example is prepared and committed.\<close>

definition ledger_bad :: memledger where
  "ledger_bad = fst (RemoveInvalidTransactionsAndPrepare mem_T bad_block ledger0)"

definition ledger3 :: memledger where
  "ledger3 = fst (RemoveInvalidTransactionsAndPrepare mem_T example_block ledger_bad)"

definition ledger4 :: memledger where
  "ledger4 = fst (kv_Commit mem_B mem_T ledger3)"

lemma example_bounded: "bounded_block example_block"
proof -
  have "length (block_body example_block) < 100" "length (Transactions example_block) = 3" by code_simp+
  then show ?thesis by (simp add: bounded_block_def)
qed

lemma ledger1_run: "kv_run mem_B mem_T ledger0 0 [] True ledger1"
proof -
  have "RemoveInvalidTransactionsAndPrepare mem_T example_block ledger0 = (ledger1, Inr (valid_block, [RWConflictDuringCommit]))"
    using ledger_example_runs(2) by (simp add: ledger1_def prod_eq_iff)
  then show ?thesis by (rule kv_prepare [OF kv_start example_bounded])
qed

lemma ledger4_run: "kv_run mem_B mem_T ledger0 1 [valid_block] True ledger4"
proof -
  have "isl (snd (RemoveInvalidTransactionsAndPrepare mem_T bad_block ledger0))" by code_simp
  then obtain e where "RemoveInvalidTransactionsAndPrepare mem_T bad_block ledger0 = (ledger_bad, Inl e)"
    by (auto simp: ledger_bad_def isl_def prod_eq_iff)
  then have "kv_run mem_B mem_T ledger0 0 [] False ledger_bad" by (rule kv_prepare_fail [OF kv_start])
  moreover have "snd (RemoveInvalidTransactionsAndPrepare mem_T example_block ledger_bad) = Inr (valid_block, [RWConflictDuringCommit])" by code_simp
  then have "RemoveInvalidTransactionsAndPrepare mem_T example_block ledger_bad = (ledger3, Inr (valid_block, [RWConflictDuringCommit]))"
    by (simp add: ledger3_def prod_eq_iff)
  ultimately have "kv_run mem_B mem_T ledger0 0 [] True ledger3" by (rule kv_prepare [OF _ example_bounded])
  moreover have "pendingBlockToCommit ledger3 = Some valid_block" by code_simp
  moreover have "snd (kv_Commit mem_B mem_T ledger3) = Inr ()" by code_simp
  then have "kv_Commit mem_B mem_T ledger3 = (ledger4, Inr ())" by (simp add: ledger4_def prod_eq_iff)
  ultimately have "kv_run mem_B mem_T ledger0 (Suc 0) ([] @ [valid_block]) True ledger4" by (rule kv_commit)
  then show ?thesis by simp
qed

lemma state_is_replay_witness:
  "state_of RBT.lookup (txtmgmt ledger4) [99, 0, 1] = (Some [7], 1) \<and>
   GetBlockByNumber mem_B ledger4 1 = Inr (norm_block valid_block)"
proof -
  note h = state_is_replay [OF mem.leveldb_reliable_axioms order_ok_id ledger0_new [unfolded mem_new_def] _ _ _ _ _ _
      ledger4_run [unfolded mem_B_def mem_T_def]]
  have "chain_state Inr [valid_block] [99, 0, 1] = (Some [7], 1)" by code_simp
  then show ?thesis
    using h example_db_props by (simp add: example_fs_def NewConf_def maxint_def Let_def mem_B_def)
qed

text \<open>The key \<open>k\<close> of the examples' namespace in the state of a ledger.\<close>

definition mem_get :: "memledger \<Rightarrow> bytes \<Rightarrow> error + nbytes" where
  "mem_get l k = bindE (kv_NewQueryExecutor mem_T l) (\<lambda>(q, l). qe_GetState mem_ops (txtmgmt l) q [99] k)"

definition mem_height :: "memledger \<Rightarrow> error + u64" where
  "mem_height l = bindE (kv_GetBlockchainInfo mem_B l) (\<lambda>i. Inr (Height i))"

definition mixed_ledger :: "memledger \<times> (error + Block2 \<times> InvalidTransaction list)" where
  "mixed_ledger = RemoveInvalidTransactionsAndPrepare mem_T bad_block ledger1"

text \<open>
  A preparation that fails leaves the block of an earlier one pending, but not its writes. The next
  commit succeeds: it adds the earlier block to the chain, and puts into the state the writes of the
  rejected one up to the transaction that failed.
\<close>

theorem failed_prepare_mixes_blocks:
  "isl (snd mixed_ledger) \<and>
   (case kv_Commit mem_B mem_T (fst mixed_ledger) of
      (_, Inl _) \<Rightarrow> False
    | (l, Inr _) \<Rightarrow>
        GetBlockByNumber mem_B l 1 = Inr (norm_block valid_block) \<and> mem_get l [1] = Inr None \<and> mem_get l [2] = Inr (Some [5]))"
  by code_simp

section \<open>A stop between the two steps of a commit\<close>

lemma kv_run_dir:
  assumes "kv_run (fsBlockStore L H extractTransaction) T l0 n bs c l"
  shows "rootDir (fileMgr (blockStore l)) = rootDir (fileMgr (blockStore l0))"
proof -
  have add: "rootDir (fileMgr s') = rootDir (fileMgr s)" if "AddBlock (fsBlockStore L H extractTransaction) b s = (s', r)" for b s s' r
    using that rootDir_addBlock [of L H b "fileMgr s"] by (auto simp: fsBlockStore_def fs_AddBlock_def split: prod.splits)
  then have com: "rootDir (fileMgr (blockStore l')) = rootDir (fileMgr (blockStore l))" if "kv_Commit (fsBlockStore L H extractTransaction) T l = (l', r)" for l l' r
    using that by (auto simp: kv_Commit_def split: option.splits prod.splits sum.splits)
  show ?thesis
    using assms
    by (induction rule: kv_run.induct)
      (auto simp: kv_NewTxSimulator_def kv_NewQueryExecutor_def bindE_eq_Inr_conv RemoveInvalidTransactionsAndPrepare_def kv_Rollback_def
        com split: prod.splits sum.splits)
qed

text \<open>A store that is opened again on the files and the database of another one holds its blocks.\<close>

lemma fs_holds_again:
  assumes "leveldb_reliable L contents" and "fs_holds contents H n s bs" and "blockfilesDir conf = rootDir (fileMgr s)"
    and "fsMaxBlockfileSize conf \<le> maxint"
  shows "\<exists>s'. NewFsBlockStore L H conf all_attrs (Inr e) (Inr (mgrDB (fileMgr s))) ((mgrFS (fileMgr s))\<lparr>fsFaults := faults\<rparr>) = Inr s' \<and>
    fs_holds contents H n s' bs"
proof -
  let ?m = "fileMgr s" and ?fs = "(mgrFS (fileMgr s))\<lparr>fsFaults := faults\<rparr>"
  obtain segs where h: "store_inv contents H segs ?m" "concat segs = bs" "length segs \<le> Suc n" "length bs \<le> n"
    using assms(2) by (auto simp: fs_holds_def hist_inv_def)
  have d: "crash_disk contents H (blockfilesDir conf) segs ?fs (mgrDB ?m)"
    using crash_disk_inv [OF h(1), of ?fs] assms(3) by simp
  have "set all_attrs = allAttrs" by (simp add: all_attrs_def allAttrs_def)
  from leveldb_reliable.newBlockfileMgr_recovers [OF assms(1) d this, of "fsMaxBlockfileSize conf" e]
  obtain mgr where mgr: "newBlockfileMgr L H (blockfilesDir conf) (fsMaxBlockfileSize conf) all_attrs (Inr e) (Inr (mgrDB ?m)) ?fs = Inr mgr"
    "store_inv contents H segs mgr" "rootDir mgr = blockfilesDir conf" "maxBlockfileSize mgr = fsMaxBlockfileSize conf"
    by blast
  have "fs_holds contents H n \<lparr>fileMgr = mgr\<rparr> bs" unfolding fs_holds_def hist_inv_def using mgr(2-4) h(2-4) assms(4) by auto
  then show ?thesis using mgr(1) by (simp add: NewFsBlockStore_def)
qed

lemma NewKVLedger_dir:
  assumes "leveldb_reliable L contents"
    and "NewKVLedger (\<lambda>c a. NewFsBlockStore L H c a (Inr True) (Inr d) fs) False newCouch newT conf = Inr l"
    and "fsFiles fs = []" and "dbhandle d \<noteq> None" and "db_view contents d = Map.empty"
  shows "rootDir (fileMgr (blockStore l)) = blockfilesDir (fs_NewConf (blockStorageDir conf) (confMaxBlockfileSize conf))"
proof -
  let ?c = "fs_NewConf (blockStorageDir conf) (confMaxBlockfileSize conf)"
  have "newBlockfileMgr L H (blockfilesDir ?c) (fsMaxBlockfileSize ?c) all_attrs (Inr True) (Inr d) fs = Inr (fileMgr (blockStore l))"
    using assms(2) by (auto simp: NewKVLedger_def NewFsBlockStore_def all_attrs_def bindE_eq_Inr_conv Let_def)
  moreover have "set all_attrs = allAttrs" by (simp add: all_attrs_def allAttrs_def)
  ultimately show ?thesis
    using leveldb_reliable.newBlockfileMgr_fresh [OF assms(1,4,5,3), of all_attrs H "blockfilesDir ?c" "fsMaxBlockfileSize ?c" True] by auto
qed

text \<open>When the block has been added, the second step of the commit succeeds.\<close>

lemma kv_Commit_succeeds:
  assumes "leveldb_reliable L contents" and "order_ok ord" and "kv_inv contents H getAction n bs True l"
    and "pendingBlockToCommit l = Some vb" and "AddBlock (fsBlockStore L H extractTransaction) vb (blockStore l) = (s, Inr ())"
  shows "\<exists>l2. kv_Commit (fsBlockStore L H extractTransaction) (lockBasedTxMgr L ord getAction) l = (l2, Inr ()) \<and> blockStore l2 = s"
proof -
  note kv = kv_ledger_instance [OF assms(1,2), of H extractTransaction getAction]
  obtain w where "lb_ok (txtmgmt l)" "lb_prepared contents (txtmgmt l) = Some w"
    using assms(3,4) by (auto simp: kv_inv_def kv_ledger.ledger_inv_def [OF kv])
  from tx_manager.commit [OF tx_manager_lockBased [OF assms(1,2)] this]
  obtain t where "tmCommit (lockBasedTxMgr L ord getAction) (txtmgmt l) = (t, Inr ())" by blast
  then show ?thesis using assms(4,5) by (simp add: kv_Commit_def)
qed

text \<open>
  C26: A stop of the process between the two steps of a commit leaves the state behind the chain, and the start does not make up for
  it. Whatever a ledger has been used for, when a block has been added to the store and the process stops before the state is
  committed, a ledger started on the same files and databases has the block in its chain, and its state is that of the blocks before.
  The commit would have brought the writes of the block into the state.
\<close>

theorem stop_during_commit_loses_writes:
  assumes "leveldb_reliable L contents" and "order_ok ord"
    and "NewKVLedger (\<lambda>c a. NewFsBlockStore L H c a (Inr True) (Inr d) fs) False newCouch
      (\<lambda>p. NewLockBasedTxMgr (Inr True) (\<lambda>_. Inr h)) conf = Inr l0"
    and "fsFiles fs = []" and "dbhandle d \<noteq> None" and "db_view contents d = Map.empty" and "contents h = Map.empty"
    and "confMaxBlockfileSize conf \<le> maxint" and "n < 2 ^ 62"
    and "kv_run (fsBlockStore L H extractTransaction) (lockBasedTxMgr L ord getAction) l0 n bs True l"
    and "pendingBlockToCommit l = Some vb" and "AddBlock (fsBlockStore L H extractTransaction) vb (blockStore l) = (s, Inr ())"
    and "dbhandle (tmDB (txtmgmt l)) = Some h'"
  shows "(\<exists>l1. NewKVLedger (\<lambda>c a. NewFsBlockStore L H c a (Inr False) (Inr (mgrDB (fileMgr s))) ((mgrFS (fileMgr s))\<lparr>fsFaults := faults\<rparr>))
        False newCouch (\<lambda>p. NewLockBasedTxMgr (Inr False) (\<lambda>_. Inr h')) conf = Inr l1 \<and>
      (\<exists>info. kv_GetBlockchainInfo (fsBlockStore L H extractTransaction) l1 = Inr info \<and> Height info = of_nat (Suc (length bs))) \<and>
      GetBlockByNumber (fsBlockStore L H extractTransaction) l1 (of_nat (Suc (length bs))) = Inr (norm_block vb) \<and>
      state_of contents (txtmgmt l1) = chain_state getAction bs) \<and>
    (\<exists>l2. kv_Commit (fsBlockStore L H extractTransaction) (lockBasedTxMgr L ord getAction) l = (l2, Inr ()) \<and>
      state_of contents (txtmgmt l2) = fold spec_apply (block_txs getAction vb) (chain_state getAction bs))"
proof -
  let ?B = "fsBlockStore L H extractTransaction" and ?T = "lockBasedTxMgr L ord getAction"
  let ?c = "fs_NewConf (blockStorageDir conf) (confMaxBlockfileSize conf)"
  note kv = kv_ledger_instance [OF assms(1,2), of H extractTransaction getAction]
  note inv = kv_run_fresh [OF assms(1-10)]
  have st: "state_of contents (txtmgmt l) = chain_state getAction bs" by (rule kv_inv_reads(1) [OF assms(1,2) inv])
  obtain l2 where com: "kv_Commit ?B ?T l = (l2, Inr ())" "blockStore l2 = s" using kv_Commit_succeeds [OF assms(1,2) inv assms(11,12)] by blast
  have inv2: "kv_inv contents H getAction (Suc n) (bs @ [vb]) True l2"
    using kv_ledger.ledger_inv_commit [OF kv inv [unfolded kv_inv_def] assms(9,11) com(1)] by (simp add: kv_inv_def)
  have st2: "state_of contents (txtmgmt l2) = fold spec_apply (block_txs getAction vb) (chain_state getAction bs)"
    using kv_inv_reads(1) [OF assms(1,2) inv2] by (simp add: chain_state_def)
  have hs: "fs_holds contents H (Suc n) s (bs @ [vb])" using inv2 com(2) by (simp add: kv_inv_def kv_ledger.ledger_inv_def [OF kv])
  have max: "fsMaxBlockfileSize ?c \<le> maxint"
    using assms(8) by (simp add: fs_NewConf_def defaultMaxBlockfileSize_def maxint_def Let_def)
  have root: "blockfilesDir ?c = rootDir (fileMgr s)"
    using kv_run_dir [OF kv_commit [OF assms(10,11) com(1)]] com(2) NewKVLedger_dir [OF assms(1,3-6)] by simp
  obtain s' where s': "NewFsBlockStore L H ?c all_attrs (Inr False) (Inr (mgrDB (fileMgr s))) ((mgrFS (fileMgr s))\<lparr>fsFaults := faults\<rparr>) = Inr s'"
    "fs_holds contents H (Suc n) s' (bs @ [vb])" using fs_holds_again [OF assms(1) hs root max] by blast
  obtain t where t: "NewLockBasedTxMgr (Inr False) (\<lambda>_. Inr h') = Inr t" "state_of contents t = state_of contents (txtmgmt l)"
    using assms(13) by (simp add: NewLockBasedTxMgr_def DB_Open_def CreateDB_def state_of_def db_view_def)
  let ?l = "\<lparr>blockStore = s', txtmgmt = t, pendingBlockToCommit = None\<rparr>"
  have "NewKVLedger (\<lambda>c a. NewFsBlockStore L H c a (Inr False) (Inr (mgrDB (fileMgr s))) ((mgrFS (fileMgr s))\<lparr>fsFaults := faults\<rparr>))
      False newCouch (\<lambda>p. NewLockBasedTxMgr (Inr False) (\<lambda>_. Inr h')) conf = Inr ?l"
    using s'(1) t(1) by (simp add: NewKVLedger_def all_attrs_def Let_def)
  moreover note block_store.holds_height [OF block_store_fs [OF assms(1)] s'(2), of extractTransaction]
    block_store.holds_get [OF block_store_fs [OF assms(1)] s'(2), of "length bs" extractTransaction]
  ultimately show ?thesis
    using com(1) st st2 t(2) by (simp add: kv_GetBlockchainInfo_def GetBlockByNumber_def del: of_nat_Suc)
qed

definition stopped :: "memdb FsBlockStore" where
  "stopped = fst (AddBlock mem_B valid_block (blockStore ledger1))"

lemma stop_during_commit_loses_writes_witness:
  "(\<exists>l1. NewKVLedger (\<lambda>c a. NewFsBlockStore mem_ops rev c a (Inr False) (Inr (mgrDB (fileMgr stopped))) ((mgrFS (fileMgr stopped))\<lparr>fsFaults := []\<rparr>))
       False (\<lambda>_. Inl ErrNotSupported) (\<lambda>p. NewLockBasedTxMgr (Inr False) (\<lambda>_. Inr (the (dbhandle (tmDB (txtmgmt ledger1)))))) (NewConf [47] 0) = Inr l1 \<and>
     GetBlockByNumber mem_B l1 1 = Inr (norm_block valid_block) \<and> state_of RBT.lookup (txtmgmt l1) [99, 0, 1] = (None, 0)) \<and>
   state_of RBT.lookup (txtmgmt ledger2) [99, 0, 1] = (Some [7], 1)"
proof -
  have p: "pendingBlockToCommit ledger1 = Some valid_block" by code_simp
  have "snd (AddBlock mem_B valid_block (blockStore ledger1)) = Inr ()" "dbhandle (tmDB (txtmgmt ledger1)) \<noteq> None" by code_simp+
  then have s: "AddBlock mem_B valid_block (blockStore ledger1) = (stopped, Inr ())"
    "dbhandle (tmDB (txtmgmt ledger1)) = Some (the (dbhandle (tmDB (txtmgmt ledger1))))"
    by (simp_all add: stopped_def prod_eq_iff)
  have w: "fold spec_apply (block_txs Inr valid_block) (\<lambda>_. (None, 0)) [99, 0, 1] = (Some [7], 1)" by code_simp
  have e: "fsFiles example_fs = []" "confMaxBlockfileSize (NewConf [47] 0) \<le> maxint" "RBT.lookup (RBT.empty :: memdb) = Map.empty" "(0 :: nat) < 2 ^ 62"
    by (simp_all add: example_fs_def NewConf_def maxint_def Let_def)
  note h = stop_during_commit_loses_writes [OF mem.leveldb_reliable_axioms order_ok_id ledger0_new [unfolded mem_new_def] e(1) example_db_props(1,2)
      e(3,2,4) ledger1_run [unfolded mem_B_def mem_T_def] p s(1) [unfolded mem_B_def] s(2), of "[]", folded mem_B_def mem_T_def]
  obtain l2 where l2: "kv_Commit mem_B mem_T ledger1 = (l2, Inr ())"
    "state_of RBT.lookup (txtmgmt l2) = fold spec_apply (block_txs Inr valid_block) (chain_state Inr [])"
    using conjunct2 [OF h] by blast
  have l2': "l2 = ledger2" using l2(1) by (simp add: ledger2_def)
  have c: "chain_state Inr [] = (\<lambda>_. (None, 0))" by (simp add: chain_state_def)
  have "state_of RBT.lookup (txtmgmt ledger2) [99, 0, 1] = (Some [7], 1)" using l2(2) w unfolding l2' c by simp
  then show ?thesis using conjunct1 [OF h] unfolding c by auto
qed

section \<open>Ledgers by name\<close>

text \<open>
  The manager hands out one ledger per name: once a ledger has been obtained, it is returned for its
  name ever after, whatever the constructor does, and obtaining it has not touched the ledgers of other names.
\<close>

theorem ledger_of_name:
  assumes "GetLedger new name (Some m) = Inr (l, m')"
  shows "\<exists>m1. m' = Some m1 \<and> GetLedger new' name m' = Inr (l, m') \<and>
    (\<forall>other l1. other \<noteq> name \<and> map_of (ledgers m) (ledgerPath m @ other) = Some l1 \<longrightarrow>
      GetLedger new' other m' = Inr (l1, m'))"
proof (cases "map_of (ledgers m) (ledgerPath m @ name)")
  case None
  then have "m' = Some (m\<lparr>ledgers := mput (ledgerPath m @ name) l (ledgers m)\<rparr>)"
    using assms by (auto simp: GetLedger_def lm_create_def catchE_def Let_def bindE_eq_Inr_conv
        split: sum.splits if_splits option.splits)
  then show ?thesis by (simp add: GetLedger_def lm_create_def map_of_mput)
next
  case (Some l1)
  then have "l1 = l" "m' = Some m" using assms by (simp_all add: GetLedger_def lm_create_def)
  with Some show ?thesis by (simp add: GetLedger_def lm_create_def)
qed

lemma ledger_of_name_witness:
  "\<exists>m l m'. Initialize [47] = Inr m \<and> GetLedger Inr [97] (Some m) = Inr (l, m') \<and>
     GetLedger (\<lambda>_. Inl ErrNotSupported) [97] m' = Inr (l, m')"
proof -
  let ?m = "\<lparr>ledgerPath = [47] @ ledger_str, ledgers = []\<rparr> :: Conf ledgerManager"
  let ?l = "NewConf (ledgerPath ?m @ [97]) 0"
  have "Initialize [47] = Inr ?m" by (simp add: Initialize_def withSlash_def)
  moreover have "GetLedger Inr [97] (Some ?m) = Inr (?l, Some (?m\<lparr>ledgers := mput (ledgerPath ?m @ [97]) ?l []\<rparr>))"
    by (simp add: GetLedger_def lm_create_def Let_def)
  ultimately show ?thesis using ledger_of_name [of Inr "[97]" ?m] by blast
qed

end
