(* ===== verification/SBFT_State.thy ===== *)
theory SBFT_State
  imports Prelude
begin

text \<open>
  The replica of the simple BFT orderer (orderer/sbft/simplebft): its messages, its state, the system it
  runs on, and the small operations of simplebft.go, crypto.go and batch.go that everything else uses.

  Pointers to messages that may be nil are options. Messages are values: what is sent is what the message
  was when it was sent. What the replica does to the system around it is recorded in the order it is done.
\<close>

section \<open>Messages\<close>

record SeqView =
  svView :: u64
  svSeq :: u64

record BatchHeader =
  bhSeq :: u64
  bhPrevHash :: nbytes
  bhDataHash :: nbytes

record Batch =
  Header :: bytes
  Payloads :: "bytes list"
  Signatures :: "(u64, bytes) gomap"

record Request =
  rqPayload :: bytes

record Preprepare =
  ppSeq :: "SeqView option"
  ppBatch :: "Batch option"

record Subject =
  sbSeq :: "SeqView option"
  sbDigest :: nbytes

record ViewChange =
  vcView :: u64
  vcPset :: "Subject list"
  vcQset :: "Subject list"
  vcCheckpoint :: "Batch option"

record Signed =
  sgData :: bytes
  sgSignature :: bytes

record NewView =
  nvView :: u64
  nvVset :: "(u64, Signed) gomap"
  nvXset :: "Subject option"
  nvBatch :: "Batch option"

record Checkpoint =
  ckSeq :: u64
  ckDigest :: nbytes
  ckSignature :: bytes

record Hello =
  hBatch :: "Batch option"
  hNewView :: "NewView option"

datatype Msg =
    Msg_Request Request
  | Msg_Preprepare Preprepare
  | Msg_Prepare Subject
  | Msg_Commit Subject
  | Msg_ViewChange Signed
  | Msg_NewView NewView
  | Msg_Checkpoint Checkpoint
  | Msg_Hello Hello
  | Msg_None

record Config =
  cfN :: u64
  cfF :: u64
  cfBatchDurationNsec :: u64
  cfBatchSizeBytes :: u64
  cfRequestTimeoutNsec :: u64

section \<open>The system\<close>

text \<open>
  What the replica asks of the system and of code outside the repository: the last batch that was
  delivered and the delivery of a batch, signatures, the hash, the protobuf encoding of the messages that are
  hashed or signed, and the orders in which maps are visited (the \<open>n\<close>-th map visited has the \<open>n\<close>-th order).
\<close>

record 'y System =
  LastBatch :: "'y \<Rightarrow> Batch"
  Deliver :: "Batch \<Rightarrow> 'y \<Rightarrow> 'y"
  Sign :: "bytes \<Rightarrow> bytes"
  CheckSig :: "bytes \<Rightarrow> u64 \<Rightarrow> bytes \<Rightarrow> bool"
  sha256 :: "bytes \<Rightarrow> bytes"
  marshalHeader :: "BatchHeader \<Rightarrow> bytes"
  unmarshalHeader :: "bytes \<Rightarrow> BatchHeader option"
  marshalVC :: "ViewChange \<Rightarrow> bytes"
  unmarshalVC :: "bytes \<Rightarrow> ViewChange option"
  ordPending :: "nat \<Rightarrow> (gostring, Request) map_order"
  ordCheckpoint :: "nat \<Rightarrow> (u64, Checkpoint) map_order"
  ordVset :: "nat \<Rightarrow> (u64, Signed) map_order"

datatype timerCall = CallSendNextBatch | CallRequestTimeout | CallViewChange

datatype Canceller = dummyCanceller | Timer nat

datatype persisted = P_Preprepare Preprepare | P_Subject Subject

datatype event =
    Send Msg u64
  | SetTimer nat u64 timerCall
  | Cancel nat
  | Delivered Batch
  | Persist string persisted
  | Reconnect u64

section \<open>The state\<close>

record reqInfo =
  subject :: Subject
  timeout :: Canceller
  preprep :: "Preprepare option"
  prep :: "(u64, Subject) gomap option"
  commit :: "(u64, Subject) gomap option"
  sentCommit :: bool
  executed :: bool
  checkpoint :: "(u64, Checkpoint) gomap option"
  checkpointDone :: bool

record replicaInfo =
  backLog :: "Msg list"
  hello :: "Hello option"
  signedViewchange :: "Signed option"
  viewchange :: "ViewChange option"
  newview :: "NewView option"

record 'y SBFT =
  sys :: 'y
  config :: Config
  rid :: u64
  curView :: u64
  reqBatch :: "Request list"
  batchTimer :: "Canceller option"
  cur :: reqInfo
  activeView :: bool
  lastNewViewSent :: "NewView option"
  viewChangeTimeout :: u64
  viewChangeTimer :: Canceller
  replicaState :: "replicaInfo list"
  pending :: "(gostring, Request) gomap"
  events :: "event list"
  timersSet :: nat
  mapsVisited :: nat

definition emit :: "event \<Rightarrow> 'y SBFT \<Rightarrow> 'y SBFT" where
  "emit e s = s\<lparr>events := events s @ [e]\<rparr>"

definition cancel :: "Canceller \<Rightarrow> 'y SBFT \<Rightarrow> 'y SBFT" where
  "cancel c s = (case c of dummyCanceller \<Rightarrow> s | Timer n \<Rightarrow> emit (Cancel n) s)"

definition setTimer :: "u64 \<Rightarrow> timerCall \<Rightarrow> 'y SBFT \<Rightarrow> Canceller \<times> 'y SBFT" where
  "setTimer d f s = (Timer (timersSet s), emit (SetTimer (timersSet s) d f) (s\<lparr>timersSet := Suc (timersSet s)\<rparr>))"

definition visited :: "'y SBFT \<Rightarrow> 'y SBFT" where
  "visited s = s\<lparr>mapsVisited := Suc (mapsVisited s)\<rparr>"

definition setReplica :: "u64 \<Rightarrow> (replicaInfo \<Rightarrow> replicaInfo) \<Rightarrow> 'y SBFT \<Rightarrow> error + 'y SBFT" where
  "setReplica i f s =
     bindE (goindex (replicaState s) i) (\<lambda>r. Inr (s\<lparr>replicaState := (replicaState s)[unat i := f r]\<rparr>))"

section \<open>Hashes\<close>

fun base64_char :: "nat \<Rightarrow> byte" where
  "base64_char n =
     (if n < 26 then of_nat (65 + n) else if n < 52 then of_nat (71 + n) else if n < 62 then of_nat (n - 4)
      else if n = 62 then 43 else 47)"

fun EncodeToString :: "bytes \<Rightarrow> gostring" where
  "EncodeToString [] = []"
| "EncodeToString [a] = [base64_char (unat a div 4), base64_char (unat a mod 4 * 16)]"
| "EncodeToString [a, b] =
     [base64_char (unat a div 4), base64_char (unat a mod 4 * 16 + unat b div 16), base64_char (unat b mod 16 * 4)]"
| "EncodeToString (a # b # c # r) =
     [base64_char (unat a div 4), base64_char (unat a mod 4 * 16 + unat b div 16),
      base64_char (unat b mod 16 * 4 + unat c div 64), base64_char (unat c mod 64)] @ EncodeToString r"

definition hash2str :: "bytes \<Rightarrow> gostring" where
  "hash2str h = EncodeToString h"

fun pairDigests :: "(bytes \<Rightarrow> bytes) \<Rightarrow> bytes list \<Rightarrow> bytes list" where
  "pairDigests H (p # d # ds) = H (p @ d) # pairDigests H ds"
| "pairDigests H ds = ds"

lemma length_pairDigests: "length (pairDigests H ds) = (length ds + 1) div 2"
  by (induction H ds rule: pairDigests.induct) simp_all

function merkleHashDigests :: "(bytes \<Rightarrow> bytes) \<Rightarrow> bytes list \<Rightarrow> nbytes" where
  "merkleHashDigests H digests =
     (if 1 < length digests then merkleHashDigests H (pairDigests H digests)
      else case digests of [] \<Rightarrow> None | d # _ \<Rightarrow> Some d)"
  by auto
termination by (relation "measure (\<lambda>(H, ds). length ds)") (auto simp: length_pairDigests)

declare merkleHashDigests.simps [simp del]

definition merkleHashData :: "(bytes \<Rightarrow> bytes) \<Rightarrow> bytes list \<Rightarrow> nbytes" where
  "merkleHashData H data = merkleHashDigests H (map H data)"

section \<open>Quorums and broadcast\<close>

definition primaryIDView :: "u64 \<Rightarrow> 'y SBFT \<Rightarrow> error + u64" where
  "primaryIDView v s =
     (if cfN (config s) = 0 then Inl (Panic ''integer divide by zero'') else Inr (v mod cfN (config s)))"

definition primaryID :: "'y SBFT \<Rightarrow> error + u64" where
  "primaryID s = primaryIDView (curView s) s"

definition isPrimary :: "'y SBFT \<Rightarrow> error + bool" where
  "isPrimary s = bindE (primaryID s) (\<lambda>p. Inr (p = rid s))"

definition nextView :: "'y SBFT \<Rightarrow> u64" where
  "nextView s = curView s + 1"

definition noFaultyQuorum :: "'y SBFT \<Rightarrow> int" where
  "noFaultyQuorum s = int_of_u64 (cfN (config s) - cfF (config s))"

definition oneCorrectQuorum :: "'y SBFT \<Rightarrow> int" where
  "oneCorrectQuorum s = int_of_u64 (cfF (config s) + 1)"

definition broadcast :: "Msg \<Rightarrow> 'y SBFT \<Rightarrow> 'y SBFT" where
  "broadcast m s = fold (\<lambda>i. emit (Send m (of_nat i))) [0..<unat (cfN (config s))] s"

section \<open>Signatures and batches\<close>

definition sign :: "'y System \<Rightarrow> ViewChange \<Rightarrow> Signed" where
  "sign Y vc = \<lparr>sgData = marshalVC Y vc, sgSignature = Sign Y (marshalVC Y vc)\<rparr>"

definition checkBytesSig :: "'y System \<Rightarrow> bytes \<Rightarrow> u64 \<Rightarrow> bytes \<Rightarrow> error + unit" where
  "checkBytesSig Y digest signer sig =
     (if CheckSig Y digest signer sig then Inr () else Inl (ErrMsg ''invalid signature''))"

definition checkSig :: "'y System \<Rightarrow> Signed \<Rightarrow> u64 \<Rightarrow> error + ViewChange" where
  "checkSig Y sig signer =
     bindE (checkBytesSig Y (sgData sig) signer (sgSignature sig)) (\<lambda>_.
       case unmarshalVC Y (sgData sig) of None \<Rightarrow> Inl (ErrMsg ''unmarshal'') | Some vc \<Rightarrow> Inr vc)"

definition batch_Hash :: "'y System \<Rightarrow> Batch \<Rightarrow> bytes" where
  "batch_Hash Y b = sha256 Y (Header b)"

definition DecodeHeader :: "'y System \<Rightarrow> Batch \<Rightarrow> error + BatchHeader" where
  "DecodeHeader Y b = (case unmarshalHeader Y (Header b) of None \<Rightarrow> Inl (Panic ''unmarshal'') | Some h \<Rightarrow> Inr h)"

definition makeBatch :: "'y System \<Rightarrow> u64 \<Rightarrow> nbytes \<Rightarrow> bytes list \<Rightarrow> Batch" where
  "makeBatch Y seq prevHash data =
     \<lparr>Header = marshalHeader Y \<lparr>bhSeq = seq, bhPrevHash = prevHash, bhDataHash = merkleHashData (sha256 Y) data\<rparr>,
      Payloads = data, Signatures = []\<rparr>"

definition checkBatch :: "'y System \<Rightarrow> Batch option \<Rightarrow> bool \<Rightarrow> bool \<Rightarrow> 'y SBFT \<Rightarrow> error + BatchHeader" where
  "checkBatch Y bp checkData needSigs s =
     bindE (deref bp) (\<lambda>b.
       case unmarshalHeader Y (Header b) of
         None \<Rightarrow> Inl (ErrMsg ''unmarshal'')
       | Some batchheader \<Rightarrow>
          if checkData \<and> merkleHashData (sha256 Y) (Payloads b) \<noteq> bhDataHash batchheader then
            Inl (ErrMsg ''malformed batch: invalid hash'')
          else if bhPrevHash batchheader \<noteq> None \<and> needSigs \<and> int (length (Signatures b)) < oneCorrectQuorum s then
            Inl (ErrMsg ''insufficient number of signatures on batch'')
          else if \<not> list_all (\<lambda>(r, sig). CheckSig Y (batch_Hash Y b) r sig) (Signatures b) then
            Inl (ErrMsg ''invalid signature'')
          else Inr batchheader)"

section \<open>Sequence numbers and delivery\<close>

definition seq :: "'y System \<Rightarrow> 'y SBFT \<Rightarrow> error + u64" where
  "seq Y s = bindE (DecodeHeader Y (LastBatch Y (sys s))) (\<lambda>h. Inr (bhSeq h))"

definition nextSeq :: "'y System \<Rightarrow> 'y SBFT \<Rightarrow> error + SeqView" where
  "nextSeq Y s = bindE (seq Y s) (\<lambda>n. Inr \<lparr>svView = curView s, svSeq = n + 1\<rparr>)"

definition deliverBatch :: "'y System \<Rightarrow> Batch \<Rightarrow> 'y SBFT \<Rightarrow> 'y SBFT" where
  "deliverBatch Y b s =
     (let s = emit (Delivered b) (s\<lparr>sys := Deliver Y b (sys s)\<rparr>)
      in s\<lparr>pending := fold (\<lambda>req. mdel (hash2str (sha256 Y req))) (Payloads b) (pending s)\<rparr>)"

end
