(* ===== verification/SBFT_Xset.thy ===== *)
theory SBFT_Xset
  imports SBFT_State
begin

text \<open>
  Which request a new view has to start with (xset.go): the most recent checkpoint of the view changes and
  the request that may have been executed after it.
\<close>

definition vcSeq :: "'y System \<Rightarrow> ViewChange \<Rightarrow> error + u64" where
  "vcSeq Y vc = bindE (deref (vcCheckpoint vc)) (\<lambda>b. bindE (DecodeHeader Y b) (\<lambda>h. Inr (bhSeq h)))"

fun xsetBest :: "'y System \<Rightarrow> Batch option \<Rightarrow> ViewChange list \<Rightarrow> error + Batch option" where
  "xsetBest Y best [] = Inr best"
| "xsetBest Y best (vc # vcs) =
     bindE (vcSeq Y vc) (\<lambda>n.
       case best of
         None \<Rightarrow> xsetBest Y (vcCheckpoint vc) vcs
       | Some b \<Rightarrow> bindE (DecodeHeader Y b) (\<lambda>h.
           xsetBest Y (if bhSeq h < n then vcCheckpoint vc else best) vcs))"

text \<open>Whether the prepared requests of a replica allow \<open>mtuple\<close>: none of its number is of a later view or differs.\<close>

fun pTuplesAllow :: "SeqView \<Rightarrow> nbytes \<Rightarrow> Subject list \<Rightarrow> error + bool" where
  "pTuplesAllow sv dig [] = Inr True"
| "pTuplesAllow sv dig (mp # mps) =
     bindE (deref (sbSeq mp)) (\<lambda>mv.
       if svSeq mv \<noteq> svSeq sv then pTuplesAllow sv dig mps
       else if svView mv < svView sv \<or> svView mv = svView sv \<and> sbDigest mp = dig then pTuplesAllow sv dig mps
       else Inr False)"

fun countA1 :: "'y System \<Rightarrow> SeqView \<Rightarrow> nbytes \<Rightarrow> ViewChange list \<Rightarrow> error + int" where
  "countA1 Y sv dig [] = Inr 0"
| "countA1 Y sv dig (mp # mps) =
     bindE (vcSeq Y mp) (\<lambda>n.
       if svSeq sv < n then countA1 Y sv dig mps
       else bindE (pTuplesAllow sv dig (vcPset mp)) (\<lambda>ok.
              bindE (countA1 Y sv dig mps) (\<lambda>k. Inr (if ok then k + 1 else k))))"

fun qTuplesHave :: "SeqView \<Rightarrow> nbytes \<Rightarrow> Subject list \<Rightarrow> error + bool" where
  "qTuplesHave sv dig [] = Inr False"
| "qTuplesHave sv dig (mp # mps) =
     bindE (deref (sbSeq mp)) (\<lambda>mv.
       if svSeq mv \<noteq> svSeq sv \<or> svView mv < svView sv \<or> sbDigest mp \<noteq> dig then qTuplesHave sv dig mps
       else Inr True)"

fun countA2 :: "SeqView \<Rightarrow> nbytes \<Rightarrow> ViewChange list \<Rightarrow> error + int" where
  "countA2 sv dig [] = Inr 0"
| "countA2 sv dig (mp # mps) =
     bindE (qTuplesHave sv dig (vcQset mp)) (\<lambda>ok.
       bindE (countA2 sv dig mps) (\<lambda>k. Inr (if ok then k + 1 else k)))"

text \<open>The entries of one replica's P-set: the selected digest, and whether no entry was found.\<close>

fun selectFrom ::
  "'y System \<Rightarrow> 'y SBFT \<Rightarrow> u64 \<Rightarrow> ViewChange list \<Rightarrow> bool \<Rightarrow> Subject list \<Rightarrow> error + nbytes option \<times> bool" where
  "selectFrom Y s nxt vcs notfound [] = Inr (None, notfound)"
| "selectFrom Y s nxt vcs notfound (m # ms) =
     bindE (deref (sbSeq m)) (\<lambda>sv.
       if svSeq sv < nxt then selectFrom Y s nxt vcs notfound ms
       else bindE (countA1 Y sv (sbDigest m) vcs) (\<lambda>count.
         if count < noFaultyQuorum s then selectFrom Y s nxt vcs False ms
         else bindE (countA2 sv (sbDigest m) vcs) (\<lambda>count.
           if count < oneCorrectQuorum s then selectFrom Y s nxt vcs False ms
           else Inr (Some (sbDigest m), False))))"

fun selectLoop ::
  "'y System \<Rightarrow> 'y SBFT \<Rightarrow> u64 \<Rightarrow> ViewChange list \<Rightarrow> int \<Rightarrow> ViewChange list \<Rightarrow> error + nbytes option \<times> int" where
  "selectLoop Y s nxt vcs emptycount [] = Inr (None, emptycount)"
| "selectLoop Y s nxt vcs emptycount (m # ms) =
     bindE (selectFrom Y s nxt vcs True (vcPset m)) (\<lambda>(found, notfound).
       case found of
         Some dig \<Rightarrow> Inr (Some dig, emptycount)
       | None \<Rightarrow> selectLoop Y s nxt vcs (if notfound then emptycount + 1 else emptycount) ms)"

text \<open>The subject and the batch, or None when the view changes are not sufficient.\<close>

definition makeXset ::
  "'y System \<Rightarrow> ViewChange list \<Rightarrow> 'y SBFT \<Rightarrow> error + (Subject option \<times> Batch) option" where
  "makeXset Y vcs s =
     bindE (xsetBest Y None vcs) (\<lambda>best.
       case best of
         None \<Rightarrow> Inr None
       | Some best \<Rightarrow>
          bindE (DecodeHeader Y best) (\<lambda>h.
          let nxt = bhSeq h + 1 in
          bindE (selectLoop Y s nxt vcs 0 vcs) (\<lambda>(xset, emptycount).
            if noFaultyQuorum s \<le> emptycount then Inr (Some (None, best))
            else case xset of
                None \<Rightarrow> Inr None
              | Some dig \<Rightarrow>
                  Inr (Some (Some \<lparr>sbSeq = Some \<lparr>svView = curView s, svSeq = nxt\<rparr>, sbDigest = dig\<rparr>, best)))))"

end
