(* ===== verification/SBFT_Replica.thy ===== *)
theory SBFT_Replica
  imports SBFT_Xset
begin

text \<open>
  The replica's protocol: requests, the three phases of a batch, checkpoints, the backlog, view changes, new
  views and connections. A handler takes the state and returns the next one, or the panic that ends the
  process. Handlers that end in processing the backlog take that function as an argument, since it
  calls them; the knot is tied in \<open>scanBacklog\<close>.
\<close>

definition updCur :: "(reqInfo \<Rightarrow> reqInfo) \<Rightarrow> 'y SBFT \<Rightarrow> 'y SBFT" where
  "updCur f s = s\<lparr>cur := f (cur s)\<rparr>"

definition curSeq :: "'y SBFT \<Rightarrow> error + SeqView" where
  "curSeq s = deref (sbSeq (subject (cur s)))"

text \<open>The length of a map that may be nil.\<close>

definition mapLen :: "('k, 'v) gomap option \<Rightarrow> int" where
  "mapLen m = (case m of None \<Rightarrow> 0 | Some m \<Rightarrow> int (length m))"

section \<open>Commit and prepare\<close>

definition sendCommit :: "'y SBFT \<Rightarrow> 'y SBFT" where
  "sendCommit s =
     (let s = updCur (\<lambda>c. c\<lparr>sentCommit := True\<rparr>) s; c = subject (cur s)
      in broadcast (Msg_Commit c) (emit (Persist ''commit'' (P_Subject c)) s))"

definition maybeSendCommit :: "'y SBFT \<Rightarrow> 'y SBFT" where
  "maybeSendCommit s =
     (if sentCommit (cur s) \<or> mapLen (prep (cur s)) < goint (noFaultyQuorum s - 1)
      then s else sendCommit s)"

definition sendPrepare :: "'y SBFT \<Rightarrow> 'y SBFT" where
  "sendPrepare s = broadcast (Msg_Prepare (subject (cur s))) s"

text \<open>Assigning to an entry of a nil map panics.\<close>

definition mapAssign :: "'k \<Rightarrow> 'v \<Rightarrow> ('k, 'v) gomap option \<Rightarrow> error + ('k, 'v) gomap option" where
  "mapAssign k v m =
     (case m of None \<Rightarrow> Inl (Panic ''assignment to entry in nil map'') | Some m \<Rightarrow> Inr (Some (mput k v m)))"

definition mapHas :: "'k \<Rightarrow> ('k, 'v) gomap option \<Rightarrow> bool" where
  "mapHas k m = (case m of None \<Rightarrow> False | Some m \<Rightarrow> map_of m k \<noteq> None)"

definition handlePrepare :: "Subject \<Rightarrow> u64 \<Rightarrow> 'y SBFT \<Rightarrow> error + 'y SBFT" where
  "handlePrepare p src s =
     bindE (deref (sbSeq p)) (\<lambda>psv.
     bindE (curSeq s) (\<lambda>csv.
       if svSeq psv < svSeq csv then Inr s
       else if p \<noteq> subject (cur s) then Inr s
       else if mapHas src (prep (cur s)) then Inr s
       else bindE (mapAssign src p (prep (cur s))) (\<lambda>m.
         Inr (maybeSendCommit (updCur (\<lambda>c. c\<lparr>prep := m\<rparr>) s)))))"

section \<open>Checkpoints sent\<close>

definition makeCheckpoint :: "'y System \<Rightarrow> 'y SBFT \<Rightarrow> error + Checkpoint" where
  "makeCheckpoint Y s =
     bindE (curSeq s) (\<lambda>sv.
       Inr \<lparr>ckSeq = svSeq sv, ckDigest = sbDigest (subject (cur s)),
            ckSignature = Sign Y (of_nbytes (sbDigest (subject (cur s))))\<rparr>)"

definition sendCheckpoint :: "'y System \<Rightarrow> 'y SBFT \<Rightarrow> error + 'y SBFT" where
  "sendCheckpoint Y s = bindE (makeCheckpoint Y s) (\<lambda>c. Inr (broadcast (Msg_Checkpoint c) s))"

definition maybeExecute :: "'y System \<Rightarrow> 'y SBFT \<Rightarrow> error + 'y SBFT" where
  "maybeExecute Y s =
     (if executed (cur s) \<or> mapLen (commit (cur s)) < noFaultyQuorum s then Inr s
      else let s = updCur (\<lambda>c. c\<lparr>executed := True\<rparr>) s
           in sendCheckpoint Y (emit (Persist ''execute'' (P_Subject (subject (cur s)))) s))"

definition cancelViewChangeTimer :: "'y SBFT \<Rightarrow> 'y SBFT" where
  "cancelViewChangeTimer s =
     (cancel (viewChangeTimer s) s)\<lparr>viewChangeTimeout := cfRequestTimeoutNsec (config s) * 2\<rparr>"

definition handleCommit :: "'y System \<Rightarrow> Subject \<Rightarrow> u64 \<Rightarrow> 'y SBFT \<Rightarrow> error + 'y SBFT" where
  "handleCommit Y c src s =
     bindE (deref (sbSeq c)) (\<lambda>psv.
     bindE (curSeq s) (\<lambda>csv.
       if svSeq psv < svSeq csv then Inr s
       else if c \<noteq> subject (cur s) then Inr s
       else if mapHas src (commit (cur s)) then Inr s
       else bindE (mapAssign src c (commit (cur s))) (\<lambda>m.
         maybeExecute Y (cancelViewChangeTimer (updCur (\<lambda>r. r\<lparr>commit := m\<rparr>) s)))))"

section \<open>Preprepare\<close>

definition acceptPreprepare :: "'y System \<Rightarrow> Preprepare \<Rightarrow> 'y SBFT \<Rightarrow> error + 'y SBFT" where
  "acceptPreprepare Y pp s =
     bindE (deref (ppBatch pp)) (\<lambda>b.
       let sub = \<lparr>sbSeq = ppSeq pp, sbDigest = Some (batch_Hash Y b)\<rparr>;
           s = emit (Persist ''preprepare'' (P_Preprepare pp)) s;
           (t, s) = setTimer (cfRequestTimeoutNsec (config s)) CallRequestTimeout s
       in Inr (s\<lparr>cur := \<lparr>subject = sub, timeout = t, preprep = Some pp, prep = Some [], commit = Some [],
                          sentCommit = False, executed = False, checkpoint = Some [], checkpointDone = False\<rparr>\<rparr>))"

definition handleCheckedPreprepare :: "'y System \<Rightarrow> Preprepare \<Rightarrow> 'y SBFT \<Rightarrow> error + 'y SBFT" where
  "handleCheckedPreprepare Y pp s =
     bindE (acceptPreprepare Y pp s) (\<lambda>s.
     bindE (isPrimary s) (\<lambda>p.
       Inr (maybeSendCommit (if p then s else sendPrepare s))))"

definition sendPreprepare :: "'y System \<Rightarrow> Request list \<Rightarrow> 'y SBFT \<Rightarrow> error + 'y SBFT" where
  "sendPreprepare Y reqs s =
     bindE (nextSeq Y s) (\<lambda>sv.
       let lasthash = sha256 Y (Header (LastBatch Y (sys s)));
           m = \<lparr>ppSeq = Some sv, ppBatch = Some (makeBatch Y (svSeq sv) (Some lasthash) (map rqPayload reqs))\<rparr>;
           s = emit (Persist ''preprepare'' (P_Preprepare m)) s
       in handleCheckedPreprepare Y m (broadcast (Msg_Preprepare m) s))"

definition handlePreprepare :: "'y System \<Rightarrow> Preprepare \<Rightarrow> u64 \<Rightarrow> 'y SBFT \<Rightarrow> error + 'y SBFT" where
  "handlePreprepare Y pp src s =
     (if src = rid s then Inr s
      else bindE (primaryID s) (\<lambda>p.
        if src \<noteq> p then Inr s
        else bindE (nextSeq Y s) (\<lambda>nxt.
          bindE (deref (ppSeq pp)) (\<lambda>psv.
          if psv \<noteq> nxt then Inr s
          else bindE (curSeq s) (\<lambda>csv.
            if svSeq csv = svSeq psv then Inr s
            else if ppBatch pp = None then Inr s
            else catchE (checkBatch Y (ppBatch pp) True False s) (\<lambda>_. Inr s) (\<lambda>h.
              if bhSeq h \<noteq> svSeq psv then Inr s
              else if of_nbytes (bhPrevHash h) \<noteq> batch_Hash Y (LastBatch Y (sys s)) then Inr s
              else handleCheckedPreprepare Y pp s))))))"

section \<open>Requests\<close>

definition maybeSendNextBatch :: "'y System \<Rightarrow> 'y SBFT \<Rightarrow> error + 'y SBFT" where
  "maybeSendNextBatch Y s =
     (let s = (case batchTimer s of None \<Rightarrow> s | Some t \<Rightarrow> (cancel t s)\<lparr>batchTimer := None\<rparr>) in
      bindE (isPrimary s) (\<lambda>p.
        if \<not> p \<or> \<not> activeView s then Inr s
        else if \<not> checkpointDone (cur s) then Inr s
        else let s = (if reqBatch s = []
                      then visited (s\<lparr>reqBatch := map snd (ordPending Y (mapsVisited s) (pending s))\<rparr>) else s)
             in if reqBatch s = [] then Inr s
                else sendPreprepare Y (reqBatch s) (s\<lparr>reqBatch := []\<rparr>)))"

definition startBatchTimer :: "'y SBFT \<Rightarrow> 'y SBFT" where
  "startBatchTimer s =
     (case batchTimer s of
        None \<Rightarrow> let (t, s) = setTimer (cfBatchDurationNsec (config s)) CallSendNextBatch s in s\<lparr>batchTimer := Some t\<rparr>
      | Some _ \<Rightarrow> s)"

definition batchSize :: "'y SBFT \<Rightarrow> u64" where
  "batchSize s = fold (\<lambda>req size. size + u64_len (rqPayload req)) (reqBatch s) 0"

definition handleRequest :: "'y System \<Rightarrow> Request \<Rightarrow> u64 \<Rightarrow> 'y SBFT \<Rightarrow> error + 'y SBFT" where
  "handleRequest Y req src s =
     (let s = s\<lparr>pending := mput (hash2str (sha256 Y (rqPayload req))) req (pending s)\<rparr> in
      bindE (isPrimary s) (\<lambda>p.
        if p \<and> activeView s then
          let s = s\<lparr>reqBatch := reqBatch s @ [req]\<rparr> in
          if cfBatchSizeBytes (config s) \<le> batchSize s then maybeSendNextBatch Y s else Inr (startBatchTimer s)
        else Inr s))"

definition sbft_Request :: "bytes \<Rightarrow> 'y SBFT \<Rightarrow> 'y SBFT" where
  "sbft_Request req s = broadcast (Msg_Request \<lparr>rqPayload = req\<rparr>) s"

section \<open>Checkpoints received\<close>

fun hexDigit :: "nat \<Rightarrow> byte" where
  "hexDigit n = (if n < 10 then of_nat (48 + n) else of_nat (87 + n))"

declare hexDigit.simps [simp del]

definition fmtHex :: "bytes \<Rightarrow> gostring" where
  "fmtHex b = concat (map (\<lambda>x. [hexDigit (unat x div 16), hexDigit (unat x mod 16)]) b)"

text \<open>The replicas by digest, and the last digest to have reached the weak quorum; \<open>max\<close> starts as \<open>_\<close>.\<close>

fun countSums ::
  "int \<Rightarrow> gostring \<Rightarrow> (gostring, u64 list) gomap \<Rightarrow> (u64 \<times> Checkpoint) list \<Rightarrow> gostring \<times> (gostring, u64 list) gomap" where
  "countSums quorum mx sums [] = (mx, sums)"
| "countSums quorum mx sums ((csrc, c) # cs) =
     (let sum = fmtHex (of_nbytes (ckDigest c));
          rs = (case map_of sums sum of None \<Rightarrow> [] | Some l \<Rightarrow> l) @ [csrc];
          sums = mput sum rs sums
      in countSums quorum (if quorum \<le> int (length rs) then sum else mx) sums cs)"

definition deliverCheckpointed ::
  "'y System \<Rightarrow> ('y SBFT \<Rightarrow> error + 'y SBFT) \<Rightarrow> (u64, Checkpoint) gomap \<Rightarrow> u64 list \<Rightarrow> 'y SBFT \<Rightarrow> error + 'y SBFT" where
  "deliverCheckpointed Y processBacklog cps replicas s =
     (let sigOf = (\<lambda>r. case map_of cps r of None \<Rightarrow> [] | Some cp \<Rightarrow> ckSignature cp);
          cpset = fold (\<lambda>r. mput r (sigOf r)) replicas [];
          s = updCur (\<lambda>r. r\<lparr>checkpointDone := True\<rparr>) s
      in bindE (deref (map_of cps (hd replicas))) (\<lambda>c.
         if ckDigest c \<noteq> sbDigest (subject (cur s)) then Inl (Panic ''weak checkpoint does not match our state'')
         else bindE (deref (preprep (cur s))) (\<lambda>pp.
              bindE (deref (ppBatch pp)) (\<lambda>b.
                let s = deliverBatch Y (b\<lparr>Signatures := cpset\<rparr>) s;
                    s = cancel (timeout (cur s)) s
                in bindE (maybeSendNextBatch Y s) processBacklog))))"

definition handleCheckpoint ::
  "'y System \<Rightarrow> ('y SBFT \<Rightarrow> error + 'y SBFT) \<Rightarrow> Checkpoint \<Rightarrow> u64 \<Rightarrow> 'y SBFT \<Rightarrow> error + 'y SBFT" where
  "handleCheckpoint Y processBacklog c src s =
     (if checkpointDone (cur s) then Inr s
      else bindE (curSeq s) (\<lambda>csv.
        if ckSeq c < svSeq csv then Inr s
        else if \<not> CheckSig Y (of_nbytes (ckDigest c)) src (ckSignature c) then Inr s
        else if ckSeq c \<noteq> svSeq csv then Inr s
        else bindE (mapAssign src c (checkpoint (cur s))) (\<lambda>m.
          let s = updCur (\<lambda>r. r\<lparr>checkpoint := m\<rparr>) s;
              cps = the m;
              (mx, sums) = countSums (oneCorrectQuorum s) [95] [] (ordCheckpoint Y (mapsVisited s) cps);
              s = visited s
          in case map_of sums mx of
               None \<Rightarrow> Inr s
             | Some replicas \<Rightarrow> deliverCheckpointed Y processBacklog cps replicas s)))"

section \<open>The backlog\<close>

definition maxBacklogSeq :: nat where
  "maxBacklogSeq = 4"

definition msgPerSeq :: nat where
  "msgPerSeq = 3"

text \<open>A checkpoint is tested with the sequence number 0 of an empty message, not with its own.\<close>

definition recordSeq :: "'y SBFT \<Rightarrow> SeqView option \<Rightarrow> error + bool" where
  "recordSeq s sv =
     (if \<not> activeView s then Inr True
      else bindE (deref sv) (\<lambda>sv. bindE (curSeq s) (\<lambda>csv.
        Inr (svSeq csv < svSeq sv \<or> curView s < svView sv))))"

definition testBacklogMessage :: "Msg \<Rightarrow> u64 \<Rightarrow> 'y SBFT \<Rightarrow> error + bool" where
  "testBacklogMessage m src s =
     (case m of
        Msg_Preprepare pp \<Rightarrow> bindE (recordSeq s (ppSeq pp)) (\<lambda>r. Inr (r \<and> \<not> checkpointDone (cur s)))
      | Msg_Prepare p \<Rightarrow> recordSeq s (sbSeq p)
      | Msg_Commit c \<Rightarrow> recordSeq s (sbSeq c)
      | Msg_Checkpoint c \<Rightarrow> recordSeq s (Some \<lparr>svView = 0, svSeq = 0\<rparr>)
      | _ \<Rightarrow> Inr False)"

definition testBacklog :: "Msg \<Rightarrow> u64 \<Rightarrow> 'y SBFT \<Rightarrow> error + bool" where
  "testBacklog m src s =
     bindE (goindex (replicaState s) src) (\<lambda>r.
       if backLog r \<noteq> [] then Inr True else testBacklogMessage m src s)"

definition discardBacklog :: "u64 \<Rightarrow> 'y SBFT \<Rightarrow> error + 'y SBFT" where
  "discardBacklog src s = setReplica src (\<lambda>r. r\<lparr>backLog := []\<rparr>) s"

definition recordBacklogMsg :: "Msg \<Rightarrow> u64 \<Rightarrow> 'y SBFT \<Rightarrow> error + 'y SBFT" where
  "recordBacklogMsg m src s =
     (if src = rid s then Inl (Panic ''should never have to backlog my own message'')
      else bindE (setReplica src (\<lambda>r. r\<lparr>backLog := backLog r @ [m]\<rparr>) s) (\<lambda>s.
           bindE (goindex (replicaState s) src) (\<lambda>r.
             if maxBacklogSeq * msgPerSeq < length (backLog r)
             then bindE (discardBacklog src s) (\<lambda>s. Inr (emit (Reconnect src) s))
             else Inr s)))"

definition handleQueueableMessage ::
  "'y System \<Rightarrow> ('y SBFT \<Rightarrow> error + 'y SBFT) \<Rightarrow> Msg \<Rightarrow> u64 \<Rightarrow> 'y SBFT \<Rightarrow> error + 'y SBFT" where
  "handleQueueableMessage Y processBacklog m src s =
     (case m of
        Msg_Preprepare pp \<Rightarrow> handlePreprepare Y pp src s
      | Msg_Prepare p \<Rightarrow> handlePrepare p src s
      | Msg_Commit c \<Rightarrow> handleCommit Y c src s
      | Msg_Checkpoint c \<Rightarrow> handleCheckpoint Y processBacklog c src s
      | _ \<Rightarrow> Inr s)"

text \<open>
  The loops of \<open>processBacklog\<close>: over the replicas, again as long as a message was processed. The fuel bounds
  the depth of the recursion; \<open>backlogFuel\<close> is enough of it.
\<close>

fun scanBacklog :: "'y System \<Rightarrow> nat \<Rightarrow> nat \<Rightarrow> bool \<Rightarrow> 'y SBFT \<Rightarrow> error + 'y SBFT" where
  "scanBacklog Y 0 src processed s = Inl (ErrMsg ''out of fuel'')"
| "scanBacklog Y (Suc n) src processed s =
     (if length (replicaState s) \<le> src then
        (if processed then scanBacklog Y n 0 False s else Inr s)
      else case backLog (replicaState s ! src) of
          [] \<Rightarrow> scanBacklog Y n (Suc src) processed s
        | m # rest \<Rightarrow>
           bindE (testBacklogMessage m (of_nat src) s) (\<lambda>notReady.
             if notReady then scanBacklog Y n (Suc src) processed s
             else bindE (handleQueueableMessage Y (scanBacklog Y n 0 False) m (of_nat src)
                    (s\<lparr>replicaState := (replicaState s)[src := (replicaState s ! src)\<lparr>backLog := rest\<rparr>]\<rparr>))
                    (scanBacklog Y n src True)))"

definition backlogTotal :: "'y SBFT \<Rightarrow> nat" where
  "backlogTotal s = sum_list (map (\<lambda>r. length (backLog r)) (replicaState s))"

definition backlogFuel :: "'y SBFT \<Rightarrow> nat" where
  "backlogFuel s = backlogTotal s * (2 * length (replicaState s) + 3) + length (replicaState s) + 1"

definition processBacklog :: "'y System \<Rightarrow> 'y SBFT \<Rightarrow> error + 'y SBFT" where
  "processBacklog Y s = scanBacklog Y (backlogFuel s) 0 False s"

end
