(* ===== verification/SBFT_Views.thy ===== *)
theory SBFT_Views
  imports SBFT_Replica
begin

text \<open>
  View changes, new views, connections, the start of a replica and the entry points by which the system calls
  it (viewchange.go, newview.go, connection.go, simplebft.go).
\<close>

section \<open>New views\<close>

fun collectVset :: "u64 \<Rightarrow> nat \<Rightarrow> replicaInfo list \<Rightarrow> (u64, Signed) gomap \<times> ViewChange list" where
  "collectVset v i [] = ([], [])"
| "collectVset v i (r # rs) =
     (let (vset, vcs) = collectVset v (Suc i) rs in
      case (viewchange r, signedViewchange r) of
        (Some vc, Some svc) \<Rightarrow> if vcView vc = v then ((of_nat i, svc) # vset, vc # vcs) else (vset, vcs)
      | _ \<Rightarrow> (vset, vcs))"

definition maybeSendNewView :: "'y System \<Rightarrow> 'y SBFT \<Rightarrow> error + 'y SBFT" where
  "maybeSendNewView Y s =
     (if (case lastNewViewSent s of None \<Rightarrow> False | Some nv \<Rightarrow> nvView nv = curView s) then Inr s
      else let (vset, vcs) = collectVset (curView s) 0 (replicaState s) in
        bindE (makeXset Y vcs s) (\<lambda>x.
          case x of
            None \<Rightarrow> Inr s
          | Some (xset, _) \<Rightarrow>
             bindE (case xset of
                      None \<Rightarrow> Inr (None, None)
                    | Some sub \<Rightarrow>
                        if sbDigest (subject (cur s)) = sbDigest sub
                        then bindE (deref (preprep (cur s))) (\<lambda>pp. Inr (Some sub, ppBatch pp))
                        else Inr (None, None)) (\<lambda>(xset, batch).
               let nv = \<lparr>nvView = curView s, nvVset = vset, nvXset = xset, nvBatch = batch\<rparr>
               in Inr (broadcast (Msg_NewView nv) (s\<lparr>lastNewViewSent := Some nv\<rparr>)))))"

fun checkVset ::
  "'y System \<Rightarrow> u64 \<Rightarrow> 'y SBFT \<Rightarrow> (u64 \<times> Signed) list \<Rightarrow> error + ViewChange list" where
  "checkVset Y v s [] = Inr []"
| "checkVset Y v s ((vcsrc, svc) # rest) =
     catchE (bindE (checkSig Y svc vcsrc) (\<lambda>vc.
             bindE (catchE (checkBatch Y (vcCheckpoint vc) False True s) (\<lambda>e. Inr (Some e)) (\<lambda>_. Inr None)) (\<lambda>err.
               if vcView vc \<noteq> v then Inl (ErrMsg ''view does not match'')
               else case err of Some e \<Rightarrow> Inl e | None \<Rightarrow> Inr vc)))
       (\<lambda>e. Inl (ErrMsg ''viewchange''))
       (\<lambda>vc. bindE (checkVset Y v s rest) (\<lambda>vcs. Inr (vc # vcs)))"

definition checkNewViewSignatures :: "'y System \<Rightarrow> NewView \<Rightarrow> 'y SBFT \<Rightarrow> error + ViewChange list" where
  "checkNewViewSignatures Y nv s = checkVset Y (nvView nv) s (ordVset Y (mapsVisited s) (nvVset nv))"

definition maybeDeliverUsingXset :: "'y System \<Rightarrow> NewView \<Rightarrow> 'y SBFT \<Rightarrow> error + 'y SBFT" where
  "maybeDeliverUsingXset Y nv s =
     catchE (checkNewViewSignatures Y nv s) (\<lambda>_. Inl (Panic ''viewchange'')) (\<lambda>vcs.
     let s = visited s in
     bindE (makeXset Y vcs s) (\<lambda>x.
       case x of
         None \<Rightarrow> Inl (Panic ''invalid newview'')
       | Some (_, prevBatch) \<Rightarrow>
          bindE (seq Y s) (\<lambda>n.
          bindE (DecodeHeader Y prevBatch) (\<lambda>h.
            if n < bhSeq h then
              bindE (curSeq s) (\<lambda>csv.
              bindE (if bhSeq h = svSeq csv
                     then bindE (deref (preprep (cur s))) (\<lambda>pp. bindE (deref (ppBatch pp)) (\<lambda>b.
                            Inr (prevBatch\<lparr>Payloads := Payloads b\<rparr>)))
                     else Inr prevBatch) (\<lambda>b.
                Inr (deliverBatch Y b (updCur (\<lambda>r. r\<lparr>checkpointDone := True\<rparr>) s))))
            else Inr s))))"

text \<open>
  Setting the sequence number of the current subject to 0 goes through the pointer it shares with the
  accepted preprepare.
\<close>

definition zeroSeq :: "SeqView option \<Rightarrow> SeqView option" where
  "zeroSeq = map_option (\<lambda>sv. sv\<lparr>svSeq := 0\<rparr>)"

definition resetCur :: "reqInfo \<Rightarrow> reqInfo" where
  "resetCur r = r\<lparr>checkpointDone := True, subject := (subject r)\<lparr>sbSeq := zeroSeq (sbSeq (subject r))\<rparr>,
     preprep := map_option (\<lambda>pp. pp\<lparr>ppSeq := zeroSeq (ppSeq pp)\<rparr>) (preprep r)\<rparr>"

definition processNewView :: "'y System \<Rightarrow> 'y SBFT \<Rightarrow> error + 'y SBFT" where
  "processNewView Y s =
     (if activeView s then Inr s
      else bindE (primaryID s) (\<lambda>p.
        bindE (goindex (replicaState s) p) (\<lambda>r.
        case newview r of
          None \<Rightarrow> Inr s
        | Some nv \<Rightarrow>
           if nvView nv \<noteq> curView s then Inr s
           else bindE (discardBacklog p (s\<lparr>activeView := True\<rparr>)) (\<lambda>s.
             bindE (maybeDeliverUsingXset Y nv s) (\<lambda>s.
             bindE (curSeq s) (\<lambda>_.
             let s = updCur resetCur s in
             bindE (case nvBatch nv of
                      Some b \<Rightarrow>
                        bindE (DecodeHeader Y b) (\<lambda>h.
                          handleCheckedPreprepare Y
                            \<lparr>ppSeq = Some \<lparr>svView = curView s, svSeq = bhSeq h\<rparr>, ppBatch = Some b\<rparr> s)
                    | None \<Rightarrow> maybeSendNextBatch Y (cancelViewChangeTimer s))
               (processBacklog Y)))))))"

section \<open>View changes\<close>

definition dropOldViewChange :: "u64 \<Rightarrow> replicaInfo \<Rightarrow> replicaInfo" where
  "dropOldViewChange v r =
     (case viewchange r of
        Some vc \<Rightarrow> if vcView vc < v then r\<lparr>viewchange := None\<rparr> else r
      | None \<Rightarrow> r)"

definition sendViewChange :: "'y System \<Rightarrow> 'y SBFT \<Rightarrow> error + 'y SBFT" where
  "sendViewChange Y s =
     (let s = s\<lparr>curView := nextView s\<rparr>;
          s = (cancel (timeout (cur s)) s)\<lparr>activeView := False\<rparr>;
          s = s\<lparr>replicaState := map (dropOldViewChange (curView s)) (replicaState s)\<rparr>;
          p = (if sentCommit (cur s) then [subject (cur s)] else []);
          q = (if preprep (cur s) \<noteq> None then [subject (cur s)] else []);
          vc = \<lparr>vcView = curView s, vcPset = p, vcQset = q,
                vcCheckpoint = Some ((LastBatch Y (sys s))\<lparr>Payloads := []\<rparr>)\<rparr>;
          s = cancel (timeout (cur s)) (cancel (viewChangeTimer s) s)
      in processNewView Y (broadcast (Msg_ViewChange (sign Y vc)) s))"

definition requestTimeout :: "'y System \<Rightarrow> 'y SBFT \<Rightarrow> error + 'y SBFT" where
  "requestTimeout Y s = sendViewChange Y s"

definition viewChangeTimedOut :: "'y System \<Rightarrow> 'y SBFT \<Rightarrow> error + 'y SBFT" where
  "viewChangeTimedOut Y s = sendViewChange Y (s\<lparr>viewChangeTimeout := viewChangeTimeout s * 2\<rparr>)"

fun viewQuorum :: "u64 \<Rightarrow> int \<Rightarrow> replicaInfo list \<Rightarrow> u64 \<times> int" where
  "viewQuorum mn quorum [] = (mn, quorum)"
| "viewQuorum mn quorum (r # rs) =
     (case viewchange r of
        None \<Rightarrow> viewQuorum mn quorum rs
      | Some vc \<Rightarrow> viewQuorum (if vcView vc < mn then vcView vc else mn) (quorum + 1) rs)"

definition countViewChanges :: "'y System \<Rightarrow> ViewChange \<Rightarrow> 'y SBFT \<Rightarrow> error + 'y SBFT" where
  "countViewChanges Y vc s =
     (let (mn, quorum) = viewQuorum (vcView vc) 0 (replicaState s) in
      if quorum = oneCorrectQuorum s \<and> curView s < mn then sendViewChange Y (s\<lparr>curView := mn - 1\<rparr>)
      else let s = (if quorum = noFaultyQuorum s
                    then let (t, s) = setTimer (viewChangeTimeout s) CallViewChange s in s\<lparr>viewChangeTimer := t\<rparr>
                    else s)
           in bindE (isPrimary s) (\<lambda>p. if p then maybeSendNewView Y s else Inr s))"

definition handleViewChange :: "'y System \<Rightarrow> Signed \<Rightarrow> u64 \<Rightarrow> 'y SBFT \<Rightarrow> error + 'y SBFT" where
  "handleViewChange Y svc src s =
     catchE (bindE (checkSig Y svc src) (\<lambda>vc. bindE (checkBatch Y (vcCheckpoint vc) False True s) (\<lambda>_. Inr vc)))
       (\<lambda>_. Inr s) (\<lambda>vc.
       if vcView vc < curView s then Inr s
       else bindE (goindex (replicaState s) src) (\<lambda>r.
         if (case viewchange r of None \<Rightarrow> False | Some ovc \<Rightarrow> vcView vc \<le> vcView ovc) then Inr s
         else bindE (setReplica src (\<lambda>r. r\<lparr>viewchange := Some vc, signedViewchange := Some svc\<rparr>) s)
                (countViewChanges Y vc)))"

section \<open>New views received\<close>

text \<open>
  The outcome of checking a new view: a complaint, on which the replica asks for the next view, or none. The
  complaint about a missing batch prints the hash of its header.
\<close>

definition newViewComplaint :: "'y System \<Rightarrow> NewView \<Rightarrow> 'y SBFT \<Rightarrow> error + bool" where
  "newViewComplaint Y nv s =
     catchE (checkNewViewSignatures Y nv s) (\<lambda>_. Inr True) (\<lambda>vcs.
     bindE (makeXset Y vcs s) (\<lambda>x.
       case x of
         None \<Rightarrow> Inr True
       | Some (xset, _) \<Rightarrow>
          if nvXset nv \<noteq> xset then Inr True
          else bindE (case (nvXset nv, nvBatch nv) of
                   (None, Some _) \<Rightarrow> Inr True
                 | (None, None) \<Rightarrow> Inr False
                 | (Some x, None) \<Rightarrow> Inl (Panic ''nil pointer dereference'')
                 | (Some x, Some b) \<Rightarrow> Inr (batch_Hash Y b \<noteq> of_nbytes (sbDigest x))) (\<lambda>bad.
            if bad then Inr True
            else if nvBatch nv \<noteq> None
            then catchE (checkBatch Y (nvBatch nv) True False s) (\<lambda>_. Inr True) (\<lambda>_. Inr False)
            else Inr False)))"

definition handleNewView :: "'y System \<Rightarrow> NewView \<Rightarrow> u64 \<Rightarrow> 'y SBFT \<Rightarrow> error + 'y SBFT" where
  "handleNewView Y nv src s =
     bindE (primaryIDView (nvView nv) s) (\<lambda>p.
       if src \<noteq> p then Inr s
       else bindE (goindex (replicaState s) p) (\<lambda>r.
         if (case newview r of None \<Rightarrow> False | Some onv \<Rightarrow> nvView nv \<le> nvView onv) then Inr s
         else bindE (newViewComplaint Y nv s) (\<lambda>bad.
           let s = visited s in
           if bad then sendViewChange Y s
           else bindE (setReplica p (\<lambda>r. r\<lparr>newview := Some nv\<rparr>) s) (\<lambda>s.
             processNewView Y (if curView s < nvView nv then s\<lparr>curView := nvView nv, activeView := False\<rparr> else s)))))"

section \<open>Connections\<close>

definition sendInflight :: "'y System \<Rightarrow> u64 \<Rightarrow> 'y SBFT \<Rightarrow> error + 'y SBFT" where
  "sendInflight Y replica s =
     bindE (isPrimary s) (\<lambda>p.
       let first = (if p then (case preprep (cur s) of None \<Rightarrow> Msg_None | Some pp \<Rightarrow> Msg_Preprepare pp)
                    else Msg_Prepare (subject (cur s)));
           s = emit (Send first replica) s;
           s = (if sentCommit (cur s) then emit (Send (Msg_Commit (subject (cur s))) replica) s else s)
       in if executed (cur s)
          then bindE (makeCheckpoint Y s) (\<lambda>c. Inr (emit (Send (Msg_Checkpoint c) replica) s))
          else Inr s)"

definition Connection :: "'y System \<Rightarrow> u64 \<Rightarrow> 'y SBFT \<Rightarrow> error + 'y SBFT" where
  "Connection Y replica s =
     (let b = (LastBatch Y (sys s))\<lparr>Payloads := []\<rparr> in
      bindE (isPrimary s) (\<lambda>p.
        let nv = (if p \<and> activeView s \<and> lastNewViewSent s \<noteq> None then lastNewViewSent s else None);
            s = emit (Send (Msg_Hello \<lparr>hBatch = Some b, hNewView = nv\<rparr>) replica) s
        in bindE (goindex (replicaState s) (rid s)) (\<lambda>r.
           let s = (case signedViewchange r of None \<Rightarrow> s | Some svc \<Rightarrow> emit (Send (Msg_ViewChange svc) replica) s)
           in catchE (checkBatch Y (Some b) False True s) (\<lambda>_. Inl (Panic ''invalid last batch'')) (\<lambda>h.
              bindE (curSeq s) (\<lambda>csv.
                if bhSeq h < svSeq csv \<and> activeView s then sendInflight Y replica s else Inr s)))))"

definition helloNewView :: "'y System \<Rightarrow> NewView \<Rightarrow> u64 \<Rightarrow> 'y SBFT \<Rightarrow> error + 'y SBFT \<times> bool" where
  "helloNewView Y nv src s =
     bindE (primaryIDView (nvView nv) s) (\<lambda>p.
       if p \<noteq> src then Inr (s, False)
       else catchE (checkNewViewSignatures Y nv s) (\<lambda>_. Inr (visited s, False)) (\<lambda>vcs.
         let s = visited s in
         bindE (makeXset Y vcs s) (\<lambda>x.
           if x = None then Inr (s, False)
           else let s = (if curView s \<le> nvView nv then s\<lparr>curView := nvView nv, activeView := True\<rparr> else s)
                in bindE (maybeDeliverUsingXset Y nv s) (\<lambda>s. Inr (s, True)))))"

definition handleHello :: "'y System \<Rightarrow> Hello \<Rightarrow> u64 \<Rightarrow> 'y SBFT \<Rightarrow> error + 'y SBFT" where
  "handleHello Y h src s =
     catchE (checkBatch Y (hBatch h) False True s) (\<lambda>_. Inr s) (\<lambda>bh.
     bindE (seq Y s) (\<lambda>n.
     bindE (if n < bhSeq bh then bindE (deref (hBatch h)) (\<lambda>b. Inr (deliverBatch Y b s)) else Inr s) (\<lambda>s.
     bindE (case hNewView h of None \<Rightarrow> Inr (s, True) | Some nv \<Rightarrow> helloNewView Y nv src s) (\<lambda>(s, go).
       if \<not> go then Inr s
       else bindE (setReplica src (\<lambda>r. r\<lparr>hello := Some h\<rparr>) s) (\<lambda>s.
            bindE (discardBacklog src s) (processBacklog Y))))))"

section \<open>Entry points\<close>

definition Receive :: "'y System \<Rightarrow> Msg \<Rightarrow> u64 \<Rightarrow> 'y SBFT \<Rightarrow> error + 'y SBFT" where
  "Receive Y m src s =
     (case m of
        Msg_Hello h \<Rightarrow> handleHello Y h src s
      | Msg_Request req \<Rightarrow> handleRequest Y req src s
      | Msg_ViewChange vs \<Rightarrow> handleViewChange Y vs src s
      | Msg_NewView nv \<Rightarrow> handleNewView Y nv src s
      | _ \<Rightarrow> bindE (testBacklog m src s) (\<lambda>later.
               if later then recordBacklogMsg m src s
               else handleQueueableMessage Y (processBacklog Y) m src s))"

text \<open>
  \<open>New\<close>: the arguments \<open>pp\<close>, \<open>c\<close> and \<open>ex\<close> are what \<open>Restore\<close> found under the three keys. The last comparison
  is with the restored commit, not with the restored \<open>ex\<close>.
\<close>

definition freshCur :: reqInfo where
  "freshCur = \<lparr>subject = \<lparr>sbSeq = Some \<lparr>svView = 0, svSeq = 0\<rparr>, sbDigest = None\<rparr>, timeout = dummyCanceller,
     preprep = None, prep = None, commit = None, sentCommit = True, executed = True, checkpoint = None,
     checkpointDone = True\<rparr>"

definition freshReplica :: replicaInfo where
  "freshReplica = \<lparr>backLog = [], hello = None, signedViewchange = None, viewchange = None, newview = None\<rparr>"

definition New ::
  "'y System \<Rightarrow> u64 \<Rightarrow> Config \<Rightarrow> 'y \<Rightarrow> Preprepare option \<Rightarrow> Subject option \<Rightarrow> Subject option \<Rightarrow> error + 'y SBFT" where
  "New Y i conf y pp c ex =
     (if cfN conf < cfF conf * 3 + 1 then Inl (ErrMsg ''invalid combination of N and F'')
      else if int_of_u64 (cfN conf) < 0 then Inl (Panic ''makeslice: len out of range'')
      else let s = \<lparr>sys = y, config = conf, rid = i, curView = 0, reqBatch = [], batchTimer = None, cur = freshCur,
             activeView = False, lastNewViewSent = None, viewChangeTimeout = 0, viewChangeTimer = dummyCanceller,
             replicaState = replicate (unat (cfN conf)) freshReplica, pending = [], events = [], timersSet = 0,
             mapsVisited = 0\<rparr>
           in bindE (case pp of
                  None \<Rightarrow> Inr s
                | Some pp \<Rightarrow>
                   bindE (deref (ppSeq pp)) (\<lambda>sv.
                   let s = s\<lparr>curView := svView sv\<rparr> in
                   bindE (seq Y s) (\<lambda>n. if n < svSeq sv then acceptPreprepare Y pp s else Inr s))) (\<lambda>s.
              let zero = \<lparr>sbSeq = None, sbDigest = None\<rparr>;
                  cv = (case c of None \<Rightarrow> zero | Some c \<Rightarrow> c);
                  s = (if c \<noteq> None \<and> cv = subject (cur s) then updCur (\<lambda>r. r\<lparr>sentCommit := True\<rparr>) s else s);
                  s = (if ex \<noteq> None \<and> cv = subject (cur s) then updCur (\<lambda>r. r\<lparr>executed := True\<rparr>) s else s)
              in bindE (seq Y s) (\<lambda>n.
                   Inr (cancelViewChangeTimer (if n = 0 then s\<lparr>activeView := True\<rparr> else s)))))"

text \<open>What a timer does when it fires.\<close>

definition fire :: "'y System \<Rightarrow> timerCall \<Rightarrow> 'y SBFT \<Rightarrow> error + 'y SBFT" where
  "fire Y f s =
     (case f of
        CallSendNextBatch \<Rightarrow> maybeSendNextBatch Y s
      | CallRequestTimeout \<Rightarrow> requestTimeout Y s
      | CallViewChange \<Rightarrow> viewChangeTimedOut Y s)"

end
