(* ===== verification/SBFT_Safety.thy ===== *)
theory SBFT_Safety
  imports SBFT_Views
begin

text \<open>
  What holds of a replica whatever it is sent: the backlog is processed to its end, the queues stay bounded,
  batches are executed with a quorum and delivered with the signatures of one. The handlers are treated
  once, by the relation \<open>evolves\<close> between the states before and after.
\<close>

section \<open>Frame facts\<close>

lemma broadcast_eq:
  "broadcast m s = s\<lparr>events := events s @ map (\<lambda>i. Send m (of_nat i)) [0..<unat (cfN (config s))]\<rparr>"
proof -
  have "fold (\<lambda>i. emit (Send m (of_nat i))) xs s = s\<lparr>events := events s @ map (\<lambda>i. Send m (of_nat i)) xs\<rparr>" for xs
    by (induction xs arbitrary: s) (simp_all add: emit_def)
  then show ?thesis by (simp add: broadcast_def)
qed

text \<open>What the simple operations leave alone.\<close>

lemma emit_sel [simp]:
  "config (emit e s) = config s" "rid (emit e s) = rid s" "curView (emit e s) = curView s"
  "replicaState (emit e s) = replicaState s" "cur (emit e s) = cur s" "sys (emit e s) = sys s"
  "events (emit e s) = events s @ [e]" "activeView (emit e s) = activeView s"
  by (simp_all add: emit_def)

lemma broadcast_sel [simp]:
  "config (broadcast m s) = config s" "rid (broadcast m s) = rid s" "curView (broadcast m s) = curView s"
  "replicaState (broadcast m s) = replicaState s" "cur (broadcast m s) = cur s" "sys (broadcast m s) = sys s"
  "events (broadcast m s) = events s @ map (\<lambda>i. Send m (of_nat i)) [0..<unat (cfN (config s))]"
  "activeView (broadcast m s) = activeView s"
  by (simp_all add: broadcast_eq)

definition cancelled :: "Canceller \<Rightarrow> event list" where
  "cancelled c = (case c of dummyCanceller \<Rightarrow> [] | Timer n \<Rightarrow> [Cancel n])"

lemma cancel_sel [simp]:
  "config (cancel c s) = config s" "rid (cancel c s) = rid s" "curView (cancel c s) = curView s"
  "replicaState (cancel c s) = replicaState s" "cur (cancel c s) = cur s" "sys (cancel c s) = sys s"
  "events (cancel c s) = events s @ cancelled c" "activeView (cancel c s) = activeView s"
  by (simp_all add: cancel_def cancelled_def split: Canceller.splits)

lemma visited_sel [simp]:
  "config (visited s) = config s" "rid (visited s) = rid s" "curView (visited s) = curView s"
  "replicaState (visited s) = replicaState s" "cur (visited s) = cur s" "sys (visited s) = sys s"
  "events (visited s) = events s" "activeView (visited s) = activeView s"
  by (simp_all add: visited_def)

lemma updCur_sel [simp]:
  "config (updCur f s) = config s" "rid (updCur f s) = rid s" "curView (updCur f s) = curView s"
  "replicaState (updCur f s) = replicaState s" "cur (updCur f s) = f (cur s)" "sys (updCur f s) = sys s"
  "events (updCur f s) = events s" "activeView (updCur f s) = activeView s"
  by (simp_all add: updCur_def)

lemma deliverBatch_sel [simp]:
  "config (deliverBatch Y b s) = config s" "rid (deliverBatch Y b s) = rid s" "curView (deliverBatch Y b s) = curView s"
  "replicaState (deliverBatch Y b s) = replicaState s" "cur (deliverBatch Y b s) = cur s"
  "sys (deliverBatch Y b s) = Deliver Y b (sys s)" "events (deliverBatch Y b s) = events s @ [Delivered b]"
  "activeView (deliverBatch Y b s) = activeView s"
  by (simp_all add: deliverBatch_def Let_def emit_def)

text \<open>A result is a state, or the panic that ends the process.\<close>

definition panicky :: "error + 'a \<Rightarrow> bool" where
  "panicky r \<longleftrightarrow> (\<forall>e. r = Inl e \<longrightarrow> is_panic e)"

named_theorems panics

lemma panicky_basic [panics]:
  "panicky (Inr x)" "panicky (Inl (Panic m))" "panicky (deref p)" "panicky (goindex xs i)"
  by (auto simp: panicky_def deref_def goindex_def split: option.splits)

lemma panicky_bindE [panics]: "panicky r \<Longrightarrow> (\<And>x. panicky (f x)) \<Longrightarrow> panicky (bindE r f)"
  by (auto simp: panicky_def bindE_eq_Inl_conv)

lemma panicky_catchE [panics]: "(\<And>e. panicky (h e)) \<Longrightarrow> (\<And>x. panicky (k x)) \<Longrightarrow> panicky (catchE r h k)"
  by (auto simp: panicky_def catchE_def split: sum.splits)

lemma panicky_if [panics]: "panicky a \<Longrightarrow> panicky b \<Longrightarrow> panicky (if c then a else b)"
  by simp

lemma panicky_ops [panics]:
  "panicky (primaryIDView v s)" "panicky (primaryID s)" "panicky (isPrimary s)" "panicky (DecodeHeader Y b)"
  "panicky (seq Y s)" "panicky (nextSeq Y s)" "panicky (curSeq s)" "panicky (mapAssign k x m)"
  "panicky (makeCheckpoint Y s)" "panicky (setReplica i f s)"
  by (auto simp: panicky_def primaryIDView_def primaryID_def isPrimary_def DecodeHeader_def seq_def nextSeq_def
      curSeq_def mapAssign_def makeCheckpoint_def setReplica_def deref_def goindex_def bindE_eq_Inl_conv split: option.splits if_splits)

lemma panicky_handlers [panics]:
  "panicky (handlePrepare p src s)" "panicky (sendCheckpoint Y s)" "panicky (maybeExecute Y s)"
  "panicky (handleCommit Y c src s)" "panicky (acceptPreprepare Y pp s)" "panicky (handleCheckedPreprepare Y pp s)"
  "panicky (sendPreprepare Y reqs s)" "panicky (handlePreprepare Y pp src s)" "panicky (maybeSendNextBatch Y s)"
proof -
  show "panicky (handlePrepare p src s)" "panicky (sendCheckpoint Y s)" for s
    unfolding handlePrepare_def sendCheckpoint_def by (intro panics)+
  then show ex: "panicky (maybeExecute Y s)" for s
    unfolding maybeExecute_def Let_def by (intro panics)
  show "panicky (handleCommit Y c src s)"
    unfolding handleCommit_def by (intro panics ex)
  show acc: "panicky (acceptPreprepare Y pp s)" for pp s
    unfolding acceptPreprepare_def Let_def prod.case_distrib [of panicky] by (intro panics) (simp add: panics split: prod.splits)
  show chk: "panicky (handleCheckedPreprepare Y pp s)" for pp s
    unfolding handleCheckedPreprepare_def by (intro panics acc)
  show snd: "panicky (sendPreprepare Y reqs s)" for reqs s
    unfolding sendPreprepare_def Let_def by (intro panics chk)
  show "panicky (handlePreprepare Y pp src s)"
    unfolding handlePreprepare_def by (intro panics chk)
  show "panicky (maybeSendNextBatch Y s)"
    unfolding maybeSendNextBatch_def Let_def by (intro panics snd)
qed

text \<open>What holds of the state a handler returns, by its structure.\<close>

definition ends :: "error + 'a \<Rightarrow> ('a \<Rightarrow> bool) \<Rightarrow> bool" where
  "ends r P \<longleftrightarrow> (\<forall>x. r = Inr x \<longrightarrow> P x)"

lemma endsI: "(\<And>x. r = Inr x \<Longrightarrow> P x) \<Longrightarrow> ends r P"
  by (simp add: ends_def)

lemma endsD: "ends r P \<Longrightarrow> r = Inr x \<Longrightarrow> P x"
  by (simp add: ends_def)

lemma ends_Inr: "P x \<Longrightarrow> ends (Inr x) P"
  by (simp add: ends_def)

lemma ends_Inl: "ends (Inl e) P"
  by (simp add: ends_def)

lemma ends_bindE: "(\<And>x. r = Inr x \<Longrightarrow> ends (f x) P) \<Longrightarrow> ends (bindE r f) P"
  by (auto simp: ends_def bindE_eq_Inr_conv)

lemma ends_catchE: "(\<And>e. ends (h e) P) \<Longrightarrow> (\<And>x. r = Inr x \<Longrightarrow> ends (k x) P) \<Longrightarrow> ends (catchE r h k) P"
  by (auto simp: ends_def catchE_def split: sum.splits if_splits)

lemma ends_if: "(c \<Longrightarrow> ends a P) \<Longrightarrow> (\<not> c \<Longrightarrow> ends b P) \<Longrightarrow> ends (if c then a else b) P"
  by simp

lemma ends_option: "(x = None \<Longrightarrow> ends a P) \<Longrightarrow> (\<And>y. x = Some y \<Longrightarrow> ends (f y) P) \<Longrightarrow>
    ends (case x of None \<Rightarrow> a | Some y \<Rightarrow> f y) P"
  by (simp split: option.split)

lemma ends_prod: "(\<And>a b. x = (a, b) \<Longrightarrow> ends (f a b) P) \<Longrightarrow> ends (case x of (a, b) \<Rightarrow> f a b) P"
  by (simp split: prod.split)

lemmas ends_rules = ends_Inr ends_Inl ends_bindE ends_catchE ends_if ends_option ends_prod

section \<open>How a handler changes the state\<close>

text \<open>
  Signatures that make a batch deliverable: valid ones of \<open>F + 1\<close> replicas, or none at all if its
  header has no previous hash.
\<close>

definition certified :: "'y System \<Rightarrow> Config \<Rightarrow> Batch \<Rightarrow> bool" where
  "certified Y conf b \<longleftrightarrow> map_wf (Signatures b) \<and>
     (\<forall>(r, sig) \<in> set (Signatures b). CheckSig Y (batch_Hash Y b) r sig) \<and>
     (int_of_u64 (cfF conf + 1) \<le> int (length (Signatures b)) \<or>
      (\<exists>h. unmarshalHeader Y (Header b) = Some h \<and> bhPrevHash h = None))"

text \<open>The votes noted for the batch in progress are votes for it, one of each replica.\<close>

definition votes :: "nbytes \<Rightarrow> (u64, Subject) gomap option \<Rightarrow> bool" where
  "votes dig v \<longleftrightarrow> (\<forall>m. v = Some m \<longrightarrow> map_wf m \<and> (\<forall>(r, p) \<in> set m. sbDigest p = dig))"

definition good_cur :: "'y System \<Rightarrow> reqInfo \<Rightarrow> bool" where
  "good_cur Y r \<longleftrightarrow>
     (\<forall>pp. preprep r = Some pp \<longrightarrow> (\<exists>b. ppBatch pp = Some b \<and> sbDigest (subject r) = Some (batch_Hash Y b))) \<and>
     (\<forall>cps. checkpoint r = Some cps \<longrightarrow> map_wf cps \<and>
        (\<forall>(src, c) \<in> set cps. CheckSig Y (of_nbytes (ckDigest c)) src (ckSignature c))) \<and>
     votes (sbDigest (subject r)) (prep r) \<and> votes (sbDigest (subject r)) (commit r)"

text \<open>A commit is sent with a quorum of prepares, a batch executed with a quorum of commits.\<close>

definition quorums :: "Config \<Rightarrow> reqInfo \<Rightarrow> bool" where
  "quorums conf r \<longleftrightarrow> preprep r \<noteq> None \<longrightarrow>
     (sentCommit r \<longrightarrow> goint (int_of_u64 (cfN conf - cfF conf) - 1) \<le> mapLen (prep r)) \<and>
     (executed r \<longrightarrow> int_of_u64 (cfN conf - cfF conf) \<le> mapLen (commit r))"

definition bounded :: "'y SBFT \<Rightarrow> bool" where
  "bounded s \<longleftrightarrow> (\<forall>r \<in> set (replicaState s). length (backLog r) \<le> maxBacklogSeq * msgPerSeq)"

definition evolves :: "'y System \<Rightarrow> 'y SBFT \<Rightarrow> 'y SBFT \<Rightarrow> bool" where
  "evolves Y s s' \<longleftrightarrow>
     config s' = config s \<and> rid s' = rid s \<and> length (replicaState s') = length (replicaState s) \<and>
     (bounded s \<longrightarrow> bounded s') \<and> (good_cur Y (cur s) \<longrightarrow> good_cur Y (cur s')) \<and>
     (quorums (config s) (cur s) \<longrightarrow> quorums (config s) (cur s')) \<and>
     (\<exists>es. events s' = events s @ es \<and>
        (good_cur Y (cur s) \<longrightarrow> (\<forall>b. Delivered b \<in> set es \<longrightarrow> certified Y (config s) b)))"

lemma evolves_refl [intro, simp]: "evolves Y s s"
  by (simp add: evolves_def)

lemma evolves_trans [trans]: "evolves Y s s1 \<Longrightarrow> evolves Y s1 s2 \<Longrightarrow> evolves Y s s2"
  by (fastforce simp: evolves_def)

text \<open>Only the fields named matter.\<close>

lemma evolves_simple:
  assumes "config s' = config s" and "rid s' = rid s" and "replicaState s' = replicaState s" and "cur s' = cur s"
    and "events s' = events s @ es" and "\<And>b. Delivered b \<notin> set es"
  shows "evolves Y s s'"
  using assms by (simp add: evolves_def bounded_def)

text \<open>The handlers below view changes leave the view and the backlog alone as well.\<close>

definition calm :: "'y System \<Rightarrow> 'y SBFT \<Rightarrow> 'y SBFT \<Rightarrow> bool" where
  "calm Y s s' \<longleftrightarrow> evolves Y s s' \<and> replicaState s' = replicaState s \<and> curView s' = curView s \<and>
     activeView s' = activeView s"

lemma calm_refl [intro, simp]: "calm Y s s"
  by (simp add: calm_def)

lemma calm_trans [trans]: "calm Y s s1 \<Longrightarrow> calm Y s1 s2 \<Longrightarrow> calm Y s s2"
  using evolves_trans by (auto simp: calm_def)

lemma calm_simple:
  assumes "config s' = config s" and "rid s' = rid s" and "replicaState s' = replicaState s" and "cur s' = cur s"
    and "curView s' = curView s" and "activeView s' = activeView s"
    and "events s' = events s @ es" and "\<And>b. Delivered b \<notin> set es"
  shows "calm Y s s'"
  using assms evolves_simple [of s' s es Y] by (simp add: calm_def)

lemma calm_effects:
  "(\<And>b. e \<noteq> Delivered b) \<Longrightarrow> calm Y s (emit e s)" "calm Y s (broadcast m s)" "calm Y s (cancel c s)" "calm Y s (visited s)"
  "calm Y s (cancelViewChangeTimer s)" "calm Y s (sendPrepare s)" "calm Y s (startBatchTimer s)"
proof -
  show "(\<And>b. e \<noteq> Delivered b) \<Longrightarrow> calm Y s (emit e s)" by (rule calm_simple [where es = "[e]"]) auto
  show b: "calm Y s (broadcast m s)" for m by (rule calm_simple) auto
  show "calm Y s (cancel c s)" by (rule calm_simple) (auto simp: cancelled_def split: Canceller.splits)
  show "calm Y s (visited s)" by (rule calm_simple [where es = "[]"]) auto
  show "calm Y s (cancelViewChangeTimer s)"
    by (rule calm_simple [where es = "cancelled (viewChangeTimer s)"])
      (auto simp: cancelViewChangeTimer_def cancelled_def split: Canceller.splits)
  show "calm Y s (sendPrepare s)" unfolding sendPrepare_def by (rule b)
  show "calm Y s (startBatchTimer s)"
    by (cases "batchTimer s")
      (auto simp: startBatchTimer_def setTimer_def intro: calm_simple [where es = "[SetTimer (timersSet s) (cfBatchDurationNsec (config s)) CallSendNextBatch]"])
qed

text \<open>Changes of the batch in progress that keep what is known of it.\<close>

lemma calm_updCur:
  assumes "good_cur Y (cur s) \<Longrightarrow> good_cur Y (f (cur s))"
    and "quorums (config s) (cur s) \<Longrightarrow> quorums (config s) (f (cur s))"
  shows "calm Y s (updCur f s)"
  using assms by (simp add: calm_def evolves_def bounded_def)

lemma calm_maybeSendCommit: "calm Y s (maybeSendCommit s)"
proof (cases "sentCommit (cur s) \<or> mapLen (prep (cur s)) < goint (noFaultyQuorum s - 1)")
  case False
  have "good_cur Y (cur s) \<Longrightarrow> good_cur Y ((cur s)\<lparr>sentCommit := True\<rparr>)" by (simp add: good_cur_def)
  moreover have "quorums (config s) (cur s) \<Longrightarrow> quorums (config s) ((cur s)\<lparr>sentCommit := True\<rparr>)"
    using False by (auto simp: quorums_def noFaultyQuorum_def)
  ultimately have "calm Y s (updCur (\<lambda>c. c\<lparr>sentCommit := True\<rparr>) s)" by (rule calm_updCur)
  also have "calm Y \<dots> (emit (Persist ''commit'' (P_Subject (subject (cur s)))) (updCur (\<lambda>c. c\<lparr>sentCommit := True\<rparr>) s))"
    by (rule calm_effects) simp
  also note calm_effects(2)
  finally show ?thesis using False by (simp add: maybeSendCommit_def sendCommit_def Let_def)
qed (simp add: maybeSendCommit_def)

lemma mapAssign_Inr: "mapAssign k x m = Inr m' \<Longrightarrow> \<exists>m0. m = Some m0 \<and> m' = Some (mput k x m0)"
  by (auto simp: mapAssign_def split: option.splits)

lemma set_mput: "set (mput k x m) \<subseteq> insert (k, x) (set m)"
proof (induction m)
  case (Cons p m)
  then show ?case by (cases p) auto
qed simp

lemma length_mput: "length m \<le> length (mput k x m)"
proof (induction m)
  case (Cons p m)
  then show ?case by (cases p) auto
qed simp

lemma mapAssign_len: "mapAssign k x m = Inr m' \<Longrightarrow> mapLen m \<le> mapLen m'"
  using length_mput by (fastforce simp: mapLen_def dest!: mapAssign_Inr)

lemma votes_assign: "votes dig v \<Longrightarrow> sbDigest p = dig \<Longrightarrow> mapAssign src p v = Inr v' \<Longrightarrow> votes dig v'"
  using set_mput [of src p] by (fastforce simp: votes_def dest!: mapAssign_Inr)

lemma calm_handlePrepare: "handlePrepare p src s = Inr s' \<Longrightarrow> calm Y s s'"
proof -
  assume run: "handlePrepare p src s = Inr s'"
  show ?thesis
  proof (cases "s' = s")
    case False
    then obtain m where m: "mapAssign src p (prep (cur s)) = Inr m" "p = subject (cur s)"
      and s': "s' = maybeSendCommit (updCur (\<lambda>c. c\<lparr>prep := m\<rparr>) s)"
      using run by (auto simp: handlePrepare_def bindE_eq_Inr_conv split: if_splits)
    have "good_cur Y (cur s) \<Longrightarrow> good_cur Y ((cur s)\<lparr>prep := m\<rparr>)"
      using votes_assign [OF _ _ m(1)] m(2) by (simp add: good_cur_def)
    moreover have "quorums (config s) (cur s) \<Longrightarrow> quorums (config s) ((cur s)\<lparr>prep := m\<rparr>)"
      using mapAssign_len [OF m(1)] by (auto simp: quorums_def)
    ultimately have "calm Y s (updCur (\<lambda>c. c\<lparr>prep := m\<rparr>) s)" by (rule calm_updCur)
    also note calm_maybeSendCommit
    finally show ?thesis by (simp add: s')
  qed simp
qed

lemma calm_sendCheckpoint: "sendCheckpoint Y s = Inr s' \<Longrightarrow> calm Y s s'"
  by (auto simp: sendCheckpoint_def bindE_eq_Inr_conv intro: calm_effects)

lemma calm_maybeExecute: "maybeExecute Y s = Inr s' \<Longrightarrow> calm Y s s'"
proof -
  assume run: "maybeExecute Y s = Inr s'"
  show ?thesis
  proof (cases "executed (cur s) \<or> mapLen (commit (cur s)) < noFaultyQuorum s")
    case False
    have "good_cur Y (cur s) \<Longrightarrow> good_cur Y ((cur s)\<lparr>executed := True\<rparr>)" by (simp add: good_cur_def)
    moreover have "quorums (config s) (cur s) \<Longrightarrow> quorums (config s) ((cur s)\<lparr>executed := True\<rparr>)"
      using False by (auto simp: quorums_def noFaultyQuorum_def)
    ultimately have "calm Y s (updCur (\<lambda>c. c\<lparr>executed := True\<rparr>) s)" by (rule calm_updCur)
    also have "calm Y \<dots> (emit (Persist ''execute'' (P_Subject (subject (cur s)))) (updCur (\<lambda>c. c\<lparr>executed := True\<rparr>) s))"
      by (rule calm_effects) simp
    also have "calm Y \<dots> s'" using run False by (intro calm_sendCheckpoint) (simp add: maybeExecute_def Let_def)
    finally show ?thesis .
  qed (use run in \<open>auto simp: maybeExecute_def\<close>)
qed

lemma calm_handleCommit: "handleCommit Y c src s = Inr s' \<Longrightarrow> calm Y s s'"
proof -
  assume run: "handleCommit Y c src s = Inr s'"
  show ?thesis
  proof (cases "s' = s")
    case False
    then obtain m where m: "mapAssign src c (commit (cur s)) = Inr m" "c = subject (cur s)"
      and s': "maybeExecute Y (cancelViewChangeTimer (updCur (\<lambda>r. r\<lparr>commit := m\<rparr>) s)) = Inr s'"
      using run by (auto simp: handleCommit_def bindE_eq_Inr_conv split: if_splits)
    have "good_cur Y (cur s) \<Longrightarrow> good_cur Y ((cur s)\<lparr>commit := m\<rparr>)"
      using votes_assign [OF _ _ m(1)] m(2) by (simp add: good_cur_def)
    moreover have "quorums (config s) (cur s) \<Longrightarrow> quorums (config s) ((cur s)\<lparr>commit := m\<rparr>)"
      using mapAssign_len [OF m(1)] by (auto simp: quorums_def)
    ultimately have "calm Y s (updCur (\<lambda>r. r\<lparr>commit := m\<rparr>) s)" by (rule calm_updCur)
    also note calm_effects(5)
    also note calm_maybeExecute [OF s']
    finally show ?thesis .
  qed simp
qed

section \<open>Preprepares and batches\<close>

lemma calm_acceptPreprepare: "acceptPreprepare Y pp s = Inr s' \<Longrightarrow> calm Y s s'"
proof -
  assume "acceptPreprepare Y pp s = Inr s'"
  then obtain b where b: "ppBatch pp = Some b" and s': "s' = (emit (SetTimer (timersSet s) (cfRequestTimeoutNsec (config s)) CallRequestTimeout)
      ((emit (Persist ''preprepare'' (P_Preprepare pp)) s)\<lparr>timersSet := Suc (timersSet s)\<rparr>))
      \<lparr>cur := \<lparr>subject = \<lparr>sbSeq = ppSeq pp, sbDigest = Some (batch_Hash Y b)\<rparr>, timeout = Timer (timersSet s),
         preprep = Some pp, prep = Some [], commit = Some [], sentCommit = False, executed = False,
         checkpoint = Some [], checkpointDone = False\<rparr>\<rparr>"
    by (cases "ppBatch pp") (auto simp: acceptPreprepare_def setTimer_def emit_def Let_def)
  have "good_cur Y (cur s')" "quorums (config s) (cur s')"
    using b by (simp_all add: s' good_cur_def quorums_def votes_def)
  then show ?thesis by (simp add: calm_def evolves_def s' bounded_def)
qed

lemma calm_handleCheckedPreprepare: "handleCheckedPreprepare Y pp s = Inr s' \<Longrightarrow> calm Y s s'"
proof -
  assume "handleCheckedPreprepare Y pp s = Inr s'"
  then obtain s1 p where s1: "acceptPreprepare Y pp s = Inr s1" "s' = maybeSendCommit (if p then s1 else sendPrepare s1)"
    by (auto simp: handleCheckedPreprepare_def bindE_eq_Inr_conv)
  note calm_acceptPreprepare [OF s1(1)]
  also have "calm Y s1 (if p then s1 else sendPrepare s1)" using calm_effects(6) by auto
  also note calm_maybeSendCommit
  finally show ?thesis by (simp add: s1(2))
qed

lemma calm_sendPreprepare: "sendPreprepare Y reqs s = Inr s' \<Longrightarrow> calm Y s s'"
proof -
  assume "sendPreprepare Y reqs s = Inr s'"
  then obtain m where m: "handleCheckedPreprepare Y m (broadcast (Msg_Preprepare m) (emit (Persist ''preprepare'' (P_Preprepare m)) s)) = Inr s'"
    by (auto simp: sendPreprepare_def bindE_eq_Inr_conv Let_def)
  have "calm Y s (emit (Persist ''preprepare'' (P_Preprepare m)) s)" by (rule calm_effects) simp
  also note calm_effects(2)
  also note calm_handleCheckedPreprepare [OF m]
  finally show ?thesis .
qed

lemma calm_handlePreprepare: "handlePreprepare Y pp src s = Inr s' \<Longrightarrow> calm Y s s'"
proof -
  have "ends (handlePreprepare Y pp src s) (calm Y s)"
    unfolding handlePreprepare_def by (intro ends_rules calm_refl endsI [OF calm_handleCheckedPreprepare])
  then show "handlePreprepare Y pp src s = Inr s' \<Longrightarrow> calm Y s s'" by (rule endsD)
qed

lemma calm_maybeSendNextBatch: "maybeSendNextBatch Y s = Inr s' \<Longrightarrow> calm Y s s'"
proof -
  assume run: "maybeSendNextBatch Y s = Inr s'"
  define s1 where "s1 = (case batchTimer s of None \<Rightarrow> s | Some t \<Rightarrow> (cancel t s)\<lparr>batchTimer := None\<rparr>)"
  define s2 where "s2 = (if reqBatch s1 = []
    then visited (s1\<lparr>reqBatch := map snd (ordPending Y (mapsVisited s1) (pending s1))\<rparr>) else s1)"
  have c1: "calm Y s s1"
    by (cases "batchTimer s") (auto simp: s1_def cancelled_def intro!: calm_simple split: Canceller.splits)
  have c2: "calm Y s1 s2" by (auto simp: s2_def intro!: calm_simple [where es = "[]"])
  have c3: "calm Y s2 (s2\<lparr>reqBatch := []\<rparr>)" by (rule calm_simple [where es = "[]"]) auto
  have "s' = s1 \<or> s' = s2 \<or> sendPreprepare Y (reqBatch s2) (s2\<lparr>reqBatch := []\<rparr>) = Inr s'"
    using run unfolding maybeSendNextBatch_def Let_def s1_def [symmetric] s2_def [symmetric]
    by (auto simp: bindE_eq_Inr_conv split: if_splits)
  then show ?thesis using c1 c2 c3 calm_trans calm_sendPreprepare by metis
qed

section \<open>Weak checkpoints\<close>

lemma hexDigit_inj: "a < 16 \<Longrightarrow> b < 16 \<Longrightarrow> hexDigit a = hexDigit b \<Longrightarrow> a = b"
proof -
  have "list_all (\<lambda>a. list_all (\<lambda>b. hexDigit a = hexDigit b \<longrightarrow> a = b) [0..<16]) [0..<16]" by code_simp
  then show "a < 16 \<Longrightarrow> b < 16 \<Longrightarrow> hexDigit a = hexDigit b \<Longrightarrow> a = b"
    by (simp add: list_all_iff)
qed

lemma length_fmtHex [simp]: "length (fmtHex b) = 2 * length b"
  by (induction b) (simp_all add: fmtHex_def)

lemma fmtHex_inj: "fmtHex a = fmtHex b \<Longrightarrow> a = b"
proof (induction a arbitrary: b)
  case Nil
  then have "length (fmtHex b) = length (fmtHex [])" by simp
  then show ?case by simp
next
  case (Cons x a)
  then have "length (fmtHex b) = length (fmtHex (x # a))" by simp
  then obtain y b' where b: "b = y # b'" by (cases b) auto
  with Cons.prems have "hexDigit (unat x div 16) = hexDigit (unat y div 16)" "hexDigit (unat x mod 16) = hexDigit (unat y mod 16)"
    and rest: "fmtHex a = fmtHex b'" by (simp_all add: fmtHex_def)
  moreover have "unat x < 256" "unat y < 256" using unsigned_less [of x] unsigned_less [of y] by simp_all
  ultimately have "unat x div 16 = unat y div 16" "unat x mod 16 = unat y mod 16"
    using hexDigit_inj [of "unat x div 16" "unat y div 16"] hexDigit_inj [of "unat x mod 16" "unat y mod 16"] by simp_all
  then have "unat x = unat y" by (metis div_mult_mod_eq)
  with Cons.IH [OF rest] b show ?case by (simp add: word_unat_eq_iff)
qed

text \<open>The replicas listed for a digest are replicas with a checkpoint of that digest.\<close>

definition sums_ok :: "(u64 \<times> Checkpoint) list \<Rightarrow> (gostring, u64 list) gomap \<Rightarrow> bool" where
  "sums_ok cs sums \<longleftrightarrow> (\<forall>k rs. map_of sums k = Some rs \<longrightarrow> rs \<noteq> [] \<and> distinct rs \<and>
     (\<forall>r \<in> set rs. \<exists>c. (r, c) \<in> set cs \<and> fmtHex (of_nbytes (ckDigest c)) = k))"

lemma countSums_spec:
  assumes "countSums q mx sums cs = (mx', sums')" and "sums_ok pre sums" and "distinct (map fst (pre @ cs))"
    and "mx = [95] \<or> (\<exists>rs. map_of sums mx = Some rs \<and> q \<le> int (length rs))"
  shows "sums_ok (pre @ cs) sums' \<and> (mx' = [95] \<or> (\<exists>rs. map_of sums' mx' = Some rs \<and> q \<le> int (length rs)))"
  using assms
proof (induction q mx sums cs arbitrary: pre rule: countSums.induct)
  case (2 q mx sums csrc c cs)
  let ?sum = "fmtHex (of_nbytes (ckDigest c))"
  let ?old = "case map_of sums ?sum of None \<Rightarrow> [] | Some l \<Rightarrow> l"
  let ?rs = "?old @ [csrc]"
  let ?mx = "if q \<le> int (length ?rs) then ?sum else mx"
  have old: "distinct ?old" "\<forall>r \<in> set ?old. \<exists>c'. (r, c') \<in> set pre \<and> fmtHex (of_nbytes (ckDigest c')) = ?sum"
    using 2(3) unfolding sums_ok_def by (cases "map_of sums ?sum"; simp)+
  moreover have "(csrc, c') \<notin> set pre" for c' using 2(4) by (metis (no_types, lifting) distinct_append
      fst_conv image_eqI list.set_intros(1) list.set_map map_append not_distinct_conv_prefix disjoint_iff list.simps(9))
  ultimately have new: "csrc \<notin> set ?old" by blast
  have ok: "sums_ok (pre @ [(csrc, c)]) (mput ?sum ?rs sums)"
    unfolding sums_ok_def
  proof (intro allI impI)
    fix k rs
    assume k: "map_of (mput ?sum ?rs sums) k = Some rs"
    show "rs \<noteq> [] \<and> distinct rs \<and> (\<forall>r\<in>set rs. \<exists>c'. (r, c') \<in> set (pre @ [(csrc, c)]) \<and> fmtHex (of_nbytes (ckDigest c')) = k)"
    proof (cases "k = ?sum")
      case True
      then have "rs = ?rs" using k by simp
      with old new True show ?thesis by auto
    next
      case False
      then have "map_of sums k = Some rs" using k by simp
      with 2(3) show ?thesis unfolding sums_ok_def by fastforce
    qed
  qed
  have "?mx = [95] \<or> (\<exists>rs. map_of (mput ?sum ?rs sums) ?mx = Some rs \<and> q \<le> int (length rs))"
  proof (cases "q \<le> int (length ?rs)")
    case False
    then show ?thesis using 2(5) by (cases "mx = ?sum") auto
  qed simp
  from 2(1) [OF refl refl refl _ ok _ this] 2(2,4) show ?case by (simp add: Let_def)
qed simp

lemma fold_mput_fresh:
  "distinct (map fst m @ rs) \<Longrightarrow> fold (\<lambda>r. mput r (f r)) rs m = m @ map (\<lambda>r. (r, f r)) rs"
proof (induction rs arbitrary: m)
  case (Cons r rs)
  have "mput r (f r) m = m @ [(r, f r)]" if "r \<notin> fst ` set m" for m
    using that by (induction m) auto
  with Cons show ?case by simp
qed simp

lemma good_cur_checkpoint:
  assumes "good_cur Y r" and "checkpoint r = Some m" and "CheckSig Y (of_nbytes (ckDigest c)) src (ckSignature c)"
  shows "good_cur Y (r\<lparr>checkpoint := Some (mput src c m)\<rparr>)"
proof -
  have old: "map_wf m" "\<forall>(src, c) \<in> set m. CheckSig Y (of_nbytes (ckDigest c)) src (ckSignature c)"
    using assms(1,2) by (simp_all add: good_cur_def)
  have "\<forall>(src, c) \<in> set (mput src c m). CheckSig Y (of_nbytes (ckDigest c)) src (ckSignature c)"
    using old(2) assms(3) set_mput [of src c m] by blast
  moreover have "map_wf (mput src c m)" using old(1) by (rule map_wf_mput)
  ultimately show ?thesis using assms(1) by (simp add: good_cur_def)
qed

text \<open>Handling a checkpoint ends in a calm successor, in processing its backlog, or in a panic.\<close>

definition outcome :: "'y System \<Rightarrow> ('y SBFT \<Rightarrow> error + 'y SBFT) \<Rightarrow> 'y SBFT \<Rightarrow> error + 'y SBFT \<Rightarrow> bool" where
  "outcome Y pb s r \<longleftrightarrow> (\<exists>s1. (r = pb s1 \<or> r = Inr s1) \<and> calm Y s s1) \<or> (\<exists>m. r = Inl (Panic m))"

lemma outcome_Inr: "calm Y s s1 \<Longrightarrow> outcome Y pb s (Inr s1)"
  by (auto simp: outcome_def)

lemma outcome_pb: "calm Y s s1 \<Longrightarrow> outcome Y pb s (pb s1)"
  by (auto simp: outcome_def)

lemma outcome_bindE: "panicky r \<Longrightarrow> (\<And>x. r = Inr x \<Longrightarrow> outcome Y pb s (f x)) \<Longrightarrow> outcome Y pb s (bindE r f)"
  by (cases r) (auto simp: outcome_def panicky_def is_panic_def split: error.splits)

lemma outcome_if: "(c \<Longrightarrow> outcome Y pb s a) \<Longrightarrow> (\<not> c \<Longrightarrow> outcome Y pb s b) \<Longrightarrow> outcome Y pb s (if c then a else b)"
  by simp

lemma outcome_panic: "outcome Y pb s (Inl (Panic m))"
  by (simp add: outcome_def)

lemma outcome_calm: "calm Y s s1 \<Longrightarrow> outcome Y pb s1 r \<Longrightarrow> outcome Y pb s r"
  using calm_trans by (fastforce simp: outcome_def)

text \<open>
  What the replica relies on of the system: the last batch is the one delivered last, maps are visited in
  some order, and decoded maps are maps.
\<close>

locale bft_system =
  fixes Y :: "'y System"
  assumes last_deliver: "LastBatch Y (Deliver Y b y) = b"
    and ord_pending: "order_ok (ordPending Y n)"
    and ord_checkpoint: "order_ok (ordCheckpoint Y n)"
    and ord_vset: "order_ok (ordVset Y n)"
    and vc_maps: "unmarshalVC Y d = Some vc \<Longrightarrow> vcCheckpoint vc = Some b \<Longrightarrow> map_wf (Signatures b)"
begin

lemma weak_checkpoint:
  assumes "map_wf cps" and "countSums q [95] [] (ordCheckpoint Y n cps) = (mx, sums)" and "map_of sums mx = Some rs"
  shows "rs \<noteq> []" "distinct rs" "q \<le> int (length rs)"
    "\<And>r. r \<in> set rs \<Longrightarrow> \<exists>c. (r, c) \<in> set cps \<and> fmtHex (of_nbytes (ckDigest c)) = mx"
proof -
  let ?cs = "ordCheckpoint Y n cps"
  have "distinct (map fst ([] @ ?cs))" using order_ok_map_wf [OF ord_checkpoint assms(1)] by (simp add: map_wf_def)
  from countSums_spec [OF assms(2) _ this]
  have ok: "sums_ok ?cs sums" and mx: "mx = [95] \<or> q \<le> int (length rs)" using assms(3) by (auto simp: sums_ok_def)
  show rs: "rs \<noteq> []" "distinct rs" using ok assms(3) by (auto simp: sums_ok_def)
  show r: "\<exists>c. (r, c) \<in> set cps \<and> fmtHex (of_nbytes (ckDigest c)) = mx" if "r \<in> set rs" for r
    using ok assms(3) that order_ok_set [OF ord_checkpoint, of n cps] unfolding sums_ok_def by metis
  have "\<exists>c :: Checkpoint. fmtHex (of_nbytes (ckDigest c)) = mx" using r [OF hd_in_set [OF rs(1)]] by blast
  then have "even (length mx)" by auto
  then have "mx \<noteq> [95]" by auto
  with mx show "q \<le> int (length rs)" by simp
qed

lemma certified_checkpoint:
  assumes "good_cur Y (cur s)" and "checkpoint (cur s) = Some cps"
    and "countSums (oneCorrectQuorum s) [95] [] (ordCheckpoint Y n cps) = (mx, sums)" and "map_of sums mx = Some rs"
    and "map_of cps (hd rs) = Some c" and "ckDigest c = sbDigest (subject (cur s))"
    and "preprep (cur s) = Some pp" and "ppBatch pp = Some b"
  shows "certified Y (config s) (b\<lparr>Signatures := fold (\<lambda>r. mput r (case map_of cps r of None \<Rightarrow> [] | Some cp \<Rightarrow> ckSignature cp)) rs []\<rparr>)"
proof -
  let ?sig = "\<lambda>r. case map_of cps r of None \<Rightarrow> [] | Some cp \<Rightarrow> ckSignature cp"
  have wf: "map_wf cps" and sigs: "\<And>src c. (src, c) \<in> set cps \<Longrightarrow> CheckSig Y (of_nbytes (ckDigest c)) src (ckSignature c)"
    and dig: "sbDigest (subject (cur s)) = Some (batch_Hash Y b)"
    using assms(1,2,7,8) by (auto simp: good_cur_def)
  note w = weak_checkpoint [OF wf assms(3,4)]
  have set: "fold (\<lambda>r. mput r (?sig r)) rs [] = map (\<lambda>r. (r, ?sig r)) rs"
    using fold_mput_fresh [of "[]" rs ?sig] w(2) by simp
  have mx: "mx = fmtHex (batch_Hash Y b)"
    using w(4) [of "hd rs"] w(1) assms(5,6) dig map_of_SomeI [OF wf] by (fastforce simp: of_nbytes_def)
  have "CheckSig Y (batch_Hash Y b) r (?sig r)" if r: "r \<in> set rs" for r
  proof -
    obtain c where c: "(r, c) \<in> set cps" "fmtHex (of_nbytes (ckDigest c)) = mx" using w(4) [OF r] by blast
    then have "of_nbytes (ckDigest c) = batch_Hash Y b" using fmtHex_inj mx by simp
    with sigs [OF c(1)] map_of_SomeI [OF wf c(1)] show ?thesis by simp
  qed
  then show ?thesis
    using w(2,3) by (auto simp: certified_def set map_wf_def batch_Hash_def comp_def oneCorrectQuorum_def)
qed

lemma calm_deliver:
  assumes "good_cur Y (cur s) \<Longrightarrow> certified Y (config s) b"
  shows "calm Y s (deliverBatch Y b s)"
  using assms by (simp add: calm_def evolves_def bounded_def)

lemma calm_checkpointDone: "calm Y s (updCur (\<lambda>r. r\<lparr>checkpointDone := True\<rparr>) s)"
  by (rule calm_updCur) (simp_all add: good_cur_def quorums_def)

lemma outcome_deliverCheckpointed:
  assumes "checkpoint (cur s) = Some cps"
    and "countSums (oneCorrectQuorum s) [95] [] (ordCheckpoint Y n cps) = (mx, sums)" and "map_of sums mx = Some rs"
  shows "outcome Y pb s (deliverCheckpointed Y pb cps rs s)"
  unfolding deliverCheckpointed_def Let_def
proof (intro outcome_bindE outcome_if outcome_panic panics)
  let ?sig = "\<lambda>r. case map_of cps r of None \<Rightarrow> [] | Some cp \<Rightarrow> ckSignature cp"
  let ?s = "updCur (\<lambda>r. r\<lparr>checkpointDone := True\<rparr>) s"
  fix c :: Checkpoint and pp :: Preprepare and b :: Batch and s1
  let ?b = "b\<lparr>Signatures := fold (\<lambda>r. mput r (?sig r)) rs []\<rparr>"
  let ?d = "deliverBatch Y ?b ?s"
  assume c: "deref (map_of cps (hd rs)) = Inr c" "\<not> ckDigest c \<noteq> sbDigest (subject (cur ?s))"
    "deref (preprep (cur ?s)) = Inr pp" "deref (ppBatch pp) = Inr b"
    and run: "maybeSendNextBatch Y (cancel (timeout (cur ?d)) ?d) = Inr s1"
  have c': "map_of cps (hd rs) = Some c" "ckDigest c = sbDigest (subject (cur s))" "preprep (cur s) = Some pp" "ppBatch pp = Some b"
    using c by (auto simp: deref_def split: option.splits)
  have "certified Y (config s) ?b" if "good_cur Y (cur s)" by (rule certified_checkpoint [OF that assms c'])
  then have "certified Y (config ?s) ?b" if "good_cur Y (cur ?s)" using that by (simp add: good_cur_def)
  then have d: "calm Y ?s ?d" by (rule calm_deliver)
  note calm_checkpointDone
  also note d
  also note calm_effects(3)
  also note calm_maybeSendNextBatch [OF run]
  finally show "outcome Y pb s (pb s1)" by (rule outcome_pb)
qed

lemma outcome_handleCheckpoint: "outcome Y pb s (handleCheckpoint Y pb c src s)"
  unfolding handleCheckpoint_def
proof (intro outcome_if outcome_bindE outcome_Inr calm_refl panics)
  fix csv m
  assume sig: "\<not> \<not> CheckSig Y (of_nbytes (ckDigest c)) src (ckSignature c)"
    and asg: "mapAssign src c (checkpoint (cur s)) = Inr m"
  obtain m0 where m: "checkpoint (cur s) = Some m0" "m = Some (mput src c m0)" using mapAssign_Inr [OF asg] by blast
  let ?s = "updCur (\<lambda>r. r\<lparr>checkpoint := m\<rparr>) s"
  have "good_cur Y (cur s) \<Longrightarrow> good_cur Y ((cur s)\<lparr>checkpoint := m\<rparr>)"
    using good_cur_checkpoint [OF _ m(1)] sig m(2) by simp
  moreover have "quorums (config s) (cur s) \<Longrightarrow> quorums (config s) ((cur s)\<lparr>checkpoint := m\<rparr>)" by (simp add: quorums_def)
  ultimately have "calm Y s ?s" by (rule calm_updCur)
  also have "calm Y ?s (visited ?s)" by (rule calm_effects)
  finally have c1: "calm Y s (visited ?s)" .
  obtain mx sums where cs: "countSums (oneCorrectQuorum ?s) [95] [] (ordCheckpoint Y (mapsVisited ?s) (the m)) = (mx, sums)"
    by (rule prod.exhaust)
  have "outcome Y pb (visited ?s) (case map_of sums mx of None \<Rightarrow> Inr (visited ?s)
      | Some rs \<Rightarrow> deliverCheckpointed Y pb (the m) rs (visited ?s))"
  proof (cases "map_of sums mx")
    case (Some rs)
    have "outcome Y pb (visited ?s) (deliverCheckpointed Y pb (the m) rs (visited ?s))"
      by (rule outcome_deliverCheckpointed [OF _ _ Some]) (use cs m in \<open>simp_all add: oneCorrectQuorum_def\<close>)
    then show ?thesis using Some by simp
  qed (simp add: outcome_Inr)
  then show "outcome Y pb s (let s = ?s; cps = the m;
      (mx, sums) = countSums (oneCorrectQuorum s) [95] [] (ordCheckpoint Y (mapsVisited s) cps); s = visited s
      in case map_of sums mx of None \<Rightarrow> Inr s | Some replicas \<Rightarrow> deliverCheckpointed Y pb cps replicas s)"
    unfolding Let_def cs prod.case by (rule outcome_calm [OF c1])
qed

end

end
