(* ===== verification/SBFT_Backlog.thy ===== *)
theory SBFT_Backlog
  imports SBFT_Safety
begin

text \<open>
  Processing the backlog ends: the fuel of \<open>processBacklog\<close> is never used up. The rest of the protocol, view
  changes, new views and connections, is then shown to keep what \<open>evolves\<close> says.
\<close>

section \<open>Messages from the backlog\<close>

definition calmer :: "'y System \<Rightarrow> 'y SBFT \<Rightarrow> 'y SBFT \<Rightarrow> bool" where
  "calmer Y s s' \<longleftrightarrow> evolves Y s s' \<and> backlogTotal s' \<le> backlogTotal s \<and> curView s' = curView s \<and>
     activeView s' = activeView s"

lemma calmer_refl [intro, simp]: "calmer Y s s"
  by (simp add: calmer_def)

lemma calmer_trans [trans]: "calmer Y s s1 \<Longrightarrow> calmer Y s1 s2 \<Longrightarrow> calmer Y s s2"
  using evolves_trans by (fastforce simp: calmer_def)

lemma calm_calmer: "calm Y s s' \<Longrightarrow> calmer Y s s'"
  by (simp add: calm_def calmer_def backlogTotal_def)

lemma evolves_length: "evolves Y s s' \<Longrightarrow> length (replicaState s') = length (replicaState s)"
  by (simp add: evolves_def)

lemma panicky_Inl: "panicky (Inl e) \<Longrightarrow> \<exists>m. e = Panic m"
  by (cases e) (simp_all add: panicky_def is_panic_def)

context bft_system
begin

lemma outcome_handleQ: "outcome Y pb s (handleQueueableMessage Y pb m src s)"
proof -
  have easy: "outcome Y pb s r" if "panicky r" "\<And>s'. r = Inr s' \<Longrightarrow> calm Y s s'" for r
    using that panicky_Inl by (cases r) (auto simp: outcome_def)
  show ?thesis
    by (cases m)
      (auto simp: handleQueueableMessage_def panics intro: easy calm_handlePreprepare calm_handlePrepare calm_handleCommit
        outcome_handleCheckpoint outcome_Inr)
qed

lemma handleQ_ends:
  assumes "\<And>s1. calm Y s s1 \<Longrightarrow> ends (pb s1) (calmer Y s1)"
  shows "ends (handleQueueableMessage Y pb m src s) (calmer Y s)"
  using outcome_handleQ [of pb s m src] assms unfolding outcome_def
  by (metis calm_calmer calmer_trans endsD endsI ends_Inl ends_Inr)

lemma handleQ_panicky:
  assumes "\<And>s1. calm Y s s1 \<Longrightarrow> panicky (pb s1)"
  shows "panicky (handleQueueableMessage Y pb m src s)"
  using outcome_handleQ [of pb s m src] assms unfolding outcome_def by (auto simp: panics)

end

section \<open>Taking a message off\<close>

definition dropFirst :: "nat \<Rightarrow> 'y SBFT \<Rightarrow> 'y SBFT" where
  "dropFirst src s =
     s\<lparr>replicaState := (replicaState s)[src := (replicaState s ! src)\<lparr>backLog := tl (backLog (replicaState s ! src))\<rparr>]\<rparr>"

lemma sum_list_update_less:
  "i < length xs \<Longrightarrow> f x < f (xs ! i) \<Longrightarrow> sum_list (map f (xs[i := x])) < sum_list (map f xs)" for f :: "'a \<Rightarrow> nat"
proof (induction xs arbitrary: i)
  case (Cons a xs)
  then show ?case by (cases i) auto
qed simp

lemma dropFirst_less:
  "src < length (replicaState s) \<Longrightarrow> backLog (replicaState s ! src) = m # rest \<Longrightarrow> backlogTotal (dropFirst src s) < backlogTotal s"
  unfolding backlogTotal_def dropFirst_def by (simp add: sum_list_update_less)

lemma dropFirst_evolves: "src < length (replicaState s) \<Longrightarrow> evolves Y s (dropFirst src s)"
proof -
  assume src: "src < length (replicaState s)"
  have "bounded s \<Longrightarrow> bounded (dropFirst src s)"
    using nth_mem [OF src] by (fastforce simp: bounded_def dropFirst_def dest!: set_update_subset_insert [THEN subsetD])
  then show ?thesis by (simp add: evolves_def dropFirst_def)
qed

lemma dropFirst_calmer:
  "src < length (replicaState s) \<Longrightarrow> backLog (replicaState s ! src) = m # rest \<Longrightarrow> calmer Y s (dropFirst src s)"
  using dropFirst_less [of src s] dropFirst_evolves [of src s Y] by (simp add: calmer_def dropFirst_def)

text \<open>The fuel the scan needs from a point on.\<close>

definition scanNeed :: "nat \<Rightarrow> bool \<Rightarrow> 'y SBFT \<Rightarrow> nat" where
  "scanNeed src processed s = backlogTotal s * (2 * length (replicaState s) + 3) +
     (if processed then length (replicaState s) + 1 else 0) + (length (replicaState s) - src) + 1"

lemma scanNeed_less:
  assumes "backlogTotal s1 < backlogTotal s" and "length (replicaState s1) = length (replicaState s)"
  shows "scanNeed src' p' s1 < scanNeed src p s"
proof -
  let ?K = "2 * length (replicaState s) + 3"
  have "backlogTotal s1 * ?K + ?K \<le> backlogTotal s * ?K"
    using assms(1) by (metis Suc_leI add.commute mult_Suc mult_le_mono1)
  then show ?thesis using assms(2) by (auto simp: scanNeed_def)
qed

lemma panicky_recordSeq: "panicky (recordSeq s sv)"
  unfolding recordSeq_def by (intro panics)

lemma panicky_testBacklogMessage: "panicky (testBacklogMessage m src s)"
  by (cases m) (auto simp: testBacklogMessage_def panicky_recordSeq intro: panics)

context bft_system
begin

lemma scanBacklog_ends: "ends (scanBacklog Y n src processed s) (calmer Y s)"
proof (induction n arbitrary: src processed s)
  case (Suc n)
  show ?case
  proof (cases "length (replicaState s) \<le> src")
    case True
    then show ?thesis using Suc.IH by (auto intro: ends_Inr)
  next
    case False
    then have src: "src < length (replicaState s)" by simp
    show ?thesis
    proof (cases "backLog (replicaState s ! src)")
      case Nil
      then show ?thesis using src Suc.IH by simp
    next
      case (Cons m rest)
      let ?s = "dropFirst src s"
      have d: "s\<lparr>replicaState := (replicaState s)[src := (replicaState s ! src)\<lparr>backLog := rest\<rparr>]\<rparr> = ?s"
        using Cons by (simp add: dropFirst_def)
      have "ends (bindE (handleQueueableMessage Y (scanBacklog Y n 0 False) m (of_nat src) ?s) (scanBacklog Y n src True)) (calmer Y s)"
      proof (rule ends_bindE)
        fix s1
        assume "handleQueueableMessage Y (scanBacklog Y n 0 False) m (of_nat src) ?s = Inr s1"
        then have "calmer Y ?s s1" using handleQ_ends [OF Suc.IH] by (rule endsD [rotated])
        then have "calmer Y s s1" using dropFirst_calmer [OF src Cons] calmer_trans by blast
        then show "ends (scanBacklog Y n src True s1) (calmer Y s)"
          using Suc.IH calmer_trans by (metis endsD endsI)
      qed
      then show ?thesis using src Cons Suc.IH d by (auto intro: ends_bindE)
    qed
  qed
qed (simp add: ends_Inl)

lemma scanBacklog_panicky: "scanNeed src processed s \<le> n \<Longrightarrow> panicky (scanBacklog Y n src processed s)"
proof (induction n arbitrary: src processed s)
  case (Suc n)
  show ?case
  proof (cases "length (replicaState s) \<le> src")
    case True
    then show ?thesis using Suc by (auto simp: scanNeed_def intro: panics)
  next
    case False
    then have src: "src < length (replicaState s)" by simp
    have step: "panicky (scanBacklog Y n (Suc src) processed s)"
      using Suc.prems src by (intro Suc.IH) (simp add: scanNeed_def)
    show ?thesis
    proof (cases "backLog (replicaState s ! src)")
      case Nil
      then show ?thesis using src step by simp
    next
      case (Cons m rest)
      let ?s = "dropFirst src s"
      have d: "s\<lparr>replicaState := (replicaState s)[src := (replicaState s ! src)\<lparr>backLog := rest\<rparr>]\<rparr> = ?s"
        using Cons by (simp add: dropFirst_def)
      have less: "backlogTotal ?s < backlogTotal s" by (rule dropFirst_less [OF src Cons])
      have fuel: "panicky (scanBacklog Y n src' p' s1)" if "calmer Y ?s s1" for s1 src' p'
      proof (rule Suc.IH)
        have "backlogTotal s1 < backlogTotal s" "length (replicaState s1) = length (replicaState s)"
          using that less evolves_length [of Y ?s s1] by (simp_all add: calmer_def dropFirst_def)
        from scanNeed_less [OF this, of src' p' src processed] Suc.prems show "scanNeed src' p' s1 \<le> n" by simp
      qed
      have "panicky (handleQueueableMessage Y (scanBacklog Y n 0 False) m (of_nat src) ?s)"
        by (rule handleQ_panicky) (blast intro: fuel calm_calmer)
      then have "panicky (bindE (handleQueueableMessage Y (scanBacklog Y n 0 False) m (of_nat src) ?s) (scanBacklog Y n src True))"
      proof (cases "handleQueueableMessage Y (scanBacklog Y n 0 False) m (of_nat src) ?s")
        case (Inr s1)
        then have "calmer Y ?s s1" using handleQ_ends [OF scanBacklog_ends] by (rule endsD [rotated])
        then show ?thesis using Inr fuel by simp
      qed simp
      then show ?thesis using src Cons step d by (auto intro!: panicky_bindE panicky_testBacklogMessage)
    qed
  qed
qed (simp add: scanNeed_def)

lemma processBacklog_panicky: "panicky (processBacklog Y s)"
  unfolding processBacklog_def by (rule scanBacklog_panicky) (simp add: scanNeed_def backlogFuel_def)

lemma processBacklog_calmer: "ends (processBacklog Y s) (calmer Y s)"
  unfolding processBacklog_def by (rule scanBacklog_ends)

end

end
