(* ===== verification/SBFT_Runs.thy ===== *)
theory SBFT_Runs
  imports SBFT_Backlog
begin

text \<open>
  Whole runs of a replica: what every entry point keeps, and the reachable states.
\<close>

section \<open>Checked batches\<close>

lemma checkBatch_certified:
  assumes "checkBatch Y (Some b) checkData True s = Inr h" and "map_wf (Signatures b)"
  shows "certified Y (config s) b"
  using assms
  by (auto simp: checkBatch_def certified_def oneCorrectQuorum_def list_all_iff split: option.splits if_splits)

lemma certified_payloads [simp]: "certified Y conf (b\<lparr>Payloads := p\<rparr>) = certified Y conf b"
  by (simp add: certified_def batch_Hash_def)

lemma xsetBest_mem:
  "xsetBest Y best vcs = Inr (Some b) \<Longrightarrow> best = Some b \<or> (\<exists>vc \<in> set vcs. vcCheckpoint vc = Some b)"
  by (induction Y best vcs rule: xsetBest.induct)
    (fastforce simp: bindE_eq_Inr_conv split: option.splits if_splits)+

lemma makeXset_batch:
  assumes "makeXset Y vcs s = Inr (Some (x, b))"
  obtains vc where "vc \<in> set vcs" "vcCheckpoint vc = Some b"
proof -
  have "xsetBest Y None vcs = Inr (Some b)"
    using assms by (auto simp: makeXset_def bindE_eq_Inr_conv Let_def split: option.splits prod.splits if_splits)
  then show thesis using xsetBest_mem that by fastforce
qed

lemma checkSig_decodes: "checkSig Y svc src = Inr vc \<Longrightarrow> unmarshalVC Y (sgData svc) = Some vc"
  by (auto simp: checkSig_def bindE_eq_Inr_conv split: option.splits)

lemma checkVset_checked:
  "checkVset Y v s es = Inr vcs \<Longrightarrow> vc \<in> set vcs \<Longrightarrow>
    (\<exists>h. checkBatch Y (vcCheckpoint vc) False True s = Inr h) \<and> (\<exists>d. unmarshalVC Y d = Some vc)"
proof (induction es arbitrary: vcs)
  case (Cons e es)
  obtain src svc where e: "e = (src, svc)" by (cases e)
  let ?chk = "\<lambda>vc. catchE (checkBatch Y (vcCheckpoint vc) False True s) (\<lambda>e. Inr (Some e)) (\<lambda>_. Inr None)"
  obtain vc1 vcs1 err where v: "checkSig Y svc src = Inr vc1" "?chk vc1 = Inr err" "err = None" "checkVset Y v s es = Inr vcs1" "vcs = vc1 # vcs1"
    using Cons.prems(1) unfolding e checkVset.simps
    by (auto simp: catchE_def bindE_def split: sum.splits if_splits option.splits)
  have "\<exists>h. checkBatch Y (vcCheckpoint vc1) False True s = Inr h"
    using v(2,3) by (auto simp: catchE_def split: sum.splits if_splits)
  then show ?case using Cons.IH [OF v(4)] Cons.prems(2) v(5) checkSig_decodes [OF v(1)] by auto
qed simp

context bft_system
begin

lemma newview_batch_certified:
  assumes "checkNewViewSignatures Y nv s = Inr vcs" and "makeXset Y vcs s1 = Inr (Some (x, b))"
  shows "certified Y (config s) b"
proof -
  obtain vc where vc: "vc \<in> set vcs" "vcCheckpoint vc = Some b" using makeXset_batch [OF assms(2)] .
  obtain h d where "checkBatch Y (Some b) False True s = Inr h" "unmarshalVC Y d = Some vc"
    using checkVset_checked [OF assms(1) [unfolded checkNewViewSignatures_def] vc(1)] vc(2) by auto
  then show ?thesis using checkBatch_certified vc_maps [OF _ vc(2)] by blast
qed

end

section \<open>View changes and new views\<close>

definition steady :: "'y System \<Rightarrow> 'y SBFT \<Rightarrow> 'y SBFT \<Rightarrow> bool" where
  "steady Y s s' \<longleftrightarrow> evolves Y s s' \<and> curView s' = curView s"

lemma steady_refl [intro, simp]: "steady Y s s"
  by (simp add: steady_def)

lemma steady_trans [trans]: "steady Y s s1 \<Longrightarrow> steady Y s1 s2 \<Longrightarrow> steady Y s s2"
  using evolves_trans by (auto simp: steady_def)

lemma calm_steady: "calm Y s s' \<Longrightarrow> steady Y s s'"
  by (simp add: calm_def steady_def)

lemma calmer_steady: "calmer Y s s' \<Longrightarrow> steady Y s s'"
  by (simp add: calmer_def steady_def)

lemma ends_trans: "steady Y s s1 \<Longrightarrow> ends r (steady Y s1) \<Longrightarrow> ends r (steady Y s)"
  using steady_trans by (fastforce simp: ends_def)

lemma steady_setReplica:
  assumes "setReplica i f s = Inr s'" and "\<And>r. length (backLog (f r)) \<le> length (backLog r)"
  shows "steady Y s s'"
proof -
  have i: "unat i < length (replicaState s)" and s': "s' = s\<lparr>replicaState := (replicaState s)[unat i := f (replicaState s ! unat i)]\<rparr>"
    using assms(1) by (auto simp: setReplica_def goindex_def split: if_splits)
  have "bounded s \<Longrightarrow> bounded s'"
    using nth_mem [OF i] assms(2) [of "replicaState s ! unat i"]
    by (fastforce simp: bounded_def s' dest!: set_update_subset_insert [THEN subsetD])
  then show ?thesis by (simp add: steady_def evolves_def s')
qed

lemma steady_discardBacklog: "discardBacklog i s = Inr s' \<Longrightarrow> steady Y s s'"
  unfolding discardBacklog_def by (rule steady_setReplica) auto

text \<open>Changes of fields that \<open>evolves\<close> does not mention.\<close>

lemma steady_fields:
  assumes "config s' = config s" and "rid s' = rid s" and "replicaState s' = replicaState s" and "cur s' = cur s"
    and "events s' = events s" and "curView s' = curView s"
  shows "steady Y s s'"
  using assms evolves_simple [of s' s "[]" Y] by (simp add: steady_def)

lemma steady_resetCur: "steady Y s (updCur resetCur s)"
proof -
  have "good_cur Y (resetCur r)" if "good_cur Y r" for r using that by (auto simp: good_cur_def resetCur_def)
  moreover have "quorums conf (resetCur r)" if "quorums conf r" for conf r using that by (auto simp: quorums_def resetCur_def)
  ultimately have "calm Y s (updCur resetCur s)" by (intro calm_updCur)
  then show ?thesis by (rule calm_steady)
qed

context bft_system
begin

lemma steady_deliverXset: "ends (maybeDeliverUsingXset Y nv s) (steady Y s)"
proof (rule endsI)
  fix s'
  assume run: "maybeDeliverUsingXset Y nv s = Inr s'"
  let ?s = "updCur (\<lambda>r. r\<lparr>checkpointDone := True\<rparr>) (visited s)"
  have v: "steady Y s (visited s)" by (rule calm_steady [OF calm_effects(4)])
  obtain vcs x prev where vcs: "checkNewViewSignatures Y nv s = Inr vcs" and x: "makeXset Y vcs (visited s) = Inr (Some (x, prev))"
    and s': "s' = visited s \<or> s' = deliverBatch Y prev ?s \<or> (\<exists>p. s' = deliverBatch Y (prev\<lparr>Payloads := p\<rparr>) ?s)"
  proof -
    obtain vcs where vcs: "checkNewViewSignatures Y nv s = Inr vcs"
      using run by (auto simp: maybeDeliverUsingXset_def catchE_def split: sum.splits if_splits)
    obtain x prev n h where x: "makeXset Y vcs (visited s) = Inr (Some (x, prev))" "seq Y (visited s) = Inr n" "DecodeHeader Y prev = Inr h"
      using run vcs by (auto simp: maybeDeliverUsingXset_def bindE_eq_Inr_conv Let_def split: option.splits)
    have "s' = visited s \<or> s' = deliverBatch Y prev ?s \<or> (\<exists>p. s' = deliverBatch Y (prev\<lparr>Payloads := p\<rparr>) ?s)"
    proof (cases "n < bhSeq h")
      case True
      then obtain csv where csv: "curSeq (visited s) = Inr csv"
        using run vcs x by (auto simp: maybeDeliverUsingXset_def bindE_eq_Inr_conv Let_def)
      show ?thesis
        using run vcs x True csv
        by (cases "bhSeq h = svSeq csv") (auto simp: maybeDeliverUsingXset_def bindE_eq_Inr_conv Let_def)
    qed (use run vcs x in \<open>auto simp: maybeDeliverUsingXset_def\<close>)
    then show thesis using that vcs x(1) by blast
  qed
  have cert: "certified Y (config s) prev" by (rule newview_batch_certified [OF vcs x])
  have "steady Y (visited s) (deliverBatch Y b ?s)" if "certified Y (config s) b" for b
  proof -
    have "calm Y (visited s) ?s" by (rule calm_checkpointDone)
    also have "calm Y ?s (deliverBatch Y b ?s)" by (rule calm_deliver) (simp add: that)
    finally show ?thesis by (rule calm_steady)
  qed
  with v s' cert steady_trans show "steady Y s s'" by (metis certified_payloads)
qed

lemma steady_processNewView: "ends (processNewView Y s) (steady Y s)"
  unfolding processNewView_def
proof (intro ends_rules steady_refl)
  fix p r nv s1 s2 sv
  assume d: "discardBacklog p (s\<lparr>activeView := True\<rparr>) = Inr s1" and x: "maybeDeliverUsingXset Y nv s1 = Inr s2"
  let ?s = "updCur resetCur s2"
  have "steady Y s (s\<lparr>activeView := True\<rparr>)" by (rule steady_fields) simp_all
  also note steady_discardBacklog [OF d]
  also note endsD [OF steady_deliverXset x]
  also note steady_resetCur
  finally have s: "steady Y s ?s" .
  have "ends (bindE (case nvBatch nv of
        Some b \<Rightarrow> bindE (DecodeHeader Y b) (\<lambda>h. handleCheckedPreprepare Y
            \<lparr>ppSeq = Some \<lparr>svView = curView ?s, svSeq = bhSeq h\<rparr>, ppBatch = Some b\<rparr> ?s)
      | None \<Rightarrow> maybeSendNextBatch Y (cancelViewChangeTimer ?s)) (processBacklog Y)) (steady Y ?s)"
  proof (rule ends_bindE)
    fix s3
    assume run: "(case nvBatch nv of
        Some b \<Rightarrow> bindE (DecodeHeader Y b) (\<lambda>h. handleCheckedPreprepare Y
            \<lparr>ppSeq = Some \<lparr>svView = curView ?s, svSeq = bhSeq h\<rparr>, ppBatch = Some b\<rparr> ?s)
      | None \<Rightarrow> maybeSendNextBatch Y (cancelViewChangeTimer ?s)) = Inr s3"
    have "calm Y ?s s3"
    proof (cases "nvBatch nv")
      case None
      then have "calm Y (cancelViewChangeTimer ?s) s3" using run by (intro calm_maybeSendNextBatch) simp
      with calm_effects(5) show ?thesis by (rule calm_trans)
    qed (use run in \<open>auto simp: bindE_eq_Inr_conv intro: calm_handleCheckedPreprepare\<close>)
    then have "steady Y ?s s3" by (rule calm_steady)
    moreover have "ends (processBacklog Y s3) (steady Y s3)"
      using processBacklog_calmer calmer_steady by (metis endsD endsI)
    ultimately show "ends (processBacklog Y s3) (steady Y ?s)" by (rule ends_trans)
  qed
  with s show "ends (let s = ?s in bindE (case nvBatch nv of
        Some b \<Rightarrow> bindE (DecodeHeader Y b) (\<lambda>h. handleCheckedPreprepare Y
            \<lparr>ppSeq = Some \<lparr>svView = curView s, svSeq = bhSeq h\<rparr>, ppBatch = Some b\<rparr> s)
      | None \<Rightarrow> maybeSendNextBatch Y (cancelViewChangeTimer s)) (processBacklog Y)) (steady Y s)"
    unfolding Let_def by (rule ends_trans)
qed

text \<open>A view change raises the view by one, up to the wrap-around.\<close>

lemma dropOld_backLog: "backLog (dropOldViewChange v r) = backLog r"
  by (simp add: dropOldViewChange_def split: option.splits)

lemma evolves_sendViewChange: "ends (sendViewChange Y s) (\<lambda>s'. evolves Y s s' \<and> curView s' = curView s + 1)"
proof (rule endsI)
  fix s'
  assume run: "sendViewChange Y s = Inr s'"
  obtain s1 es where s1: "processNewView Y s1 = Inr s'" "config s1 = config s" "rid s1 = rid s" "cur s1 = cur s"
      "curView s1 = curView s + 1" "events s1 = events s @ es" "\<And>b. Delivered b \<notin> set es"
      "replicaState s1 = map (dropOldViewChange (curView s + 1)) (replicaState s)"
  proof (rule that)
    show "processNewView Y (let s = s\<lparr>curView := nextView s\<rparr>;
          s = (cancel (timeout (cur s)) s)\<lparr>activeView := False\<rparr>;
          s = s\<lparr>replicaState := map (dropOldViewChange (curView s)) (replicaState s)\<rparr>;
          p = (if sentCommit (cur s) then [subject (cur s)] else []);
          q = (if preprep (cur s) \<noteq> None then [subject (cur s)] else []);
          vc = \<lparr>vcView = curView s, vcPset = p, vcQset = q,
                vcCheckpoint = Some ((LastBatch Y (sys s))\<lparr>Payloads := []\<rparr>)\<rparr>;
          s = cancel (timeout (cur s)) (cancel (viewChangeTimer s) s)
      in broadcast (Msg_ViewChange (sign Y vc)) s) = Inr s'"
      using run by (simp add: sendViewChange_def Let_def)
  qed (auto simp: Let_def nextView_def cancelled_def split: Canceller.splits)
  have "bounded s \<Longrightarrow> bounded s1" by (simp add: bounded_def s1(8) dropOld_backLog)
  then have "evolves Y s s1" using s1(2-8) by (simp add: evolves_def)
  moreover have "steady Y s1 s'" by (rule endsD [OF steady_processNewView s1(1)])
  ultimately show "evolves Y s s' \<and> curView s' = curView s + 1"
    using evolves_trans s1(5) by (auto simp: steady_def)
qed

end

section \<open>Entry points\<close>

text \<open>The view only grows, up to the largest number.\<close>

definition moves :: "'y System \<Rightarrow> 'y SBFT \<Rightarrow> 'y SBFT \<Rightarrow> bool" where
  "moves Y s s' \<longleftrightarrow> evolves Y s s' \<and> (curView s \<le> curView s' \<or> curView s = - 1)"

lemma steady_moves: "steady Y s s' \<Longrightarrow> moves Y s s'"
  by (simp add: steady_def moves_def)

lemma moves_refl [intro, simp]: "moves Y s s"
  by (simp add: moves_def)

lemma steady_moves_trans: "steady Y s s1 \<Longrightarrow> moves Y s1 s2 \<Longrightarrow> moves Y s s2"
  using evolves_trans by (auto simp: steady_def moves_def)

lemma moves_steady_trans: "moves Y s s1 \<Longrightarrow> steady Y s1 s2 \<Longrightarrow> moves Y s s2"
  using evolves_trans by (auto simp: steady_def moves_def)

lemma ends_moves: "steady Y s s1 \<Longrightarrow> ends r (moves Y s1) \<Longrightarrow> ends r (moves Y s)"
  using steady_moves_trans by (fastforce simp: ends_def)

lemma ends_moves_steady: "moves Y s s1 \<Longrightarrow> ends r (steady Y s1) \<Longrightarrow> ends r (moves Y s)"
  using moves_steady_trans by (fastforce simp: ends_def)

lemma word_le_Suc: "v \<noteq> - 1 \<Longrightarrow> v \<le> v + 1" for v :: u64
  by (meson inc_less_eq_triv_imp nle_le)

text \<open>Message maps are maps.\<close>

definition msg_wf :: "Msg \<Rightarrow> bool" where
  "msg_wf m = (case m of Msg_Hello h \<Rightarrow> (case hBatch h of None \<Rightarrow> True | Some b \<Rightarrow> map_wf (Signatures b)) | _ \<Rightarrow> True)"

lemma steady_maybeSendNewView: "ends (maybeSendNewView Y s) (steady Y s)"
proof -
  have "steady Y s (broadcast m (s\<lparr>lastNewViewSent := nv\<rparr>))" for m nv
  proof -
    have "steady Y s (s\<lparr>lastNewViewSent := nv\<rparr>)" by (rule steady_fields) simp_all
    also have "steady Y \<dots> (broadcast m (s\<lparr>lastNewViewSent := nv\<rparr>))" by (rule calm_steady [OF calm_effects(2)])
    finally show ?thesis .
  qed
  then show ?thesis unfolding maybeSendNewView_def Let_def by (intro ends_rules steady_refl) auto
qed

lemma steady_sendInflight: "ends (sendInflight Y replica s) (steady Y s)"
proof -
  have e: "steady Y s (emit (Send m d) s)" for m d s by (rule calm_steady [OF calm_effects(1)]) simp
  define s1 where "s1 m = emit (Send m replica) s" for m
  have s1: "steady Y s (s1 m)" for m unfolding s1_def by (rule e)
  then have s2: "steady Y s (if c then emit (Send m' replica) (s1 m) else s1 m)" for c m m'
    using steady_trans [OF s1 e] by auto
  show ?thesis
    unfolding sendInflight_def Let_def s1_def [symmetric]
    by (intro ends_rules s2) (use s2 e steady_trans in blast)
qed

lemma steady_Connection: "ends (Connection Y replica s) (steady Y s)"
proof -
  have e: "steady Y s (emit (Send m d) s)" for m d s by (rule calm_steady [OF calm_effects(1)]) simp
  have e2: "steady Y s (case v of None \<Rightarrow> emit (Send m replica) s
      | Some svc \<Rightarrow> emit (Send (Msg_ViewChange svc) replica) (emit (Send m replica) s))" for v m
    using e steady_trans by (cases v) (simp_all, blast)
  show ?thesis
    unfolding Connection_def Let_def
    by (intro ends_rules e2 ends_trans [OF e2 steady_sendInflight])
qed

lemma steady_handleRequest: "ends (handleRequest Y req src s) (steady Y s)"
proof -
  define s1 where "s1 = s\<lparr>pending := mput (hash2str (sha256 Y (rqPayload req))) req (pending s)\<rparr>"
  define s2 where "s2 = s1\<lparr>reqBatch := reqBatch s1 @ [req]\<rparr>"
  have "steady Y s s1" "steady Y s s2" by (rule steady_fields; simp add: s1_def s2_def)+
  moreover have "ends (maybeSendNextBatch Y s2) (steady Y s2)" using calm_maybeSendNextBatch calm_steady by (metis endsI)
  moreover have "steady Y s2 (startBatchTimer s2)" by (rule calm_steady [OF calm_effects(7)])
  ultimately show ?thesis
    unfolding handleRequest_def Let_def s1_def [symmetric] s2_def [symmetric]
    by (intro ends_rules) (auto intro: ends_trans steady_trans)
qed

lemma steady_recordBacklogMsg: "ends (recordBacklogMsg m src s) (steady Y s)"
proof (rule endsI)
  fix s'
  assume run: "recordBacklogMsg m src s = Inr s'"
  let ?r = "replicaState s ! unat src"
  let ?s = "s\<lparr>replicaState := (replicaState s)[unat src := ?r\<lparr>backLog := backLog ?r @ [m]\<rparr>]\<rparr>"
  let ?e = "s\<lparr>replicaState := (replicaState s)[unat src := ?r\<lparr>backLog := []\<rparr>]\<rparr>"
  have src: "unat src < length (replicaState s)"
    and s': "s' = (if maxBacklogSeq * msgPerSeq < Suc (length (backLog ?r)) then emit (Reconnect src) ?e else ?s)"
    using run by (auto simp: recordBacklogMsg_def setReplica_def goindex_def discardBacklog_def bindE_eq_Inr_conv split: if_splits)
  show "steady Y s s'"
  proof (cases "maxBacklogSeq * msgPerSeq < Suc (length (backLog ?r))")
    case True
    have "setReplica src (\<lambda>r. r\<lparr>backLog := []\<rparr>) s = Inr ?e" using src by (simp add: setReplica_def goindex_def)
    then have "steady Y s ?e" by (rule steady_setReplica) simp
    also have "steady Y ?e (emit (Reconnect src) ?e)" by (rule calm_steady [OF calm_effects(1)]) simp
    finally show ?thesis using s' True by simp
  next
    case False
    have "bounded s \<Longrightarrow> bounded ?s"
      using False by (fastforce simp: bounded_def dest!: set_update_subset_insert [THEN subsetD])
    then show ?thesis using s' False by (simp add: steady_def evolves_def)
  qed
qed

context bft_system
begin

lemma moves_sendViewChange: "ends (sendViewChange Y s) (moves Y s)"
  using evolves_sendViewChange [of s] word_le_Suc [of "curView s"] by (auto simp: ends_def moves_def)

lemma moves_countViewChanges: "ends (countViewChanges Y vc s) (moves Y s)"
proof -
  obtain mn quorum where q: "viewQuorum (vcView vc) 0 (replicaState s) = (mn, quorum)" by (rule prod.exhaust)
  have up: "ends (sendViewChange Y (s\<lparr>curView := mn - 1\<rparr>)) (moves Y s)" if "curView s < mn"
  proof (rule endsI)
    fix s'
    assume "sendViewChange Y (s\<lparr>curView := mn - 1\<rparr>) = Inr s'"
    from endsD [OF evolves_sendViewChange this] less_imp_le [OF that] show "moves Y s s'"
      by (simp add: moves_def evolves_def bounded_def)
  qed
  define s1 where "s1 = (if quorum = noFaultyQuorum s
      then (case setTimer (viewChangeTimeout s) CallViewChange s of (t, s) \<Rightarrow> s\<lparr>viewChangeTimer := t\<rparr>) else s)"
  have "calm Y s (case setTimer (viewChangeTimeout s) CallViewChange s of (t, s) \<Rightarrow> s\<lparr>viewChangeTimer := t\<rparr>)"
    by (rule calm_simple [where es = "[SetTimer (timersSet s) (viewChangeTimeout s) CallViewChange]"])
      (simp_all add: setTimer_def)
  then have s1: "steady Y s s1" by (simp add: s1_def calm_steady)
  show ?thesis
    unfolding countViewChanges_def q Let_def prod.case s1_def [symmetric]
    by (intro ends_rules up steady_moves [OF s1] ends_moves [OF s1])
      (blast, rule endsI [OF steady_moves [OF endsD [OF steady_maybeSendNewView]]])
qed

lemma moves_handleViewChange: "ends (handleViewChange Y svc src s) (moves Y s)"
  unfolding handleViewChange_def
proof (intro ends_rules moves_refl)
  fix vc r s1
  assume "setReplica src (\<lambda>r. r\<lparr>viewchange := Some vc, signedViewchange := Some svc\<rparr>) s = Inr s1"
  then have "steady Y s s1" by (rule steady_setReplica) simp
  then show "ends (countViewChanges Y vc s1) (moves Y s)" using moves_countViewChanges by (rule ends_moves)
qed

lemma moves_handleNewView: "ends (handleNewView Y nv src s) (moves Y s)"
  unfolding handleNewView_def
proof (intro ends_rules moves_refl)
  fix p r bad
  have v: "steady Y s (visited s)" by (rule calm_steady [OF calm_effects(4)])
  have "ends (if bad then sendViewChange Y (visited s) else bindE (setReplica p (\<lambda>r. r\<lparr>newview := Some nv\<rparr>) (visited s)) (\<lambda>s.
      processNewView Y (if curView s < nvView nv then s\<lparr>curView := nvView nv, activeView := False\<rparr> else s))) (moves Y (visited s))"
  proof (intro ends_rules moves_sendViewChange)
    fix s1 :: "'y SBFT"
    let ?s = "if curView s1 < nvView nv then s1\<lparr>curView := nvView nv, activeView := False\<rparr> else s1"
    assume "setReplica p (\<lambda>r. r\<lparr>newview := Some nv\<rparr>) (visited s) = Inr s1"
    then have "steady Y (visited s) s1" by (rule steady_setReplica) simp
    moreover have "moves Y s1 ?s" by (auto simp: moves_def evolves_def bounded_def)
    ultimately have "moves Y (visited s) ?s" by (rule steady_moves_trans)
    then show "ends (processNewView Y ?s) (moves Y (visited s))" using steady_processNewView by (rule ends_moves_steady)
  qed
  then show "ends (let s = visited s in if bad then sendViewChange Y s else bindE (setReplica p (\<lambda>r. r\<lparr>newview := Some nv\<rparr>) s) (\<lambda>s.
      processNewView Y (if curView s < nvView nv then s\<lparr>curView := nvView nv, activeView := False\<rparr> else s))) (moves Y s)"
    unfolding Let_def by (rule ends_moves [OF v])
qed

lemma moves_helloNewView: "ends (helloNewView Y nv src s) (\<lambda>(s', go). moves Y s s')"
  unfolding helloNewView_def
proof (intro ends_rules)
  have v: "steady Y s (visited s)" by (rule calm_steady [OF calm_effects(4)])
  show "(\<lambda>(s', go). moves Y s s') (s, False)" "(\<lambda>(s', go). moves Y s s') (visited s, False)"
    using steady_moves [OF v] by simp_all
  fix p vcs
  assume "\<not> p \<noteq> src"
  let ?s = "if curView (visited s) \<le> nvView nv then (visited s)\<lparr>curView := nvView nv, activeView := True\<rparr> else visited s"
  have "moves Y (visited s) ?s" by (auto simp: moves_def evolves_def bounded_def)
  then have m: "moves Y s ?s" using v steady_moves_trans by blast
  have "moves Y s s2" if "maybeDeliverUsingXset Y nv ?s = Inr s2" for s2
    by (rule moves_steady_trans [OF m endsD [OF steady_deliverXset that]])
  then show "ends (let s = visited s in bindE (makeXset Y vcs s) (\<lambda>x. if x = None then Inr (s, False)
      else let s = (if curView s \<le> nvView nv then s\<lparr>curView := nvView nv, activeView := True\<rparr> else s)
           in bindE (maybeDeliverUsingXset Y nv s) (\<lambda>s. Inr (s, True)))) (\<lambda>(s', go). moves Y s s')"
    unfolding Let_def using steady_moves [OF v] by (intro ends_rules) auto
qed

lemma moves_handleHello:
  assumes "msg_wf (Msg_Hello h)"
  shows "ends (handleHello Y h src s) (moves Y s)"
  unfolding handleHello_def
proof (intro ends_rules moves_refl)
  fix bh n s1 r s2 go s3 s4
  assume chk: "checkBatch Y (hBatch h) False True s = Inr bh"
    and d: "(if n < bhSeq bh then bindE (deref (hBatch h)) (\<lambda>b. Inr (deliverBatch Y b s)) else Inr s) = Inr s1"
    and r: "(case hNewView h of None \<Rightarrow> Inr (s1, True) | Some nv \<Rightarrow> helloNewView Y nv src s1) = Inr r" "r = (s2, go)"
  have "steady Y s s1"
  proof (cases "n < bhSeq bh")
    case True
    then obtain b where b: "hBatch h = Some b" "s1 = deliverBatch Y b s" using d by (cases "hBatch h") auto
    then have "certified Y (config s) b" using chk assms by (auto simp: msg_wf_def intro: checkBatch_certified)
    then show ?thesis using b(2) calm_deliver calm_steady by blast
  qed (use d in simp)
  moreover have "moves Y s1 s2"
    using r endsD [OF moves_helloNewView] by (cases "hNewView h") fastforce+
  ultimately show m: "moves Y s s2" by (rule steady_moves_trans)
  assume "setReplica src (\<lambda>r. r\<lparr>hello := Some h\<rparr>) s2 = Inr s3" and e: "discardBacklog src s3 = Inr s4"
  then have "steady Y s2 s3" by (intro steady_setReplica) auto
  also note steady_discardBacklog [OF e]
  finally have "moves Y s s4" using m moves_steady_trans by blast
  moreover have "ends (processBacklog Y s4) (steady Y s4)" using processBacklog_calmer calmer_steady by (metis endsD endsI)
  ultimately show "ends (processBacklog Y s4) (moves Y s)" by (rule ends_moves_steady)
qed

lemma moves_Receive:
  assumes "msg_wf m"
  shows "ends (Receive Y m src s) (moves Y s)"
proof -
  have q: "ends (bindE (testBacklog m src s) (\<lambda>later.
      if later then recordBacklogMsg m src s else handleQueueableMessage Y (processBacklog Y) m src s)) (moves Y s)" for m
  proof (intro ends_rules)
    show "ends (recordBacklogMsg m src s) (moves Y s)"
      by (rule endsI [OF steady_moves [OF endsD [OF steady_recordBacklogMsg]]])
    show "ends (handleQueueableMessage Y (processBacklog Y) m src s) (moves Y s)"
      by (rule endsI [OF steady_moves [OF calmer_steady [OF endsD [OF handleQ_ends [OF processBacklog_calmer]]]]])
  qed
  have "ends (handleRequest Y req src s) (moves Y s)" for req
    by (rule endsI [OF steady_moves [OF endsD [OF steady_handleRequest]]])
  with q show ?thesis
    using assms moves_handleHello moves_handleViewChange moves_handleNewView
    by (cases m) (simp_all add: Receive_def)
qed

lemma moves_fire: "ends (fire Y f s) (moves Y s)"
proof -
  have "ends (maybeSendNextBatch Y s) (moves Y s)"
    by (rule endsI [OF steady_moves [OF calm_steady [OF calm_maybeSendNextBatch]]])
  moreover have "ends (viewChangeTimedOut Y s) (moves Y s)"
  proof -
    have "steady Y s (s\<lparr>viewChangeTimeout := viewChangeTimeout s * 2\<rparr>)" by (rule steady_fields) simp_all
    then show ?thesis unfolding viewChangeTimedOut_def using moves_sendViewChange by (rule ends_moves)
  qed
  ultimately show ?thesis using moves_sendViewChange by (cases f) (simp_all add: fire_def requestTimeout_def)
qed

end

section \<open>Reachable states\<close>

datatype input = In_Receive Msg u64 | In_Request bytes | In_Connection u64 | In_Fire timerCall

definition input_wf :: "input \<Rightarrow> bool" where
  "input_wf i = (case i of In_Receive m _ \<Rightarrow> msg_wf m | _ \<Rightarrow> True)"

definition step :: "'y System \<Rightarrow> input \<Rightarrow> 'y SBFT \<Rightarrow> error + 'y SBFT" where
  "step Y i s =
     (case i of
        In_Receive m src \<Rightarrow> Receive Y m src s
      | In_Request req \<Rightarrow> Inr (sbft_Request req s)
      | In_Connection r \<Rightarrow> Connection Y r s
      | In_Fire f \<Rightarrow> fire Y f s)"

inductive reach :: "'y System \<Rightarrow> 'y SBFT \<Rightarrow> 'y SBFT \<Rightarrow> bool" for Y :: "'y System" and s0 :: "'y SBFT" where
  reach_start: "reach Y s0 s0"
| reach_step: "reach Y s0 s \<Longrightarrow> input_wf i \<Longrightarrow> step Y i s = Inr s' \<Longrightarrow> reach Y s0 s'"

context bft_system
begin

lemma moves_step:
  assumes "input_wf i"
  shows "ends (step Y i s) (moves Y s)"
proof (cases i)
  case (In_Request req)
  have "moves Y s (sbft_Request req s)" unfolding sbft_Request_def by (rule steady_moves [OF calm_steady [OF calm_effects(2)]])
  then show ?thesis by (simp add: step_def In_Request ends_Inr)
next
  case (In_Connection r)
  then show ?thesis using endsI [OF steady_moves [OF endsD [OF steady_Connection]]] by (simp add: step_def)
qed (use assms moves_Receive moves_fire in \<open>simp_all add: step_def input_wf_def\<close>)

lemma reach_evolves: "reach Y s0 s \<Longrightarrow> evolves Y s0 s"
proof (induction rule: reach.induct)
  case (reach_step s i s')
  have "evolves Y s s'" using endsD [OF moves_step [OF reach_step.hyps(2)] reach_step.hyps(3)] by (simp add: moves_def)
  with reach_step.IH show ?case by (rule evolves_trans)
qed simp

end

section \<open>The start\<close>

lemma New_start:
  assumes "New Y i conf y pp c ex = Inr s"
  shows "config s = conf \<and> bounded s \<and> good_cur Y (cur s) \<and> (\<forall>b. Delivered b \<notin> set (events s))"
proof -
  let ?ok = "\<lambda>s. config s = conf \<and> bounded s \<and> good_cur Y (cur s) \<and> (\<forall>b. Delivered b \<notin> set (events s))"
  define s0 where "s0 = \<lparr>sys = y, config = conf, rid = i, curView = 0, reqBatch = [], batchTimer = None, cur = freshCur,
     activeView = False, lastNewViewSent = None, viewChangeTimeout = 0, viewChangeTimer = dummyCanceller,
     replicaState = replicate (unat (cfN conf)) freshReplica, pending = [], events = [], timersSet = 0, mapsVisited = 0\<rparr>"
  have s0: "?ok (s0\<lparr>curView := v\<rparr>)" "?ok s0" for v
    by (simp_all add: s0_def bounded_def freshReplica_def good_cur_def freshCur_def votes_def)
  have acc: "?ok s'" if "?ok s1" and run: "acceptPreprepare Y q s1 = Inr s'" for s1 s' q
  proof -
    have "evolves Y s1 s'" using calm_acceptPreprepare [OF run] by (simp add: calm_def)
    moreover have "Delivered b \<in> set (events s') \<longleftrightarrow> Delivered b \<in> set (events s1)" for b
      using run by (auto simp: acceptPreprepare_def bindE_eq_Inr_conv Let_def setTimer_def)
    ultimately show ?thesis using that(1) by (auto simp: evolves_def)
  qed
  have fin: "?ok (cancelViewChangeTimer (if b then s1\<lparr>activeView := True\<rparr> else s1))" if "?ok s1" for s1 b
    using that by (auto simp: cancelViewChangeTimer_def bounded_def cancelled_def split: Canceller.splits)
  have u1: "?ok (if b then updCur (\<lambda>r. r\<lparr>sentCommit := True\<rparr>) s1 else s1)" if "?ok s1" for s1 b
    using that by (simp add: bounded_def good_cur_def)
  have u2: "?ok (if b then updCur (\<lambda>r. r\<lparr>executed := True\<rparr>) s1 else s1)" if "?ok s1" for s1 b
    using that by (simp add: bounded_def good_cur_def)
  have "ends (New Y i conf y pp c ex) ?ok"
    unfolding New_def Let_def s0_def [symmetric]
  proof (intro ends_if ends_Inl ends_bindE ends_Inr fin u2 u1)
    fix s1
    assume "(case pp of None \<Rightarrow> Inr s0 | Some pp \<Rightarrow> bindE (deref (ppSeq pp)) (\<lambda>sv. bindE (seq Y (s0\<lparr>curView := svView sv\<rparr>))
        (\<lambda>n. if n < svSeq sv then acceptPreprepare Y pp (s0\<lparr>curView := svView sv\<rparr>) else Inr (s0\<lparr>curView := svView sv\<rparr>)))) = Inr s1"
    moreover have "ends (case pp of None \<Rightarrow> Inr s0 | Some pp \<Rightarrow> bindE (deref (ppSeq pp)) (\<lambda>sv. bindE (seq Y (s0\<lparr>curView := svView sv\<rparr>))
        (\<lambda>n. if n < svSeq sv then acceptPreprepare Y pp (s0\<lparr>curView := svView sv\<rparr>) else Inr (s0\<lparr>curView := svView sv\<rparr>)))) ?ok"
      by (intro ends_rules s0 endsI [OF acc [OF s0(1)]])
    ultimately show "?ok s1" by (rule endsD [rotated])
  qed
  then show ?thesis using assms by (rule endsD)
qed

lemma New_fresh:
  assumes "New Y i conf y None c ex = Inr s"
  shows "cur s = freshCur \<and> curView s = 0 \<and> replicaState s = replicate (unat (cfN conf)) freshReplica \<and> rid s = i"
proof -
  let ?ok = "\<lambda>s. cur s = freshCur \<and> curView s = 0 \<and> replicaState s = replicate (unat (cfN conf)) freshReplica \<and> rid s = i"
  have fin: "?ok (cancelViewChangeTimer (if b then s1\<lparr>activeView := True\<rparr> else s1))" if "?ok s1" for s1 :: "'a SBFT" and b
    using that by (simp add: cancelViewChangeTimer_def)
  have u1: "?ok (if b then updCur (\<lambda>r. r\<lparr>sentCommit := True\<rparr>) s1 else s1)" if "?ok s1" for s1 :: "'a SBFT" and b
    using that by (simp add: freshCur_def)
  have u2: "?ok (if b then updCur (\<lambda>r. r\<lparr>executed := True\<rparr>) s1 else s1)" if "?ok s1" for s1 :: "'a SBFT" and b
    using that by (simp add: freshCur_def)
  have "ends (New Y i conf y None c ex) ?ok"
    unfolding New_def Let_def option.case by (intro ends_if ends_Inl ends_bindE ends_Inr fin u2 u1) (auto dest: sym)
  then show ?thesis using assms by (rule endsD)
qed

lemma New_active:
  assumes "New Y i conf y None c ex = Inr s" and "seq Y s = Inr 0"
  shows "activeView s"
proof -
  obtain s1 n where n: "seq Y s1 = Inr n" and s: "s = cancelViewChangeTimer (if n = 0 then s1\<lparr>activeView := True\<rparr> else s1)"
    using assms(1) unfolding New_def Let_def by (auto simp: bindE_eq_Inr_conv simp del: if_split split: if_split_asm)
  have "seq Y s = seq Y s1" by (simp add: s seq_def cancelViewChangeTimer_def)
  with n assms(2) show ?thesis by (simp add: s cancelViewChangeTimer_def)
qed

lemma quorums_fresh: "quorums conf freshCur"
  by (simp add: quorums_def freshCur_def)

end
