(* ===== verification/SBFT_Props.thy ===== *)
theory SBFT_Props
  imports SBFT_Runs Proto_Wire
begin

text \<open>
  The properties of the BFT replica, with a system in memory as the instance on which they are shown at work,
  and the runs that show where the replica can be brought down or misled.
\<close>

section \<open>A system in memory\<close>

text \<open>
  The batches delivered so far, the last first. A hash is the data cut or filled to 32 bytes; a
  signature is the data after a byte for the signer; a header is encoded field by field, and of a view
  change only the view.
\<close>

definition toyHash :: "bytes \<Rightarrow> bytes" where
  "toyHash b = take 32 (b @ replicate 32 0)"

definition nonEmpty :: "bytes \<Rightarrow> nbytes" where
  "nonEmpty b = (if b = [] then None else Some b)"

definition encHeader :: "BatchHeader \<Rightarrow> bytes" where
  "encHeader h = EncodeVarint (bhSeq h) @ enc_bytes (of_nbytes (bhPrevHash h)) @ enc_bytes (of_nbytes (bhDataHash h))"

definition decHeader :: "bytes \<Rightarrow> BatchHeader option" where
  "decHeader b =
     (case bindE (bufDecodeVarint (NewBuffer b)) (\<lambda>(n, p).
           bindE (bufDecodeRawBytes p) (\<lambda>(prev, p).
           bindE (bufDecodeRawBytes p) (\<lambda>(dat, p).
             Inr \<lparr>bhSeq = n, bhPrevHash = nonEmpty prev, bhDataHash = nonEmpty dat\<rparr>))) of
        Inl _ \<Rightarrow> None
      | Inr h \<Rightarrow> Some h)"

definition genesisBatch :: Batch where
  "genesisBatch = \<lparr>Header = encHeader \<lparr>bhSeq = 0, bhPrevHash = None, bhDataHash = None\<rparr>, Payloads = [], Signatures = []\<rparr>"

definition memSystem :: "u64 \<Rightarrow> Batch list System" where
  "memSystem me = \<lparr>
     LastBatch = (\<lambda>y. case y of [] \<Rightarrow> genesisBatch | b # _ \<Rightarrow> b),
     Deliver = (\<lambda>b y. b # y),
     Sign = (\<lambda>d. ucast me # d),
     CheckSig = (\<lambda>d src sig. sig = ucast src # d),
     sha256 = toyHash,
     marshalHeader = encHeader,
     unmarshalHeader = decHeader,
     marshalVC = (\<lambda>vc. [ucast (vcView vc)]),
     unmarshalVC = (\<lambda>d. case d of
        [v] \<Rightarrow> Some \<lparr>vcView = ucast v, vcPset = [], vcQset = [], vcCheckpoint = Some genesisBatch\<rparr>
      | _ \<Rightarrow> None),
     ordPending = (\<lambda>_ m. m), ordCheckpoint = (\<lambda>_ m. rev m), ordVset = (\<lambda>_ m. m)\<rparr>"

interpretation ms: bft_system "memSystem me"
  by unfold_locales
    (auto simp: memSystem_def order_ok_id order_ok_rev genesisBatch_def split: list.splits)

fun runInputs :: "'y System \<Rightarrow> input list \<Rightarrow> 'y SBFT \<Rightarrow> error + 'y SBFT" where
  "runInputs Y [] s = Inr s"
| "runInputs Y (i # is) s = bindE (step Y i s) (runInputs Y is)"

lemma reach_trans: "reach Y s1 s2 \<Longrightarrow> reach Y s0 s1 \<Longrightarrow> reach Y s0 s2"
  by (induction rule: reach.induct) (auto intro: reach.intros)

lemma runInputs_reach: "runInputs Y is s = Inr s' \<Longrightarrow> list_all input_wf is \<Longrightarrow> reach Y s s'"
proof (induction "is" arbitrary: s)
  case (Cons i "is")
  then obtain s1 where s1: "step Y i s = Inr s1" "runInputs Y is s1 = Inr s'" by (auto simp: bindE_eq_Inr_conv)
  have "reach Y s s1" using reach_step [OF reach_start _ s1(1)] Cons.prems(2) by simp
  moreover have "reach Y s1 s'" using Cons.IH [OF s1(2)] Cons.prems(2) by simp
  ultimately show ?case using reach_trans by blast
qed (simp add: reach_start)

section \<open>An example run\<close>

text \<open>Replica 1 of four, one of which may be faulty; the batch of one request goes through all phases.\<close>

definition conf4 :: Config where
  "conf4 = \<lparr>cfN = 4, cfF = 1, cfBatchDurationNsec = 10, cfBatchSizeBytes = 1, cfRequestTimeoutNsec = 20\<rparr>"

definition replica1 :: "Batch list SBFT" where
  "replica1 = projr (New (memSystem 1) 1 conf4 [] None None None)"

definition batch1 :: Batch where
  "batch1 = makeBatch (memSystem 1) 1 (Some (toyHash (Header genesisBatch))) [[5]]"

definition subject1 :: Subject where
  "subject1 = \<lparr>sbSeq = Some \<lparr>svView = 0, svSeq = 1\<rparr>, sbDigest = Some (toyHash (Header batch1))\<rparr>"

definition preprepare1 :: Preprepare where
  "preprepare1 = \<lparr>ppSeq = sbSeq subject1, ppBatch = Some batch1\<rparr>"

definition checkpointOf :: "u64 \<Rightarrow> Checkpoint" where
  "checkpointOf r = \<lparr>ckSeq = 1, ckDigest = sbDigest subject1, ckSignature = ucast r # toyHash (Header batch1)\<rparr>"

definition phases :: "input list" where
  "phases = In_Receive (Msg_Preprepare preprepare1) 0 #
     map (In_Receive (Msg_Prepare subject1)) [1, 2] @ map (In_Receive (Msg_Commit subject1)) [0, 1, 3]"

definition inProgress :: "Batch list SBFT" where
  "inProgress = projr (runInputs (memSystem 1) phases replica1)"

definition completed :: "Batch list SBFT" where
  "completed = projr (runInputs (memSystem 1) (phases @ map (\<lambda>r. In_Receive (Msg_Checkpoint (checkpointOf r)) r) [3, 1]) replica1)"

lemma example_runs_ok:
  "\<not> isl (New (memSystem 1) 1 conf4 [] None None None)"
  "\<not> isl (runInputs (memSystem 1) phases replica1)"
  "\<not> isl (runInputs (memSystem 1) (phases @ map (\<lambda>r. In_Receive (Msg_Checkpoint (checkpointOf r)) r) [3, 1]) replica1)"
  "list_all input_wf (phases @ map (\<lambda>r. In_Receive (Msg_Checkpoint (checkpointOf r)) r) [3, 1])"
  by code_simp+

lemma example_reach:
  "New (memSystem 1) 1 conf4 [] None None None = Inr replica1"
  "reach (memSystem 1) replica1 inProgress" "reach (memSystem 1) replica1 completed"
proof -
  show "New (memSystem 1) 1 conf4 [] None None None = Inr replica1"
    using example_runs_ok(1) by (simp add: replica1_def)
  have wf: "list_all input_wf phases" using example_runs_ok(4) by simp
  show "reach (memSystem 1) replica1 inProgress"
    by (rule runInputs_reach [OF _ wf]) (use example_runs_ok(2) in \<open>simp add: inProgress_def\<close>)
  show "reach (memSystem 1) replica1 completed"
    by (rule runInputs_reach [OF _ example_runs_ok(4)]) (use example_runs_ok(3) in \<open>simp add: completed_def\<close>)
qed

section \<open>Safety of a replica\<close>

text \<open>
  C5: Whatever a replica is sent, by however many faulty replicas, each batch it delivers is certified: all
  signatures on it are valid signatures of its hash, and they are of at least \<open>F + 1\<close> replicas, unless the
  header of the batch has no previous hash.
\<close>

theorem delivered_batches_certified:
  assumes "bft_system Y" and "New Y i conf y pp c ex = Inr s0" and "reach Y s0 s" and "Delivered b \<in> set (events s)"
  shows "certified Y conf b"
proof -
  have s0: "config s0 = conf" "good_cur Y (cur s0)" "Delivered b \<notin> set (events s0)" using New_start [OF assms(2)] by auto
  have "evolves Y s0 s" by (rule bft_system.reach_evolves [OF assms(1,3)])
  with s0 assms(4) show ?thesis by (auto simp: evolves_def)
qed

lemma delivered_batches_certified_witness:
  "\<exists>b. Delivered b \<in> set (events completed) \<and> Payloads b = [[5]] \<and> certified (memSystem 1) conf4 b"
proof -
  let ?b = "batch1\<lparr>Signatures := Signatures (hd (sys completed))\<rparr>"
  have "Delivered ?b \<in> set (events completed)" "Payloads ?b = [[5]]" by code_simp+
  with delivered_batches_certified [OF ms.bft_system_axioms example_reach(1,3)] show ?thesis by blast
qed

text \<open>
  C10: A replica that was started anew, without a restored preprepare, has for the batch it has accepted sent a commit only with
  prepares of \<open>N - F - 1\<close> replicas, and executed it only with commits of \<open>N - F\<close> replicas. The prepares and commits it has
  counted, one for each replica, are all for the digest of this batch.
\<close>

theorem executed_with_quorum:
  assumes "bft_system Y" and "New Y i conf y None c ex = Inr s0" and "reach Y s0 s" and "preprep (cur s) = Some pp"
  shows "\<exists>b. ppBatch pp = Some b \<and> sbDigest (subject (cur s)) = Some (batch_Hash Y b) \<and>
    votes (Some (batch_Hash Y b)) (prep (cur s)) \<and> votes (Some (batch_Hash Y b)) (commit (cur s)) \<and>
    (sentCommit (cur s) \<longrightarrow> goint (noFaultyQuorum s - 1) \<le> mapLen (prep (cur s))) \<and>
    (executed (cur s) \<longrightarrow> noFaultyQuorum s \<le> mapLen (commit (cur s)))"
proof -
  have s0: "config s0 = conf" "good_cur Y (cur s0)" "cur s0 = freshCur" using New_start [OF assms(2)] New_fresh [OF assms(2)] by auto
  have "evolves Y s0 s" by (rule bft_system.reach_evolves [OF assms(1,3)])
  with s0 have g: "good_cur Y (cur s)" "quorums conf (cur s)" "config s = conf" using quorums_fresh by (auto simp: evolves_def)
  then obtain b where "ppBatch pp = Some b" "sbDigest (subject (cur s)) = Some (batch_Hash Y b)"
    using assms(4) by (auto simp: good_cur_def)
  then show ?thesis using g assms(4) by (simp add: good_cur_def quorums_def noFaultyQuorum_def)
qed

lemma executed_with_quorum_witness:
  "executed (cur inProgress) \<and> votes (Some (batch_Hash (memSystem 1) batch1)) (commit (cur inProgress)) \<and> 3 \<le> mapLen (commit (cur inProgress))"
proof -
  have "executed (cur inProgress)" "preprep (cur inProgress) = Some preprepare1" "noFaultyQuorum inProgress = 3"
    "ppBatch preprepare1 = Some batch1" by code_simp+
  with executed_with_quorum [OF ms.bft_system_axioms example_reach(1,2)] show ?thesis by auto
qed

text \<open>C37: In every reachable state no replica has more than twelve messages in the backlog.\<close>

theorem backlog_bounded:
  assumes "bft_system Y" and "New Y i conf y pp c ex = Inr s0" and "reach Y s0 s" and "r \<in> set (replicaState s)"
  shows "length (backLog r) \<le> 12"
proof -
  have "bounded s" using New_start [OF assms(2)] bft_system.reach_evolves [OF assms(1,3)] by (auto simp: evolves_def)
  then show ?thesis using assms(4) by (auto simp: bounded_def maxBacklogSeq_def msgPerSeq_def)
qed

lemma backlog_bounded_witness: "length (backLog (replicaState inProgress ! 2)) \<le> 12"
proof (rule backlog_bounded [OF ms.bft_system_axioms example_reach(1,2)])
  have "length (replicaState inProgress) = 4" by code_simp
  then show "replicaState inProgress ! 2 \<in> set (replicaState inProgress)" by simp
qed

text \<open>
  C35: No message, request, connection or timer takes a replica back to an earlier view, as long as the view is
  not the largest number, where adding one wraps around.
\<close>

theorem view_never_decreases:
  assumes "bft_system Y" and "input_wf i" and "step Y i s = Inr s'" and "curView s \<noteq> - 1"
  shows "curView s \<le> curView s'"
  using endsD [OF bft_system.moves_step [OF assms(1,2)] assms(3)] assms(4) by (auto simp: moves_def)

lemma view_never_decreases_witness:
  "\<exists>s'. step (memSystem 1) (In_Fire CallRequestTimeout) inProgress = Inr s' \<and> curView inProgress \<le> curView s'"
proof -
  have "\<not> isl (step (memSystem 1) (In_Fire CallRequestTimeout) inProgress)" "curView inProgress \<noteq> - 1" by code_simp+
  moreover have "input_wf (In_Fire CallRequestTimeout)" by (simp add: input_wf_def)
  ultimately show ?thesis using view_never_decreases [OF ms.bft_system_axioms] by (metis sum.collapse(2))
qed

text \<open>
  C36: Processing the backlog comes to an end: it returns, or the process ends in a panic. The nested loops,
  which start over whenever a message was taken off and are entered again by the handlers they call, never
  use up the fuel the model gives them.
\<close>

theorem backlog_processed:
  assumes "bft_system Y"
  shows "(\<exists>s'. processBacklog Y s = Inr s' \<and> backlogTotal s' \<le> backlogTotal s) \<or> (\<exists>m. processBacklog Y s = Inl (Panic m))"
proof (cases "processBacklog Y s")
  case (Inl e)
  then show ?thesis using bft_system.processBacklog_panicky [OF assms, of s] panicky_Inl by auto
next
  case (Inr s')
  then show ?thesis using endsD [OF bft_system.processBacklog_calmer [OF assms]] by (auto simp: calmer_def)
qed

lemma backlog_processed_witness:
  "(\<exists>s'. processBacklog (memSystem 1) inProgress = Inr s' \<and> backlogTotal s' \<le> backlogTotal inProgress) \<or>
   (\<exists>m. processBacklog (memSystem 1) inProgress = Inl (Panic m))"
  by (rule backlog_processed [OF ms.bft_system_axioms])

section \<open>Quorums\<close>

text \<open>
  In a configuration that \<open>New\<close> accepts, and in which \<open>3 F + 1\<close> does not overflow, any two quorums of \<open>N - F\<close>
  replicas have at least \<open>F + 1\<close> replicas in common, one of which is correct.
\<close>

theorem quorums_intersect:
  assumes "New Y i conf y pp c ex = Inr s" and "3 * unat (cfF conf) + 1 < 2 ^ 64"
    and "A \<subseteq> {..<unat (cfN conf)}" and "B \<subseteq> {..<unat (cfN conf)}"
    and "noFaultyQuorum s \<le> int (card A)" and "noFaultyQuorum s \<le> int (card B)"
  shows "oneCorrectQuorum s \<le> int (card (A \<inter> B))"
proof -
  let ?n = "unat (cfN conf)" and ?f = "unat (cfF conf)"
  have conf: "config s = conf" using New_start [OF assms(1)] by simp
  have chk: "\<not> cfN conf < cfF conf * 3 + 1" "\<not> int_of_u64 (cfN conf) < 0"
    using assms(1) by (auto simp: New_def Let_def split: if_splits)
  have "unat (cfF conf * 3) = ?f * 3" using assms(2) unat_mult_lem [of "cfF conf" 3] by simp
  then have "unat (cfF conf * 3 + 1) = 3 * ?f + 1" using assms(2) unat_add_lem [of "cfF conf * 3" 1] by simp
  then have le: "3 * ?f + 1 \<le> ?n" using chk(1) by (simp add: word_less_nat_alt)
  have n: "?n < 2 ^ 63" using chk(2) by (intro int_of_u64_nonneg) simp
  have q1: "noFaultyQuorum s = int ?n - int ?f"
  proof -
    have "unat (cfN conf - cfF conf) = ?n - ?f" using le by (intro unat_sub) (simp add: word_le_nat_alt)
    then show ?thesis using le n conf int_of_u64_small [of "cfN conf - cfF conf"] by (simp add: noFaultyQuorum_def of_nat_diff)
  qed
  have q2: "oneCorrectQuorum s = int ?f + 1"
  proof -
    have "unat (cfF conf + 1) = ?f + 1" using le n unat_add_lem [of "cfF conf" 1] by simp
    then show ?thesis using le n conf int_of_u64_small [of "cfF conf + 1"] by (simp add: oneCorrectQuorum_def)
  qed
  have fin: "finite A" "finite B" using assms(3,4) finite_subset by blast+
  have "card (A \<union> B) \<le> ?n" using card_mono [of "{..<?n}" "A \<union> B"] assms(3,4) by simp
  moreover have "card A + card B = card (A \<union> B) + card (A \<inter> B)" using card_Un_Int [OF fin] by simp
  ultimately show ?thesis using assms(5,6) le unfolding q1 q2 by linarith
qed

lemma quorums_intersect_witness: "2 \<le> int (card ({0, 1, 2} \<inter> {1, 2, 3} :: nat set))"
proof -
  have q: "noFaultyQuorum replica1 = 3" "oneCorrectQuorum replica1 = 2" by code_simp+
  have "oneCorrectQuorum replica1 \<le> int (card ({0, 1, 2} \<inter> {1, 2, 3} :: nat set))"
    by (rule quorums_intersect [OF example_reach(1)]) (simp_all add: conf4_def q)
  then show ?thesis by (simp only: q)
qed

definition confOverflow :: Config where
  "confOverflow = conf4\<lparr>cfF := 6148914691236517205\<rparr>"

text \<open>
  The check of the configuration is made in wrapping arithmetic: four replicas of which
  6148914691236517205 may be faulty are accepted, since three times that number plus one is 0. The quorum
  the replica then waits for is negative, so that it sends its commit without a single prepare.
\<close>
theorem overflowing_config_accepted:
  "case New (memSystem 1) 1 confOverflow [] None None None of
     Inl _ \<Rightarrow> False
   | Inr s \<Rightarrow> noFaultyQuorum s < 0 \<and>
       (case Receive (memSystem 1) (Msg_Preprepare preprepare1) 0 s of
          Inl _ \<Rightarrow> False
        | Inr s' \<Rightarrow> sentCommit (cur s') \<and> prep (cur s') = Some [])"
  by code_simp

section \<open>What the header of a batch commits to\<close>

text \<open>
  \<open>merkleInputs H ds\<close> are the strings that \<open>merkleHashDigests\<close> hashes, and \<open>dataInputs H data\<close> those that \<open>merkleHashData\<close>
  hashes. There is a collision between two lists of strings when a string of the one and another string of the other have
  the same hash.
\<close>

fun pairInputs :: "bytes list \<Rightarrow> bytes list" where
  "pairInputs (p # d # ds) = (p @ d) # pairInputs ds"
| "pairInputs ds = []"

function merkleInputs :: "(bytes \<Rightarrow> bytes) \<Rightarrow> bytes list \<Rightarrow> bytes list" where
  "merkleInputs H ds = (if 1 < length ds then pairInputs ds @ merkleInputs H (pairDigests H ds) else [])"
  by auto
termination by (relation "measure (\<lambda>(H, ds). length ds)") (auto simp: length_pairDigests)

declare merkleInputs.simps [simp del]

definition dataInputs :: "(bytes \<Rightarrow> bytes) \<Rightarrow> bytes list \<Rightarrow> bytes list" where
  "dataInputs H data = data @ merkleInputs H (map H data)"

definition collide :: "(bytes \<Rightarrow> bytes) \<Rightarrow> bytes list \<Rightarrow> bytes list \<Rightarrow> bool" where
  "collide H xs ys \<longleftrightarrow> list_ex (\<lambda>u. list_ex (\<lambda>v. u \<noteq> v \<and> H u = H v) ys) xs"

lemma collide_append: "collide H xs ys \<or> collide H xs' ys' \<Longrightarrow> collide H (xs @ xs') (ys @ ys')"
  by (auto simp: collide_def list_ex_iff)

lemma pairDigests_inj:
  "length ds = length es \<Longrightarrow> (\<And>d. d \<in> set ds \<union> set es \<Longrightarrow> length d = 32) \<Longrightarrow>
   pairDigests H ds = pairDigests H es \<Longrightarrow> ds = es \<or> collide H (pairInputs ds) (pairInputs es)"
proof (induction H ds arbitrary: es rule: pairDigests.induct)
  case (1 H p d ds)
  then obtain p' d' es' where es: "es = p' # d' # es'" by (cases es; cases "tl es") auto
  have eq: "H (p @ d) = H (p' @ d')" "pairDigests H ds = pairDigests H es'" using "1.prems"(3) es by simp_all
  have "length p = length p'" using "1.prems"(2) [of p] "1.prems"(2) [of p'] es by simp
  then have "p @ d = p' @ d' \<longleftrightarrow> p = p' \<and> d = d'" by simp
  moreover have "ds = es' \<or> collide H (pairInputs ds) (pairInputs es')" using "1.IH" [OF _ _ eq(2)] "1.prems"(1,2) es by simp
  ultimately show ?case using eq(1) es by (auto simp: collide_def list_ex_iff)
next
  case "2_2"
  then show ?case by (cases es; cases "tl es") auto
qed simp

lemma set_pairDigests: "d \<in> set (pairDigests H ds) \<Longrightarrow> d \<in> set ds \<or> (\<exists>x. d = H x)"
  by (induction H ds rule: pairDigests.induct) auto

lemma merkleHashDigests_inj:
  assumes "\<And>x. length (H x) = 32"
  shows "length ds = length es \<Longrightarrow> (\<And>d. d \<in> set ds \<union> set es \<Longrightarrow> length d = 32) \<Longrightarrow>
    merkleHashDigests H ds = merkleHashDigests H es \<Longrightarrow> ds = es \<or> collide H (merkleInputs H ds) (merkleInputs H es)"
proof (induction "length ds" arbitrary: ds es rule: less_induct)
  case less
  show ?case
  proof (cases "1 < length ds")
    case True
    let ?ds = "pairDigests H ds" and ?es = "pairDigests H es"
    have eq: "merkleHashDigests H ?ds = merkleHashDigests H ?es"
      using less.prems(1,3) True merkleHashDigests.simps [of H ds] merkleHashDigests.simps [of H es] by simp
    have ins: "merkleInputs H ds = pairInputs ds @ merkleInputs H ?ds" "merkleInputs H es = pairInputs es @ merkleInputs H ?es"
      using True less.prems(1) merkleInputs.simps [of H ds] merkleInputs.simps [of H es] by simp_all
    have "?ds = ?es \<or> collide H (merkleInputs H ?ds) (merkleInputs H ?es)"
    proof (rule less.hyps [OF _ _ _ eq])
      show "length ?ds < length ds" using True by (simp add: length_pairDigests)
      show "length ?ds = length ?es" using less.prems(1) by (simp add: length_pairDigests)
      show "length d = 32" if "d \<in> set ?ds \<union> set ?es" for d
        using that set_pairDigests assms less.prems(2) by blast
    qed
    then have "ds = es \<or> collide H (pairInputs ds) (pairInputs es) \<or> collide H (merkleInputs H ?ds) (merkleInputs H ?es)"
      using pairDigests_inj [OF less.prems(1,2)] by blast
    then show ?thesis unfolding ins using collide_append by blast
  next
    case False
    then have "ds = [] \<and> es = [] \<or> (\<exists>d e. ds = [d] \<and> es = [e])"
      using less.prems(1) by (cases ds; cases "tl ds"; cases es; cases "tl es") auto
    then show ?thesis using less.prems(3) by (auto simp: merkleHashDigests.simps)
  qed
qed

lemma map_hash_inj: "map H xs = map H ys \<Longrightarrow> xs = ys \<or> collide H xs ys"
proof (induction xs arbitrary: ys)
  case (Cons x xs)
  then obtain y ys' where "ys = y # ys'" "H x = H y" "map H xs = map H ys'" by (cases ys) auto
  with Cons.IH [of ys'] show ?case by (auto simp: collide_def list_ex_iff)
qed simp

text \<open>
  C38: Two batches with the same header that both pass the check of their data have the same payloads, if they have
  equally many. Otherwise the computations of their data hashes have found a collision: two different strings with the same
  hash, one hashed for the first batch and one for the second.
\<close>

theorem header_binds_payloads:
  assumes "\<And>x. length (sha256 Y x) = 32" and "checkBatch Y (Some a) True needA s = Inr ha"
    and "checkBatch Y (Some b) True needB s' = Inr hb" and "Header a = Header b"
    and "length (Payloads a) = length (Payloads b)"
  shows "Payloads a = Payloads b \<or> collide (sha256 Y) (dataInputs (sha256 Y) (Payloads a)) (dataInputs (sha256 Y) (Payloads b))"
proof -
  let ?H = "sha256 Y"
  have "merkleHashData ?H (Payloads a) = merkleHashData ?H (Payloads b)"
    using assms(2-4) by (auto simp: checkBatch_def split: option.splits if_splits)
  then have "map ?H (Payloads a) = map ?H (Payloads b) \<or>
      collide ?H (merkleInputs ?H (map ?H (Payloads a))) (merkleInputs ?H (map ?H (Payloads b)))"
    unfolding merkleHashData_def by (rule merkleHashDigests_inj [OF assms(1), rotated 2]) (use assms(1,5) in auto)
  then show ?thesis
    using map_hash_inj [of ?H "Payloads a" "Payloads b"] collide_append unfolding dataInputs_def by blast
qed

text \<open>Without a collision, the payloads are the same: the hash of the example has none on these inputs.\<close>

lemma header_binds_payloads_witness:
  "Payloads batch1 = Payloads (batch1\<lparr>Signatures := [(2, 2 # toyHash (Header batch1))]\<rparr>)"
proof -
  let ?b = "batch1\<lparr>Signatures := [(2, 2 # toyHash (Header batch1))]\<rparr>"
  have len: "length (sha256 (memSystem 1) x) = 32" for x by (simp add: memSystem_def toyHash_def)
  have "\<not> isl (checkBatch (memSystem 1) (Some batch1) True False replica1)"
    "\<not> isl (checkBatch (memSystem 1) (Some ?b) True False replica1)" by code_simp+
  then obtain h h' where c: "checkBatch (memSystem 1) (Some batch1) True False replica1 = Inr h"
    "checkBatch (memSystem 1) (Some ?b) True False replica1 = Inr h'" by (metis sum.collapse(2))
  have "\<not> collide (sha256 (memSystem 1)) (dataInputs (sha256 (memSystem 1)) (Payloads batch1))
      (dataInputs (sha256 (memSystem 1)) (Payloads ?b))" by code_simp
  with header_binds_payloads [OF len c] show ?thesis by simp
qed

text \<open>
  With a different number of payloads the header does not bind: a batch of two payloads has the same data
  hash as the batch whose only payload is their hashes one after the other, whatever the hash function is. A
  faulty primary can send the two batches to different replicas, under one digest.
\<close>

theorem data_hash_ambiguous:
  "merkleHashData H [a, b] = merkleHashData H [H a @ H b]"
  by (simp add: merkleHashData_def merkleHashDigests.simps)

section \<open>How a replica is brought down\<close>






definition forged :: Batch where
  "forged = makeBatch (memSystem 0) 9 None [[6, 6, 6]]"

text \<open>
  A hello with an unsigned batch is delivered if the header of the batch has no previous hash: replica 1, in the
  middle of a batch, is made to deliver a batch number 9 that nobody has signed. The batch in progress is
  delivered after it, so that the sequence numbers go back from 9 to 1.
\<close>
theorem unsigned_hello_delivered:
  "case runInputs (memSystem 1) (In_Receive (Msg_Hello \<lparr>hBatch = Some forged, hNewView = None\<rparr>) 3 #
       map (\<lambda>r. In_Receive (Msg_Checkpoint (checkpointOf r)) r) [3, 1]) inProgress of
     Inl _ \<Rightarrow> False
   | Inr s \<Rightarrow> Signatures forged = [] \<and> map Payloads (sys s) = [[[5]], [[6, 6, 6]]] \<and>
       map (\<lambda>b. map_option bhSeq (decHeader (Header b))) (sys s) = [Some 1, Some 9]"
  by code_simp

end
