(* ===== verification/Orderer_Policy.thy ===== *)
theory Orderer_Policy
  imports Prelude
begin

text \<open>
  Signature policies of the ordering service (orderer/common/cauthdsl: cauthdsl.go, cauthdsl_builder.go) and
  the policy manager (orderer/common/policies/policy.go). A policy is compiled to a function once and
  evaluated often; compilation is shown to agree with a direct reading of the policy.
\<close>

section \<open>Policies\<close>

text \<open>
  \<open>cb.SignaturePolicy\<close>: its \<open>Type\<close> is one of two kinds, or nil. Indices and numbers are 32-bit signed.
\<close>

type_synonym i32 = "32 word"

datatype SignaturePolicy =
    SignaturePolicy_SignedBy i32
  | SignaturePolicy_From i32 "SignaturePolicy list"
  | SignaturePolicy_nil

record SignaturePolicyEnvelope =
  spVersion :: i32
  spPolicy :: "SignaturePolicy option"
  spIdentities :: "bytes list"

datatype PolicyMsg = Policy_SignaturePolicy "SignaturePolicyEnvelope option" | Policy_nil

section \<open>Building policies\<close>

definition SignedBy :: "i32 \<Rightarrow> SignaturePolicy" where
  "SignedBy index = SignaturePolicy_SignedBy index"

definition NOutOf :: "i32 \<Rightarrow> SignaturePolicy list \<Rightarrow> SignaturePolicy" where
  "NOutOf n ps = SignaturePolicy_From n ps"

definition And :: "SignaturePolicy \<Rightarrow> SignaturePolicy \<Rightarrow> SignaturePolicy" where
  "And lhs rhs = NOutOf 2 [lhs, rhs]"

definition Or :: "SignaturePolicy \<Rightarrow> SignaturePolicy \<Rightarrow> SignaturePolicy" where
  "Or lhs rhs = NOutOf 1 [lhs, rhs]"

definition policyEnvelope :: "SignaturePolicy \<Rightarrow> bytes list \<Rightarrow> SignaturePolicyEnvelope" where
  "policyEnvelope p identities = \<lparr>spVersion = 0, spPolicy = Some p, spIdentities = identities\<rparr>"

definition AcceptAllPolicy :: SignaturePolicyEnvelope where
  "AcceptAllPolicy = policyEnvelope (NOutOf 0 []) []"

definition RejectAllPolicy :: SignaturePolicyEnvelope where
  "RejectAllPolicy = policyEnvelope (NOutOf 1 []) []"

section \<open>Compiling policies\<close>

text \<open>
  \<open>CryptoHelper\<close> is its one method \<open>VerifySignature\<close>. A compiled policy takes the message, the identities and
  the signatures; it indexes the signatures with a position in the identities, which may be out of range.
\<close>

type_synonym CryptoHelper = "bytes \<Rightarrow> bytes \<Rightarrow> bytes \<Rightarrow> bool"

type_synonym authenticator = "bytes \<Rightarrow> bytes list \<Rightarrow> bytes list \<Rightarrow> error + bool"

text \<open>The loop of the closure for a single signer.\<close>

fun signedBy_loop :: "CryptoHelper \<Rightarrow> bytes \<Rightarrow> bytes \<Rightarrow> bytes list \<Rightarrow> nat \<Rightarrow> bytes list \<Rightarrow> error + bool" where
  "signedBy_loop ch signedByID msg signatures i [] = Inr False"
| "signedBy_loop ch signedByID msg signatures i (idb # ids) =
     (if idb = signedByID then
        (if i < length signatures then Inr (ch msg idb (signatures ! i)) else Inl (Panic ''index out of range''))
      else signedBy_loop ch signedByID msg signatures (Suc i) ids)"

text \<open>The loop of the closure for \<open>n\<close> out of several policies; the counter is an \<open>int32\<close>.\<close>

fun verified_loop :: "bytes \<Rightarrow> bytes list \<Rightarrow> bytes list \<Rightarrow> i32 \<Rightarrow> authenticator list \<Rightarrow> error + i32" where
  "verified_loop msg ids signatures verified [] = Inr verified"
| "verified_loop msg ids signatures verified (p # ps) =
     bindE (p msg ids signatures) (\<lambda>b. verified_loop msg ids signatures (if b then verified + 1 else verified) ps)"

fun compile :: "SignaturePolicy \<Rightarrow> bytes list \<Rightarrow> CryptoHelper \<Rightarrow> error + authenticator"
  and compileAll :: "SignaturePolicy list \<Rightarrow> bytes list \<Rightarrow> CryptoHelper \<Rightarrow> error + authenticator list" where
  "compile (SignaturePolicy_From n ps) identities ch =
     bindE (compileAll ps identities ch) (\<lambda>policies.
       Inr (\<lambda>msg ids signatures.
         bindE (verified_loop msg ids signatures 0 policies) (\<lambda>verified. Inr (n \<le>s verified))))"
| "compile (SignaturePolicy_SignedBy k) identities ch =
     (if sint k < 0 \<or> word_of_int (int (length identities)) \<le>s k
      then Inl (ErrMsg ''Identity index out of range'')
      else if nat (sint k) < length identities then
        Inr (\<lambda>msg ids signatures. signedBy_loop ch (identities ! nat (sint k)) msg signatures 0 ids)
      else Inl (Panic ''index out of range''))"
| "compile SignaturePolicy_nil identities ch = Inl (ErrMsg ''Unknown type'')"
| "compileAll [] identities ch = Inr []"
| "compileAll (p # ps) identities ch =
     bindE (compile p identities ch) (\<lambda>c. bindE (compileAll ps identities ch) (\<lambda>cs. Inr (c # cs)))"

record SignaturePolicyEvaluator =
  compiledAuthenticator :: authenticator

definition NewSignaturePolicyEvaluator :: "SignaturePolicyEnvelope \<Rightarrow> CryptoHelper \<Rightarrow> error + SignaturePolicyEvaluator" where
  "NewSignaturePolicyEvaluator p ch =
     (if spVersion p \<noteq> 0 then Inl (ErrMsg ''This evaluator only understands messages of version 0'')
      else bindE (deref (spPolicy p)) (\<lambda>sp.
        bindE (compile sp (spIdentities p) ch) (\<lambda>compiled. Inr \<lparr>compiledAuthenticator = compiled\<rparr>)))"

definition Authenticate :: "SignaturePolicyEvaluator \<Rightarrow> authenticator" where
  "Authenticate ape msg ids signatures = compiledAuthenticator ape msg ids signatures"

section \<open>The policy manager\<close>

record policyI =
  polSource :: PolicyMsg
  polEvaluator :: SignaturePolicyEvaluator

definition newPolicy :: "PolicyMsg \<Rightarrow> CryptoHelper \<Rightarrow> error + policyI" where
  "newPolicy policySource ch =
     (case policySource of
        Policy_nil \<Rightarrow> Inl (ErrMsg ''Unknown policy type'')
      | Policy_SignaturePolicy None \<Rightarrow> Inl (ErrMsg ''Nil signature policy received'')
      | Policy_SignaturePolicy (Some sigPolicy) \<Rightarrow>
          bindE (NewSignaturePolicyEvaluator sigPolicy ch) (\<lambda>evaluator.
            Inr \<lparr>polSource = policySource, polEvaluator = evaluator\<rparr>))"

text \<open>\<open>Evaluate\<close> may be called on a nil policy. It does not look at the headers.\<close>

definition pol_Evaluate :: "policyI option \<Rightarrow> bytes list \<Rightarrow> bytes \<Rightarrow> bytes list \<Rightarrow> bytes list \<Rightarrow> error + unit" where
  "pol_Evaluate p header payload identities signatures =
     (case p of
        None \<Rightarrow> Inl (ErrMsg ''Evaluated default policy, results in reject'')
      | Some p \<Rightarrow>
          bindE (Authenticate (polEvaluator p) payload identities signatures) (\<lambda>ok.
            if \<not> ok then Inl (ErrMsg ''Failed to authenticate policy'') else Inr ()))"

record ManagerImpl =
  policies :: "(gostring, policyI) gomap"
  pendingPolicies :: "(gostring, policyI) gomap option"
  pmCH :: CryptoHelper

definition NewManagerImpl :: "CryptoHelper \<Rightarrow> ManagerImpl" where
  "NewManagerImpl ch = \<lparr>policies = [], pendingPolicies = None, pmCH = ch\<rparr>"

definition GetPolicy :: "ManagerImpl \<Rightarrow> gostring \<Rightarrow> policyI option \<times> bool" where
  "GetPolicy pm i = (map_of (policies pm) i, map_of (policies pm) i \<noteq> None)"

definition pm_BeginConfig :: "ManagerImpl \<Rightarrow> error + ManagerImpl" where
  "pm_BeginConfig pm =
     (if pendingPolicies pm \<noteq> None
      then Inl (Panic ''Programming error, cannot call begin in the middle of a proposal'')
      else Inr (pm\<lparr>pendingPolicies := Some []\<rparr>))"

definition pm_RollbackConfig :: "ManagerImpl \<Rightarrow> ManagerImpl" where
  "pm_RollbackConfig pm = pm\<lparr>pendingPolicies := None\<rparr>"

definition pm_CommitConfig :: "ManagerImpl \<Rightarrow> error + ManagerImpl" where
  "pm_CommitConfig pm =
     (case pendingPolicies pm of
        None \<Rightarrow> Inl (Panic ''Programming error, cannot call commit without an existing proposal'')
      | Some ps \<Rightarrow> Inr (pm\<lparr>policies := ps, pendingPolicies := None\<rparr>))"

section \<open>What a policy means\<close>

text \<open>
  The direct reading: a policy is well-formed when its indices name identities, and it is satisfied by a
  list of identities with their signatures when enough of its parts are; for a single signer the first
  entry for the identity counts.
\<close>

fun policy_wf :: "nat \<Rightarrow> SignaturePolicy \<Rightarrow> bool" where
  "policy_wf n (SignaturePolicy_SignedBy k) \<longleftrightarrow> 0 \<le> sint k \<and> sint k < int n"
| "policy_wf n (SignaturePolicy_From m ps) \<longleftrightarrow> list_all (policy_wf n) ps"
| "policy_wf n SignaturePolicy_nil \<longleftrightarrow> False"

fun satisfied :: "CryptoHelper \<Rightarrow> bytes list \<Rightarrow> bytes \<Rightarrow> (bytes \<times> bytes) list \<Rightarrow> SignaturePolicy \<Rightarrow> bool" where
  "satisfied ch identities msg sigs (SignaturePolicy_SignedBy k) \<longleftrightarrow>
     (let idb = identities ! nat (sint k) in
      case map_of sigs idb of None \<Rightarrow> False | Some sig \<Rightarrow> ch msg idb sig)"
| "satisfied ch identities msg sigs (SignaturePolicy_From m ps) \<longleftrightarrow>
     sint m \<le> int (length (filter id (map (satisfied ch identities msg sigs) ps)))"
| "satisfied ch identities msg sigs SignaturePolicy_nil \<longleftrightarrow> False"

text \<open>No part of the policy has more alternatives than an \<open>int32\<close> can count.\<close>

fun narrow :: "SignaturePolicy \<Rightarrow> bool" where
  "narrow (SignaturePolicy_From m ps) \<longleftrightarrow> length ps < 2 ^ 31 \<and> list_all narrow ps"
| "narrow p \<longleftrightarrow> True"

lemma sint_of_nat_small: "n < 2 ^ 31 \<Longrightarrow> sint (of_nat n :: i32) = int n"
  by (simp add: sint_word_ariths signed_of_nat signed_take_bit_int_eq_self_iff)

lemma signedBy_loop_eq:
  assumes "i + length ids \<le> length signatures"
  shows "signedBy_loop ch k msg signatures i ids =
    Inr (case map_of (zip ids (drop i signatures)) k of None \<Rightarrow> False | Some sig \<Rightarrow> ch msg k sig)"
  using assms
proof (induction ids arbitrary: i)
  case (Cons a ids)
  then have i: "i < length signatures" by simp
  then have "drop i signatures = signatures ! i # drop (Suc i) signatures" by (simp add: Cons_nth_drop_Suc)
  with Cons i show ?case by simp
qed simp

lemma verified_loop_eq:
  assumes "list_all2 (\<lambda>c b. c msg ids signatures = Inr b) cs bs"
  shows "verified_loop msg ids signatures v cs = Inr (v + of_nat (length (filter id bs)))"
  using assms by (induction arbitrary: v rule: list_all2_induct) (auto simp: add.assoc)

lemma compile_correct:
  assumes "length identities < 2 ^ 31" and "length ids \<le> length signatures"
  shows "narrow p \<Longrightarrow> case compile p identities ch of
      Inl e \<Rightarrow> \<not> policy_wf (length identities) p \<and> \<not> is_panic e
    | Inr f \<Rightarrow> policy_wf (length identities) p \<and>
        f msg ids signatures = Inr (satisfied ch identities msg (zip ids signatures) p)"
    and "list_all narrow ps \<Longrightarrow> case compileAll ps identities ch of
      Inl e \<Rightarrow> \<not> list_all (policy_wf (length identities)) ps \<and> \<not> is_panic e
    | Inr fs \<Rightarrow> list_all (policy_wf (length identities)) ps \<and>
        list_all2 (\<lambda>f b. f msg ids signatures = Inr b) fs (map (satisfied ch identities msg (zip ids signatures)) ps)"
  using assms(1)
proof (induction p identities ch and ps identities ch rule: compile_compileAll.induct)
  case (1 n ps identities ch)
  then have ps: "length ps < 2 ^ 31" "list_all narrow ps" by simp_all
  show ?case
  proof (cases "compileAll ps identities ch")
    case (Inl e)
    with 1 ps show ?thesis by simp
  next
    case (Inr fs)
    let ?bs = "map (satisfied ch identities msg (zip ids signatures)) ps"
    have wf: "list_all (policy_wf (length identities)) ps" and fs: "list_all2 (\<lambda>f b. f msg ids signatures = Inr b) fs ?bs"
      using 1 ps(2) Inr by simp_all
    have "length (filter id ?bs) < 2 ^ 31" by (rule le_less_trans [OF length_filter_le]) (use ps(1) in simp)
    with wf Inr show ?thesis by (simp add: verified_loop_eq [OF fs] word_sle_eq sint_of_nat_small)
  qed
next
  case (2 k identities ch)
  have "sint (of_nat (length identities) :: i32) = int (length identities)"
    by (rule sint_of_nat_small [OF "2.prems"(2)])
  then show ?case
    using signedBy_loop_eq [of 0 ids signatures] assms(2) by (auto simp: word_sle_eq Let_def)
next
  case (5 p ps identities ch)
  then show ?case by (auto split: sum.splits)
qed simp_all

text \<open>
  C30: Compiling a policy fails exactly for the policies that refer to an identity which is not there, or have
  a part of no known kind, and then with an error and no panic. The compiled policy accepts exactly when
  the policy, read directly, is satisfied. The number of identities and of alternatives must fit an
  \<open>int32\<close>, and there must be a signature for each identity.
\<close>

theorem compiled_policy_agrees:
  assumes "length identities < 2 ^ 31" and "length ids \<le> length signatures" and "narrow p"
  shows "case compile p identities ch of
      Inl e \<Rightarrow> \<not> policy_wf (length identities) p \<and> \<not> is_panic e
    | Inr f \<Rightarrow> policy_wf (length identities) p \<and>
        f msg ids signatures = Inr (satisfied ch identities msg (zip ids signatures) p)"
  by (rule compile_correct(1) [OF assms])

text \<open>Both of two signers must have signed; only one has.\<close>

lemma compiled_policy_agrees_witness:
  "case compile (And (SignedBy 0) (SignedBy 1)) [[7], [8]] (\<lambda>msg i sig. sig = msg @ i) of
     Inl e \<Rightarrow> False
   | Inr f \<Rightarrow> f [1] [[8], [7]] [[1, 8], [1, 7]] = Inr True \<and> f [1] [[8], [7]] [[1, 8], [1, 8]] = Inr False"
  using compiled_policy_agrees [where identities = "[[7], [8]]" and ids = "[[8], [7]]" and signatures = "[[1, 8], [1, 7]]" and
      p = "And (SignedBy 0) (SignedBy 1)" and ch = "\<lambda>msg i sig. sig = msg @ i" and msg = "[1]"]
    compiled_policy_agrees [where identities = "[[7], [8]]" and ids = "[[8], [7]]" and signatures = "[[1, 8], [1, 8]]" and
      p = "And (SignedBy 0) (SignedBy 1)" and ch = "\<lambda>msg i sig. sig = msg @ i" and msg = "[1]"]
  by (auto simp: And_def NOutOf_def SignedBy_def simp del: compile.simps compileAll.simps split: sum.splits)

end
