(* ===== verification/Orderer_Config.thy ===== *)
theory Orderer_Config
  imports Orderer_Policy
begin

text \<open>
  The configuration of a chain in the ordering service (orderer/common/configtx: configtx.go,
  bytes_handler.go; the wiring of orderer/main.go). A configuration transaction is checked against the current
  configuration and either replaces it as a whole or changes nothing.
\<close>

section \<open>Messages\<close>

text \<open>
  The messages of protos/common that the orderer reads, with the fields it reads. The protobuf decoder is a
  parameter; the elements of the repeated fields it decodes are never nil.
\<close>

record ChainHeader =
  chType :: i32
  chChainID :: nbytes

record ConfigurationItem =
  ciHeader :: "ChainHeader option"
  ciType :: i32
  ciLastModified :: u64
  ciModificationPolicy :: gostring
  ciKey :: gostring
  ciValue :: nbytes

record ConfigurationSignature =
  csSignatureHeader :: bytes
  csSignature :: bytes

record SignedConfigurationItem =
  sciConfigurationItem :: bytes
  sciSignatures :: "ConfigurationSignature list"

record ConfigurationEnvelope =
  ceItems :: "SignedConfigurationItem list"

record PayloadMsg =
  plHeader :: "ChainHeader option option"
  plData :: bytes

text \<open>
  The fields are those the orderer reads. \<open>plHeader\<close> is the header and in it the chain header, either of which may be nil. Decoding gives the message, or an
  error; for the configuration envelope also what the message holds when decoding has failed, since one caller goes on
  to use it.
\<close>

record OrdCodec =
  unItem :: "bytes \<Rightarrow> error + ConfigurationItem"
  unSignatureHeader :: "bytes \<Rightarrow> error + bytes"
  unPolicy :: "bytes \<Rightarrow> error + PolicyMsg"
  unPayload :: "bytes \<Rightarrow> error + PayloadMsg"
  unConfigurationEnvelope :: "bytes \<Rightarrow> ConfigurationEnvelope \<times> error option"

section \<open>Handlers\<close>

record BytesHandler =
  bhConfig :: "(gostring, nbytes) gomap"
  bhProposed :: "(gostring, nbytes) gomap option"

definition NewBytesHandler :: BytesHandler where
  "NewBytesHandler = \<lparr>bhConfig = [], bhProposed = None\<rparr>"

definition bh_BeginConfig :: "BytesHandler \<Rightarrow> error + BytesHandler" where
  "bh_BeginConfig bh =
     (if bhProposed bh \<noteq> None
      then Inl (Panic ''Programming error, called BeginConfig while a proposal was in process'')
      else Inr (bh\<lparr>bhProposed := Some []\<rparr>))"

definition bh_RollbackConfig :: "BytesHandler \<Rightarrow> BytesHandler" where
  "bh_RollbackConfig bh = bh\<lparr>bhProposed := None\<rparr>"

definition bh_CommitConfig :: "BytesHandler \<Rightarrow> error + BytesHandler" where
  "bh_CommitConfig bh =
     (case bhProposed bh of
        None \<Rightarrow> Inl (Panic ''Programming error, called CommitConfig with no proposal in process'')
      | Some p \<Rightarrow> Inr (bh\<lparr>bhConfig := p, bhProposed := None\<rparr>))"

definition bh_ProposeConfig :: "ConfigurationItem \<Rightarrow> BytesHandler \<Rightarrow> error + BytesHandler" where
  "bh_ProposeConfig item bh =
     (case bhProposed bh of
        None \<Rightarrow> Inl (Panic ''assignment to entry in nil map'')
      | Some p \<Rightarrow> Inr (bh\<lparr>bhProposed := Some (mput (ciKey item) (ciValue item) p)\<rparr>))"

definition bh_GetBytes :: "BytesHandler \<Rightarrow> gostring \<Rightarrow> nbytes" where
  "bh_GetBytes bh i = (case map_of (bhConfig bh) i of None \<Rightarrow> None | Some v \<Rightarrow> v)"

text \<open>\<open>ProposeConfig\<close> of the policy manager. Type 0 is \<open>ConfigurationItem_Policy\<close>.\<close>

definition pm_ProposeConfig :: "OrdCodec \<Rightarrow> ConfigurationItem \<Rightarrow> ManagerImpl \<Rightarrow> error + ManagerImpl" where
  "pm_ProposeConfig C item pm =
     (if ciType item \<noteq> 0 then Inl (ErrMsg ''Expected type of ConfigurationItem_Policy'')
      else bindE (unPolicy C (of_nbytes (ciValue item))) (\<lambda>p.
        bindE (newPolicy p (pmCH pm)) (\<lambda>cPolicy.
        case pendingPolicies pm of
          None \<Rightarrow> Inl (Panic ''assignment to entry in nil map'')
        | Some ps \<Rightarrow> Inr (pm\<lparr>pendingPolicies := Some (mput (ciKey item) cPolicy ps)\<rparr>))))"

section \<open>The manager\<close>

text \<open>
  The handlers are values of an interface with two implementations. \<open>HPolicy\<close> is a pointer to the policy manager, the
  one the configuration manager holds itself; the bytes handlers are distinct objects.
\<close>

datatype Handler = HPolicy | HBytes BytesHandler

type_synonym configMap = "(i32, (gostring, ConfigurationItem) gomap) gomap"

record configurationManager =
  cmSequence :: u64
  cmChainID :: nbytes
  cmPM :: ManagerImpl
  configuration :: configMap
  handlers :: "(i32, Handler) gomap"

definition ctypes :: "i32 list" where
  "ctypes = [0, 1, 2, 3]"

definition makeConfigMap :: configMap where
  "makeConfigMap = map (\<lambda>t. (t, [])) ctypes"

text \<open>Reading \<open>m[t][k]\<close>; a missing inner map is nil and has no entries.\<close>

definition cfg :: "configMap \<Rightarrow> i32 \<Rightarrow> gostring \<Rightarrow> ConfigurationItem option" where
  "cfg m t k = (case map_of m t of None \<Rightarrow> None | Some mm \<Rightarrow> map_of mm k)"

fun computeLoop ::
  "OrdCodec \<Rightarrow> u64 \<Rightarrow> nbytes \<Rightarrow> SignedConfigurationItem list \<Rightarrow> error + nbytes \<times> u64" where
  "computeLoop C m chainID [] = Inr (chainID, m)"
| "computeLoop C m chainID (signedItem # rest) =
     catchE (unItem C (sciConfigurationItem signedItem))
       (\<lambda>err. Inl (ErrMsg ''Error unmarshaling signedItem.ConfigurationItem''))
       (\<lambda>item.
          let m = (if m < ciLastModified item then ciLastModified item else m) in
          case ciHeader item of
            None \<Rightarrow> Inl (ErrMsg ''Header not set'')
          | Some h \<Rightarrow>
             (case chChainID h of
                None \<Rightarrow> Inl (ErrMsg ''Header chainID was nil'')
              | Some c \<Rightarrow>
                  if chainID = None then computeLoop C m (Some c) rest
                  else if chainID \<noteq> Some c then Inl (ErrMsg ''Mismatched chainIDs in envelope'')
                  else computeLoop C m chainID rest))"

definition computeChainIDAndSequence :: "OrdCodec \<Rightarrow> ConfigurationEnvelope \<Rightarrow> error + nbytes \<times> u64" where
  "computeChainIDAndSequence C configtx =
     (if ceItems configtx = [] then Inl (ErrMsg ''Empty envelope unsupported'')
      else computeLoop C 0 None (ceItems configtx))"

text \<open>Calling a method of the handler of a type, for the two implementations.\<close>

definition onHandler ::
  "i32 \<Rightarrow> (ManagerImpl \<Rightarrow> error + ManagerImpl) \<Rightarrow> (BytesHandler \<Rightarrow> error + BytesHandler) \<Rightarrow> configurationManager \<Rightarrow>
   error + configurationManager" where
  "onHandler t fp fb cm =
     (case map_of (handlers cm) t of
        None \<Rightarrow> Inl (Panic ''nil pointer dereference'')
      | Some HPolicy \<Rightarrow> bindE (fp (cmPM cm)) (\<lambda>pm. Inr (cm\<lparr>cmPM := pm\<rparr>))
      | Some (HBytes bh) \<Rightarrow> bindE (fb bh) (\<lambda>bh. Inr (cm\<lparr>handlers := mput t (HBytes bh) (handlers cm)\<rparr>)))"

fun onHandlers ::
  "(ManagerImpl \<Rightarrow> error + ManagerImpl) \<Rightarrow> (BytesHandler \<Rightarrow> error + BytesHandler) \<Rightarrow> i32 list \<Rightarrow> configurationManager \<Rightarrow>
   error + configurationManager" where
  "onHandlers fp fb [] cm = Inr cm"
| "onHandlers fp fb (t # ts) cm = bindE (onHandler t fp fb cm) (onHandlers fp fb ts)"

definition beginHandlers :: "configurationManager \<Rightarrow> error + configurationManager" where
  "beginHandlers = onHandlers pm_BeginConfig bh_BeginConfig ctypes"

definition rollbackHandlers :: "configurationManager \<Rightarrow> error + configurationManager" where
  "rollbackHandlers = onHandlers (\<lambda>pm. Inr (pm_RollbackConfig pm)) (\<lambda>bh. Inr (bh_RollbackConfig bh)) ctypes"

definition commitHandlers :: "configurationManager \<Rightarrow> error + configurationManager" where
  "commitHandlers = onHandlers pm_CommitConfig bh_CommitConfig ctypes"

section \<open>Checking a configuration transaction\<close>

text \<open>\<open>"DefaultModificationPolicy"\<close>\<close>

definition DefaultModificationPolicyID :: gostring where
  "DefaultModificationPolicyID =
     [68, 101, 102, 97, 117, 108, 116, 77, 111, 100, 105, 102, 105, 99, 97, 116, 105, 111, 110, 80, 111, 108, 105, 99, 121]"

datatype PolicyV = acceptAllPolicy | PolicyOf "policyI option"

definition Evaluate :: "PolicyV \<Rightarrow> bytes list \<Rightarrow> bytes \<Rightarrow> bytes list \<Rightarrow> bytes list \<Rightarrow> error + unit" where
  "Evaluate p headers payload identities signatures =
     (case p of acceptAllPolicy \<Rightarrow> Inr () | PolicyOf p \<Rightarrow> pol_Evaluate p headers payload identities signatures)"

text \<open>
  The loop that collects headers, signatures and identities. The signature goes to the headers, and the
  signature header to the signatures.
\<close>

fun collectSigs ::
  "OrdCodec \<Rightarrow> ConfigurationSignature list \<Rightarrow> error + bytes list \<times> bytes list \<times> bytes list" where
  "collectSigs C [] = Inr ([], [], [])"
| "collectSigs C (configSig # rest) =
     bindE (unSignatureHeader C (csSignatureHeader configSig)) (\<lambda>creator.
     bindE (collectSigs C rest) (\<lambda>(headers, signatures, identities).
       Inr (csSignature configSig # headers, csSignatureHeader configSig # signatures, creator # identities)))"

definition checkModified :: "configMap \<Rightarrow> u64 \<Rightarrow> ConfigurationItem \<Rightarrow> error + unit" where
  "checkModified cur sq config =
     (case cfg cur (ciType config) (ciKey config) of
        Some val \<Rightarrow>
          let isModified = (ciLastModified val \<noteq> ciLastModified config \<or> of_nbytes (ciValue config) \<noteq> of_nbytes (ciValue val))
          in if isModified \<and> ciLastModified config \<noteq> sq
             then Inl (ErrMsg ''Key was modified, but its LastModified does not equal current configtx Sequence'')
             else Inr ()
      | None \<Rightarrow>
          if ciLastModified config \<noteq> sq then Inl (ErrMsg ''Key was new, but had an older Sequence set'') else Inr ())"

text \<open>One entry of the envelope.\<close>

definition itemPolicy :: "PolicyV \<Rightarrow> configurationManager \<Rightarrow> ConfigurationItem \<Rightarrow> PolicyV" where
  "itemPolicy dflt cm config =
     (case cfg (configuration cm) (ciType config) (ciKey config) of
        Some oldItem \<Rightarrow> PolicyOf (fst (GetPolicy (cmPM cm) (ciModificationPolicy oldItem)))
      | None \<Rightarrow> dflt)"

definition processItem ::
  "OrdCodec \<Rightarrow> u64 \<Rightarrow> PolicyV \<Rightarrow> SignedConfigurationItem \<Rightarrow> configMap \<Rightarrow> configurationManager \<Rightarrow>
   error + configMap \<times> configurationManager" where
  "processItem C sq dflt entry m cm =
     bindE (unItem C (sciConfigurationItem entry)) (\<lambda>config.
     bindE (collectSigs C (sciSignatures entry)) (\<lambda>(headers, signatures, identities).
     bindE (Evaluate (itemPolicy dflt cm config) headers (sciConfigurationItem entry) identities signatures) (\<lambda>_.
     bindE (checkModified (configuration cm) sq config) (\<lambda>_.
     bindE (onHandler (ciType config) (pm_ProposeConfig C config) (bh_ProposeConfig config) cm) (\<lambda>cm.
       case map_of m (ciType config) of
         None \<Rightarrow> Inl (Panic ''assignment to entry in nil map'')
       | Some mm \<Rightarrow> Inr (mput (ciType config) (mput (ciKey config) config mm) m, cm))))))"

text \<open>
  The loop over the entries returns the manager also when it fails, with the proposals made so far.
\<close>

fun processItems ::
  "OrdCodec \<Rightarrow> u64 \<Rightarrow> PolicyV \<Rightarrow> SignedConfigurationItem list \<Rightarrow> configMap \<Rightarrow> configurationManager \<Rightarrow>
   configurationManager \<times> (error + configMap)" where
  "processItems C sq dflt [] m cm = (cm, Inr m)"
| "processItems C sq dflt (entry # rest) m cm =
     (case processItem C sq dflt entry m cm of
        Inl err \<Rightarrow> (cm, Inl err)
      | Inr (m, cm) \<Rightarrow> processItems C sq dflt rest m cm)"

definition keepsKeys :: "configMap \<Rightarrow> configMap \<Rightarrow> bool" where
  "keepsKeys cur m \<longleftrightarrow>
     list_all (\<lambda>t. list_all (\<lambda>(i, _). cfg m t i \<noteq> None) (case map_of cur t of None \<Rightarrow> [] | Some curMap \<Rightarrow> curMap)) ctypes"

definition processConfig ::
  "OrdCodec \<Rightarrow> ConfigurationEnvelope \<Rightarrow> configurationManager \<Rightarrow> configurationManager \<times> (error + configMap)" where
  "processConfig C configtx cm =
     (case computeChainIDAndSequence C configtx of
        Inl err \<Rightarrow> (cm, Inl err)
      | Inr (chainID, sq) \<Rightarrow>
          if sq \<noteq> cmSequence cm + 1 then (cm, Inl (ErrMsg ''Config sequence number jumped''))
          else if of_nbytes chainID \<noteq> of_nbytes (cmChainID cm) then (cm, Inl (ErrMsg ''Config is for the wrong chain''))
          else
            (let (defaultModificationPolicy, defaultPolicySet) = GetPolicy (cmPM cm) DefaultModificationPolicyID;
                 dflt = (if \<not> defaultPolicySet then acceptAllPolicy else PolicyOf defaultModificationPolicy)
             in case processItems C sq dflt (ceItems configtx) makeConfigMap cm of
                  (cm, Inl err) \<Rightarrow> (cm, Inl err)
                | (cm, Inr m) \<Rightarrow>
                    if keepsKeys (configuration cm) m then (cm, Inr m)
                    else (cm, Inl (ErrMsg ''Missing key in new configuration''))))"

section \<open>Operations\<close>

text \<open>A panic is not returned: the process ends where it happens, and what follows is not executed.\<close>

definition Validate :: "OrdCodec \<Rightarrow> ConfigurationEnvelope \<Rightarrow> configurationManager \<Rightarrow> error + configurationManager \<times> (error + unit)" where
  "Validate C configtx cm =
     bindE (beginHandlers cm) (\<lambda>cm.
       case processConfig C configtx cm of
         (cm, r) \<Rightarrow> catchE r
           (\<lambda>err. bindE (rollbackHandlers cm) (\<lambda>cm. Inr (cm, Inl err)))
           (\<lambda>_. bindE (rollbackHandlers cm) (\<lambda>cm. Inr (cm, Inr ()))))"

definition Apply :: "OrdCodec \<Rightarrow> ConfigurationEnvelope \<Rightarrow> configurationManager \<Rightarrow> error + configurationManager \<times> (error + unit)" where
  "Apply C configtx cm =
     bindE (beginHandlers cm) (\<lambda>cm.
       case processConfig C configtx cm of
         (cm, r) \<Rightarrow> catchE r
           (\<lambda>err. bindE (rollbackHandlers cm) (\<lambda>cm. Inr (cm, Inl err)))
           (\<lambda>configMap.
              bindE (commitHandlers (cm\<lparr>configuration := configMap, cmSequence := cmSequence cm + 1\<rparr>)) (\<lambda>cm.
                Inr (cm, Inr ()))))"

definition ChainID :: "configurationManager \<Rightarrow> nbytes" where
  "ChainID cm = cmChainID cm"

definition NewConfigurationManager ::
  "OrdCodec \<Rightarrow> ConfigurationEnvelope \<Rightarrow> ManagerImpl \<Rightarrow> (i32, Handler) gomap \<Rightarrow> error + configurationManager" where
  "NewConfigurationManager C configtx pm hs =
     (if \<not> list_all (\<lambda>t. map_of hs t \<noteq> None) ctypes then Inl (ErrMsg ''Must supply a handler for all known types'')
      else bindE (computeChainIDAndSequence C configtx) (\<lambda>(chainID, sq).
        bindE (Apply C configtx \<lparr>cmSequence = sq - 1, cmChainID = chainID, cmPM = pm, configuration = makeConfigMap,
            handlers = hs\<rparr>) (\<lambda>(cm, r).
          bindE r (\<lambda>_. Inr cm))))"

text \<open>The wiring of orderer/main.go. The crypto helper it uses accepts every signature.\<close>

definition xxxVerifySignature :: CryptoHelper where
  "xxxVerifySignature msg ids sigs = True"

definition bootstrapHandlers :: "(i32, Handler) gomap" where
  "bootstrapHandlers = map (\<lambda>t. (t, if t = 0 then HPolicy else HBytes NewBytesHandler)) ctypes"

definition bootstrapConfigManager :: "OrdCodec \<Rightarrow> ConfigurationEnvelope \<Rightarrow> error + configurationManager" where
  "bootstrapConfigManager C lastConfigTx =
     catchE (NewConfigurationManager C lastConfigTx (NewManagerImpl xxxVerifySignature) bootstrapHandlers)
       (\<lambda>err. Inl (Panic ''err'')) Inr"

end
