(* ===== verification/Orderer_Ledger.thy ===== *)
theory Orderer_Ledger
  imports Orderer_Config
begin

text \<open>
  The in-memory ledger of the ordering service (orderer/rawledger/ramledger/ramledger.go, rawledger/util.go,
  protos/common/block.go): a linked list of blocks from which the oldest ones are dropped. Readers hold a pointer into
  the list, so the nodes are kept in an explicit store.
\<close>

section \<open>Blocks\<close>

record EnvelopeMsg =
  evPayload :: nbytes
  evSignature :: nbytes

record BlockHeader =
  hdNumber :: u64
  hdPreviousHash :: nbytes
  hdDataHash :: nbytes

text \<open>\<open>Data\<close> and \<open>Metadata\<close> are pointers and nil in some blocks. The metadata is not read by the code modelled here.\<close>

record BlockMsg =
  bkHeader :: BlockHeader
  bkData :: "bytes list option"
  bkMetadata :: "bytes list option"

text \<open>The protobuf encoder and the hash function the ledger uses.\<close>

record BlockCodec =
  mEnvelope :: "EnvelopeMsg \<Rightarrow> error + bytes"
  mBlockHeader :: "BlockHeader \<Rightarrow> error + bytes"
  mBlockData :: "bytes list \<Rightarrow> error + bytes"
  ComputeCryptoHash :: "bytes \<Rightarrow> bytes"

definition header_Hash :: "BlockCodec \<Rightarrow> BlockHeader \<Rightarrow> error + bytes" where
  "header_Hash K h =
     (case mBlockHeader K h of
        Inl _ \<Rightarrow> Inl (Panic ''This should never fail and is generally irrecoverable'')
      | Inr data \<Rightarrow> Inr (ComputeCryptoHash K data))"

definition data_Hash :: "BlockCodec \<Rightarrow> bytes list \<Rightarrow> error + bytes" where
  "data_Hash K d =
     (case mBlockData K d of
        Inl _ \<Rightarrow> Inl (Panic ''This should never fail and is generally irrecoverable'')
      | Inr data \<Rightarrow> Inr (ComputeCryptoHash K data))"

section \<open>The list\<close>

text \<open>A node has an address, its index in the store; its signal channel is open or closed.\<close>

record simpleList =
  slNext :: "nat option"
  slClosed :: bool
  slBlock :: BlockMsg

record ramLedger =
  nodes :: "simpleList list"
  ramMaxSize :: int
  ramSize :: int
  oldest :: nat
  newest :: nat

abbreviation node_at :: "ramLedger \<Rightarrow> nat \<Rightarrow> simpleList" where
  "node_at rl a \<equiv> nodes rl ! a"

abbreviation number_at :: "ramLedger \<Rightarrow> nat \<Rightarrow> u64" where
  "number_at rl a \<equiv> hdNumber (bkHeader (slBlock (nodes rl ! a)))"

definition bareBlock :: "u64 \<Rightarrow> BlockMsg" where
  "bareBlock n = \<lparr>bkHeader = \<lparr>hdNumber = n, hdPreviousHash = None, hdDataHash = None\<rparr>, bkData = None, bkMetadata = None\<rparr>"

definition newChain :: "int \<Rightarrow> ramLedger" where
  "newChain maxSize = \<lparr>nodes = [\<lparr>slNext = None, slClosed = False, slBlock = bareBlock (- 1)\<rparr>], ramMaxSize = maxSize,
     ramSize = 1, oldest = 0, newest = 0\<rparr>"

definition ram_Height :: "ramLedger \<Rightarrow> u64" where
  "ram_Height rl = number_at rl (newest rl) + 1"

text \<open>\<open>rl.oldest.next\<close> may be nil; closing a channel twice panics.\<close>

definition ram_appendBlock :: "BlockMsg \<Rightarrow> ramLedger \<Rightarrow> error + ramLedger" where
  "ram_appendBlock block rl =
     (let a = length (nodes rl); n = newest rl in
      if slClosed (node_at rl n) then Inl (Panic ''close of closed channel'')
      else
        let rl = rl\<lparr>nodes := (nodes rl)[n := (node_at rl n)\<lparr>slNext := Some a, slClosed := True\<rparr>] @
                     [\<lparr>slNext = None, slClosed = False, slBlock = block\<rparr>],
                   newest := a, ramSize := ramSize rl + 1\<rparr>
        in if ramMaxSize rl < ramSize rl then
             bindE (deref (slNext (node_at rl (oldest rl)))) (\<lambda>a. Inr (rl\<lparr>oldest := a, ramSize := ramSize rl - 1\<rparr>))
           else Inr rl)"

fun marshalAll :: "BlockCodec \<Rightarrow> EnvelopeMsg list \<Rightarrow> error + bytes list" where
  "marshalAll K [] = Inr []"
| "marshalAll K (msg # msgs) =
     (case mEnvelope K msg of
        Inl _ \<Rightarrow> Inl (Panic ''Error marshaling data which should be a valid proto'')
      | Inr b \<Rightarrow> bindE (marshalAll K msgs) (\<lambda>bs. Inr (b # bs)))"

definition ram_Append :: "BlockCodec \<Rightarrow> EnvelopeMsg list \<Rightarrow> bytes list \<Rightarrow> ramLedger \<Rightarrow> error + BlockMsg \<times> ramLedger" where
  "ram_Append K messages metadata rl =
     bindE (marshalAll K messages) (\<lambda>data.
     bindE (header_Hash K (bkHeader (slBlock (node_at rl (newest rl))))) (\<lambda>prev.
     bindE (data_Hash K data) (\<lambda>dh.
       let block = \<lparr>bkHeader = \<lparr>hdNumber = number_at rl (newest rl) + 1, hdPreviousHash = Some prev, hdDataHash = Some dh\<rparr>,
                    bkData = Some data, bkMetadata = Some metadata\<rparr>
       in bindE (ram_appendBlock block rl) (\<lambda>rl. Inr (block, rl)))))"

section \<open>Readers\<close>

text \<open>An enumeration of protobuf: a message may carry any other number.\<close>

datatype StartType = SeekInfo_NEWEST | SeekInfo_OLDEST | SeekInfo_SPECIFIED | StartType_other i32

datatype Status = Status_UNKNOWN | Status_SUCCESS | Status_BAD_REQUEST | Status_FORBIDDEN | Status_NOT_FOUND |
  Status_INTERNAL_SERVER_ERROR | Status_SERVICE_UNAVAILABLE

datatype Iterator = ItCursor nat | NotFoundErrorIterator

text \<open>\<open>Next\<close> of a cursor waits while there is no next node, which is the result None.\<close>

definition cursor_Next :: "ramLedger \<Rightarrow> nat \<Rightarrow> (nat \<times> BlockMsg) option" where
  "cursor_Next rl cu = (case slNext (node_at rl cu) of None \<Rightarrow> None | Some a \<Rightarrow> Some (a, slBlock (node_at rl a)))"

definition it_Next :: "ramLedger \<Rightarrow> Iterator \<Rightarrow> (Iterator \<times> BlockMsg option \<times> Status) option" where
  "it_Next rl it =
     (case it of
        ItCursor cu \<Rightarrow> map_option (\<lambda>(cu, b). (ItCursor cu, Some b, Status_SUCCESS)) (cursor_Next rl cu)
      | NotFoundErrorIterator \<Rightarrow> Some (NotFoundErrorIterator, None, Status_NOT_FOUND))"

text \<open>Whether the channel \<open>ReadyChan\<close> returns is closed.\<close>

definition it_Ready :: "ramLedger \<Rightarrow> Iterator \<Rightarrow> bool" where
  "it_Ready rl it = (case it of ItCursor cu \<Rightarrow> slClosed (node_at rl cu) | NotFoundErrorIterator \<Rightarrow> True)"

text \<open>
  The search for the node before the specified one follows the list without a test for nil. Each step goes to another
  node, so the number of nodes is fuel enough; None is a search that goes on for ever.
\<close>

fun seekLoop :: "ramLedger \<Rightarrow> u64 \<Rightarrow> nat \<Rightarrow> nat \<Rightarrow> (error + nat) option" where
  "seekLoop rl specified 0 a = None"
| "seekLoop rl specified (Suc fuel) a =
     (if number_at rl a = specified - 1 then Some (Inr a)
      else case slNext (node_at rl a) of
             None \<Rightarrow> Some (Inl (Panic ''nil pointer dereference''))
           | Some b \<Rightarrow> seekLoop rl specified fuel b)"

text \<open>A new node in front of a node of the list, with its signal closed.\<close>

definition before :: "ramLedger \<Rightarrow> nat \<Rightarrow> ramLedger \<times> nat" where
  "before rl a =
     (rl\<lparr>nodes := nodes rl @ [\<lparr>slNext = Some a, slClosed = True, slBlock = bareBlock (number_at rl a - 1)\<rparr>]\<rparr>,
      length (nodes rl))"

definition newCursor :: "ramLedger \<Rightarrow> nat \<Rightarrow> (error + ramLedger \<times> Iterator \<times> u64) option" where
  "newCursor rl a =
     (let blockNum = number_at rl a + 1 in
      if blockNum = - 1 then map_option (\<lambda>(a, _). Inr (rl, ItCursor a, blockNum + 1)) (cursor_Next rl a)
      else Some (Inr (rl, ItCursor a, blockNum)))"

definition ram_Iterator :: "StartType \<Rightarrow> u64 \<Rightarrow> ramLedger \<Rightarrow> (error + ramLedger \<times> Iterator \<times> u64) option" where
  "ram_Iterator startType specified rl =
     (case startType of
        SeekInfo_OLDEST \<Rightarrow> (case before rl (oldest rl) of (rl, a) \<Rightarrow> newCursor rl a)
      | SeekInfo_NEWEST \<Rightarrow> (case before rl (newest rl) of (rl, a) \<Rightarrow> newCursor rl a)
      | SeekInfo_SPECIFIED \<Rightarrow>
          if specified + 1 < number_at rl (oldest rl) + 1 \<or> number_at rl (newest rl) + 1 < specified
          then Some (Inr (rl, NotFoundErrorIterator, 0))
          else if specified = number_at rl (oldest rl) then (case before rl (oldest rl) of (rl, a) \<Rightarrow> newCursor rl a)
          else (case seekLoop rl specified (length (nodes rl)) (oldest rl) of
                  None \<Rightarrow> None
                | Some (Inl e) \<Rightarrow> Some (Inl e)
                | Some (Inr a) \<Rightarrow> newCursor rl a)
      | StartType_other _ \<Rightarrow> Some (Inl (Panic ''nil pointer dereference'')))"

section \<open>Ledgers by chain\<close>

text \<open>The factory keeps the ledgers by chain id; a ledger is held as a pointer, so here it is kept in the map itself.\<close>

record ramLedgerFactory =
  rlfMaxSize :: int
  rlfLedgers :: "(gostring, ramLedger) gomap"

definition GetOrCreate :: "bytes \<Rightarrow> ramLedgerFactory \<Rightarrow> ramLedger \<times> ramLedgerFactory" where
  "GetOrCreate chainID rlf =
     (case map_of (rlfLedgers rlf) chainID of
        Some l \<Rightarrow> (l, rlf)
      | None \<Rightarrow>
         (let ch = newChain (rlfMaxSize rlf) in (ch, rlf\<lparr>rlfLedgers := mput chainID ch (rlfLedgers rlf)\<rparr>)))"

definition ChainIDs :: "(gostring, ramLedger) map_order \<Rightarrow> ramLedgerFactory \<Rightarrow> bytes list" where
  "ChainIDs ord rlf = map fst (ord (rlfLedgers rlf))"

text \<open>
  \<open>New\<close>: the chain id is that of the payload in the genesis block. \<open>unEnvelope\<close> decodes an envelope; a bad one is fatal.
\<close>

definition ram_New ::
  "OrdCodec \<Rightarrow> (bytes \<Rightarrow> error + EnvelopeMsg) \<Rightarrow> int \<Rightarrow> BlockMsg \<Rightarrow> error + ramLedger \<times> ramLedgerFactory" where
  "ram_New C unEnvelope maxSize systemGenesis =
     bindE (deref (bkData systemGenesis)) (\<lambda>data.
     bindE (goindex data 0) (\<lambda>d.
     case unEnvelope d of
       Inl _ \<Rightarrow> Inl (Panic ''Bad envelope in genesis block'')
     | Inr env \<Rightarrow>
        (case unPayload C (of_nbytes (evPayload env)) of
           Inl _ \<Rightarrow> Inl (Panic ''Bad payload in genesis block'')
         | Inr payload \<Rightarrow>
            bindE (deref (plHeader payload)) (\<lambda>h.
            bindE (deref h) (\<lambda>ch.
              let chainID = of_nbytes (chChainID ch);
                  (rl, rlf) = GetOrCreate chainID \<lparr>rlfMaxSize = maxSize, rlfLedgers = []\<rparr>
              in bindE (ram_appendBlock systemGenesis rl) (\<lambda>rl.
                   Inr (rl, rlf\<lparr>rlfLedgers := mput chainID rl (rlfLedgers rlf)\<rparr>)))))))"

end
