(* ===== verification/Orderer_Config_Props.thy ===== *)
theory Orderer_Config_Props
  imports Orderer_Config
begin

text \<open>
  Properties of the configuration manager: a transaction is applied as a whole or not at all, checking it
  has no effect, and the handlers hold what the configuration holds.
\<close>

section \<open>Shapes of the state\<close>

text \<open>The handlers of the orderer: the policy manager for type 0, a bytes handler for each other type.\<close>

definition wired :: "configurationManager \<Rightarrow> bool" where
  "wired cm \<longleftrightarrow> (\<exists>a b c. handlers cm = [(0, HPolicy), (1, HBytes a), (2, HBytes b), (3, HBytes c)])"

text \<open>The manager without the proposals.\<close>

definition clearH :: "Handler \<Rightarrow> Handler" where
  "clearH h = (case h of HPolicy \<Rightarrow> HPolicy | HBytes bh \<Rightarrow> HBytes (bh_RollbackConfig bh))"

definition clean :: "configurationManager \<Rightarrow> configurationManager" where
  "clean cm = cm\<lparr>cmPM := pm_RollbackConfig (cmPM cm), handlers := map (\<lambda>(t, h). (t, clearH h)) (handlers cm)\<rparr>"

definition idle :: "configurationManager \<Rightarrow> bool" where
  "idle cm \<longleftrightarrow> wired cm \<and> clean cm = cm"

text \<open>A bytes handler, or the policy manager, holds the items of one type.\<close>

definition mirrors_bytes :: "configMap \<Rightarrow> i32 \<Rightarrow> (gostring, nbytes) gomap \<Rightarrow> bool" where
  "mirrors_bytes m t p \<longleftrightarrow> (\<forall>k. map_of p k = map_option ciValue (cfg m t k))"

definition policy_at :: "OrdCodec \<Rightarrow> CryptoHelper \<Rightarrow> ConfigurationItem option \<Rightarrow> policyI option \<Rightarrow> bool" where
  "policy_at C ch i p \<longleftrightarrow>
     (case i of
        None \<Rightarrow> p = None
      | Some item \<Rightarrow> \<exists>pol. bindE (unPolicy C (of_nbytes (ciValue item))) (\<lambda>p. newPolicy p ch) = Inr pol \<and> p = Some pol)"

definition mirrors_policies :: "OrdCodec \<Rightarrow> configMap \<Rightarrow> CryptoHelper \<Rightarrow> (gostring, policyI) gomap \<Rightarrow> bool" where
  "mirrors_policies C m ch ps \<longleftrightarrow> (\<forall>k. policy_at C ch (cfg m 0 k) (map_of ps k))"

text \<open>A configuration under construction, with the proposals made for it.\<close>

definition working :: "OrdCodec \<Rightarrow> configMap \<Rightarrow> configurationManager \<Rightarrow> bool" where
  "working C m cm \<longleftrightarrow> map fst m = ctypes \<and>
     (\<exists>a b c ps pa pb pc. handlers cm = [(0, HPolicy), (1, HBytes a), (2, HBytes b), (3, HBytes c)] \<and>
        pendingPolicies (cmPM cm) = Some ps \<and> bhProposed a = Some pa \<and> bhProposed b = Some pb \<and> bhProposed c = Some pc \<and>
        mirrors_policies C m (pmCH (cmPM cm)) ps \<and> mirrors_bytes m 1 pa \<and> mirrors_bytes m 2 pb \<and> mirrors_bytes m 3 pc)"

text \<open>The handlers in use hold what the configuration holds.\<close>

definition mirrored :: "OrdCodec \<Rightarrow> configurationManager \<Rightarrow> bool" where
  "mirrored C cm \<longleftrightarrow>
     mirrors_policies C (configuration cm) (pmCH (cmPM cm)) (policies (cmPM cm)) \<and>
     (\<forall>t bh. map_of (handlers cm) t = Some (HBytes bh) \<longrightarrow> mirrors_bytes (configuration cm) t (bhConfig bh))"

lemmas handler_defs = onHandler_def pm_BeginConfig_def bh_BeginConfig_def pm_RollbackConfig_def bh_RollbackConfig_def
  pm_CommitConfig_def bh_CommitConfig_def

lemma clearH_simps [simp]:
  "clearH HPolicy = HPolicy" "clearH (HBytes bh) = HBytes (bh_RollbackConfig bh)" "clearH h = HPolicy \<longleftrightarrow> h = HPolicy"
  "clearH h = HBytes bh \<longleftrightarrow> (\<exists>b. h = HBytes b \<and> bh_RollbackConfig b = bh)"
  by (simp_all add: clearH_def split: Handler.split)

lemma clean_fields:
  assumes "clean cm' = clean cm"
  shows "configuration cm' = configuration cm" "cmSequence cm' = cmSequence cm" "cmChainID cm' = cmChainID cm"
    "policies (cmPM cm') = policies (cmPM cm)" "pmCH (cmPM cm') = pmCH (cmPM cm)" "wired cm' = wired cm"
proof -
  show "configuration cm' = configuration cm" "cmSequence cm' = cmSequence cm" "cmChainID cm' = cmChainID cm"
    using arg_cong [OF assms, of configuration] arg_cong [OF assms, of cmSequence] arg_cong [OF assms, of cmChainID]
    by (simp_all add: clean_def)
  show "policies (cmPM cm') = policies (cmPM cm)" "pmCH (cmPM cm') = pmCH (cmPM cm)"
    using arg_cong [OF assms, of "\<lambda>c. policies (cmPM c)"] arg_cong [OF assms, of "\<lambda>c. pmCH (cmPM c)"]
    by (simp_all add: clean_def pm_RollbackConfig_def)
  have h: "map (\<lambda>(t, h). (t, clearH h)) (handlers cm') = map (\<lambda>(t, h). (t, clearH h)) (handlers cm)"
    using arg_cong [OF assms, of handlers] by (simp add: clean_def)
  have w: "wired c \<longleftrightarrow> (\<exists>a b c'. map (\<lambda>(t, h). (t, clearH h)) (handlers c) = [(0, HPolicy), (1, HBytes a), (2, HBytes b), (3, HBytes c')])" for c
    by (auto simp: wired_def map_eq_Cons_conv)
  show "wired cm' = wired cm" unfolding w h ..
qed

lemma rollbackHandlers_clean: "wired cm \<Longrightarrow> rollbackHandlers cm = Inr (clean cm)"
  by (auto simp: wired_def rollbackHandlers_def ctypes_def handler_defs clean_def clearH_def)

lemma beginHandlers_idle:
  assumes "idle cm"
  shows "\<exists>cm1. beginHandlers cm = Inr cm1 \<and> clean cm1 = cm \<and> working C makeConfigMap cm1"
proof -
  obtain a b c where h: "handlers cm = [(0, HPolicy), (1, HBytes a), (2, HBytes b), (3, HBytes c)]"
    using assms by (auto simp: idle_def wired_def)
  have cm: "clean cm = cm" using assms by (simp add: idle_def)
  have cl: "pm_RollbackConfig (cmPM cm) = cmPM cm" "bh_RollbackConfig a = a" "bh_RollbackConfig b = b" "bh_RollbackConfig c = c"
    using arg_cong [OF cm, of cmPM] arg_cong [OF cm, of handlers] h by (simp_all add: clean_def)
  have none: "pendingPolicies (cmPM cm) = None" "bhProposed a = None" "bhProposed b = None" "bhProposed c = None"
    using arg_cong [OF cl(1), of pendingPolicies] arg_cong [OF cl(2), of bhProposed] arg_cong [OF cl(3), of bhProposed]
      arg_cong [OF cl(4), of bhProposed]
    by (simp_all add: pm_RollbackConfig_def bh_RollbackConfig_def)
  let ?p = "\<lambda>bh. bh\<lparr>bhProposed := Some []\<rparr>"
  let ?cm1 = "cm\<lparr>cmPM := (cmPM cm)\<lparr>pendingPolicies := Some []\<rparr>,
      handlers := [(0, HPolicy), (1, HBytes (?p a)), (2, HBytes (?p b)), (3, HBytes (?p c))]\<rparr>"
  have "beginHandlers cm = Inr ?cm1"
    using h none by (simp add: beginHandlers_def ctypes_def handler_defs)
  moreover have "clean ?cm1 = cm"
    using h none cl by (simp add: clean_def pm_RollbackConfig_def bh_RollbackConfig_def)
  moreover have "working C makeConfigMap ?cm1"
    by (simp add: working_def makeConfigMap_def ctypes_def mirrors_policies_def policy_at_def mirrors_bytes_def cfg_def)
  ultimately show ?thesis by blast
qed

section \<open>Checking keeps the state\<close>

lemma pm_ProposeConfig_clean: "pm_ProposeConfig C item pm = Inr pm' \<Longrightarrow> pm_RollbackConfig pm' = pm_RollbackConfig pm"
  by (auto simp: pm_ProposeConfig_def pm_RollbackConfig_def bindE_eq_Inr_conv split: if_splits option.splits)

lemma bh_ProposeConfig_clean: "bh_ProposeConfig item bh = Inr bh' \<Longrightarrow> bh_RollbackConfig bh' = bh_RollbackConfig bh"
  by (auto simp: bh_ProposeConfig_def bh_RollbackConfig_def split: option.splits)

lemma map_mput: "map_of m k = Some v' \<Longrightarrow> f v = f v' \<Longrightarrow> map (\<lambda>(k, v). (k, f v)) (mput k v m) = map (\<lambda>(k, v). (k, f v)) m"
  by (induction m) (auto split: if_splits)

lemma propose_clean:
  "onHandler t (pm_ProposeConfig C item) (bh_ProposeConfig item) cm = Inr cm' \<Longrightarrow> clean cm' = clean cm"
  by (auto simp: onHandler_def clean_def bindE_eq_Inr_conv map_mput bh_ProposeConfig_clean dest!: pm_ProposeConfig_clean
      split: option.splits Handler.splits)

lemma processItem_clean: "processItem C sq dflt entry m cm = Inr (m', cm') \<Longrightarrow> clean cm' = clean cm"
  by (auto simp: processItem_def bindE_eq_Inr_conv dest!: propose_clean split: option.splits)

lemma processItems_clean: "processItems C sq dflt es m cm = (cm', r) \<Longrightarrow> clean cm' = clean cm"
  by (induction es arbitrary: m cm) (auto split: sum.splits dest: processItem_clean)

lemma processConfig_clean: "processConfig C tx cm = (cm', r) \<Longrightarrow> clean cm' = clean cm"
  by (auto simp: processConfig_def split: sum.splits prod.splits if_splits dest: processItems_clean)

section \<open>Building the new configuration\<close>

lemma cfg_mput:
  "map_of m t = Some mm \<Longrightarrow> cfg (mput t (mput k v mm) m) t' k' = (if t' = t \<and> k' = k then Some v else cfg m t' k')"
  by (auto simp: cfg_def)

lemma fst_mput_same: "map_of m k = Some v' \<Longrightarrow> map fst (mput k v m) = map fst m"
  by (induction m) (auto split: if_splits)

lemma mirrors_bytes_put:
  assumes "map_of m t = Some mm"
  shows "mirrors_bytes m t p \<Longrightarrow> mirrors_bytes (mput t (mput (ciKey i) i mm) m) t (mput (ciKey i) (ciValue i) p)"
    "t' \<noteq> t \<Longrightarrow> mirrors_bytes m t' p \<Longrightarrow> mirrors_bytes (mput t (mput (ciKey i) i mm) m) t' p"
  by (auto simp: mirrors_bytes_def cfg_mput [OF assms])

lemma mirrors_policies_put:
  assumes "map_of m t = Some mm" and "mirrors_policies C m ch ps"
  shows "t \<noteq> 0 \<Longrightarrow> mirrors_policies C (mput t (mput (ciKey i) i mm) m) ch ps"
    "t = 0 \<Longrightarrow> policy_at C ch (Some i) (Some pol) \<Longrightarrow>
      mirrors_policies C (mput t (mput (ciKey i) i mm) m) ch (mput (ciKey i) pol ps)"
  using assms by (auto simp: mirrors_policies_def cfg_mput)

lemma working_propose:
  assumes "working C m cm" and "onHandler (ciType i) (pm_ProposeConfig C i) (bh_ProposeConfig i) cm = Inr cm'"
    and "map_of m (ciType i) = Some mm"
  shows "working C (mput (ciType i) (mput (ciKey i) i mm) m) cm'"
proof -
  let ?m = "mput (ciType i) (mput (ciKey i) i mm) m"
  obtain a b c ps pa pb pc where w: "map fst m = ctypes"
    "handlers cm = [(0, HPolicy), (1, HBytes a), (2, HBytes b), (3, HBytes c)]" "pendingPolicies (cmPM cm) = Some ps"
    "bhProposed a = Some pa" "bhProposed b = Some pb" "bhProposed c = Some pc"
    "mirrors_policies C m (pmCH (cmPM cm)) ps" "mirrors_bytes m 1 pa" "mirrors_bytes m 2 pb" "mirrors_bytes m 3 pc"
    using assms(1) by (auto simp: working_def)
  have t: "ciType i \<in> {0, 1, 2, 3}"
    using assms(2) w(2) by (auto simp: onHandler_def split: if_splits)
  have fst: "map fst ?m = ctypes" using fst_mput_same [OF assms(3)] w(1) by simp
  note put = mirrors_bytes_put [OF assms(3), where i = i] mirrors_policies_put [OF assms(3) w(7), where i = i]
  from t consider "ciType i = 0" | "ciType i = 1" | "ciType i = 2" | "ciType i = 3" by auto
  then show ?thesis
  proof cases
    case 1
    then obtain pol where pol: "policy_at C (pmCH (cmPM cm)) (Some i) (Some pol)"
      "cm' = cm\<lparr>cmPM := (cmPM cm)\<lparr>pendingPolicies := Some (mput (ciKey i) pol ps)\<rparr>\<rparr>"
      using assms(2) w(2,3) by (auto simp: onHandler_def pm_ProposeConfig_def policy_at_def bindE_eq_Inr_conv)
    show ?thesis
      unfolding working_def pol(2) using w put(4) [OF 1 pol(1)] put(2) [where p = pa] put(2) [where p = pb] put(2) [where p = pc] fst 1 by simp
  next
    case 2
    then have "cm' = cm\<lparr>handlers := [(0, HPolicy), (1, HBytes (a\<lparr>bhProposed := Some (mput (ciKey i) (ciValue i) pa)\<rparr>)),
        (2, HBytes b), (3, HBytes c)]\<rparr>"
      using assms(2) w(2,4) by (auto simp: onHandler_def bh_ProposeConfig_def)
    then show ?thesis
      unfolding working_def using w put(3) put(1) [where p = pa] put(2) [where p = pb] put(2) [where p = pc] fst 2 by simp
  next
    case 3
    then have "cm' = cm\<lparr>handlers := [(0, HPolicy), (1, HBytes a),
        (2, HBytes (b\<lparr>bhProposed := Some (mput (ciKey i) (ciValue i) pb)\<rparr>)), (3, HBytes c)]\<rparr>"
      using assms(2) w(2,5) by (auto simp: onHandler_def bh_ProposeConfig_def)
    then show ?thesis
      unfolding working_def using w put(3) put(1) [where p = pb] put(2) [where p = pa] put(2) [where p = pc] fst 3 by simp
  next
    case 4
    then have "cm' = cm\<lparr>handlers := [(0, HPolicy), (1, HBytes a), (2, HBytes b),
        (3, HBytes (c\<lparr>bhProposed := Some (mput (ciKey i) (ciValue i) pc)\<rparr>))]\<rparr>"
      using assms(2) w(2,6) by (auto simp: onHandler_def bh_ProposeConfig_def)
    then show ?thesis
      unfolding working_def using w put(3) put(1) [where p = pc] put(2) [where p = pa] put(2) [where p = pb] fst 4 by simp
  qed
qed

text \<open>What the checks establish for an item of the new configuration.\<close>

definition admitted :: "OrdCodec \<Rightarrow> configurationManager \<Rightarrow> u64 \<Rightarrow> SignedConfigurationItem list \<Rightarrow> ConfigurationItem \<Rightarrow> bool" where
  "admitted C cm sq entries i \<longleftrightarrow>
     (\<exists>e \<in> set entries. unItem C (sciConfigurationItem e) = Inr i) \<and>
     (case cfg (configuration cm) (ciType i) (ciKey i) of
        None \<Rightarrow> ciLastModified i = sq
      | Some old \<Rightarrow> ciLastModified i = sq \<or> ciLastModified i = ciLastModified old \<and> of_nbytes (ciValue i) = of_nbytes (ciValue old))"

lemma processItem_spec:
  assumes "processItem C sq dflt e m cm = Inr (m', cm')" and "working C m cm"
  obtains i mm where "unItem C (sciConfigurationItem e) = Inr i" "map_of m (ciType i) = Some mm"
    "m' = mput (ciType i) (mput (ciKey i) i mm) m" "working C m' cm'" "checkModified (configuration cm) sq i = Inr ()"
    "clean cm' = clean cm"
proof -
  obtain i mm where "unItem C (sciConfigurationItem e) = Inr i" "checkModified (configuration cm) sq i = Inr ()"
    "onHandler (ciType i) (pm_ProposeConfig C i) (bh_ProposeConfig i) cm = Inr cm'" "map_of m (ciType i) = Some mm"
    "m' = mput (ciType i) (mput (ciKey i) i mm) m"
    using assms(1) by (auto simp: processItem_def bindE_eq_Inr_conv split: option.splits)
  then show thesis using that working_propose [OF assms(2)] processItem_clean [OF assms(1)] by blast
qed

lemma processItems_spec:
  assumes "processItems C sq dflt es m cm = (cm', Inr m')" and "working C m cm"
    and "\<And>t k i. cfg m t k = Some i \<Longrightarrow> ciType i = t \<and> ciKey i = k \<and> admitted C cm sq (es0 @ es) i"
  shows "working C m' cm'"
    "\<And>t k i. cfg m' t k = Some i \<Longrightarrow> ciType i = t \<and> ciKey i = k \<and> admitted C cm sq (es0 @ es) i"
proof -
  have "working C m' cm' \<and> (\<forall>t k i. cfg m' t k = Some i \<longrightarrow> ciType i = t \<and> ciKey i = k \<and> admitted C cm sq (es0 @ es) i)"
    using assms
  proof (induction es arbitrary: m cm es0)
    case (Cons e es)
    obtain m1 cm1 where p: "processItem C sq dflt e m cm = Inr (m1, cm1)"
      "processItems C sq dflt es m1 cm1 = (cm', Inr m')"
      using Cons.prems(1) by (auto split: sum.splits prod.splits)
    obtain i mm where i: "unItem C (sciConfigurationItem e) = Inr i" "map_of m (ciType i) = Some mm"
      "m1 = mput (ciType i) (mput (ciKey i) i mm) m" "working C m1 cm1" "checkModified (configuration cm) sq i = Inr ()"
      "clean cm1 = clean cm"
      by (rule processItem_spec [OF p(1) Cons.prems(2)])
    have adm: "admitted C cm1 = admitted C cm" using clean_fields(1) [OF i(6)] by (simp add: admitted_def fun_eq_iff)
    have "admitted C cm sq (es0 @ e # es) i"
      using i(1,5) by (auto simp: admitted_def checkModified_def split: option.splits if_splits)
    with Cons.prems(3) have "ciType j = t \<and> ciKey j = k \<and> admitted C cm1 sq ((es0 @ [e]) @ es) j"
      if "cfg m1 t k = Some j" for t k j
      using that unfolding i(3) adm by (auto simp: cfg_mput [OF i(2)] split: if_splits)
    from Cons.IH [OF p(2) i(4) this] show ?case by (simp add: adm)
  qed simp
  then show "working C m' cm'"
    "\<And>t k i. cfg m' t k = Some i \<Longrightarrow> ciType i = t \<and> ciKey i = k \<and> admitted C cm sq (es0 @ es) i" by blast+
qed

text \<open>
  The new configuration is what the entries say: under a type and key is the last item with them. Each entry satisfied
  the policy for its item.
\<close>

definition defaultPolicy :: "configurationManager \<Rightarrow> PolicyV" where
  "defaultPolicy cm =
     (let (p, found) = GetPolicy (cmPM cm) DefaultModificationPolicyID in if \<not> found then acceptAllPolicy else PolicyOf p)"

definition authorised :: "OrdCodec \<Rightarrow> PolicyV \<Rightarrow> configurationManager \<Rightarrow> SignedConfigurationItem \<Rightarrow> ConfigurationItem \<Rightarrow> bool" where
  "authorised C dflt cm e i \<longleftrightarrow> unItem C (sciConfigurationItem e) = Inr i \<and>
     (case collectSigs C (sciSignatures e) of
        Inl err \<Rightarrow> False
      | Inr (headers, signatures, identities) \<Rightarrow>
          Evaluate (itemPolicy dflt cm i) headers (sciConfigurationItem e) identities signatures = Inr ())"

definition last_item :: "ConfigurationItem list \<Rightarrow> i32 \<Rightarrow> gostring \<Rightarrow> ConfigurationItem option" where
  "last_item items t k = find (\<lambda>i. ciType i = t \<and> ciKey i = k) (rev items)"

lemma authorised_clean: "clean cm' = clean cm \<Longrightarrow> authorised C dflt cm' = authorised C dflt cm"
proof -
  assume "clean cm' = clean cm"
  note cl = clean_fields(1,4) [OF this]
  have "GetPolicy (cmPM cm') = GetPolicy (cmPM cm)" by (simp add: GetPolicy_def cl fun_eq_iff)
  then have "itemPolicy dflt cm' = itemPolicy dflt cm" by (intro ext) (simp add: itemPolicy_def cl split: option.split)
  then show "authorised C dflt cm' = authorised C dflt cm" by (intro ext) (simp add: authorised_def split: sum.split)
qed

lemma processItem_authorised:
  "processItem C sq dflt e m cm = Inr (m', cm') \<Longrightarrow> unItem C (sciConfigurationItem e) = Inr i \<Longrightarrow> authorised C dflt cm e i"
  by (auto simp: processItem_def authorised_def bindE_eq_Inr_conv)

lemma find_append: "find P (xs @ ys) = (case find P xs of None \<Rightarrow> find P ys | Some x \<Rightarrow> Some x)"
  by (induction xs) simp_all

lemma processItems_whole:
  assumes "processItems C sq dflt es m cm = (cm', Inr m')" and "working C m cm"
  shows "\<exists>items. list_all2 (authorised C dflt cm) es items \<and>
    (\<forall>t k. cfg m' t k = (case last_item items t k of None \<Rightarrow> cfg m t k | Some i \<Rightarrow> Some i))"
  using assms
proof (induction es arbitrary: m cm)
  case Nil
  then show ?case by (auto simp: last_item_def)
next
  case (Cons e es)
  obtain m1 cm1 where p: "processItem C sq dflt e m cm = Inr (m1, cm1)" "processItems C sq dflt es m1 cm1 = (cm', Inr m')"
    using Cons.prems(1) by (auto split: sum.splits prod.splits)
  obtain i mm where i: "unItem C (sciConfigurationItem e) = Inr i" "map_of m (ciType i) = Some mm"
    "m1 = mput (ciType i) (mput (ciKey i) i mm) m" "working C m1 cm1" "clean cm1 = clean cm"
    by (rule processItem_spec [OF p(1) Cons.prems(2)])
  obtain items where items: "list_all2 (authorised C dflt cm1) es items"
    "\<forall>t k. cfg m' t k = (case last_item items t k of None \<Rightarrow> cfg m1 t k | Some i \<Rightarrow> Some i)"
    using Cons.IH [OF p(2) i(4)] by blast
  have "cfg m' t k = (case last_item (i # items) t k of None \<Rightarrow> cfg m t k | Some i \<Rightarrow> Some i)" for t k
    using items(2) by (auto simp: last_item_def find_append i(3) cfg_mput [OF i(2)] split: option.splits)
  moreover have "list_all2 (authorised C dflt cm) (e # es) (i # items)"
    using items(1) processItem_authorised [OF p(1) i(1)] by (simp add: authorised_clean [OF i(5)])
  ultimately show ?case by blast
qed

lemma keepsKeys_cfg:
  assumes "keepsKeys cur m" and "t \<in> set ctypes" and "cfg cur t k \<noteq> None"
  shows "cfg m t k \<noteq> None"
proof -
  obtain mm i where mm: "map_of cur t = Some mm" "(k, i) \<in> set mm"
    using assms(3) by (auto simp: cfg_def split: option.splits dest: map_of_SomeD)
  have "list_all (\<lambda>(i, _). cfg m t i \<noteq> None) mm" using assms(1,2) mm(1) by (fastforce simp: keepsKeys_def list_all_iff)
  with mm(2) show ?thesis by (auto simp: list_all_iff)
qed

lemma computeLoop_max:
  assumes "computeLoop C m c es = Inr (c', sq)"
  shows "m \<le> sq" "e \<in> set es \<Longrightarrow> unItem C (sciConfigurationItem e) = Inr i \<Longrightarrow> ciLastModified i \<le> sq"
proof -
  have "m \<le> sq \<and> (\<forall>e \<in> set es. \<forall>i. unItem C (sciConfigurationItem e) = Inr i \<longrightarrow> ciLastModified i \<le> sq)"
    using assms
  proof (induction es arbitrary: m c)
    case (Cons e es)
    obtain i where i: "unItem C (sciConfigurationItem e) = Inr i"
      using Cons.prems by (auto simp: catchE_def split: sum.splits if_splits)
    then obtain c1 where "computeLoop C (if m < ciLastModified i then ciLastModified i else m) c1 es = Inr (c', sq)"
      using Cons.prems by (auto simp: Let_def split: option.splits if_splits)
    from Cons.IH [OF this] i show ?case by (auto split: if_splits)
  qed simp
  then show "m \<le> sq" "e \<in> set es \<Longrightarrow> unItem C (sciConfigurationItem e) = Inr i \<Longrightarrow> ciLastModified i \<le> sq" by blast+
qed

lemma processConfig_spec:
  assumes "processConfig C tx cm = (cm', Inr m)" and "working C makeConfigMap cm"
  shows "working C m cm'" "clean cm' = clean cm" "keepsKeys (configuration cm) m"
    "\<exists>items. list_all2 (authorised C (defaultPolicy cm) cm) (ceItems tx) items \<and> (\<forall>t k. cfg m t k = last_item items t k)"
    "cfg m t k = Some i \<Longrightarrow> ciType i = t \<and> ciKey i = k \<and> admitted C cm (cmSequence cm + 1) (ceItems tx) i \<and>
      ciLastModified i \<le> cmSequence cm + 1"
proof -
  let ?dflt = "defaultPolicy cm"
  obtain chainID sq where c: "computeChainIDAndSequence C tx = Inr (chainID, sq)" "sq = cmSequence cm + 1"
    and p: "processItems C sq ?dflt (ceItems tx) makeConfigMap cm = (cm', Inr m)" and k: "keepsKeys (configuration cm') m"
    using assms(1) by (auto simp: processConfig_def defaultPolicy_def Let_def split: sum.splits prod.splits if_splits)
  show "clean cm' = clean cm" by (rule processItems_clean [OF p])
  from clean_fields(1) [OF this] k show "keepsKeys (configuration cm) m" by simp
  have none: "cfg makeConfigMap t k = None" for t k by (auto simp: cfg_def makeConfigMap_def ctypes_def split: if_splits)
  show "\<exists>items. list_all2 (authorised C ?dflt cm) (ceItems tx) items \<and> (\<forall>t k. cfg m t k = last_item items t k)"
    using processItems_whole [OF p assms(2)] by (auto simp: none split: option.splits) (metis option.exhaust)
  from none have "ciType i = t \<and> ciKey i = k \<and> admitted C cm sq ([] @ ceItems tx) i" if "cfg makeConfigMap t k = Some i" for t k i
    using that by simp
  note spec = processItems_spec [OF p assms(2) this]
  from spec(1) show "working C m cm'" by blast
  assume "cfg m t k = Some i"
  from spec(2) [OF _ this] have a: "ciType i = t" "ciKey i = k" "admitted C cm sq (ceItems tx) i" by simp_all
  moreover have "ciLastModified i \<le> sq"
    using a(3) c(1) computeLoop_max(2) [of C 0 None "ceItems tx" chainID sq]
    by (auto simp: admitted_def computeChainIDAndSequence_def split: if_splits)
  ultimately show "ciType i = t \<and> ciKey i = k \<and> admitted C cm (cmSequence cm + 1) (ceItems tx) i \<and>
      ciLastModified i \<le> cmSequence cm + 1"
    by (simp add: c(2))
qed

lemma commitHandlers_working:
  assumes "working C m cm"
  obtains cm' where "commitHandlers (cm\<lparr>configuration := m, cmSequence := sq\<rparr>) = Inr cm'" "idle cm'" "mirrored C cm'"
    "configuration cm' = m" "cmSequence cm' = sq" "cmChainID cm' = cmChainID cm"
proof -
  obtain a b c ps pa pb pc where w:
    "handlers cm = [(0, HPolicy), (1, HBytes a), (2, HBytes b), (3, HBytes c)]" "pendingPolicies (cmPM cm) = Some ps"
    "bhProposed a = Some pa" "bhProposed b = Some pb" "bhProposed c = Some pc"
    "mirrors_policies C m (pmCH (cmPM cm)) ps" "mirrors_bytes m 1 pa" "mirrors_bytes m 2 pb" "mirrors_bytes m 3 pc"
    using assms by (auto simp: working_def)
  let ?h = "\<lambda>bh p. HBytes (bh\<lparr>bhConfig := p, bhProposed := None\<rparr>)"
  let ?cm = "cm\<lparr>configuration := m, cmSequence := sq, cmPM := (cmPM cm)\<lparr>policies := ps, pendingPolicies := None\<rparr>,
      handlers := [(0, HPolicy), (1, ?h a pa), (2, ?h b pb), (3, ?h c pc)]\<rparr>"
  have "commitHandlers (cm\<lparr>configuration := m, cmSequence := sq\<rparr>) = Inr ?cm"
    using w(1-5) by (simp add: commitHandlers_def ctypes_def handler_defs)
  moreover have "idle ?cm" by (simp add: idle_def wired_def clean_def pm_RollbackConfig_def bh_RollbackConfig_def)
  moreover have "mirrored C ?cm" using w(6-9) by (auto simp: mirrored_def split: if_splits)
  ultimately show thesis by (rule that) simp_all
qed

section \<open>Reachable configurations\<close>

text \<open>
  The invariant of a manager between calls: there is no proposal, the handlers hold what the configuration holds,
  and every item is filed under its type and key and was last modified at or before the current sequence
  number.
\<close>

definition config_inv :: "OrdCodec \<Rightarrow> configurationManager \<Rightarrow> bool" where
  "config_inv C cm \<longleftrightarrow> idle cm \<and> mirrored C cm \<and>
     (\<forall>t k i. cfg (configuration cm) t k = Some i \<longrightarrow>
        t \<in> set ctypes \<and> ciType i = t \<and> ciKey i = k \<and> ciLastModified i \<le> cmSequence cm)"

lemma process_idle:
  assumes "idle cm"
  obtains cm1 cm2 r where "beginHandlers cm = Inr cm1" "processConfig C tx cm1 = (cm2, r)" "rollbackHandlers cm2 = Inr cm"
    "clean cm1 = cm" "clean cm2 = cm" "working C makeConfigMap cm1"
proof -
  obtain cm1 where b: "beginHandlers cm = Inr cm1" "clean cm1 = cm" "working C makeConfigMap cm1"
    using beginHandlers_idle [OF assms] by blast
  obtain cm2 r where p: "processConfig C tx cm1 = (cm2, r)" by fastforce
  have cl: "clean cm2 = clean cm" "clean cm = cm"
    using processConfig_clean [OF p] b(2) assms by (simp_all add: idle_def)
  then have "wired cm2" using clean_fields(6) [OF cl(1)] assms by (simp add: idle_def)
  with that [OF b(1) p _ b(2) _ b(3)] cl show thesis by (simp add: rollbackHandlers_clean)
qed

lemma Apply_inv:
  assumes "config_inv C cm" and "Apply C tx cm = Inr (cm', Inr ())"
  shows "config_inv C cm'" "cmSequence cm' = cmSequence cm + 1" "cmChainID cm' = cmChainID cm"
    "cfg (configuration cm) t k = Some old \<Longrightarrow> \<exists>i. cfg (configuration cm') t k = Some i"
    "cfg (configuration cm') t k = Some i \<Longrightarrow> admitted C cm (cmSequence cm') (ceItems tx) i"
    "\<exists>items. list_all2 (authorised C (defaultPolicy cm) cm) (ceItems tx) items \<and> (\<forall>t k. cfg (configuration cm') t k = last_item items t k)"
proof -
  have idle: "idle cm" using assms(1) by (simp add: config_inv_def)
  obtain cm1 cm2 r where p: "beginHandlers cm = Inr cm1" "processConfig C tx cm1 = (cm2, r)"
    "clean cm1 = cm" "clean cm2 = cm" "working C makeConfigMap cm1"
    by (rule process_idle [OF idle, of C tx]) blast
  have cl: "clean cm1 = clean cm" "clean cm2 = clean cm" using p(3,4) idle by (simp_all add: idle_def)
  obtain m where r: "r = Inr m"
    using assms(2) p(1,2) by (auto simp: Apply_def catchE_def bindE_eq_Inr_conv split: sum.splits if_splits)
  note spec = processConfig_spec [OF p(2) [unfolded r] p(5)]
  note seq = clean_fields [OF cl(1)] clean_fields [OF cl(2)]
  obtain cm3 where c: "commitHandlers (cm2\<lparr>configuration := m, cmSequence := cmSequence cm2 + 1\<rparr>) = Inr cm3" "idle cm3"
    "mirrored C cm3" "configuration cm3 = m" "cmSequence cm3 = cmSequence cm2 + 1" "cmChainID cm3 = cmChainID cm2"
    by (rule commitHandlers_working [OF spec(1)])
  have cm': "cm' = cm3" using assms(2) p(1,2) r c(1) by (simp add: Apply_def)
  have adm: "admitted C cm1 = admitted C cm" using seq(1) by (simp add: admitted_def fun_eq_iff)
  have dp: "defaultPolicy cm1 = defaultPolicy cm" using seq(4) by (simp add: defaultPolicy_def GetPolicy_def)
  show "\<exists>items. list_all2 (authorised C (defaultPolicy cm) cm) (ceItems tx) items \<and> (\<forall>t k. cfg (configuration cm') t k = last_item items t k)"
    using spec(4) cm' c(4) unfolding dp authorised_clean [OF cl(1)] by simp
  have known: "t \<in> set ctypes" if "cfg m t k = Some i" for t k i
    using that spec(1) by (auto simp: working_def cfg_def split: option.splits dest!: map_of_SomeD)
      (metis fst_conv image_eqI list.set_map)
  show "cmSequence cm' = cmSequence cm + 1" "cmChainID cm' = cmChainID cm" using cm' c(5,6) seq by simp_all
  show "config_inv C cm'" using cm' c spec(5) known seq by (auto simp: config_inv_def)
  show "\<exists>i. cfg (configuration cm') t k = Some i" if "cfg (configuration cm) t k = Some old"
    using keepsKeys_cfg [OF spec(3), of t k] that assms(1) cm' c(4) seq(1) by (auto simp: config_inv_def)
  show "admitted C cm (cmSequence cm') (ceItems tx) i" if "cfg (configuration cm') t k = Some i"
    using spec(5) [of t k i] that cm' c(4,5) seq adm by simp
qed

lemma Validate_idle:
  assumes "idle cm"
  shows "Validate C tx cm = (case Apply C tx cm of Inl e \<Rightarrow> Inl e | Inr (cm', r) \<Rightarrow> Inr (cm, r))"
    "Apply C tx cm = Inr (cm', Inl e) \<Longrightarrow> cm' = cm"
proof -
  obtain cm1 cm2 r where p: "beginHandlers cm = Inr cm1" "processConfig C tx cm1 = (cm2, r)" "rollbackHandlers cm2 = Inr cm"
    "clean cm1 = cm" "clean cm2 = cm" "working C makeConfigMap cm1"
    by (rule process_idle [OF assms, of C tx])
  have "Validate C tx cm = (case Apply C tx cm of Inl e \<Rightarrow> Inl e | Inr (cm', r) \<Rightarrow> Inr (cm, r)) \<and>
    (\<forall>cm' e. Apply C tx cm = Inr (cm', Inl e) \<longrightarrow> cm' = cm)"
  proof (cases r)
    case (Inl e)
    with p show ?thesis by (auto simp: Validate_def Apply_def catchE_def)
  next
    case (Inr m)
    obtain cm3 where "commitHandlers (cm2\<lparr>configuration := m, cmSequence := cmSequence cm2 + 1\<rparr>) = Inr cm3"
      by (rule commitHandlers_working [OF processConfig_spec(1) [OF p(2) [unfolded Inr] p(6)]])
    with p Inr show ?thesis by (simp add: Validate_def Apply_def)
  qed
  then show "Validate C tx cm = (case Apply C tx cm of Inl e \<Rightarrow> Inl e | Inr (cm', r) \<Rightarrow> Inr (cm, r))"
    "Apply C tx cm = Inr (cm', Inl e) \<Longrightarrow> cm' = cm" by blast+
qed

text \<open>The managers reached from a start of the orderer by validating and applying transactions.\<close>

inductive config_reach :: "OrdCodec \<Rightarrow> ConfigurationEnvelope \<Rightarrow> configurationManager \<Rightarrow> bool"
  for C :: OrdCodec and tx0 :: ConfigurationEnvelope where
  cr_start: "bootstrapConfigManager C tx0 = Inr cm \<Longrightarrow> config_reach C tx0 cm"
| cr_validate: "config_reach C tx0 cm \<Longrightarrow> Validate C tx cm = Inr (cm', r) \<Longrightarrow> config_reach C tx0 cm'"
| cr_apply: "config_reach C tx0 cm \<Longrightarrow> Apply C tx cm = Inr (cm', r) \<Longrightarrow> config_reach C tx0 cm'"

lemma bootstrap_inv:
  assumes "bootstrapConfigManager C tx0 = Inr cm"
  shows "config_inv C cm"
proof -
  have "NewConfigurationManager C tx0 (NewManagerImpl xxxVerifySignature) bootstrapHandlers = Inr cm"
    using assms by (auto simp: bootstrapConfigManager_def catchE_def split: sum.splits if_splits)
  then obtain chainID sq where a: "Apply C tx0 \<lparr>cmSequence = sq - 1, cmChainID = chainID,
      cmPM = NewManagerImpl xxxVerifySignature, configuration = makeConfigMap, handlers = bootstrapHandlers\<rparr> = Inr (cm, Inr ())"
    by (auto simp: NewConfigurationManager_def bindE_eq_Inr_conv split: if_splits)
  show ?thesis
    by (rule Apply_inv(1) [OF _ a])
      (auto simp: config_inv_def idle_def wired_def clean_def mirrored_def mirrors_policies_def policy_at_def mirrors_bytes_def
        cfg_def makeConfigMap_def bootstrapHandlers_def ctypes_def NewManagerImpl_def NewBytesHandler_def
        pm_RollbackConfig_def bh_RollbackConfig_def split: if_splits)
qed

lemma config_reach_inv: "config_reach C tx0 cm \<Longrightarrow> config_inv C cm"
proof (induction rule: config_reach.induct)
  case (cr_validate cm tx cm' r)
  then show ?case using Validate_idle(1) [of cm C tx] by (auto simp: config_inv_def split: sum.splits prod.splits)
next
  case (cr_apply cm tx cm' r)
  then show ?case using Validate_idle(2) [of cm C tx cm'] Apply_inv(1) [of C cm tx cm'] by (cases r) (auto simp: config_inv_def)
qed (rule bootstrap_inv)

section \<open>Properties\<close>

text \<open>
  C9: A configuration transaction takes effect as a whole or not at all. When it is refused, the manager is what it was
  before. When it is applied, the sequence number goes up by one; the configuration consists of the items of the transaction, each
  type and key with the last item for it, and of no others; no type and key is lost; each item satisfied the modification policy of
  the item it replaces, or the default policy if it is new; and an item that is new or has another value carries
  the new sequence number. A change of the modification policy alone need not carry it.
\<close>

theorem config_applied_or_unchanged:
  assumes "config_reach C tx0 cm" and "Apply C tx cm = Inr (cm', r)"
  shows "case r of
      Inl e \<Rightarrow> cm' = cm
    | Inr _ \<Rightarrow> cmSequence cm' = cmSequence cm + 1 \<and> ChainID cm' = ChainID cm \<and>
        (\<exists>items. list_all2 (authorised C (defaultPolicy cm) cm) (ceItems tx) items \<and>
           (\<forall>t k. cfg (configuration cm') t k = last_item items t k)) \<and>
        (\<forall>t k old. cfg (configuration cm) t k = Some old \<longrightarrow> cfg (configuration cm') t k \<noteq> None) \<and>
        (\<forall>t k i. cfg (configuration cm') t k = Some i \<longrightarrow> ciLastModified i = cmSequence cm' \<or>
           (\<exists>old. cfg (configuration cm) t k = Some old \<and> ciLastModified i = ciLastModified old \<and>
              of_nbytes (ciValue i) = of_nbytes (ciValue old)))"
proof (cases r)
  case (Inl e)
  have "idle cm" using config_reach_inv [OF assms(1)] by (simp add: config_inv_def)
  then show ?thesis using Validate_idle(2) assms(2) Inl by simp
next
  case (Inr u)
  note inv = config_reach_inv [OF assms(1)]
  have r: "r = Inr ()" using Inr by simp
  note a = Apply_inv [OF inv assms(2) [unfolded r]]
  have "ciLastModified i = cmSequence cm' \<or>
      (\<exists>old. cfg (configuration cm) t k = Some old \<and> ciLastModified i = ciLastModified old \<and>
        of_nbytes (ciValue i) = of_nbytes (ciValue old))" if c: "cfg (configuration cm') t k = Some i" for t k i
  proof -
    have "ciType i = t" "ciKey i = k" using a(1) c by (simp_all add: config_inv_def)
    with a(5) [OF c] show ?thesis by (auto simp: admitted_def split: option.splits)
  qed
  moreover have "cfg (configuration cm') t k \<noteq> None" if "cfg (configuration cm) t k = Some old" for t k old
    using a(4) [OF that] by auto
  ultimately show ?thesis using a(2,3,6) unfolding r ChainID_def by (simp only: sum.case) blast
qed

text \<open>
  C33: Validating a transaction predicts applying it: it gives the same result, an error, a panic or acceptance, and
  leaves the manager as it was.
\<close>

theorem validate_predicts_apply:
  assumes "config_reach C tx0 cm"
  shows "Validate C tx cm = (case Apply C tx cm of Inl e \<Rightarrow> Inl e | Inr (cm', r) \<Rightarrow> Inr (cm, r))"
  using Validate_idle(1) config_reach_inv [OF assms] by (simp add: config_inv_def)

text \<open>
  C29: The handlers hold what the configuration holds: a bytes handler returns for a key the value of the item of its type,
  and the policy manager returns for a key the policy that is compiled from the value of the policy item with this key, and none when
  there is no such item.
\<close>

theorem handlers_hold_configuration:
  assumes "config_reach C tx0 cm"
  shows "(\<forall>t bh k. map_of (handlers cm) t = Some (HBytes bh) \<longrightarrow>
      bh_GetBytes bh k = (case cfg (configuration cm) t k of None \<Rightarrow> None | Some i \<Rightarrow> ciValue i)) \<and>
    (\<forall>k. case cfg (configuration cm) 0 k of
        None \<Rightarrow> GetPolicy (cmPM cm) k = (None, False)
      | Some i \<Rightarrow> \<exists>p pol. unPolicy C (of_nbytes (ciValue i)) = Inr p \<and> newPolicy p (pmCH (cmPM cm)) = Inr pol \<and>
          GetPolicy (cmPM cm) k = (Some pol, True))"
proof -
  have m: "mirrored C cm" using config_reach_inv [OF assms] by (simp add: config_inv_def)
  then have pa: "policy_at C (pmCH (cmPM cm)) (cfg (configuration cm) 0 k) (map_of (policies (cmPM cm)) k)" for k
    by (simp add: mirrored_def mirrors_policies_def)
  have "case cfg (configuration cm) 0 k of
        None \<Rightarrow> GetPolicy (cmPM cm) k = (None, False)
      | Some i \<Rightarrow> \<exists>p pol. unPolicy C (of_nbytes (ciValue i)) = Inr p \<and> newPolicy p (pmCH (cmPM cm)) = Inr pol \<and>
          GetPolicy (cmPM cm) k = (Some pol, True)" for k
    using pa [of k] by (auto simp: policy_at_def GetPolicy_def bindE_eq_Inr_conv split: option.splits)
  moreover have "bh_GetBytes bh k = (case cfg (configuration cm) t k of None \<Rightarrow> None | Some i \<Rightarrow> ciValue i)"
    if "map_of (handlers cm) t = Some (HBytes bh)" for t bh k
    using m that by (simp add: mirrored_def mirrors_bytes_def bh_GetBytes_def split: option.split)
  ultimately show ?thesis by blast
qed

text \<open>
  C34: The configuration is well typed: an item is found under its own type, one of the four known ones, and its own
  key, and was last modified at or before the current sequence number.
\<close>

theorem config_items_well_typed:
  assumes "config_reach C tx0 cm" and "cfg (configuration cm) t k = Some i"
  shows "t \<in> set ctypes \<and> ciType i = t \<and> ciKey i = k \<and> ciLastModified i \<le> cmSequence cm"
  using config_reach_inv [OF assms(1)] assms(2) by (simp add: config_inv_def)

section \<open>Signatures\<close>

definition resign :: "(ConfigurationSignature \<Rightarrow> bytes) \<Rightarrow> ConfigurationEnvelope \<Rightarrow> ConfigurationEnvelope" where
  "resign f tx = tx\<lparr>ceItems := map (\<lambda>e. e\<lparr>sciSignatures := map (\<lambda>s. s\<lparr>csSignature := f s\<rparr>) (sciSignatures e)\<rparr>) (ceItems tx)\<rparr>"

lemma collectSigs_resign:
  "collectSigs C (map (\<lambda>s. s\<lparr>csSignature := f s\<rparr>) ss) = bindE (collectSigs C ss) (\<lambda>(h, r). Inr (map f ss, r))"
proof (induction ss)
  case (Cons s ss)
  then show ?case
    by (cases "unSignatureHeader C (csSignatureHeader s)"; cases "collectSigs C ss") (auto split: prod.splits)
qed simp

lemma Evaluate_headers: "Evaluate p h b i s = Evaluate p h' b i s"
  by (simp add: Evaluate_def pol_Evaluate_def split: PolicyV.split)

lemma processItem_resign:
  "processItem C sq dflt (e\<lparr>sciSignatures := map (\<lambda>s. s\<lparr>csSignature := f s\<rparr>) (sciSignatures e)\<rparr>) m cm =
   processItem C sq dflt e m cm"
proof (cases "collectSigs C (sciSignatures e)")
  case (Inr r)
  obtain h s i where "r = (h, s, i)" by (cases r) auto
  with Inr show ?thesis
    using Evaluate_headers [where h = h and h' = "map f (sciSignatures e)"] by (simp add: processItem_def collectSigs_resign)
qed (simp add: processItem_def collectSigs_resign)

lemma processItems_resign:
  "processItems C sq dflt (map (\<lambda>e. e\<lparr>sciSignatures := map (\<lambda>s. s\<lparr>csSignature := f s\<rparr>) (sciSignatures e)\<rparr>) es) m cm =
   processItems C sq dflt es m cm"
  by (induction es arbitrary: m cm) (auto simp: processItem_resign split: sum.splits)

lemma computeLoop_resign:
  "computeLoop C n c (map (\<lambda>e. e\<lparr>sciSignatures := map (\<lambda>s. s\<lparr>csSignature := f s\<rparr>) (sciSignatures e)\<rparr>) es) = computeLoop C n c es"
proof (induction es arbitrary: n c)
  case (Cons e es)
  show ?case unfolding list.map computeLoop.simps Cons.IH by simp
qed simp

lemma processConfig_resign: "processConfig C (resign f tx) cm = processConfig C tx cm"
proof -
  have "ceItems (resign f tx) =
      map (\<lambda>e. e\<lparr>sciSignatures := map (\<lambda>s. s\<lparr>csSignature := f s\<rparr>) (sciSignatures e)\<rparr>) (ceItems tx)"
    by (simp add: resign_def)
  note items = this
  show ?thesis
    unfolding processConfig_def computeChainIDAndSequence_def items processItems_resign computeLoop_resign list.map_disc_iff ..
qed

text \<open>
  The signatures of a configuration transaction do not matter: whatever the signature bytes are replaced by, it is
  applied or refused in the same way, by any crypto helper. The headers and the signatures are swapped when they
  are collected, and the policy does not look at the headers.
\<close>

theorem config_signatures_ignored:
  "Apply C (resign f tx) cm = Apply C tx cm"
  by (simp only: Apply_def processConfig_resign)

section \<open>Examples\<close>

text \<open>
  A codec with six items: a policy that accepts everything, which governs all the items; a chain parameter; a new value of
  it; an item of type 9; a policy item without a signature policy; and the new value with an old sequence number.
\<close>

definition ex_item :: "i32 \<Rightarrow> byte \<Rightarrow> byte \<Rightarrow> u64 \<Rightarrow> ConfigurationItem" where
  "ex_item t k v n = \<lparr>ciHeader = Some \<lparr>chType = 2, chChainID = Some [42]\<rparr>, ciType = t, ciLastModified = n,
     ciModificationPolicy = [7], ciKey = [k], ciValue = Some [v]\<rparr>"

definition ex_items :: "(bytes, ConfigurationItem) gomap" where
  "ex_items = [([1], ex_item 0 7 5 0), ([2], ex_item 1 8 5 0), ([3], ex_item 1 8 6 1), ([4], ex_item 9 7 5 1),
     ([5], ex_item 0 9 6 1), ([6], ex_item 1 8 6 0)]"

definition ex_codec :: OrdCodec where
  "ex_codec = \<lparr>unItem = (\<lambda>b. case map_of ex_items b of None \<Rightarrow> Inl ErrUnexpectedEOF | Some i \<Rightarrow> Inr i),
     unSignatureHeader = Inr,
     unPolicy = (\<lambda>b. Inr (Policy_SignaturePolicy (Some (if b = [5] then AcceptAllPolicy else AcceptAllPolicy\<lparr>spPolicy := None\<rparr>)))),
     unPayload = (\<lambda>b. Inl ErrUnexpectedEOF), unConfigurationEnvelope = (\<lambda>b. (\<lparr>ceItems = []\<rparr>, Some ErrUnexpectedEOF))\<rparr>"

definition ex_env :: "bytes list \<Rightarrow> ConfigurationEnvelope" where
  "ex_env bs = \<lparr>ceItems = map (\<lambda>b. \<lparr>sciConfigurationItem = b, sciSignatures = []\<rparr>) bs\<rparr>"

definition ex_cm :: configurationManager where
  "ex_cm = projr (bootstrapConfigManager ex_codec (ex_env [[1], [2]]))"

definition ex_applied :: "configurationManager \<times> (error + unit)" where
  "ex_applied = projr (Apply ex_codec (ex_env [[1], [3]]) ex_cm)"

lemma ex_config_runs:
  "\<not> isl (bootstrapConfigManager ex_codec (ex_env [[1], [2]]))" "\<not> isl (Apply ex_codec (ex_env [[1], [3]]) ex_cm)"
  "snd ex_applied = Inr ()"
  by code_simp+

lemma ex_Apply: "Apply ex_codec (ex_env [[1], [3]]) ex_cm = Inr (fst ex_applied, Inr ())"
  using ex_config_runs(2,3) by (simp add: ex_applied_def prod_eq_iff) (metis prod.collapse sum.collapse(2))

lemma ex_reach: "config_reach ex_codec (ex_env [[1], [2]]) ex_cm" "config_reach ex_codec (ex_env [[1], [2]]) (fst ex_applied)"
proof -
  show "config_reach ex_codec (ex_env [[1], [2]]) ex_cm"
    using ex_config_runs(1) by (intro cr_start) (simp add: ex_cm_def)
  from cr_apply [OF this ex_Apply] show "config_reach ex_codec (ex_env [[1], [2]]) (fst ex_applied)" .
qed

lemma config_applied_or_unchanged_witness:
  "cmSequence (fst ex_applied) = 1 \<and> cfg (configuration (fst ex_applied)) 1 [8] \<noteq> None"
proof -
  have "cmSequence ex_cm = 0" "cfg (configuration ex_cm) 1 [8] = Some (ex_item 1 8 5 0)" by code_simp+
  with config_applied_or_unchanged [OF ex_reach(1) ex_Apply] show ?thesis by auto
qed

lemma validate_predicts_apply_witness:
  "Validate ex_codec (ex_env [[1], [3]]) ex_cm = Inr (ex_cm, Inr ())"
  using validate_predicts_apply [OF ex_reach(1), of "ex_env [[1], [3]]"] ex_Apply by simp

lemma handlers_hold_configuration_witness:
  "(\<exists>bh. map_of (handlers (fst ex_applied)) 1 = Some (HBytes bh) \<and> bh_GetBytes bh [8] = Some [6]) \<and>
   (\<exists>p pol. unPolicy ex_codec [5] = Inr p \<and> newPolicy p (pmCH (cmPM (fst ex_applied))) = Inr pol \<and>
      GetPolicy (cmPM (fst ex_applied)) [7] = (Some pol, True))"
proof -
  have h: "map_of (handlers (fst ex_applied)) 1 = Some (HBytes \<lparr>bhConfig = [([8], Some [6])], bhProposed = None\<rparr>)"
    "cfg (configuration (fst ex_applied)) 1 [8] = Some (ex_item 1 8 6 1)" by code_simp+
  moreover have p: "cfg (configuration (fst ex_applied)) 0 [7] = Some (ex_item 0 7 5 0)" by code_simp
  moreover note handlers_hold_configuration [OF ex_reach(2)]
  ultimately have "bh_GetBytes \<lparr>bhConfig = [([8], Some [6])], bhProposed = None\<rparr> [8] = Some [6]"
    "\<exists>p pol. unPolicy ex_codec [5] = Inr p \<and> newPolicy p (pmCH (cmPM (fst ex_applied))) = Inr pol \<and>
      GetPolicy (cmPM (fst ex_applied)) [7] = (Some pol, True)"
    by (auto simp: ex_item_def of_nbytes_def dest!: spec [of _ "[7]"])
  with h show ?thesis by blast
qed

lemma config_items_well_typed_witness: "1 \<in> set ctypes \<and> ciKey (ex_item 1 8 6 1) = [8] \<and> 1 \<le> cmSequence (fst ex_applied)"
proof -
  have "cfg (configuration (fst ex_applied)) 1 [8] = Some (ex_item 1 8 6 1)" by code_simp
  from config_items_well_typed [OF ex_reach(2) this] show ?thesis by (simp add: ex_item_def)
qed

text \<open>
  Checking a transaction can end the process. An item of a type there is no handler for, and a policy item whose
  signature policy is not set, make the validation of a transaction panic, on a chain without a default modification
  policy; an old sequence number is an error as intended.
\<close>

theorem malformed_config_panics:
  "(case Validate ex_codec (ex_env [[1], [2], [4]]) ex_cm of Inl e \<Rightarrow> is_panic e | Inr _ \<Rightarrow> False) \<and>
   (case Validate ex_codec (ex_env [[1], [2], [5]]) ex_cm of Inl e \<Rightarrow> is_panic e | Inr _ \<Rightarrow> False) \<and>
   (case Validate ex_codec (ex_env [[1], [6]]) ex_cm of Inl _ \<Rightarrow> False | Inr (_, r) \<Rightarrow> isl r)"
  by code_simp

end
