(* ===== verification/Orderer_Cut.thy ===== *)
theory Orderer_Cut
  imports Orderer_Ledger Orderer_Config_Props
begin

text \<open>
  How the orderer admits messages and forms batches: the rules of the broadcast filter
  (orderer/common/broadcastfilter/filter.go, configfilter/configfilter.go) and the block cutter
  (orderer/common/blockcutter/blockcutter.go).
\<close>

section \<open>Filters\<close>

datatype Action = Accept | Reconfigure | Reject | Forward

text \<open>The implementations of \<open>Rule\<close>. The configuration filter uses the one configuration manager of the orderer, which the
  functions below pass along.\<close>

datatype Rule = EmptyRejectRule | AcceptRule | ConfigFilter

definition HeaderType_CONFIGURATION_TRANSACTION :: i32 where
  "HeaderType_CONFIGURATION_TRANSACTION = 1"

definition emptyReject_Apply :: "EnvelopeMsg \<Rightarrow> Action" where
  "emptyReject_Apply message = (if evPayload message = None then Reject else Forward)"

definition configFilter_Apply ::
  "OrdCodec \<Rightarrow> EnvelopeMsg \<Rightarrow> configurationManager \<Rightarrow> error + Action \<times> configurationManager" where
  "configFilter_Apply C message cm =
     catchE (unPayload C (of_nbytes (evPayload message))) (\<lambda>_. Inr (Forward, cm)) (\<lambda>msgData.
       if (case plHeader msgData of None \<Rightarrow> True | Some None \<Rightarrow> True
           | Some (Some ch) \<Rightarrow> chType ch \<noteq> HeaderType_CONFIGURATION_TRANSACTION)
       then Inr (Forward, cm)
       else (case unConfigurationEnvelope C (plData msgData) of
               (_, Some err) \<Rightarrow> Inr (Reject, cm)
             | (config, None) \<Rightarrow>
                bindE (Validate C config cm) (\<lambda>(cm, r).
                  case r of Inl err \<Rightarrow> Inr (Reject, cm) | Inr _ \<Rightarrow> Inr (Reconfigure, cm))))"

definition rule_Apply :: "OrdCodec \<Rightarrow> Rule \<Rightarrow> EnvelopeMsg \<Rightarrow> configurationManager \<Rightarrow> error + Action \<times> configurationManager" where
  "rule_Apply C r message cm =
     (case r of
        EmptyRejectRule \<Rightarrow> Inr (emptyReject_Apply message, cm)
      | AcceptRule \<Rightarrow> Inr (Accept, cm)
      | ConfigFilter \<Rightarrow> configFilter_Apply C message cm)"

text \<open>The rule that decided is returned as well, nil if none did.\<close>

fun RuleSet_Apply ::
  "OrdCodec \<Rightarrow> Rule list \<Rightarrow> EnvelopeMsg \<Rightarrow> configurationManager \<Rightarrow> error + (Action \<times> Rule option) \<times> configurationManager" where
  "RuleSet_Apply C [] message cm = Inr ((Forward, None), cm)"
| "RuleSet_Apply C (r # rules) message cm =
     bindE (rule_Apply C r message cm) (\<lambda>(action, cm).
       case action of Forward \<Rightarrow> RuleSet_Apply C rules message cm | _ \<Rightarrow> Inr ((action, Some r), cm))"

section \<open>The block cutter\<close>

text \<open>
  The current batch is nil when it has no messages: it is set to nil or appended to, so the empty list stands for nil. The
  result of \<open>Ordered\<close> is the list of batches and whether the message was valid.
\<close>

record receiver =
  batchSize :: int
  filters :: "Rule list"
  curBatch :: "EnvelopeMsg list"

definition NewReceiverImpl :: "int \<Rightarrow> Rule list \<Rightarrow> receiver" where
  "NewReceiverImpl n fs = \<lparr>batchSize = n, filters = fs, curBatch = []\<rparr>"

definition Ordered ::
  "OrdCodec \<Rightarrow> EnvelopeMsg \<Rightarrow> receiver \<times> configurationManager \<Rightarrow>
   error + (EnvelopeMsg list list \<times> bool) \<times> receiver \<times> configurationManager" where
  "Ordered C msg = (\<lambda>(r, cm).
     bindE (RuleSet_Apply C (filters r) msg cm) (\<lambda>((action, _), cm).
     case action of
       Accept \<Rightarrow>
         (let batch = curBatch r @ [msg] in
          if int (length batch) < batchSize r then Inr (([], True), r\<lparr>curBatch := batch\<rparr>, cm)
          else Inr (([batch], True), r\<lparr>curBatch := []\<rparr>, cm))
     | Reconfigure \<Rightarrow>
         catchE (unPayload C (of_nbytes (evPayload msg))) (\<lambda>_. Inr (([], False), r, cm)) (\<lambda>payload.
           case unConfigurationEnvelope C (plData payload) of
             (_, Some err) \<Rightarrow> Inr (([], False), r, cm)
           | (newConfig, None) \<Rightarrow>
              bindE (Validate C newConfig cm) (\<lambda>(cm, res).
                case res of
                  Inl err \<Rightarrow> Inr (([], False), r, cm)
                | Inr _ \<Rightarrow>
                   (let firstBatch = curBatch r; secondBatch = [msg] in
                    if firstBatch = [] then Inr (([secondBatch], True), r\<lparr>curBatch := []\<rparr>, cm)
                    else Inr (([firstBatch, secondBatch], True), r\<lparr>curBatch := []\<rparr>, cm))))
     | Reject \<Rightarrow> Inr (([], False), r, cm)
     | Forward \<Rightarrow> Inr (([], False), r, cm)))"

definition Cut :: "receiver \<Rightarrow> EnvelopeMsg list \<times> receiver" where
  "Cut r = (curBatch r, r\<lparr>curBatch := []\<rparr>)"

section \<open>Verdicts\<close>

text \<open>
  With an idle configuration manager a filter changes nothing, so its verdict on a message depends on the message only: it
  is ordered with others, ordered in a batch of its own, or dropped. A panic is the error.
\<close>

definition verdict :: "OrdCodec \<Rightarrow> Rule list \<Rightarrow> configurationManager \<Rightarrow> EnvelopeMsg \<Rightarrow> error + Action" where
  "verdict C rules cm msg = bindE (RuleSet_Apply C rules msg cm) (\<lambda>((action, _), _). Inr action)"

lemma no_error_unit [simp]: "(\<forall>x. r \<noteq> Inl x) \<longleftrightarrow> r = Inr ()" for r :: "error + unit"
  by (cases r) auto

lemma Validate_keeps: "idle cm \<Longrightarrow> Validate C tx cm = Inr (cm', r) \<Longrightarrow> cm' = cm"
  by (auto simp: Validate_idle(1) split: sum.splits)

lemma configFilter_keeps:
  assumes "idle cm" "configFilter_Apply C msg cm = Inr (a, cm')"
  shows "cm' = cm"
  using assms(2)
  by (auto simp: configFilter_Apply_def catchE_def bindE_eq_Inr_conv dest: Validate_keeps [OF assms(1)]
      split: sum.splits if_splits prod.splits option.splits)

lemma rule_keeps: "idle cm \<Longrightarrow> rule_Apply C r msg cm = Inr (a, cm') \<Longrightarrow> cm' = cm"
  by (cases r) (auto simp: rule_Apply_def dest: configFilter_keeps)

lemma RuleSet_keeps: "idle cm \<Longrightarrow> RuleSet_Apply C rules msg cm = Inr (a, cm') \<Longrightarrow> cm' = cm"
proof (induction rules)
  case (Cons r rules)
  then obtain act where a: "rule_Apply C r msg cm = Inr (act, cm)"
    using rule_keeps by (fastforce simp: bindE_eq_Inr_conv)
  with Cons show ?case by (cases act) auto
qed simp

text \<open>Only the configuration filter answers \<open>Reconfigure\<close>, and then the message holds a valid configuration transaction.\<close>

definition reconfigures :: "OrdCodec \<Rightarrow> configurationManager \<Rightarrow> EnvelopeMsg \<Rightarrow> bool" where
  "reconfigures C cm msg \<longleftrightarrow> (\<exists>payload config. unPayload C (of_nbytes (evPayload msg)) = Inr payload \<and>
     unConfigurationEnvelope C (plData payload) = (config, None) \<and> Validate C config cm = Inr (cm, Inr ()))"

lemma rule_reconfigures:
  assumes "idle cm" "rule_Apply C r msg cm = Inr (Reconfigure, cm')"
  shows "reconfigures C cm msg"
proof -
  have "r = ConfigFilter" using assms(2) by (cases r) (auto simp: rule_Apply_def emptyReject_Apply_def split: if_splits)
  with assms(2) have "configFilter_Apply C msg cm = Inr (Reconfigure, cm')" by (simp add: rule_Apply_def)
  then obtain payload config where "unPayload C (of_nbytes (evPayload msg)) = Inr payload"
      "unConfigurationEnvelope C (plData payload) = (config, None)" "Validate C config cm = Inr (cm', Inr ())"
    by (auto simp: configFilter_Apply_def catchE_def bindE_eq_Inr_conv split: sum.splits if_splits prod.splits option.splits)
  with Validate_keeps [OF assms(1)] show ?thesis by (auto simp: reconfigures_def)
qed

lemma verdict_reconfigures: "idle cm \<Longrightarrow> verdict C rules cm msg = Inr Reconfigure \<Longrightarrow> reconfigures C cm msg"
proof (induction rules)
  case (Cons r rules)
  then obtain act where a: "rule_Apply C r msg cm = Inr (act, cm)"
    using rule_keeps by (fastforce simp: verdict_def bindE_eq_Inr_conv)
  with Cons show ?case by (cases act) (auto simp: verdict_def dest: rule_reconfigures)
qed (simp add: verdict_def)

text \<open>The cutter against its description: what happens to the batches for each verdict.\<close>

definition cut_spec :: "int \<Rightarrow> Action \<Rightarrow> EnvelopeMsg \<Rightarrow> EnvelopeMsg list \<Rightarrow> EnvelopeMsg list list \<times> EnvelopeMsg list" where
  "cut_spec n a msg pending =
     (case a of
        Accept \<Rightarrow> if int (length pending) + 1 < n then ([], pending @ [msg]) else ([pending @ [msg]], [])
      | Reconfigure \<Rightarrow> ((if pending = [] then [] else [pending]) @ [[msg]], [])
      | _ \<Rightarrow> ([], pending))"

definition ordered_by :: "Action \<Rightarrow> bool" where
  "ordered_by a \<longleftrightarrow> a = Accept \<or> a = Reconfigure"

lemma Ordered_spec:
  assumes "idle cm"
  shows "Ordered C msg (r, cm) = bindE (verdict C (filters r) cm msg) (\<lambda>a.
    case cut_spec (batchSize r) a msg (curBatch r) of (batches, pending) \<Rightarrow>
      Inr ((batches, ordered_by a), r\<lparr>curBatch := pending\<rparr>, cm))"
proof (cases "RuleSet_Apply C (filters r) msg cm")
  case (Inr x)
  then obtain act b where x: "RuleSet_Apply C (filters r) msg cm = Inr ((act, b), cm)"
    using RuleSet_keeps [OF assms] by (metis prod.collapse)
  then have v: "verdict C (filters r) cm msg = Inr act" by (simp add: verdict_def)
  have "reconfigures C cm msg" if "act = Reconfigure" using verdict_reconfigures assms v that by metis
  then show ?thesis
    by (cases act) (auto simp: Ordered_def x v cut_spec_def ordered_by_def reconfigures_def Let_def)
qed (simp add: Ordered_def verdict_def)

lemma cut_spec_props:
  assumes "cut_spec n a msg pending = (batches, pending')"
  shows "concat batches @ pending' = pending @ (if ordered_by a then [msg] else [])"
    and "b \<in> set batches \<Longrightarrow> b \<noteq> []"
    and "int (length pending) < max 1 n \<Longrightarrow> int (length pending') < max 1 n"
    and "int (length pending) < max 1 n \<Longrightarrow> b \<in> set batches \<Longrightarrow> int (length b) \<le> max 1 n"
    and "batches \<noteq> [] \<Longrightarrow> pending' = []" and "batches = [] \<Longrightarrow> ordered_by a \<Longrightarrow> pending' \<noteq> []"
  using assms by (auto simp: cut_spec_def ordered_by_def split: Action.splits if_splits)

end
