(* ===== verification/Orderer_Ledger_Props.thy ===== *)
theory Orderer_Ledger_Props
  imports Orderer_Ledger
begin

text \<open>
  The in-memory ledger as a list of blocks: the nodes form a chain that only grows, the blocks in it are numbered
  and linked by their hashes, and a reader sees them in order, whatever is appended and dropped meanwhile.
\<close>

section \<open>The chain of nodes\<close>

text \<open>
  \<open>as\<close> are the addresses of all nodes that were appended, the one before genesis first; \<open>bs\<close> are their blocks. The
  number of a block is its position less one.
\<close>

definition linked :: "simpleList list \<Rightarrow> nat \<Rightarrow> nat list \<Rightarrow> nat \<Rightarrow> nat \<Rightarrow> bool" where
  "linked ns new as a j \<longleftrightarrow> a < length ns \<and> j \<le> length as \<and> (j = length as \<longrightarrow> a = new) \<and>
     slNext (ns ! a) = (if j < length as then Some (as ! j) else None) \<and> (slClosed (ns ! a) \<longleftrightarrow> j < length as)"

text \<open>A reader at address \<open>a\<close> reads the block at position \<open>j\<close> next.\<close>

abbreviation reads_next :: "ramLedger \<Rightarrow> nat list \<Rightarrow> nat \<Rightarrow> nat \<Rightarrow> bool" where
  "reads_next rl \<equiv> linked (nodes rl) (newest rl)"

definition ram_inv :: "ramLedger \<Rightarrow> nat list \<Rightarrow> BlockMsg list \<Rightarrow> bool" where
  "ram_inv rl as bs \<longleftrightarrow> as \<noteq> [] \<and> length bs = length as \<and> distinct as \<and> newest rl = last as \<and>
     (\<forall>i < length as. reads_next rl as (as ! i) (Suc i) \<and> slBlock (node_at rl (as ! i)) = bs ! i \<and>
        hdNumber (bkHeader (bs ! i)) = of_nat i - 1) \<and>
     (\<exists>q < length as. oldest rl = as ! q \<and> ramSize rl = int (length as) - int q \<and> ramSize rl = min (int (length as)) (max 1 (ramMaxSize rl)))"

lemma ram_inv_new: "ram_inv (newChain m) [0] [bareBlock (- 1)]"
  by (simp add: ram_inv_def newChain_def linked_def bareBlock_def)

lemma ram_invD:
  assumes "ram_inv rl as bs"
  shows "as \<noteq> []" "length bs = length as" "distinct as" "newest rl = last as"
    "i < length as \<Longrightarrow> reads_next rl as (as ! i) (Suc i)" "i < length as \<Longrightarrow> slBlock (node_at rl (as ! i)) = bs ! i"
    "i < length as \<Longrightarrow> hdNumber (bkHeader (bs ! i)) = of_nat i - 1"
  using assms unfolding ram_inv_def by blast+

lemma ram_inv_last:
  assumes "ram_inv rl as bs"
  shows "newest rl = as ! (length as - 1)" "number_at rl (newest rl) = of_nat (length as - 1) - 1" "newest rl < length (nodes rl)"
    "slBlock (node_at rl (newest rl)) = last bs" "\<not> slClosed (node_at rl (newest rl))"
proof -
  note D = ram_invD [OF assms]
  have l: "length as - 1 < length as" "Suc (length as - 1) = length as" using D(1) by auto
  show n: "newest rl = as ! (length as - 1)" unfolding D(4) by (rule last_conv_nth [OF D(1)])
  have "bs \<noteq> []" using D(1,2) by auto
  from last_conv_nth [OF this] show "slBlock (node_at rl (newest rl)) = last bs"
    unfolding n D(6) [OF l(1)] D(2) by simp
  show "number_at rl (newest rl) = of_nat (length as - 1) - 1" unfolding n D(6) [OF l(1)] by (rule D(7) [OF l(1)])
  show "newest rl < length (nodes rl)" "\<not> slClosed (node_at rl (newest rl))"
    using D(5) [OF l(1)] unfolding n l(2) linked_def by simp_all
qed

text \<open>Appending a block keeps the invariant, and where the readers are.\<close>

lemma ram_appendBlock_inv:
  assumes "ram_inv rl as bs" and "hdNumber (bkHeader b) = of_nat (length as) - 1"
  obtains rl' where "ram_appendBlock b rl = Inr rl'" "ram_inv rl' (as @ [length (nodes rl)]) (bs @ [b])"
    "\<And>a j. reads_next rl as a j \<Longrightarrow> reads_next rl' (as @ [length (nodes rl)]) a j" "ramMaxSize rl' = ramMaxSize rl"
proof -
  let ?a = "length (nodes rl)" and ?n = "newest rl"
  define ns where "ns = (nodes rl)[?n := (node_at rl ?n)\<lparr>slNext := Some ?a, slClosed := True\<rparr>] @
      [\<lparr>slNext = None, slClosed = False, slBlock = b\<rparr>]"
  note last = ram_inv_last [OF assms(1)]
  note basic = ram_invD [OF assms(1)]
  have ns: "length ns = Suc ?a" "ns ! ?a = \<lparr>slNext = None, slClosed = False, slBlock = b\<rparr>"
    "ns ! ?n = (node_at rl ?n)\<lparr>slNext := Some ?a, slClosed := True\<rparr>"
    "\<And>a. a < ?a \<Longrightarrow> a \<noteq> ?n \<Longrightarrow> ns ! a = node_at rl a" "\<And>a. a < ?a \<Longrightarrow> slBlock (ns ! a) = slBlock (node_at rl a)"
    using last(3) by (auto simp: ns_def nth_append nth_list_update)
  have keep: "linked ns ?a (as @ [?a]) a j" if l: "reads_next rl as a j" for a j
  proof (cases "j = length as")
    case True
    with l last(3) show ?thesis by (simp add: linked_def nth_append ns)
  next
    case False
    with l have "a \<noteq> ?n" using last(5) by (auto simp: linked_def)
    with False l show ?thesis by (auto simp: linked_def nth_append ns)
  qed
  obtain q where q: "q < length as" "oldest rl = as ! q" "ramSize rl = int (length as) - int q" "ramSize rl = min (int (length as)) (max 1 (ramMaxSize rl))"
    using assms(1) by (auto simp: ram_inv_def)
  have chain: "linked ns ?a (as @ [?a]) ((as @ [?a]) ! i) (Suc i) \<and> slBlock (ns ! ((as @ [?a]) ! i)) = (bs @ [b]) ! i \<and>
      hdNumber (bkHeader ((bs @ [b]) ! i)) = of_nat i - 1" if "i < length (as @ [?a])" for i
  proof (cases "i = length as")
    case True
    then show ?thesis using assms(2) basic(2) by (simp add: linked_def nth_append ns)
  next
    case False
    then have i: "i < length as" using that by simp
    with keep [OF basic(5)] basic(2) basic(5-7) [OF i] ns(5) [of "as ! i"] show ?thesis by (simp add: nth_append linked_def)
  qed
  note chain3 = chain [THEN conjunct1] chain [THEN conjunct2, THEN conjunct1] chain [THEN conjunct2, THEN conjunct2]
  have "as ! i < ?a" if "i < length as" for i
    using basic(5) [OF that] by (simp add: linked_def)
  then have "?a \<notin> set as" unfolding in_set_conv_nth by (metis less_irrefl)
  then have dist: "distinct (as @ [?a])" using basic(3) by simp
  have core: "as @ [?a] \<noteq> []" "length (bs @ [b]) = length (as @ [?a])" "?a = last (as @ [?a])"
    using basic(2) by simp_all
  let ?rl = "rl\<lparr>nodes := ns, newest := ?a, ramSize := ramSize rl + 1\<rparr>"
  have inv: "ram_inv rl' (as @ [?a]) (bs @ [b])" if "nodes rl' = ns" "newest rl' = ?a" "q' < length (as @ [?a])"
      "oldest rl' = (as @ [?a]) ! q'" "ramSize rl' = int (length (as @ [?a])) - int q'" "ramSize rl' = min (int (length (as @ [?a]))) (max 1 (ramMaxSize rl'))" for rl' q'
    unfolding ram_inv_def that(1,2)
    by (insert dist core that(3-6), intro conjI allI impI exI [of _ q'], (assumption | (rule chain3, assumption))+)
  show thesis
  proof (cases "ramMaxSize rl < ramSize rl + 1")
    case True
    let ?rl' = "?rl\<lparr>oldest := (as @ [?a]) ! Suc q, ramSize := ramSize rl\<rparr>"
    have "slNext (ns ! (as ! q)) = Some ((as @ [?a]) ! Suc q)"
      using chain [of q] q(1) by (simp add: linked_def nth_append [of as _ q])
    then have "ram_appendBlock b rl = Inr ?rl'"
      using True last(5) q(2) by (simp add: ram_appendBlock_def Let_def flip: ns_def)
    moreover have "ram_inv ?rl' (as @ [?a]) (bs @ [b])" by (rule inv [of _ "Suc q"]) (use q True in \<open>auto simp: min_def max_def le_Suc_eq split: if_splits\<close>)
    ultimately show thesis by (rule that) (use keep in simp_all)
  next
    case False
    have "ram_appendBlock b rl = Inr ?rl" using False last(5) by (simp add: ram_appendBlock_def Let_def flip: ns_def)
    moreover have "ram_inv ?rl (as @ [?a]) (bs @ [b])" by (rule inv [of _ q]) (use q False in \<open>auto simp: nth_append min_def max_def split: if_splits\<close>)
    ultimately show thesis by (rule that) (use keep in simp_all)
  qed
qed

text \<open>A node that a reader adds is in front of the chain and not a part of it.\<close>

lemma linked_more: "linked ns new as a j \<Longrightarrow> linked (ns @ xs) new as a j"
  by (auto simp: linked_def nth_append)

lemma before_inv:
  assumes "ram_inv rl as bs" and "before rl (as ! i) = (rl', a)" and i: "i < length as"
  shows "ram_inv rl' as bs" "reads_next rl' as a i" "number_at rl' a = of_nat i - 2" "ramMaxSize rl' = ramMaxSize rl"
    "ramSize rl' = ramSize rl" "\<And>a j. reads_next rl as a j \<Longrightarrow> reads_next rl' as a j"
proof -
  note D = ram_invD [OF assms(1)]
  have new: "slBlock (node_at rl (as ! i)) = bs ! i" "hdNumber (bkHeader (bs ! i)) = of_nat i - 1"
    using D(6,7) [OF i] by simp_all
  have rl': "rl' = rl\<lparr>nodes := nodes rl @ [\<lparr>slNext = Some (as ! i), slClosed = True, slBlock = bareBlock (number_at rl (as ! i) - 1)\<rparr>]\<rparr>"
    and a: "a = length (nodes rl)"
    using assms(2) by (auto simp: before_def)
  show keep: "\<And>a j. reads_next rl as a j \<Longrightarrow> reads_next rl' as a j" by (simp add: rl' linked_more)
  have old: "slBlock (node_at rl' (as ! k)) = bs ! k" if "k < length as" for k
    using D(5,6) [OF that] by (simp add: rl' nth_append linked_def)
  obtain q where "q < length as" "oldest rl = as ! q" "ramSize rl = int (length as) - int q"
      "ramSize rl = min (int (length as)) (max 1 (ramMaxSize rl))"
    using assms(1) unfolding ram_inv_def by blast
  then have q: "\<exists>q < length as. oldest rl' = as ! q \<and> ramSize rl' = int (length as) - int q \<and>
      ramSize rl' = min (int (length as)) (max 1 (ramMaxSize rl'))"
    unfolding rl' by (intro exI [of _ q]) simp
  have "newest rl' = last as" using D(4) by (simp add: rl')
  then show "ram_inv rl' as bs" unfolding ram_inv_def using D(1-3) q keep [OF D(5)] old D(7) by blast
  show "reads_next rl' as a i" using i by (simp add: rl' a linked_def)
  show "number_at rl' a = of_nat i - 2" using new by (simp add: rl' a bareBlock_def)
  show "ramMaxSize rl' = ramMaxSize rl" "ramSize rl' = ramSize rl" by (simp_all add: rl')
qed

lemma number_of_position: "ram_inv rl as bs \<Longrightarrow> i < length as \<Longrightarrow> number_at rl (as ! i) = of_nat i - 1"
  using ram_invD(6,7) by metis

lemma of_nat_inj_u64: "i < 2 ^ 64 \<Longrightarrow> j < 2 ^ 64 \<Longrightarrow> ((of_nat i :: u64) = of_nat j) = (i = j)"
  by (simp add: word_of_nat_eq_iff take_bit_nat_eq_self)

text \<open>The search ends at the node in front of the block sought, with as many steps as there are blocks in between.\<close>

lemma seekLoop_finds:
  assumes "ram_inv rl as bs" "length as < 2 ^ 64" "i \<le> j" "j < length as" "j - i < fuel"
  shows "seekLoop rl (of_nat j) fuel (as ! i) = Some (Inr (as ! j))"
  using assms(3-5)
proof (induction fuel arbitrary: i)
  case (Suc fuel)
  have num: "number_at rl (as ! i) = of_nat i - 1" by (rule number_of_position [OF assms(1)]) (use Suc.prems in simp)
  show ?case
  proof (cases "i = j")
    case False
    then have "(of_nat i :: u64) \<noteq> of_nat j" "slNext (node_at rl (as ! i)) = Some (as ! Suc i)"
      using Suc.prems assms(2) of_nat_inj_u64 [of i j] ram_invD(5) [OF assms(1), of i] by (simp_all add: linked_def)
    with Suc.IH [of "Suc i"] Suc.prems False num show ?thesis by simp
  qed (use num in simp)
qed simp

lemma chain_length: "ram_inv rl as bs \<Longrightarrow> length as \<le> length (nodes rl)"
proof -
  assume inv: "ram_inv rl as bs"
  then have "set as \<subseteq> {..<length (nodes rl)}"
    using ram_invD(5) [OF inv] by (auto simp: in_set_conv_nth linked_def)
  from card_mono [OF _ this] show ?thesis using ram_invD(3) [OF inv] by (simp add: distinct_card)
qed

lemma newCursor_reads:
  assumes "ram_inv rl as bs" "reads_next rl as a i" "number_at rl a = of_nat i - 2" "i < 2 ^ 64"
  shows "\<exists>cu. newCursor rl a = Some (Inr (rl, ItCursor cu, of_nat (i - 1))) \<and> reads_next rl as cu (max 1 i)"
proof (cases "i = 0")
  case True
  then have "slNext (node_at rl a) = Some (as ! 0)" using assms(2) ram_invD(1) [OF assms(1)] by (simp add: linked_def)
  then show ?thesis using True assms(3) ram_invD(1) [OF assms(1)] ram_invD(5) [OF assms(1), of 0]
    by (simp add: newCursor_def cursor_Next_def)
next
  case False
  then have "(of_nat i :: u64) \<noteq> of_nat 0" using of_nat_inj_u64 [of i 0] assms(4) by simp
  then show ?thesis using False assms(2,3) by (simp add: newCursor_def max_def of_nat_diff)
qed

text \<open>
  What a seek asks for in a chain of \<open>n\<close> blocks of which at least the last \<open>max 1 m\<close> are kept: the number of the first
  block to read.
\<close>

definition seek_start :: "int \<Rightarrow> nat \<Rightarrow> StartType \<Rightarrow> nat \<Rightarrow> nat option" where
  "seek_start m n st sp =
     (case st of
        SeekInfo_OLDEST \<Rightarrow> Some (n - nat (max 1 m))
      | SeekInfo_NEWEST \<Rightarrow> Some (n - 1)
      | SeekInfo_SPECIFIED \<Rightarrow> if n - nat (max 1 m) \<le> sp \<and> sp \<le> n then Some sp else None
      | StartType_other _ \<Rightarrow> None)"

definition known_start :: "StartType \<Rightarrow> bool" where
  "known_start st = (case st of StartType_other _ \<Rightarrow> False | _ \<Rightarrow> True)"

definition seek_result :: "nat list \<Rightarrow> nat option \<Rightarrow> ramLedger \<Rightarrow> Iterator \<Rightarrow> u64 \<Rightarrow> bool" where
  "seek_result as r rl it num =
     (case r of None \<Rightarrow> it = NotFoundErrorIterator \<and> num = 0
      | Some j \<Rightarrow> num = of_nat j \<and> (\<exists>cu. it = ItCursor cu \<and> reads_next rl as cu (Suc j)))"

lemma before_newCursor:
  assumes "ram_inv rl as bs" "i < length as" "length as < 2 ^ 64"
  shows "\<exists>rl' it num. (case before rl (as ! i) of (rl, a) \<Rightarrow> newCursor rl a) = Some (Inr (rl', it, num)) \<and>
     ram_inv rl' as bs \<and> ramMaxSize rl' = ramMaxSize rl \<and> (\<forall>a j. reads_next rl as a j \<longrightarrow> reads_next rl' as a j) \<and>
     seek_result as (Some (i - 1)) rl' it num"
proof -
  obtain rl' a where b: "before rl (as ! i) = (rl', a)" by fastforce
  note B = before_inv [OF assms(1) b assms(2)]
  have m: "max 1 i = Suc (i - 1)" by simp
  obtain cu where cu: "newCursor rl' a = Some (Inr (rl', ItCursor cu, of_nat (i - 1)))" "reads_next rl' as cu (Suc (i - 1))"
    using newCursor_reads [OF B(1-3)] assms(2,3) unfolding m by auto
  then show ?thesis using B(1,4,6) by (auto simp: b seek_result_def)
qed

lemma unat_of_nat_u64: "n < 2 ^ 64 \<Longrightarrow> unat (of_nat n :: u64) = n"
  by (simp add: unsigned_of_nat take_bit_nat_eq_self)

text \<open>
  A seek for a number: the tests of the code, on words, compare positions, as \<open>q\<close> is that of the oldest node.
\<close>

lemma specified_range:
  assumes inv: "ram_inv rl as bs" and len: "2 \<le> length as" "length as < 2 ^ 64" and q: "q < length as" "oldest rl = as ! q"
  shows "(sp + 1 < number_at rl (oldest rl) + 1 \<or> number_at rl (newest rl) + 1 < sp) \<longleftrightarrow> length as - 1 < unat sp \<or> unat sp + 1 < q"
    and "unat sp \<le> length as - 1 \<Longrightarrow> sp = number_at rl (oldest rl) \<longleftrightarrow> unat sp + 1 = q"
proof -
  let ?s = "unat sp"
  have sp: "sp = of_nat ?s" by simp
  have nums: "number_at rl (oldest rl) = of_nat q - 1" "number_at rl (newest rl) + 1 = of_nat (length as - 1)"
    using number_of_position [OF inv q(1)] ram_inv_last(2) [OF inv] q(2) by simp_all
  have high: "number_at rl (newest rl) + 1 < sp \<longleftrightarrow> length as - 1 < ?s"
    unfolding nums word_less_nat_alt using len by (subst unat_of_nat_u64) simp_all
  have q': "unat (number_at rl (oldest rl) + 1) = q" unfolding nums using q(1) len(2) by (simp add: unat_of_nat_u64)
  have s': "unat (sp + 1) = ?s + 1" if "?s \<le> length as - 1"
  proof -
    have "sp + 1 = of_nat (?s + 1)" by simp
    then show ?thesis using that len by (metis unat_of_nat_u64 le_diff_conv2 le_trans less_le_trans not_le one_le_numeral)
  qed
  show "(sp + 1 < number_at rl (oldest rl) + 1 \<or> number_at rl (newest rl) + 1 < sp) \<longleftrightarrow> length as - 1 < ?s \<or> ?s + 1 < q"
  proof (cases "length as - 1 < ?s")
    case False
    then show ?thesis using high s' q' by (simp add: word_less_nat_alt)
  qed (use high in simp)
  show "sp = number_at rl (oldest rl) \<longleftrightarrow> ?s + 1 = q" if "?s \<le> length as - 1"
    using s' [OF that] q' by (metis add_right_cancel word_unat_eq_iff)
qed

lemma Iterator_specified:
  assumes inv: "ram_inv rl as bs" and len: "2 \<le> length as" "length as < 2 ^ 64" and q: "q < length as" "oldest rl = as ! q"
  shows "\<exists>rl' it num. ram_Iterator SeekInfo_SPECIFIED sp rl = Some (Inr (rl', it, num)) \<and> ram_inv rl' as bs \<and>
    ramMaxSize rl' = ramMaxSize rl \<and> (\<forall>a j. reads_next rl as a j \<longrightarrow> reads_next rl' as a j) \<and>
    seek_result as (if q - 1 \<le> unat sp \<and> unat sp \<le> length as - 1 then Some (unat sp) else None) rl' it num"
proof -
  let ?s = "unat sp"
  note range = specified_range [OF assms, of sp]
  consider (out) "length as - 1 < ?s \<or> ?s + 1 < q" | (first) "?s \<le> length as - 1" "?s + 1 = q" "q - 1 = ?s" |
      (found) "?s \<le> length as - 1" "q \<le> ?s"
    by linarith
  then show ?thesis
  proof cases
    case out
    then have "\<not> (q - 1 \<le> ?s \<and> ?s \<le> length as - 1)" by linarith
    with inv out range(1) show ?thesis by (simp add: ram_Iterator_def seek_result_def)
  next
    case first
    then show ?thesis using before_newCursor [OF inv q(1) len(2)] range
      by (simp add: ram_Iterator_def q(2))
  next
    case found
    have s: "?s < length as" "?s < 2 ^ 64" using found len by simp_all
    have "seekLoop rl sp (length (nodes rl)) (as ! q) = Some (Inr (as ! ?s))"
      using seekLoop_finds [OF inv len(2) found(2) s(1), of "length (nodes rl)"] chain_length [OF inv] s(1) by simp
    moreover have "\<exists>cu. newCursor rl (as ! ?s) = Some (Inr (rl, ItCursor cu, of_nat ?s)) \<and> reads_next rl as cu (Suc ?s)"
      using newCursor_reads [OF inv ram_invD(5) [OF inv s(1)]] number_of_position [OF inv s(1)] s len by simp
    moreover have "q - 1 \<le> ?s" "sp \<noteq> number_at rl (as ! q)" "\<not> (length as - 1 < ?s \<or> ?s + 1 < q)"
      using range(2) found q(2) by auto
    ultimately show ?thesis using inv found range(1)
      by (auto simp: ram_Iterator_def seek_result_def q(2))
  qed
qed

lemma Iterator_spec:
  assumes inv: "ram_inv rl as bs" and len: "2 \<le> length as" "length as < 2 ^ 64" and st: "known_start st"
  shows "\<exists>rl' it num. ram_Iterator st sp rl = Some (Inr (rl', it, num)) \<and> ram_inv rl' as bs \<and> ramMaxSize rl' = ramMaxSize rl \<and>
    (\<forall>a j. reads_next rl as a j \<longrightarrow> reads_next rl' as a j) \<and>
    seek_result as (seek_start (ramMaxSize rl) (length as - 1) st (unat sp)) rl' it num"
proof -
  obtain q where q: "q < length as" "oldest rl = as ! q" and
      size: "int (length as) - int q = min (int (length as)) (max 1 (ramMaxSize rl))"
    using inv unfolding ram_inv_def by metis
  have first: "length as - 1 - nat (max 1 (ramMaxSize rl)) = q - 1" using size q(1) by linarith
  have new: "newest rl = as ! (length as - 1)" "length as - 1 < length as" using ram_inv_last(1) [OF inv] len(1) by simp_all
  show ?thesis unfolding seek_start_def first
    using before_newCursor [OF inv q(1) len(2)] before_newCursor [OF inv new(2) len(2)] Iterator_specified [OF inv len q]
    using st by (cases st) (simp_all add: ram_Iterator_def q(2) new(1) known_start_def)
qed

section \<open>Histories of a ledger and a reader\<close>

text \<open>A ledger from its genesis block on, with the blocks that were put into it.\<close>

inductive ram_run :: "BlockCodec \<Rightarrow> int \<Rightarrow> ramLedger \<Rightarrow> BlockMsg list \<Rightarrow> bool" for K m where
  genesis: "hdNumber (bkHeader g) = 0 \<Longrightarrow> ram_appendBlock g (newChain m) = Inr rl \<Longrightarrow> ram_run K m rl [g]"
| append: "ram_run K m rl bs \<Longrightarrow> ram_Append K msgs md rl = Inr (b, rl') \<Longrightarrow> ram_run K m rl' (bs @ [b])"
| iterator: "ram_run K m rl bs \<Longrightarrow> ram_Iterator st sp rl = Some (Inr (rl', it, num)) \<Longrightarrow> ram_run K m rl' bs"

text \<open>The same with one reader: the blocks its iterator has returned.\<close>

inductive reader_run :: "BlockCodec \<Rightarrow> int \<Rightarrow> u64 \<Rightarrow> ramLedger \<Rightarrow> BlockMsg list \<Rightarrow> Iterator \<Rightarrow> BlockMsg list \<Rightarrow> bool" for K m num where
  start: "ram_run K m rl bs \<Longrightarrow> ram_Iterator st sp rl = Some (Inr (rl', it, num)) \<Longrightarrow> reader_run K m num rl' bs it []"
| append: "reader_run K m num rl bs it out \<Longrightarrow> ram_Append K msgs md rl = Inr (b, rl') \<Longrightarrow>
    reader_run K m num rl' (bs @ [b]) it out"
| iterator: "reader_run K m num rl bs it out \<Longrightarrow> ram_Iterator st sp rl = Some (Inr (rl', it', num')) \<Longrightarrow>
    reader_run K m num rl' bs it out"
| receive: "reader_run K m num rl bs it out \<Longrightarrow> it_Next rl it = Some (it', Some b, status) \<Longrightarrow>
    reader_run K m num rl bs it' (out @ [b])"

text \<open>The block \<open>b\<close> follows \<open>a\<close>: the number is the next one, and the hashes are those of the header of \<open>a\<close> and of the data.\<close>

definition follows :: "BlockCodec \<Rightarrow> BlockMsg \<Rightarrow> BlockMsg \<Rightarrow> bool" where
  "follows K a b \<longleftrightarrow> hdNumber (bkHeader b) = hdNumber (bkHeader a) + 1 \<and>
     (\<exists>h. header_Hash K (bkHeader a) = Inr h \<and> hdPreviousHash (bkHeader b) = Some h) \<and>
     (\<exists>d h. bkData b = Some d \<and> data_Hash K d = Inr h \<and> hdDataHash (bkHeader b) = Some h)"

definition ram_history :: "BlockCodec \<Rightarrow> int \<Rightarrow> ramLedger \<Rightarrow> nat list \<Rightarrow> BlockMsg list \<Rightarrow> bool" where
  "ram_history K m rl as bs \<longleftrightarrow> ram_inv rl as (bareBlock (- 1) # bs) \<and> ramMaxSize rl = m \<and> bs \<noteq> [] \<and>
     (\<forall>i. Suc i < length bs \<longrightarrow> follows K (bs ! i) (bs ! Suc i))"

lemma history_lengths: "ram_history K m rl as bs \<Longrightarrow> length as = Suc (length bs) \<and> 2 \<le> length as"
  using ram_invD(2) by (cases bs) (fastforce simp: ram_history_def)+

lemma genesis_history:
  assumes "hdNumber (bkHeader g) = 0" and "ram_appendBlock g (newChain m) = Inr rl"
  shows "\<exists>as. ram_history K m rl as [g]"
proof -
  obtain rl' as where "ram_appendBlock g (newChain m) = Inr rl'" "ram_inv rl' as ([bareBlock (- 1)] @ [g])"
      "ramMaxSize rl' = ramMaxSize (newChain m)"
    using ram_appendBlock_inv [OF ram_inv_new] assms(1) by (metis cancel_comm_monoid_add_class.diff_cancel length_Cons list.size(3) of_nat_1 One_nat_def)
  then show ?thesis using assms(2) by (auto simp: ram_history_def newChain_def)
qed

lemma append_history:
  assumes h: "ram_history K m rl as bs" and app: "ram_Append K msgs md rl = Inr (b, rl')"
  shows "\<exists>a. ram_history K m rl' (as @ [a]) (bs @ [b]) \<and> (\<forall>cu j. reads_next rl as cu j \<longrightarrow> reads_next rl' (as @ [a]) cu j)"
proof -
  have inv: "ram_inv rl as (bareBlock (- 1) # bs)" and bs: "bs \<noteq> []" using h by (auto simp: ram_history_def)
  let ?last = "bkHeader (slBlock (node_at rl (newest rl)))"
  obtain data prev dh where parts: "header_Hash K ?last = Inr prev" "data_Hash K data = Inr dh"
      "b = \<lparr>bkHeader = \<lparr>hdNumber = hdNumber ?last + 1, hdPreviousHash = Some prev, hdDataHash = Some dh\<rparr>, bkData = Some data, bkMetadata = Some md\<rparr>"
      "ram_appendBlock b rl = Inr rl'"
    using app by (auto simp: ram_Append_def Let_def bindE_def split: sum.splits)
  have last: "slBlock (node_at rl (newest rl)) = last bs" using ram_inv_last(4) [OF inv] bs by simp
  have "hdNumber (bkHeader b) = of_nat (length as) - 1"
    using ram_inv_last(2) [OF inv] history_lengths [OF h] by (simp add: parts(3))
  from ram_appendBlock_inv [OF inv this] parts(4) obtain a where
    a: "ram_inv rl' (as @ [a]) (bareBlock (- 1) # bs @ [b])" "ramMaxSize rl' = ramMaxSize rl"
      "\<And>cu j. reads_next rl as cu j \<Longrightarrow> reads_next rl' (as @ [a]) cu j"
    by (metis append_Cons sum.inject(2))
  have "follows K (bs ! (length bs - 1)) b" using parts(1-3) bs by (simp add: follows_def last last_conv_nth)
  then have "follows K ((bs @ [b]) ! i) ((bs @ [b]) ! Suc i)" if "Suc i < length (bs @ [b])" for i
    using h that by (cases "i = length bs - 1") (auto simp: ram_history_def nth_append)
  with a h show ?thesis by (auto simp: ram_history_def)
qed

lemma Iterator_known: "ram_Iterator st sp rl = Some (Inr r) \<Longrightarrow> known_start st"
  by (cases st) (simp_all add: ram_Iterator_def known_start_def)

lemma iterator_history:
  assumes h: "ram_history K m rl as bs" and len: "length bs < 2 ^ 64 - 1" and st: "known_start st"
  shows "\<exists>rl' it num. ram_Iterator st sp rl = Some (Inr (rl', it, num)) \<and> ram_history K m rl' as bs \<and>
    (\<forall>cu j. reads_next rl as cu j \<longrightarrow> reads_next rl' as cu j) \<and>
    seek_result as (seek_start m (length bs) st (unat sp)) rl' it num"
  using Iterator_spec [of rl as "bareBlock (- 1) # bs" st sp] history_lengths [OF h] h len st
  unfolding ram_history_def by fastforce

lemma run_history: "ram_run K m rl bs \<Longrightarrow> length bs < 2 ^ 64 - 1 \<Longrightarrow> \<exists>as. ram_history K m rl as bs"
proof (induction rule: ram_run.induct)
  case (genesis g rl)
  then show ?case by (metis genesis_history)
next
  case (append rl bs msgs md b rl')
  then show ?case using append_history by fastforce
next
  case (iterator rl bs st sp rl' it num)
  then obtain as where "ram_history K m rl as bs" by auto
  from iterator_history [OF this iterator.prems Iterator_known [OF iterator.hyps(2)], of sp] iterator.hyps(2) show ?case by auto
qed

text \<open>Where a reader stands: the block at \<open>unat num + length out\<close> is next, and it has read those before it.\<close>

definition reader_at :: "ramLedger \<Rightarrow> nat list \<Rightarrow> BlockMsg list \<Rightarrow> u64 \<Rightarrow> Iterator \<Rightarrow> BlockMsg list \<Rightarrow> bool" where
  "reader_at rl as bs num it out =
     (case it of NotFoundErrorIterator \<Rightarrow> out = []
      | ItCursor cu \<Rightarrow> reads_next rl as cu (Suc (unat num + length out)) \<and> out = take (length out) (drop (unat num) bs))"

lemma reader_at_open:
  assumes "seek_result as (seek_start m (length bs) st sp) rl it num" "length bs < 2 ^ 64 - 1" "bs \<noteq> []"
  shows "reader_at rl as bs num it []"
proof -
  have "j < 2 ^ 64" if "seek_start m (length bs) st sp = Some j" for j
    using that assms(2) by (auto simp: seek_start_def split: StartType.splits if_splits)
  then show ?thesis using assms(1) by (auto simp: seek_result_def reader_at_def unat_of_nat_u64 split: option.splits)
qed

lemma reader_at_next:
  assumes h: "ram_history K m rl as bs" and at: "reader_at rl as bs num it out"
  shows "it_Ready rl it \<longleftrightarrow> it_Next rl it \<noteq> None"
    "it = ItCursor cu \<Longrightarrow> it_Ready rl it \<longleftrightarrow> unat num + length out < length bs"
    "it_Next rl it = Some (it', Some b, status) \<Longrightarrow> reader_at rl as bs num it' (out @ [b])"
proof -
  note L = history_lengths [OF h]
  have inv: "ram_inv rl as (bareBlock (- 1) # bs)" using h by (simp add: ram_history_def)
  let ?j = "unat num + length out"
  show "it_Ready rl it \<longleftrightarrow> it_Next rl it \<noteq> None" "it = ItCursor cu \<Longrightarrow> it_Ready rl it \<longleftrightarrow> ?j < length bs"
    using at L by (auto simp: reader_at_def it_Ready_def it_Next_def cursor_Next_def linked_def split: Iterator.splits)
  assume n: "it_Next rl it = Some (it', Some b, status)"
  then obtain cu a where cu: "it = ItCursor cu" "slNext (node_at rl cu) = Some a" "it' = ItCursor a" "b = slBlock (node_at rl a)"
    by (auto simp: it_Next_def cursor_Next_def split: Iterator.splits option.splits)
  with at L have a: "a = as ! Suc ?j" "?j < length bs" "out = take (length out) (drop (unat num) bs)"
    by (auto simp: reader_at_def linked_def split: if_splits)
  then have "reads_next rl as a (Suc (Suc ?j))" "b = bs ! ?j"
    using ram_invD(5,6) [OF inv, of "Suc ?j"] L cu(4) by simp_all
  moreover have "out @ [b] = take (Suc (length out)) (drop (unat num) bs)"
    using a(2,3) \<open>b = bs ! ?j\<close> by (simp add: take_Suc_conv_app_nth)
  ultimately show "reader_at rl as bs num it' (out @ [b])"
    unfolding cu(3) reader_at_def length_append_singleton Iterator.case add_Suc_right by (intro conjI)
qed

lemma reader_history:
  "reader_run K m num rl bs it out \<Longrightarrow> length bs < 2 ^ 64 - 1 \<Longrightarrow> \<exists>as. ram_history K m rl as bs \<and> reader_at rl as bs num it out"
proof (induction rule: reader_run.induct)
  case (start rl bs st sp rl' it)
  then obtain as where h: "ram_history K m rl as bs" using run_history by blast
  from iterator_history [OF this start.prems Iterator_known [OF start.hyps(2)], of sp] start.hyps(2)
  have "ram_history K m rl' as bs" "seek_result as (seek_start m (length bs) st (unat sp)) rl' it num" by auto
  then show ?case using reader_at_open start.prems h unfolding ram_history_def by blast
next
  case (append rl bs it out msgs md b rl')
  then obtain as where h: "ram_history K m rl as bs" and at: "reader_at rl as bs num it out" by auto
  from append_history [OF h append.hyps(2)] obtain a where
    a: "ram_history K m rl' (as @ [a]) (bs @ [b])" "\<And>cu j. reads_next rl as cu j \<Longrightarrow> reads_next rl' (as @ [a]) cu j" by blast
  have "unat num + length out \<le> length bs" if "it = ItCursor cu" for cu
    using at that history_lengths [OF h] by (auto simp: reader_at_def linked_def)
  then have "reader_at rl' (as @ [a]) (bs @ [b]) num it out"
    using at a(2) by (auto simp: reader_at_def split: Iterator.splits)
  with a(1) show ?case by blast
next
  case (iterator rl bs it out st sp rl' it' num')
  then obtain as where h: "ram_history K m rl as bs" and at: "reader_at rl as bs num it out" by auto
  from iterator_history [OF h iterator.prems Iterator_known [OF iterator.hyps(2)], of sp] iterator.hyps(2)
  have "ram_history K m rl' as bs" "\<And>cu j. reads_next rl as cu j \<Longrightarrow> reads_next rl' as cu j" by auto
  with at show ?case by (auto simp: reader_at_def split: Iterator.splits intro!: exI [of _ as])
next
  case (receive rl bs it out it' b status)
  then show ?case using reader_at_next(3) by blast
qed

text \<open>A concrete ledger of two blocks: a reader at the first block has read it when two more are appended.\<close>

definition codec0 :: BlockCodec where
  "codec0 = \<lparr>mEnvelope = \<lambda>e. Inr (of_nbytes (evPayload e)), mBlockHeader = \<lambda>h. Inr [of_nat (unat (hdNumber h))],
     mBlockData = \<lambda>d. Inr (concat d), ComputeCryptoHash = id\<rparr>"

definition block0 :: BlockMsg where
  "block0 = \<lparr>bkHeader = \<lparr>hdNumber = 0, hdPreviousHash = None, hdDataHash = None\<rparr>, bkData = Some [[7]], bkMetadata = None\<rparr>"

definition block1 :: BlockMsg where
  "block1 = \<lparr>bkHeader = \<lparr>hdNumber = 1, hdPreviousHash = Some [0], hdDataHash = Some [8]\<rparr>, bkData = Some [[8]], bkMetadata = Some []\<rparr>"

definition block2 :: BlockMsg where
  "block2 = \<lparr>bkHeader = \<lparr>hdNumber = 2, hdPreviousHash = Some [1], hdDataHash = Some [9]\<rparr>, bkData = Some [[9]], bkMetadata = Some []\<rparr>"

definition rl0 :: ramLedger where
  "rl0 = \<lparr>nodes = [\<lparr>slNext = Some 1, slClosed = True, slBlock = bareBlock (- 1)\<rparr>, \<lparr>slNext = None, slClosed = False, slBlock = block0\<rparr>],
     ramMaxSize = 2, ramSize = 2, oldest = 0, newest = 1\<rparr>"

definition rl1 :: ramLedger where
  "rl1 = \<lparr>nodes = [\<lparr>slNext = Some 1, slClosed = True, slBlock = bareBlock (- 1)\<rparr>, \<lparr>slNext = Some 2, slClosed = True, slBlock = block0\<rparr>,
       \<lparr>slNext = None, slClosed = False, slBlock = block1\<rparr>],
     ramMaxSize = 2, ramSize = 2, oldest = 1, newest = 2\<rparr>"

definition rl2 :: ramLedger where
  "rl2 = \<lparr>nodes = [\<lparr>slNext = Some 1, slClosed = True, slBlock = bareBlock (- 1)\<rparr>, \<lparr>slNext = Some 2, slClosed = True, slBlock = block0\<rparr>,
       \<lparr>slNext = Some 3, slClosed = True, slBlock = block1\<rparr>, \<lparr>slNext = None, slClosed = False, slBlock = block2\<rparr>],
     ramMaxSize = 2, ramSize = 2, oldest = 2, newest = 3\<rparr>"

lemma steps0:
  "ram_appendBlock block0 (newChain 2) = Inr rl0"
  "ram_Append codec0 [\<lparr>evPayload = Some [8], evSignature = None\<rparr>] [] rl0 = Inr (block1, rl1)"
  "ram_Append codec0 [\<lparr>evPayload = Some [9], evSignature = None\<rparr>] [] rl1 = Inr (block2, rl2)"
  "ram_Iterator SeekInfo_SPECIFIED 0 rl0 = Some (Inr (rl0, ItCursor 0, 0))"
  "it_Next rl0 (ItCursor 0) = Some (ItCursor 1, Some block0, Status_SUCCESS)"
  by code_simp+

lemma run2: "ram_run codec0 2 rl2 [block0, block1, block2]" "length [block0, block1, block2] < 2 ^ 64 - 1"
proof -
  have "ram_run codec0 2 rl0 [block0]" by (rule ram_run.genesis [OF _ steps0(1)]) (simp add: block0_def)
  from ram_run.append [OF ram_run.append [OF this steps0(2)] steps0(3)]
  show "ram_run codec0 2 rl2 [block0, block1, block2]" by simp
qed simp

lemma reader2: "reader_run codec0 2 0 rl2 [block0, block1, block2] (ItCursor 1) [block0]" "length [block0, block1, block2] < 2 ^ 64 - 1"
proof -
  have "ram_run codec0 2 rl0 [block0]" by (rule ram_run.genesis [OF _ steps0(1)]) (simp add: block0_def)
  from reader_run.receive [OF reader_run.start [OF this steps0(4)] steps0(5)]
  have "reader_run codec0 2 0 rl0 [block0] (ItCursor 1) [block0]" by simp
  from reader_run.append [OF reader_run.append [OF this steps0(2)] steps0(3)]
  show "reader_run codec0 2 0 rl2 [block0, block1, block2] (ItCursor 1) [block0]" by simp
qed simp

section \<open>Properties\<close>

text \<open>C31: The in-memory ledger is a chain. Whatever was appended and dropped and whatever readers were opened, the blocks
  are numbered from 0 on, each carries the hash of the header of the one before and the hash of its own data, the newest
  block and the height are those of the last append, and the list holds no more than \<open>maxSize\<close> nodes.\<close>

theorem ram_ledger_chain:
  assumes "ram_run K m rl bs" and "length bs < 2 ^ 64 - 1"
  shows "(\<forall>i. i < length bs \<longrightarrow> hdNumber (bkHeader (bs ! i)) = of_nat i) \<and>
    (\<forall>i. Suc i < length bs \<longrightarrow> follows K (bs ! i) (bs ! Suc i)) \<and>
    slBlock (node_at rl (newest rl)) = last bs \<and> ram_Height rl = of_nat (length bs) \<and>
    ramSize rl = min (1 + int (length bs)) (max 1 m)"
proof (intro conjI allI impI)
  obtain as where h: "ram_history K m rl as bs" using run_history [OF assms] by blast
  then have inv: "ram_inv rl as (bareBlock (- 1) # bs)" and bs: "bs \<noteq> []" and m: "ramMaxSize rl = m" by (auto simp: ram_history_def)
  note L = history_lengths [OF h]
  show "hdNumber (bkHeader (bs ! i)) = of_nat i" if "i < length bs" for i using ram_invD(7) [OF inv, of "Suc i"] L that by simp
  show "follows K (bs ! i) (bs ! Suc i)" if "Suc i < length bs" for i using h that by (simp add: ram_history_def)
  show "slBlock (node_at rl (newest rl)) = last bs" using ram_inv_last(4) [OF inv] bs by simp
  show "ram_Height rl = of_nat (length bs)" using ram_inv_last(2) [OF inv] L by (simp add: ram_Height_def)
  show "ramSize rl = min (1 + int (length bs)) (max 1 m)" using inv L m unfolding ram_inv_def by (simp add: add.commute) metis
qed

theorem ram_ledger_chain_witness:
  "hdNumber (bkHeader ([block0, block1, block2] ! 2)) = 2 \<and> follows codec0 block1 block2 \<and> ram_Height rl2 = 3 \<and> ramSize rl2 = 2"
  using ram_ledger_chain [OF run2] by (simp add: numeral_2_eq_2 numeral_3_eq_3 All_less_Suc)

text \<open>C32: Opening an iterator with one of the three start types always returns: the search for a block does not run past the end of the list, although it does not
  test for nil, and it does not go on for ever. The oldest and the newest block are found, a number from the oldest kept
  block to the height is found, and any other number gives the iterator that reports NOT_FOUND.\<close>

theorem ram_iterator_total:
  assumes "ram_run K m rl bs" and "length bs < 2 ^ 64 - 1" and "known_start st"
  shows "\<exists>rl' it num. ram_Iterator st sp rl = Some (Inr (rl', it, num)) \<and>
    (case seek_start m (length bs) st (unat sp) of
       None \<Rightarrow> it = NotFoundErrorIterator | Some j \<Rightarrow> num = of_nat j \<and> (\<exists>cu. it = ItCursor cu))"
proof -
  obtain as where "ram_history K m rl as bs" using run_history [OF assms(1,2)] by blast
  from iterator_history [OF this assms(2,3), of sp] show ?thesis unfolding seek_result_def by (auto split: option.splits)
qed

theorem ram_iterator_total_witness:
  "(\<exists>rl' cu. ram_Iterator SeekInfo_SPECIFIED 1 rl2 = Some (Inr (rl', ItCursor cu, 1))) \<and>
   (\<exists>rl' num. ram_Iterator SeekInfo_SPECIFIED 0 rl2 = Some (Inr (rl', NotFoundErrorIterator, num)))"
  using ram_iterator_total [OF run2, of SeekInfo_SPECIFIED 1] ram_iterator_total [OF run2, of SeekInfo_SPECIFIED 0]
  by (auto simp: seek_start_def known_start_def)

text \<open>C28: A reader of the ledger sees the chain. Starting at the block its iterator was opened at, it receives every block in
  order without a gap or a repetition, while other blocks are appended, the ones it has not read yet are dropped from the
  ledger and other readers come. Its channel is ready exactly when there is a block it has not read, and then \<open>Next\<close>
  returns without waiting.\<close>

theorem ram_reader_in_order:
  assumes "reader_run K m num rl bs (ItCursor cu) out" and "length bs < 2 ^ 64 - 1"
  shows "out = take (length out) (drop (unat num) bs) \<and>
    (it_Ready rl (ItCursor cu) \<longleftrightarrow> unat num + length out < length bs) \<and>
    (it_Next rl (ItCursor cu) = None \<longleftrightarrow> \<not> it_Ready rl (ItCursor cu))"
proof -
  obtain as where h: "ram_history K m rl as bs" and at: "reader_at rl as bs num (ItCursor cu) out"
    using reader_history [OF assms] by blast
  then show ?thesis using reader_at_next(1,2) [OF h at] by (auto simp: reader_at_def)
qed

theorem ram_reader_in_order_witness:
  "[block0] = take 1 (drop 0 [block0, block1, block2]) \<and> it_Ready rl2 (ItCursor 1)"
  using ram_reader_in_order [OF reader2] by simp

end
