(* ===== verification/Orderer_Solo.thy ===== *)
theory Orderer_Solo
  imports Orderer_Cut Orderer_Ledger_Props
begin

text \<open>
  The solo orderer (orderer/solo/consensus.go) over the interface of the raw ledger (orderer/rawledger/rawledger.go), and its
  contract: it puts the messages it is given into blocks, in order and none twice, and never forgets one.
\<close>

section \<open>The interface of the raw ledger\<close>

text \<open>
  \<open>Iterator\<close> may change the ledger of the model, as the in-memory ledger makes a node for the reader. \<open>None\<close> is an
  operation that does not return, or waits.
\<close>

record ('l, 'i) ReadWriter =
  rwIterator :: "StartType \<Rightarrow> u64 \<Rightarrow> 'l \<Rightarrow> (error + 'l \<times> 'i \<times> u64) option"
  rwHeight :: "'l \<Rightarrow> u64"
  rwAppend :: "EnvelopeMsg list \<Rightarrow> bytes list \<Rightarrow> 'l \<Rightarrow> error + BlockMsg \<times> 'l"
  rwNext :: "'l \<Rightarrow> 'i \<Rightarrow> ('i \<times> BlockMsg option \<times> Status) option"
  rwReady :: "'l \<Rightarrow> 'i \<Rightarrow> bool"

definition ram_ops :: "BlockCodec \<Rightarrow> (ramLedger, Iterator) ReadWriter" where
  "ram_ops K = \<lparr>rwIterator = ram_Iterator, rwHeight = ram_Height, rwAppend = ram_Append K, rwNext = it_Next, rwReady = it_Ready\<rparr>"

lemma ram_ops_simps [simp]:
  "rwIterator (ram_ops K) = ram_Iterator" "rwHeight (ram_ops K) = ram_Height" "rwAppend (ram_ops K) = ram_Append K"
  "rwNext (ram_ops K) = it_Next" "rwReady (ram_ops K) = it_Ready"
  by (simp_all add: ram_ops_def)

section \<open>The consenter\<close>

text \<open>
  The state of the goroutine \<open>main\<close> and of the channels it waits on. The timer is set or not; when it fires is up to the
  environment. \<open>sExit\<close> says that the exit channel is closed and \<open>sDone\<close> that \<open>main\<close> has returned. The configuration manager is
  shared with the cutter.
\<close>

record 'l consenter =
  cutter :: receiver
  sRL :: 'l
  sCM :: configurationManager
  sTimer :: bool
  sExit :: bool
  sDone :: bool

definition newPlainConsenter :: "int \<Rightarrow> 'l \<Rightarrow> Rule list \<Rightarrow> configurationManager \<Rightarrow> 'l consenter" where
  "newPlainConsenter n l fs cm =
     \<lparr>cutter = NewReceiverImpl n fs, sRL = l, sCM = cm, sTimer = False, sExit = False, sDone = False\<rparr>"

definition solo_halt :: "'l consenter \<Rightarrow> error + 'l consenter" where
  "solo_halt bs = (if sExit bs then Inl (Panic ''close of closed channel'') else Inr (bs\<lparr>sExit := True\<rparr>))"

fun appendBatches :: "('l, 'i) ReadWriter \<Rightarrow> EnvelopeMsg list list \<Rightarrow> 'l \<Rightarrow> error + 'l" where
  "appendBatches L [] l = Inr l"
| "appendBatches L (batch # batches) l = bindE (rwAppend L batch [] l) (\<lambda>(_, l). appendBatches L batches l)"

text \<open>One turn of the loop of \<open>main\<close>, by the channel the select statement has received from.\<close>

datatype soloEvent = SendChan EnvelopeMsg | TimerC | ExitChan

definition receivable :: "soloEvent \<Rightarrow> 'l consenter \<Rightarrow> bool" where
  "receivable ev bs \<longleftrightarrow> \<not> sDone bs \<and> (case ev of SendChan _ \<Rightarrow> True | TimerC \<Rightarrow> sTimer bs | ExitChan \<Rightarrow> sExit bs)"

definition solo_main :: "('l, 'i) ReadWriter \<Rightarrow> OrdCodec \<Rightarrow> soloEvent \<Rightarrow> 'l consenter \<Rightarrow> error + 'l consenter" where
  "solo_main L C ev bs =
     (case ev of
        SendChan msg \<Rightarrow>
          bindE (Ordered C msg (cutter bs, sCM bs)) (\<lambda>((batches, ok), ct, cm).
            let bs = bs\<lparr>cutter := ct, sCM := cm\<rparr> in
            if ok \<and> batches = [] \<and> \<not> sTimer bs then Inr (bs\<lparr>sTimer := True\<rparr>)
            else bindE (appendBatches L batches (sRL bs)) (\<lambda>l.
                   Inr (bs\<lparr>sRL := l, sTimer := (if batches \<noteq> [] then False else sTimer bs)\<rparr>)))
      | TimerC \<Rightarrow>
          (case Cut (cutter bs) of (batch, ct) \<Rightarrow>
             let bs = bs\<lparr>cutter := ct, sTimer := False\<rparr> in
             if batch = [] then Inr bs
             else bindE (rwAppend L batch [] (sRL bs)) (\<lambda>(_, l). Inr (bs\<lparr>sRL := l\<rparr>)))
      | ExitChan \<Rightarrow> Inr (bs\<lparr>sDone := True\<rparr>))"

lemma solo_send:
  assumes idle: "idle (sCM st)" and step: "solo_main L C (SendChan m) st = Inr st'"
  obtains a batches pending l where "verdict C (filters (cutter st)) (sCM st) m = Inr a"
    and "cut_spec (batchSize (cutter st)) a m (curBatch (cutter st)) = (batches, pending)" and "appendBatches L batches (sRL st) = Inr l"
    and "st' = st\<lparr>cutter := (cutter st)\<lparr>curBatch := pending\<rparr>, sRL := l,
      sTimer := (if batches \<noteq> [] then False else if ordered_by a then True else sTimer st)\<rparr>"
proof -
  obtain a where a: "verdict C (filters (cutter st)) (sCM st) m = Inr a" using step
    by (auto simp: solo_main_def Ordered_spec [OF idle] bindE_eq_Inr_conv)
  obtain batches pending where c: "cut_spec (batchSize (cutter st)) a m (curBatch (cutter st)) = (batches, pending)" by fastforce
  show thesis
  proof (cases "ordered_by a \<and> batches = [] \<and> \<not> sTimer st")
    case True
    then have "st' = st\<lparr>cutter := (cutter st)\<lparr>curBatch := pending\<rparr>, sTimer := True\<rparr>"
      using step by (simp add: solo_main_def Ordered_spec [OF idle] a c)
    with True show thesis by (intro that [OF a c, of "sRL st"]) simp_all
  next
    case False
    then obtain l where l: "appendBatches L batches (sRL st) = Inr l"
        "st' = st\<lparr>cutter := (cutter st)\<lparr>curBatch := pending\<rparr>, sRL := l, sTimer := (if batches \<noteq> [] then False else sTimer st)\<rparr>"
      using step by (auto simp: solo_main_def Ordered_spec [OF idle] a c Let_def bindE_eq_Inr_conv)
    have "(if batches \<noteq> [] then False else sTimer st) = (if batches \<noteq> [] then False else if ordered_by a then True else sTimer st)"
      using False by auto
    then show thesis using l(2) by (intro that [OF a c l(1)]) simp
  qed
qed

lemma solo_timer:
  assumes "solo_main L C TimerC st = Inr st'"
  obtains l where "appendBatches L (if curBatch (cutter st) = [] then [] else [curBatch (cutter st)]) (sRL st) = Inr l"
    and "st' = st\<lparr>cutter := (cutter st)\<lparr>curBatch := []\<rparr>, sRL := l, sTimer := False\<rparr>"
proof (cases "curBatch (cutter st) = []")
  case True
  then have "st' = st\<lparr>cutter := (cutter st)\<lparr>curBatch := []\<rparr>, sTimer := False\<rparr>" using assms by (simp add: solo_main_def Cut_def)
  with True show thesis by (intro that [of "sRL st"]) simp_all
next
  case False
  then obtain b l where "rwAppend L (curBatch (cutter st)) [] (sRL st) = Inr (b, l)"
      "st' = st\<lparr>cutter := (cutter st)\<lparr>curBatch := []\<rparr>, sRL := l, sTimer := False\<rparr>"
    using assms by (auto simp: solo_main_def Cut_def Let_def bindE_eq_Inr_conv)
  with False show thesis by (intro that [of l]) simp_all
qed

text \<open>A turn of the loop leaves the configuration manager and the parameters as they are.\<close>

lemma solo_main_keeps:
  assumes "idle (sCM st)" and "solo_main L C ev st = Inr st'"
  shows "sCM st' = sCM st" "filters (cutter st') = filters (cutter st)" "batchSize (cutter st') = batchSize (cutter st)"
    "sExit st' = sExit st"
proof -
  have "sCM st' = sCM st \<and> filters (cutter st') = filters (cutter st) \<and> batchSize (cutter st') = batchSize (cutter st) \<and> sExit st' = sExit st"
  proof (cases ev)
    case (SendChan m)
    show ?thesis by (rule solo_send [OF assms(1) assms(2) [unfolded SendChan]]) simp
  next
    case TimerC
    show ?thesis by (rule solo_timer [OF assms(2) [unfolded TimerC]]) simp
  next
    case ExitChan
    then show ?thesis using assms(2) by (auto simp: solo_main_def)
  qed
  then show "sCM st' = sCM st" "filters (cutter st') = filters (cutter st)" "batchSize (cutter st') = batchSize (cutter st)"
    "sExit st' = sExit st" by simp_all
qed

text \<open>The messages an event adds to those that are ordered.\<close>

definition ordered_now :: "OrdCodec \<Rightarrow> 'l consenter \<Rightarrow> soloEvent \<Rightarrow> EnvelopeMsg list" where
  "ordered_now C st ev =
     (case ev of SendChan m \<Rightarrow> (case verdict C (filters (cutter st)) (sCM st) m of Inl _ \<Rightarrow> [] | Inr a \<Rightarrow> if ordered_by a then [m] else [])
      | _ \<Rightarrow> [])"

section \<open>The contract of a ledger and of the consenter\<close>

text \<open>What the consenter relies on: an append adds one block at the end, with the messages in it.\<close>

definition carries :: "BlockCodec \<Rightarrow> BlockMsg \<Rightarrow> EnvelopeMsg list \<Rightarrow> bool" where
  "carries K b msgs \<longleftrightarrow> (\<exists>data. marshalAll K msgs = Inr data \<and> bkData b = Some data)"

locale raw_writer =
  fixes L :: "('l, 'i) ReadWriter" and K :: BlockCodec and holds :: "'l \<Rightarrow> BlockMsg list \<Rightarrow> bool"
  assumes append_law: "holds l bs \<Longrightarrow> rwAppend L msgs md l = Inr (b, l') \<Longrightarrow> holds l' (bs @ [b]) \<and> carries K b msgs"
begin

lemma appendBatches_holds:
  "holds l bs \<Longrightarrow> appendBatches L batches l = Inr l' \<Longrightarrow> \<exists>new. holds l' (bs @ new) \<and> list_all2 (carries K) new batches"
proof (induction batches arbitrary: l bs)
  case Nil
  then show ?case by (auto intro!: exI [of _ "[]"])
next
  case (Cons batch batches)
  then obtain b l1 where a: "rwAppend L batch [] l = Inr (b, l1)" "appendBatches L batches l1 = Inr l'"
    by (auto simp: bindE_eq_Inr_conv)
  with append_law Cons.prems(1) have "holds l1 (bs @ [b])" "carries K b batch" by auto
  with Cons.IH [OF _ a(2)] obtain new where "holds l' ((bs @ [b]) @ new)" "list_all2 (carries K) new batches" by blast
  with \<open>carries K b batch\<close> show ?case by (intro exI [of _ "b # new"]) simp
qed

text \<open>
  The state of the consenter after the messages \<open>msgs\<close> it accepted: they are in the blocks added to the ledger since its start, in
  order, and in the current batch. A timer is running exactly when there is a message to cut a block for.
\<close>

definition solo_inv :: "BlockMsg list \<Rightarrow> EnvelopeMsg list \<Rightarrow> 'l consenter \<Rightarrow> bool" where
  "solo_inv bs0 msgs st \<longleftrightarrow> (\<exists>new batches. holds (sRL st) (bs0 @ new) \<and> list_all2 (carries K) new batches \<and>
     concat batches @ curBatch (cutter st) = msgs \<and>
     (\<forall>b \<in> set batches. b \<noteq> [] \<and> int (length b) \<le> max 1 (batchSize (cutter st)))) \<and>
   int (length (curBatch (cutter st))) < max 1 (batchSize (cutter st)) \<and> (sTimer st \<longleftrightarrow> curBatch (cutter st) \<noteq> [])"

lemma solo_inv_grow:
  assumes "solo_inv bs0 msgs st" "appendBatches L batches (sRL st) = Inr l"
    and "concat batches @ pending = curBatch (cutter st) @ xs" "\<And>b. b \<in> set batches \<Longrightarrow> b \<noteq> [] \<and> int (length b) \<le> max 1 (batchSize (cutter st))"
    and "int (length pending) < max 1 (batchSize (cutter st))" "tm \<longleftrightarrow> pending \<noteq> []"
  shows "solo_inv bs0 (msgs @ xs) (st\<lparr>cutter := (cutter st)\<lparr>curBatch := pending\<rparr>, sRL := l, sTimer := tm\<rparr>)"
proof -
  obtain new bts where h: "holds (sRL st) (bs0 @ new)" "list_all2 (carries K) new bts" "concat bts @ curBatch (cutter st) = msgs"
      "\<forall>b \<in> set bts. b \<noteq> [] \<and> int (length b) \<le> max 1 (batchSize (cutter st))"
    using assms(1) by (auto simp: solo_inv_def)
  obtain more where m: "holds l (bs0 @ new @ more)" "list_all2 (carries K) more batches"
    using appendBatches_holds [OF h(1) assms(2)] by auto
  have "concat (bts @ batches) @ pending = msgs @ xs" using h(3) assms(3) by auto
  moreover have "list_all2 (carries K) (new @ more) (bts @ batches)" by (rule list_all2_appendI [OF h(2) m(2)])
  moreover have "\<forall>b \<in> set (bts @ batches). b \<noteq> [] \<and> int (length b) \<le> max 1 (batchSize (cutter st))"
    using h(4) assms(4) unfolding set_append by blast
  ultimately show ?thesis unfolding solo_inv_def using m(1) assms(5,6)
    by (intro conjI exI [of _ "new @ more"] exI [of _ "bts @ batches"]) simp_all
qed

lemma solo_step_inv:
  assumes inv: "solo_inv bs0 msgs st" and idle: "idle (sCM st)" and step: "solo_main L C ev st = Inr st'"
  shows "solo_inv bs0 (msgs @ ordered_now C st ev) st'"
proof -
  have size: "int (length (curBatch (cutter st))) < max 1 (batchSize (cutter st))" and tm: "sTimer st \<longleftrightarrow> curBatch (cutter st) \<noteq> []"
    using inv by (auto simp: solo_inv_def)
  show ?thesis
  proof (cases ev)
    case (SendChan m)
    from solo_send [OF idle step [unfolded SendChan]] obtain a batches pending l where
      a: "verdict C (filters (cutter st)) (sCM st) m = Inr a" and
      c: "cut_spec (batchSize (cutter st)) a m (curBatch (cutter st)) = (batches, pending)" and
      l: "appendBatches L batches (sRL st) = Inr l" and
      st': "st' = st\<lparr>cutter := (cutter st)\<lparr>curBatch := pending\<rparr>, sRL := l,
        sTimer := (if batches \<noteq> [] then False else if ordered_by a then True else sTimer st)\<rparr>" by metis
    note P = cut_spec_props [OF c]
    have now: "ordered_now C st ev = (if ordered_by a then [m] else [])" by (simp add: ordered_now_def SendChan a)
    have tm': "(if batches \<noteq> [] then False else if ordered_by a then True else sTimer st) \<longleftrightarrow> pending \<noteq> []"
      using P(1,5,6) tm by (cases "batches = []") (auto split: if_splits)
    have "b \<noteq> [] \<and> int (length b) \<le> max 1 (batchSize (cutter st))" if "b \<in> set batches" for b
      using P(2) P(4) [OF size] that by blast
    from solo_inv_grow [OF inv l P(1) this P(3) [OF size] tm'] show ?thesis unfolding now st' .
  next
    case TimerC
    from solo_timer [OF step [unfolded TimerC]] obtain l where
      l: "appendBatches L (if curBatch (cutter st) = [] then [] else [curBatch (cutter st)]) (sRL st) = Inr l"
        "st' = st\<lparr>cutter := (cutter st)\<lparr>curBatch := []\<rparr>, sRL := l, sTimer := False\<rparr>" by metis
    show ?thesis unfolding l(2) using size by (intro solo_inv_grow [OF inv l(1)]) (auto simp: ordered_now_def TimerC split: if_splits)
  next
    case ExitChan
    then have "st' = st\<lparr>sDone := True\<rparr>" "ordered_now C st ev = []" using step by (simp_all add: solo_main_def ordered_now_def)
    then show ?thesis using inv by (simp add: solo_inv_def)
  qed
qed

end

text \<open>The in-memory ledger keeps the contract.\<close>

interpretation ramw: raw_writer "ram_ops K" K "ram_run K m" for K m
proof
  fix l bs msgs md b l'
  assume run: "ram_run K m l bs" and "rwAppend (ram_ops K) msgs md l = Inr (b, l')"
  then have app: "ram_Append K msgs md l = Inr (b, l')" by simp
  then have "carries K b msgs" by (auto simp: carries_def ram_Append_def Let_def bindE_eq_Inr_conv)
  with ram_run.append [OF run app] show "ram_run K m l' (bs @ [b]) \<and> carries K b msgs" ..
qed

end
