(* ===== verification/Orderer_Broadcast.thy ===== *)
theory Orderer_Broadcast
  imports Orderer_Solo
begin

text \<open>
  The broadcast service (orderer/common/broadcast/broadcast.go) with the solo orderer behind it: many connections, each with a
  queue and two goroutines, the consenter and its timer, as steps that interleave freely.
\<close>

section \<open>A connection\<close>

text \<open>
  The queue of a connection is a buffered channel. \<open>bHand\<close> is the message \<open>drainQueue\<close> has taken from it and is passing to the
  consenter. \<open>bClosed\<close> says that the queue has been closed, as \<open>Handle\<close> does when \<open>queueEnvelopes\<close> returns, and \<open>bDone\<close> that
  \<open>drainQueue\<close> has returned. Nothing closes the exit channel of the handler, so it is not a part of the state.
\<close>

record handlerImpl =
  hQueueSize :: int
  hFilters :: "Rule list"

record broadcaster =
  bQueue :: "EnvelopeMsg list"
  bHand :: "EnvelopeMsg option"
  bClosed :: bool
  bDone :: bool

definition NewHandlerImpl :: "int \<Rightarrow> Rule list \<Rightarrow> handlerImpl" where
  "NewHandlerImpl n fs = \<lparr>hQueueSize = n, hFilters = fs\<rparr>"

definition newBroadcaster :: broadcaster where
  "newBroadcaster = \<lparr>bQueue = [], bHand = None, bClosed = False, bDone = False\<rparr>"

text \<open>
  One turn of the loop of \<open>queueEnvelopes\<close>. \<open>waiting\<close> says that \<open>drainQueue\<close> is waiting for a message at this moment, which lets a
  message into an unbuffered queue; \<open>sendErr\<close> that the reply could not be sent, which ends the loop.
\<close>

definition queueEnvelopes ::
  "OrdCodec \<Rightarrow> handlerImpl \<Rightarrow> bool \<Rightarrow> bool \<Rightarrow> EnvelopeMsg \<Rightarrow> broadcaster \<times> configurationManager \<Rightarrow>
   error + Status \<times> broadcaster \<times> configurationManager" where
  "queueEnvelopes C h waiting sendErr msg = (\<lambda>(b, cm).
     bindE (RuleSet_Apply C (hFilters h) msg cm) (\<lambda>((action, _), cm).
       let (status, b) =
         (if action = Reconfigure \<or> action = Accept then
            (if int (length (bQueue b)) < hQueueSize h \<or> waiting then (Status_SUCCESS, b\<lparr>bQueue := bQueue b @ [msg]\<rparr>)
             else (Status_SERVICE_UNAVAILABLE, b))
          else (Status_BAD_REQUEST, b))
       in Inr (status, (if sendErr then b\<lparr>bClosed := True\<rparr> else b), cm)))"

text \<open>\<open>drainQueue\<close> takes the next message; it returns when the queue is closed and empty, and waits when it is only empty.\<close>

definition drainQueue :: "broadcaster \<Rightarrow> broadcaster option" where
  "drainQueue b =
     (case bQueue b of
        msg # rest \<Rightarrow> Some (b\<lparr>bQueue := rest, bHand := Some msg\<rparr>)
      | [] \<Rightarrow> if bClosed b then Some (b\<lparr>bDone := True\<rparr>) else None)"

section \<open>The orderer\<close>

record 'l orderer =
  oHandler :: handlerImpl
  oConns :: "(nat, broadcaster) gomap"
  oSolo :: "'l consenter"

datatype label = LOpen nat | LRecv nat EnvelopeMsg Status | LRecvErr nat | LDrain nat | LEnqueue nat EnvelopeMsg | LRefused nat EnvelopeMsg |
  LTimer | LHalt | LExit

text \<open>
  \<open>Enqueue\<close> hands the message over when \<open>main\<close> receives it, or gives up when the exit channel is closed; then \<open>drainQueue\<close> returns.
\<close>

inductive ord_step :: "('l, 'i) ReadWriter \<Rightarrow> OrdCodec \<Rightarrow> 'l orderer \<Rightarrow> label \<Rightarrow> 'l orderer \<Rightarrow> bool" for L C where
  os_open: "map_of (oConns s) c = None \<Longrightarrow> ord_step L C s (LOpen c) (s\<lparr>oConns := mput c newBroadcaster (oConns s)\<rparr>)"
| os_recv: "map_of (oConns s) c = Some b \<Longrightarrow> \<not> bClosed b \<Longrightarrow> waiting \<longrightarrow> bQueue b = [] \<and> bHand b = None \<and> \<not> bDone b \<Longrightarrow>
    queueEnvelopes C (oHandler s) waiting sendErr msg (b, sCM (oSolo s)) = Inr (status, b', cm) \<Longrightarrow>
    ord_step L C s (LRecv c msg status) (s\<lparr>oConns := mput c b' (oConns s), oSolo := (oSolo s)\<lparr>sCM := cm\<rparr>\<rparr>)"
| os_recv_err: "map_of (oConns s) c = Some b \<Longrightarrow> \<not> bClosed b \<Longrightarrow>
    ord_step L C s (LRecvErr c) (s\<lparr>oConns := mput c (b\<lparr>bClosed := True\<rparr>) (oConns s)\<rparr>)"
| os_drain: "map_of (oConns s) c = Some b \<Longrightarrow> \<not> bDone b \<Longrightarrow> bHand b = None \<Longrightarrow> drainQueue b = Some b' \<Longrightarrow>
    ord_step L C s (LDrain c) (s\<lparr>oConns := mput c b' (oConns s)\<rparr>)"
| os_enqueue: "map_of (oConns s) c = Some b \<Longrightarrow> \<not> bDone b \<Longrightarrow> bHand b = Some msg \<Longrightarrow> receivable (SendChan msg) (oSolo s) \<Longrightarrow>
    solo_main L C (SendChan msg) (oSolo s) = Inr st \<Longrightarrow>
    ord_step L C s (LEnqueue c msg) (s\<lparr>oConns := mput c (b\<lparr>bHand := None\<rparr>) (oConns s), oSolo := st\<rparr>)"
| os_refused: "map_of (oConns s) c = Some b \<Longrightarrow> \<not> bDone b \<Longrightarrow> bHand b = Some msg \<Longrightarrow> sExit (oSolo s) \<Longrightarrow>
    ord_step L C s (LRefused c msg) (s\<lparr>oConns := mput c (b\<lparr>bDone := True\<rparr>) (oConns s)\<rparr>)"
| os_timer: "receivable TimerC (oSolo s) \<Longrightarrow> solo_main L C TimerC (oSolo s) = Inr st \<Longrightarrow> ord_step L C s LTimer (s\<lparr>oSolo := st\<rparr>)"
| os_halt: "solo_halt (oSolo s) = Inr st \<Longrightarrow> ord_step L C s LHalt (s\<lparr>oSolo := st\<rparr>)"
| os_exit: "receivable ExitChan (oSolo s) \<Longrightarrow> solo_main L C ExitChan (oSolo s) = Inr st \<Longrightarrow> ord_step L C s LExit (s\<lparr>oSolo := st\<rparr>)"

inductive ord_run :: "('l, 'i) ReadWriter \<Rightarrow> OrdCodec \<Rightarrow> 'l orderer \<Rightarrow> label list \<Rightarrow> 'l orderer \<Rightarrow> bool" for L C s0 where
  ord_nil: "ord_run L C s0 [] s0"
| ord_snoc: "ord_run L C s0 tr s \<Longrightarrow> ord_step L C s l s' \<Longrightarrow> ord_run L C s0 (tr @ [l]) s'"

section \<open>What was acknowledged and where it is\<close>

text \<open>
  The messages of a connection that were answered with SUCCESS, the messages the consenter took from it, and those still in
  its queue or on the way to the consenter.
\<close>

fun acked1 :: "nat \<Rightarrow> label \<Rightarrow> EnvelopeMsg list" where
  "acked1 c (LRecv d msg status) = (if d = c \<and> status = Status_SUCCESS then [msg] else [])"
| "acked1 c _ = []"

fun taken1 :: "label \<Rightarrow> (nat \<times> EnvelopeMsg) list" where
  "taken1 (LEnqueue c msg) = [(c, msg)]"
| "taken1 _ = []"

definition acked :: "nat \<Rightarrow> label list \<Rightarrow> EnvelopeMsg list" where
  "acked c tr = concat (map (acked1 c) tr)"

definition taken :: "label list \<Rightarrow> (nat \<times> EnvelopeMsg) list" where
  "taken tr = concat (map taken1 tr)"

definition from_conn :: "nat \<Rightarrow> (nat \<times> EnvelopeMsg) list \<Rightarrow> EnvelopeMsg list" where
  "from_conn c xs = map snd (filter (\<lambda>x. fst x = c) xs)"

definition in_transit :: "'l orderer \<Rightarrow> nat \<Rightarrow> EnvelopeMsg list" where
  "in_transit s c = (case map_of (oConns s) c of None \<Rightarrow> []
     | Some b \<Rightarrow> (case bHand b of None \<Rightarrow> [] | Some msg \<Rightarrow> [msg]) @ bQueue b)"

lemmas trace_defs = acked_def taken_def from_conn_def

text \<open>The filters and the configuration manager are never changed, so the verdict on a message is the same at every time.\<close>

definition fixed_parts :: "'l orderer \<Rightarrow> Rule list \<times> Rule list \<times> configurationManager \<times> int" where
  "fixed_parts s = (hFilters (oHandler s), filters (cutter (oSolo s)), sCM (oSolo s), batchSize (cutter (oSolo s)))"

lemma queueEnvelopes_result:
  assumes "idle cm" "queueEnvelopes C h waiting sendErr msg (b, cm) = Inr (status, b', cm')"
  shows "cm' = cm" "bHand b' = bHand b"
    "bQueue b' = bQueue b @ (if status = Status_SUCCESS then [msg] else [])"
    "status = Status_SUCCESS \<Longrightarrow> \<exists>a. verdict C (hFilters h) cm msg = Inr a \<and> ordered_by a"
proof -
  obtain act r cm1 where a: "RuleSet_Apply C (hFilters h) msg cm = Inr ((act, r), cm1)"
    using assms(2) by (auto simp: queueEnvelopes_def bindE_eq_Inr_conv)
  with RuleSet_keeps [OF assms(1)] have cm1: "cm1 = cm" by blast
  show "cm' = cm" "bHand b' = bHand b" "bQueue b' = bQueue b @ (if status = Status_SUCCESS then [msg] else [])"
    using assms(2) by (auto simp: queueEnvelopes_def a cm1 Let_def split: if_splits)
  show "\<exists>a. verdict C (hFilters h) cm msg = Inr a \<and> ordered_by a" if "status = Status_SUCCESS"
    using assms(2) that by (auto simp: queueEnvelopes_def a verdict_def ordered_by_def Let_def split: if_splits)
qed

lemma step_fixed: "ord_step L C s l s' \<Longrightarrow> idle (sCM (oSolo s)) \<Longrightarrow> fixed_parts s' = fixed_parts s"
proof (induction rule: ord_step.induct)
  case (os_recv s c b waiting sendErr msg status b' cm)
  with queueEnvelopes_result(1) [OF os_recv.prems os_recv.hyps(4)] show ?case by (simp add: fixed_parts_def)
qed (auto simp: fixed_parts_def solo_halt_def dest: solo_main_keeps split: if_splits)

lemma run_fixed: "ord_run L C s0 tr s \<Longrightarrow> idle (sCM (oSolo s0)) \<Longrightarrow> fixed_parts s = fixed_parts s0 \<and> idle (sCM (oSolo s))"
proof (induction rule: ord_run.induct)
  case (ord_snoc tr s l s')
  then have "fixed_parts s' = fixed_parts s" using step_fixed by blast
  with ord_snoc show ?case by (simp add: fixed_parts_def)
qed simp

text \<open>No step loses an acknowledged message of a connection, makes one up or changes their order.\<close>

lemma step_transit:
  assumes "ord_step L C s l s'" and "idle (sCM (oSolo s))"
  shows "in_transit s c @ acked1 c l = from_conn c (taken1 l) @ in_transit s' c"
  using assms
proof (induction rule: ord_step.induct)
  case (os_recv s d b waiting sendErr msg status b' cm)
  with queueEnvelopes_result(2,3) [OF os_recv.prems os_recv.hyps(4)] show ?case by (simp add: in_transit_def from_conn_def)
next
  case (os_drain s d b b')
  then show ?case by (auto simp: in_transit_def from_conn_def drainQueue_def split: list.splits if_splits)
qed (auto simp: in_transit_def from_conn_def newBroadcaster_def)

section \<open>From a connection to the ledger\<close>

context raw_writer
begin

definition sys_inv :: "OrdCodec \<Rightarrow> BlockMsg list \<Rightarrow> label list \<Rightarrow> 'l orderer \<Rightarrow> bool" where
  "sys_inv C bs0 tr s \<longleftrightarrow> idle (sCM (oSolo s)) \<and> hFilters (oHandler s) = filters (cutter (oSolo s)) \<and>
     solo_inv bs0 (map snd (taken tr)) (oSolo s) \<and>
     (\<forall>c. acked c tr = from_conn c (taken tr) @ in_transit s c) \<and>
     (\<forall>c. \<forall>msg \<in> set (acked c tr). \<exists>a. verdict C (hFilters (oHandler s)) (sCM (oSolo s)) msg = Inr a \<and> ordered_by a)"

lemma step_solo:
  assumes "ord_step L C s l s'" and "idle (sCM (oSolo s))" and "solo_inv bs0 msgs (oSolo s)"
    and "\<And>c msg. l = LEnqueue c msg \<Longrightarrow> \<exists>a. verdict C (filters (cutter (oSolo s))) (sCM (oSolo s)) msg = Inr a \<and> ordered_by a"
  shows "solo_inv bs0 (msgs @ map snd (taken1 l)) (oSolo s')"
  using assms
proof (induction rule: ord_step.induct)
  case (os_recv s c b waiting sendErr msg status b' cm)
  then have "cm = sCM (oSolo s)" using queueEnvelopes_result(1) by blast
  with os_recv.prems(2) show ?case by (simp add: solo_inv_def)
next
  case (os_enqueue s c b msg st)
  from os_enqueue.prems(3) obtain a where "verdict C (filters (cutter (oSolo s))) (sCM (oSolo s)) msg = Inr a" "ordered_by a" by blast
  then have "ordered_now C (oSolo s) (SendChan msg) = [msg]" by (simp add: ordered_now_def)
  with solo_step_inv [OF os_enqueue.prems(2,1) os_enqueue.hyps(5)] show ?case by simp
next
  case (os_timer s st)
  with solo_step_inv [OF os_timer.prems(2,1) os_timer.hyps(2)] show ?case by (simp add: ordered_now_def)
next
  case (os_exit s st)
  with solo_step_inv [OF os_exit.prems(2,1) os_exit.hyps(2)] show ?case by (simp add: ordered_now_def)
next
  case (os_halt s st)
  then have "st = (oSolo s)\<lparr>sExit := True\<rparr>" by (auto simp: solo_halt_def split: if_splits)
  with os_halt.prems(2) show ?case by (simp add: solo_inv_def)
qed simp_all

lemma step_ack:
  assumes "ord_step L C s l s'" and "idle (sCM (oSolo s))" and "msg \<in> set (acked1 c l)"
  shows "\<exists>a. verdict C (hFilters (oHandler s)) (sCM (oSolo s)) msg = Inr a \<and> ordered_by a"
  using assms
proof (induction rule: ord_step.induct)
  case (os_recv s d b waiting sendErr m status b' cm)
  then show ?case using queueEnvelopes_result(4) [OF os_recv.prems(1) os_recv.hyps(4)] by (auto split: if_splits)
qed simp_all

lemma step_enqueue: "ord_step L C s (LEnqueue c msg) s' \<Longrightarrow> msg \<in> set (in_transit s c)"
  by (erule ord_step.cases) (auto simp: in_transit_def)

lemma sys_inv_step:
  assumes inv: "sys_inv C bs0 tr s" and step: "ord_step L C s l s'"
  shows "sys_inv C bs0 (tr @ [l]) s'"
proof -
  have idle: "idle (sCM (oSolo s))" and same: "hFilters (oHandler s) = filters (cutter (oSolo s))"
    and solo: "solo_inv bs0 (map snd (taken tr)) (oSolo s)"
    and transit: "\<And>c. acked c tr = from_conn c (taken tr) @ in_transit s c"
    and ack: "\<And>c msg. msg \<in> set (acked c tr) \<Longrightarrow> \<exists>a. verdict C (hFilters (oHandler s)) (sCM (oSolo s)) msg = Inr a \<and> ordered_by a"
    using inv unfolding sys_inv_def by blast+
  have fixed: "hFilters (oHandler s') = hFilters (oHandler s)" "filters (cutter (oSolo s')) = filters (cutter (oSolo s))"
    "sCM (oSolo s') = sCM (oSolo s)"
    using step_fixed [OF step idle] by (simp_all add: fixed_parts_def)
  have more: "acked c (tr @ [l]) = acked c tr @ acked1 c l" "taken (tr @ [l]) = taken tr @ taken1 l" for c
    by (simp_all add: trace_defs)
  have conn: "from_conn c (xs @ ys) = from_conn c xs @ from_conn c ys" for c xs ys by (simp add: from_conn_def)
  have enq: "\<exists>a. verdict C (filters (cutter (oSolo s))) (sCM (oSolo s)) msg = Inr a \<and> ordered_by a" if "l = LEnqueue c msg" for c msg
    using ack [of msg c] step_enqueue step that unfolding transit same by auto
  have "solo_inv bs0 (map snd (taken (tr @ [l]))) (oSolo s')"
    using step_solo [OF step idle solo enq] by (simp add: more)
  moreover have "acked c (tr @ [l]) = from_conn c (taken (tr @ [l])) @ in_transit s' c" for c
    using step_transit [OF step idle, of c] by (simp add: more transit conn)
  moreover have "\<exists>a. verdict C (hFilters (oHandler s)) (sCM (oSolo s)) msg = Inr a \<and> ordered_by a" if "msg \<in> set (acked c (tr @ [l]))" for c msg
    using that ack step_ack [OF step idle] unfolding more(1) set_append by blast
  ultimately show ?thesis using idle same unfolding sys_inv_def fixed by blast
qed

lemma sys_inv_run: "ord_run L C s0 tr s \<Longrightarrow> sys_inv C bs0 [] s0 \<Longrightarrow> sys_inv C bs0 tr s"
  by (induction rule: ord_run.induct) (auto intro: sys_inv_step)

end

end
