(* ===== verification/Orderer_Launch.thy ===== *)
theory Orderer_Launch
  imports Orderer_Broadcast
begin

text \<open>
  How the solo orderer starts (orderer/main.go, orderer/common/util/util.go, orderer/common/bootstrap/static/static.go): the genesis
  block, the configuration read back from the ledger, and the parts wired together. The properties here span the orderer from
  its start to the ledger.
\<close>

section \<open>Making messages\<close>

text \<open>The protobuf encoders the genesis block is made with, besides those of the ledger.\<close>

record MakeCodec =
  mItem :: "ConfigurationItem \<Rightarrow> error + bytes"
  mPolicy :: "PolicyMsg \<Rightarrow> error + bytes"
  mConfigurationEnvelope :: "ConfigurationEnvelope \<Rightarrow> error + bytes"
  mPayload :: "PayloadMsg \<Rightarrow> error + bytes"

definition orPanic :: "error + 'a \<Rightarrow> error + 'a" where
  "orPanic r = (case r of Inl _ \<Rightarrow> Inl (Panic ''error'') | Inr x \<Rightarrow> Inr x)"

text \<open>\<open>MarshalOrPanic\<close> of each kind of message is \<open>orPanic\<close> of its encoder.\<close>

definition CreateNonceOrPanic :: "error + bytes \<Rightarrow> error + bytes" where
  "CreateNonceOrPanic nonce = orPanic nonce"

definition ExtractEnvelope :: "(bytes \<Rightarrow> error + EnvelopeMsg) \<Rightarrow> BlockMsg \<Rightarrow> int \<Rightarrow> error + EnvelopeMsg" where
  "ExtractEnvelope unEnvelope block i =
     bindE (deref (bkData block)) (\<lambda>data.
       if i < 0 \<or> int (length data) \<le> i then Inl (ErrMsg ''Envelope index out of bounds'')
       else catchE (unEnvelope (data ! nat i)) (\<lambda>_. Inl (ErrMsg ''Block data does not carry an envelope'')) Inr)"

definition ExtractEnvelopeOrPanic :: "(bytes \<Rightarrow> error + EnvelopeMsg) \<Rightarrow> BlockMsg \<Rightarrow> int \<Rightarrow> error + EnvelopeMsg" where
  "ExtractEnvelopeOrPanic unEnvelope block i =
     bindE (deref (bkData block)) (\<lambda>data.
       if i < 0 \<or> int (length data) \<le> i then Inl (Panic ''Envelope index out of bounds'')
       else case unEnvelope (data ! nat i) of
              Inl _ \<Rightarrow> Inl (Panic ''Block data does not carry an envelope'')
            | Inr envelope \<Rightarrow> Inr envelope)"

definition ExtractPayload :: "OrdCodec \<Rightarrow> EnvelopeMsg \<Rightarrow> error + PayloadMsg" where
  "ExtractPayload C envelope =
     catchE (unPayload C (of_nbytes (evPayload envelope))) (\<lambda>_. Inl (ErrMsg ''Envelope does not carry a Payload'')) Inr"

definition ExtractPayloadOrPanic :: "OrdCodec \<Rightarrow> EnvelopeMsg \<Rightarrow> error + PayloadMsg" where
  "ExtractPayloadOrPanic C envelope =
     (case unPayload C (of_nbytes (evPayload envelope)) of
        Inl _ \<Rightarrow> Inl (Panic ''Envelope does not carry a Payload'')
      | Inr payload \<Rightarrow> Inr payload)"

text \<open>The version, the time and the epoch of a header are not read by the orderer.\<close>

definition MakeChainHeader :: "i32 \<Rightarrow> bytes \<Rightarrow> ChainHeader" where
  "MakeChainHeader headerType chainID = \<lparr>chType = headerType, chChainID = Some chainID\<rparr>"

definition MakeConfigurationItem :: "ChainHeader \<Rightarrow> i32 \<Rightarrow> u64 \<Rightarrow> gostring \<Rightarrow> gostring \<Rightarrow> bytes \<Rightarrow> ConfigurationItem" where
  "MakeConfigurationItem ch configItemType lastModified modPolicyID key v =
     \<lparr>ciHeader = Some ch, ciType = configItemType, ciLastModified = lastModified, ciModificationPolicy = modPolicyID,
      ciKey = key, ciValue = Some v\<rparr>"

definition MakeConfigurationEnvelope :: "SignedConfigurationItem list \<Rightarrow> ConfigurationEnvelope" where
  "MakeConfigurationEnvelope items = \<lparr>ceItems = items\<rparr>"

definition MakePolicyOrPanic :: "SignaturePolicyEnvelope \<Rightarrow> PolicyMsg" where
  "MakePolicyOrPanic pe = Policy_SignaturePolicy (Some pe)"

section \<open>The genesis block\<close>

definition HeaderType_CONFIGURATION_ITEM :: i32 where
  "HeaderType_CONFIGURATION_ITEM = 2"

text \<open>\<open>"**TEST_CHAINID**"\<close>\<close>

definition TestChainID :: bytes where
  "TestChainID = [42, 42, 84, 69, 83, 84, 95, 67, 72, 65, 73, 78, 73, 68, 42, 42]"

definition genesisItem :: "bytes \<Rightarrow> ConfigurationItem" where
  "genesisItem v = MakeConfigurationItem (MakeChainHeader HeaderType_CONFIGURATION_ITEM TestChainID) 0 0
     DefaultModificationPolicyID DefaultModificationPolicyID v"

definition genesisEnvelope :: "bytes \<Rightarrow> ConfigurationEnvelope" where
  "genesisEnvelope item = MakeConfigurationEnvelope [\<lparr>sciConfigurationItem = item, sciSignatures = []\<rparr>]"

definition genesisPayload :: "bytes \<Rightarrow> PayloadMsg" where
  "genesisPayload data = \<lparr>plHeader = Some (Some (MakeChainHeader HeaderType_CONFIGURATION_TRANSACTION TestChainID)), plData = data\<rparr>"

definition GenesisBlock :: "BlockCodec \<Rightarrow> MakeCodec \<Rightarrow> error + bytes \<Rightarrow> error + BlockMsg" where
  "GenesisBlock K G nonce =
     bindE (orPanic (mPolicy G (MakePolicyOrPanic RejectAllPolicy))) (\<lambda>configItemValue.
     bindE (orPanic (mItem G (genesisItem configItemValue))) (\<lambda>item.
     bindE (CreateNonceOrPanic nonce) (\<lambda>_.
     bindE (orPanic (mConfigurationEnvelope G (genesisEnvelope item))) (\<lambda>data.
     bindE (orPanic (mPayload G (genesisPayload data))) (\<lambda>payload.
     bindE (orPanic (mEnvelope K \<lparr>evPayload = Some payload, evSignature = None\<rparr>)) (\<lambda>envelope.
     bindE (data_Hash K [envelope]) (\<lambda>dh.
       Inr \<lparr>bkHeader = \<lparr>hdNumber = 0, hdPreviousHash = None, hdDataHash = Some dh\<rparr>, bkData = Some [envelope], bkMetadata = None\<rparr>)))))))"

section \<open>Starting\<close>

text \<open>
  The most recent configuration in the ledger. There is one message for all configurations, which each of them is decoded into: what
  is returned is what the last attempt has left there. The fuel is one more than the blocks there are.
\<close>

definition configOf :: "OrdCodec \<Rightarrow> (bytes \<Rightarrow> error + EnvelopeMsg) \<Rightarrow> BlockMsg \<Rightarrow> error + bytes option" where
  "configOf C unEnvelope block =
     bindE (deref (bkData block)) (\<lambda>data.
       if length data \<noteq> 1 then Inr None
       else bindE (ExtractEnvelopeOrPanic unEnvelope block 0) (\<lambda>envelope.
            bindE (ExtractPayloadOrPanic C envelope) (\<lambda>payload.
            bindE (deref (plHeader payload)) (\<lambda>h.
            bindE (deref h) (\<lambda>ch.
              if chType ch \<noteq> HeaderType_CONFIGURATION_TRANSACTION then Inr None else Inr (Some (plData payload)))))))"

fun retrieveLoop ::
  "('l, 'i) ReadWriter \<Rightarrow> OrdCodec \<Rightarrow> (bytes \<Rightarrow> error + EnvelopeMsg) \<Rightarrow> 'l \<Rightarrow> nat \<Rightarrow> 'i \<Rightarrow> ConfigurationEnvelope \<Rightarrow> bool \<Rightarrow>
   (error + ConfigurationEnvelope option) option" where
  "retrieveLoop L C unEnvelope l 0 it env found = None"
| "retrieveLoop L C unEnvelope l (Suc fuel) it env found =
     (if \<not> rwReady L l it then Some (Inr (if found then Some env else None))
      else case rwNext L l it of
             None \<Rightarrow> None
           | Some (it, block, status) \<Rightarrow>
               if status \<noteq> Status_SUCCESS then Some (Inl (Panic ''Error parsing blockchain at startup''))
               else case bindE (deref block) (configOf C unEnvelope) of
                      Inl e \<Rightarrow> Some (Inl e)
                    | Inr None \<Rightarrow> retrieveLoop L C unEnvelope l fuel it env found
                    | Inr (Some data) \<Rightarrow>
                       (case unConfigurationEnvelope C data of
                          (env, None) \<Rightarrow> retrieveLoop L C unEnvelope l fuel it env True
                        | (env, Some _) \<Rightarrow> retrieveLoop L C unEnvelope l fuel it env found))"

definition retrieveConfiguration ::
  "('l, 'i) ReadWriter \<Rightarrow> OrdCodec \<Rightarrow> (bytes \<Rightarrow> error + EnvelopeMsg) \<Rightarrow> 'l \<Rightarrow> (error + 'l \<times> ConfigurationEnvelope option) option" where
  "retrieveConfiguration L C unEnvelope l =
     (case rwIterator L SeekInfo_OLDEST 0 l of
        None \<Rightarrow> None
      | Some (Inl e) \<Rightarrow> Some (Inl e)
      | Some (Inr (l, it, _)) \<Rightarrow>
          map_option (\<lambda>r. bindE r (\<lambda>tx. Inr (l, tx)))
            (retrieveLoop L C unEnvelope l (Suc (unat (rwHeight L l))) it \<lparr>ceItems = []\<rparr> False))"

definition createBroadcastRuleset :: "Rule list" where
  "createBroadcastRuleset = [EmptyRejectRule, AcceptRule]"

record TopLevel =
  cBatchSize :: u64
  cQueueSize :: u64
  cMaxWindowSize :: u64
  cHistorySize :: u64
  cGenesisMethod :: string

text \<open>
  \<open>launchSolo\<close> with the in-memory ledger, up to serving. The result None is a start that does not return. The maximal window is for
  the deliver service, the other half of the server.
\<close>

definition launchSolo ::
  "BlockCodec \<Rightarrow> OrdCodec \<Rightarrow> (bytes \<Rightarrow> error + EnvelopeMsg) \<Rightarrow> TopLevel \<Rightarrow> error + BlockMsg \<Rightarrow> (error + ramLedger orderer \<times> int) option" where
  "launchSolo K C unEnvelope conf genesis =
     (if cGenesisMethod conf \<noteq> ''static'' then Some (Inl (Panic ''Unknown genesis method''))
      else case genesis of
        Inl e \<Rightarrow> Some (Inl (if is_panic e then e else Panic ''Error retrieving the genesis block''))
      | Inr genesisBlock \<Rightarrow>
         (case ram_New C unEnvelope (int_of_u64 (cHistorySize conf)) genesisBlock of
            Inl e \<Rightarrow> Some (Inl e)
          | Inr (rl, _) \<Rightarrow>
             (case retrieveConfiguration (ram_ops K) C unEnvelope rl of
                None \<Rightarrow> None
              | Some (Inl e) \<Rightarrow> Some (Inl e)
              | Some (Inr (rl, None)) \<Rightarrow> Some (Inl (Panic ''No chain configuration found''))
              | Some (Inr (rl, Some lastConfigTx)) \<Rightarrow>
                  Some (bindE (bootstrapConfigManager C lastConfigTx) (\<lambda>configManager.
                    let rules = createBroadcastRuleset in
                    Inr (\<lparr>oHandler = NewHandlerImpl (int_of_u64 (cQueueSize conf)) rules, oConns = [],
                          oSolo = newPlainConsenter (int_of_u64 (cBatchSize conf)) rl rules configManager\<rparr>,
                         int_of_u64 (cMaxWindowSize conf)))))))"

end
