(* ===== verification/Orderer_Launch_Props.thy ===== *)
theory Orderer_Launch_Props
  imports Orderer_Launch
begin

text \<open>
  The orderer from its start on: reading the configuration back ends, the genesis block starts an orderer whose configuration
  is locked, and the messages that were acknowledged reach the ledger in order.
\<close>

section \<open>Reading the configuration back\<close>

lemma retrieveLoop_returns:
  assumes h: "ram_history K m rl as bs"
  shows "reader_at rl as bs num it out \<Longrightarrow> length bs < unat num + length out + fuel \<Longrightarrow> it \<noteq> NotFoundErrorIterator \<Longrightarrow>
    retrieveLoop (ram_ops K) C unEnvelope rl fuel it env found \<noteq> None"
proof (induction fuel arbitrary: it out env found)
  case 0
  then show ?case using history_lengths [OF h] by (auto simp: reader_at_def linked_def split: Iterator.splits)
next
  case (Suc fuel)
  show ?case
  proof (cases "it_Ready rl it")
    case True
    with reader_at_next(1) [OF h Suc.prems(1)] Suc.prems(3) obtain a b where
      n: "it_Next rl it = Some (ItCursor a, Some b, Status_SUCCESS)"
      by (cases it) (auto simp: it_Next_def cursor_Next_def split: option.splits)
    from reader_at_next(3) [OF h Suc.prems(1) n] have "reader_at rl as bs num (ItCursor a) (out @ [b])" .
    from Suc.IH [OF this] Suc.prems(2) True n show ?thesis
      by (simp split: sum.splits option.splits prod.splits)
  qed simp
qed

lemma retrieve_open:
  assumes "ram_run K m rl bs" and "length bs < 2 ^ 64 - 1"
  obtains rl' as it num where "ram_history K m rl' as bs" "reader_at rl' as bs num it []" "it \<noteq> NotFoundErrorIterator"
    "unat num = length bs - nat (max 1 m)"
    "retrieveConfiguration (ram_ops K) C unEnvelope rl =
       map_option (\<lambda>r. bindE r (\<lambda>tx. Inr (rl', tx))) (retrieveLoop (ram_ops K) C unEnvelope rl' (Suc (length bs)) it \<lparr>ceItems = []\<rparr> False)"
proof -
  obtain as where h: "ram_history K m rl as bs" using run_history [OF assms] by blast
  from iterator_history [OF this assms(2), of SeekInfo_OLDEST 0] obtain rl' it num where
    i: "ram_Iterator SeekInfo_OLDEST 0 rl = Some (Inr (rl', it, num))" "ram_history K m rl' as bs"
      "seek_result as (seek_start m (length bs) SeekInfo_OLDEST 0) rl' it num" by (auto simp: known_start_def)
  have bs: "bs \<noteq> []" using h by (simp add: ram_history_def)
  have it: "it \<noteq> NotFoundErrorIterator" "unat num = length bs - nat (max 1 m)"
    using i(3) assms(2) by (auto simp: seek_result_def seek_start_def unat_of_nat_u64)
  have "ram_Height rl' = of_nat (length bs)"
    using ram_inv_last(2) [of rl' as] i(2) history_lengths [OF i(2)] by (auto simp: ram_history_def ram_Height_def)
  then have "unat (ram_Height rl') = length bs" using assms(2) by (simp add: unat_of_nat_u64)
  then show thesis using i(1) it by (intro that [OF i(2) reader_at_open [OF i(3) assms(2) bs]])
      (simp_all add: retrieveConfiguration_def del: retrieveLoop.simps)
qed

text \<open>Reading the configuration back always ends.\<close>

lemma retrieve_returns:
  assumes "ram_run K m rl bs" and "length bs < 2 ^ 64 - 1"
  shows "retrieveConfiguration (ram_ops K) C unEnvelope rl \<noteq> None"
proof -
  obtain rl' as it num where op: "ram_history K m rl' as bs" "reader_at rl' as bs num it []" "it \<noteq> NotFoundErrorIterator"
    "retrieveConfiguration (ram_ops K) C unEnvelope rl =
       map_option (\<lambda>r. bindE r (\<lambda>tx. Inr (rl', tx))) (retrieveLoop (ram_ops K) C unEnvelope rl' (Suc (length bs)) it \<lparr>ceItems = []\<rparr> False)"
    by (rule retrieve_open [OF assms])
  show ?thesis unfolding op(4) using retrieveLoop_returns [OF op(1,2) _ op(3), of "Suc (length bs)"]
    by (simp del: retrieveLoop.simps)
qed

section \<open>The state after the start\<close>

lemma case_error_Inr: "(case r of Inl e \<Rightarrow> Inl (f e) | Inr x \<Rightarrow> g x) = Inr y \<longleftrightarrow> (\<exists>x. r = Inr x \<and> g x = Inr y)"
  by (cases r) auto

lemma launch_parts:
  assumes "launchSolo K C unEnvelope conf (Inr g) = Some (Inr (s0, w))"
  obtains rl rlf rl1 tx cm where "ram_New C unEnvelope (int_of_u64 (cHistorySize conf)) g = Inr (rl, rlf)"
    "retrieveConfiguration (ram_ops K) C unEnvelope rl = Some (Inr (rl1, Some tx))" "bootstrapConfigManager C tx = Inr cm"
    "s0 = \<lparr>oHandler = NewHandlerImpl (int_of_u64 (cQueueSize conf)) createBroadcastRuleset, oConns = [],
       oSolo = newPlainConsenter (int_of_u64 (cBatchSize conf)) rl1 createBroadcastRuleset cm\<rparr>"
proof -
  obtain rl rlf where n: "ram_New C unEnvelope (int_of_u64 (cHistorySize conf)) g = Inr (rl, rlf)"
    using assms by (cases "ram_New C unEnvelope (int_of_u64 (cHistorySize conf)) g") (auto simp: launchSolo_def split: if_splits)
  obtain rl1 tx where r: "retrieveConfiguration (ram_ops K) C unEnvelope rl = Some (Inr (rl1, Some tx))"
    using assms n unfolding launchSolo_def by (auto split: if_splits option.split_asm sum.split_asm)
  show thesis using assms that [OF n r] by (auto simp: launchSolo_def n r bindE_eq_Inr_conv Let_def split: if_splits)
qed

lemma launch_state:
  assumes "launchSolo K C unEnvelope conf (Inr g) = Some (Inr (s0, w))" and "hdNumber (bkHeader g) = 0"
  shows "ram_run K (int_of_u64 (cHistorySize conf)) (sRL (oSolo s0)) [g]" "config_inv C (sCM (oSolo s0))"
    "s0 = \<lparr>oHandler = NewHandlerImpl (int_of_u64 (cQueueSize conf)) createBroadcastRuleset, oConns = [],
       oSolo = newPlainConsenter (int_of_u64 (cBatchSize conf)) (sRL (oSolo s0)) createBroadcastRuleset (sCM (oSolo s0))\<rparr>"
proof -
  let ?m = "int_of_u64 (cHistorySize conf)"
  obtain rl rlf rl1 tx cm where n: "ram_New C unEnvelope ?m g = Inr (rl, rlf)"
      "retrieveConfiguration (ram_ops K) C unEnvelope rl = Some (Inr (rl1, Some tx))" "bootstrapConfigManager C tx = Inr cm"
      "s0 = \<lparr>oHandler = NewHandlerImpl (int_of_u64 (cQueueSize conf)) createBroadcastRuleset, oConns = [],
         oSolo = newPlainConsenter (int_of_u64 (cBatchSize conf)) rl1 createBroadcastRuleset cm\<rparr>"
    by (rule launch_parts [OF assms(1)])
  have "ram_appendBlock g (newChain ?m) = Inr rl"
    using n(1) by (auto simp: ram_New_def GetOrCreate_def Let_def bindE_eq_Inr_conv case_error_Inr)
  from ram_run.genesis [OF assms(2) this] have "ram_run K ?m rl [g]" .
  moreover obtain it num where "ram_Iterator SeekInfo_OLDEST 0 rl = Some (Inr (rl1, it, num))"
    using n(2) by (auto simp: retrieveConfiguration_def bindE_eq_Inr_conv split: option.splits sum.splits prod.splits)
  ultimately have "ram_run K ?m rl1 [g]" by (rule ram_run.iterator)
  then show "ram_run K ?m (sRL (oSolo s0)) [g]" by (simp add: n(4) newPlainConsenter_def)
  show "config_inv C (sCM (oSolo s0))" using bootstrap_inv [OF n(3)] by (simp add: n(4) newPlainConsenter_def)
  show "s0 = \<lparr>oHandler = NewHandlerImpl (int_of_u64 (cQueueSize conf)) createBroadcastRuleset, oConns = [],
       oSolo = newPlainConsenter (int_of_u64 (cBatchSize conf)) (sRL (oSolo s0)) createBroadcastRuleset (sCM (oSolo s0))\<rparr>"
    by (simp add: n(4) newPlainConsenter_def)
qed

section \<open>The genesis block\<close>

text \<open>
  What is relied on of protobuf: the messages of the genesis block can be encoded, and decoding gives them back. \<open>v\<close>, \<open>i\<close>, \<open>d\<close>,
  \<open>p\<close> and \<open>e\<close> are the encodings of the policy, the item, the configuration, the payload and the envelope.
\<close>

definition encodes_genesis :: "BlockCodec \<Rightarrow> MakeCodec \<Rightarrow> OrdCodec \<Rightarrow> (bytes \<Rightarrow> error + EnvelopeMsg) \<Rightarrow>
    bytes \<Rightarrow> bytes \<Rightarrow> bytes \<Rightarrow> bytes \<Rightarrow> bytes \<Rightarrow> bool" where
  "encodes_genesis K G C unEnvelope v i d p e \<longleftrightarrow>
     mPolicy G (MakePolicyOrPanic RejectAllPolicy) = Inr v \<and> unPolicy C v = Inr (MakePolicyOrPanic RejectAllPolicy) \<and>
     mItem G (genesisItem v) = Inr i \<and> unItem C i = Inr (genesisItem v) \<and>
     mConfigurationEnvelope G (genesisEnvelope i) = Inr d \<and> unConfigurationEnvelope C d = (genesisEnvelope i, None) \<and>
     mPayload G (genesisPayload d) = Inr p \<and> unPayload C p = Inr (genesisPayload d) \<and>
     mEnvelope K \<lparr>evPayload = Some p, evSignature = None\<rparr> = Inr e \<and>
     unEnvelope e = Inr \<lparr>evPayload = Some p, evSignature = None\<rparr> \<and> (\<exists>x. mBlockData K [e] = Inr x)"

lemma retrieve_genesis:
  assumes "ram_appendBlock g (newChain m) = Inr rl" "hdNumber (bkHeader g) = 0" "configOf C unEnvelope g = Inr (Some d)"
    "unConfigurationEnvelope C d = (tx, None)"
  shows "\<exists>rl'. retrieveConfiguration (ram_ops K) C unEnvelope rl = Some (Inr (rl', Some tx))"
proof -
  have "Suc (Suc 0) = 2" by simp
  with assms show ?thesis
    by (auto simp: ram_appendBlock_def newChain_def bareBlock_def Let_def retrieveConfiguration_def ram_Iterator_def before_def newCursor_def
        cursor_Next_def it_Ready_def it_Next_def ram_Height_def numeral_2_eq_2 split: if_splits)
qed

lemma reject_all: "newPolicy (MakePolicyOrPanic RejectAllPolicy) ch =
   Inr \<lparr>polSource = MakePolicyOrPanic RejectAllPolicy, polEvaluator = \<lparr>compiledAuthenticator = \<lambda>msg ids sigs. Inr False\<rparr>\<rparr>"
  by (simp add: newPolicy_def MakePolicyOrPanic_def RejectAllPolicy_def policyEnvelope_def NOutOf_def NewSignaturePolicyEvaluator_def
      word_sle_eq)

lemma bootstrap_genesis:
  assumes "unPolicy C v = Inr (MakePolicyOrPanic RejectAllPolicy)" "unItem C i = Inr (genesisItem v)"
  shows "\<exists>cm. bootstrapConfigManager C (genesisEnvelope i) = Inr cm \<and>
    configuration cm = mput 0 [(DefaultModificationPolicyID, genesisItem v)] makeConfigMap"
  using assms
  by (simp add: bootstrapConfigManager_def NewConfigurationManager_def bootstrapHandlers_def ctypes_def NewBytesHandler_def
      computeChainIDAndSequence_def genesisEnvelope_def MakeConfigurationEnvelope_def genesisItem_def MakeConfigurationItem_def
      MakeChainHeader_def Apply_def beginHandlers_def commitHandlers_def handler_defs processConfig_def processItem_def makeConfigMap_def
      NewManagerImpl_def GetPolicy_def itemPolicy_def Evaluate_def checkModified_def cfg_def pm_ProposeConfig_def reject_all
      keepsKeys_def Let_def of_nbytes_def)

text \<open>A manager whose items are all governed by a policy that accepts nothing refuses every transaction.\<close>

lemma locked_refuses:
  assumes inv: "config_inv C cm" and conf: "configuration cm = mput 0 [(DefaultModificationPolicyID, genesisItem v)] makeConfigMap"
    and pol: "unPolicy C v = Inr (MakePolicyOrPanic RejectAllPolicy)"
  shows "Validate C tx cm \<noteq> Inr (cm', Inr ())"
proof -
  have items: "cfg (configuration cm) t k = (if t = 0 \<and> k = DefaultModificationPolicyID then Some (genesisItem v) else None)" for t k
    by (simp add: conf cfg_def makeConfigMap_def ctypes_def)
  have "policy_at C (pmCH (cmPM cm)) (cfg (configuration cm) 0 DefaultModificationPolicyID) (map_of (policies (cmPM cm)) DefaultModificationPolicyID)"
    using inv by (simp add: config_inv_def mirrored_def mirrors_policies_def)
  then obtain p where p: "map_of (policies (cmPM cm)) DefaultModificationPolicyID = Some p"
      "polEvaluator p = \<lparr>compiledAuthenticator = \<lambda>msg ids sigs. Inr False\<rparr>"
    using pol by (auto simp: policy_at_def items genesisItem_def MakeConfigurationItem_def of_nbytes_def reject_all)
  obtain cm1 where b: "beginHandlers cm = Inr cm1" "policies (cmPM cm1) = policies (cmPM cm)" "configuration cm1 = configuration cm"
  proof -
    have "idle cm" using inv by (simp add: config_inv_def)
    from beginHandlers_idle [OF this] obtain cm1 where c: "beginHandlers cm = Inr cm1" "clean cm1 = cm" by blast
    then show thesis by (intro that [of cm1]) (auto simp: clean_def pm_RollbackConfig_def)
  qed
  have reject: "Evaluate (PolicyOf (Some p)) hs pl ids sigs = Inl (ErrMsg ''Failed to authenticate policy'')" for hs pl ids sigs
    by (simp add: Evaluate_def pol_Evaluate_def Authenticate_def p(2))
  have policy: "itemPolicy (PolicyOf (Some p)) cm1 config = PolicyOf (Some p)" for config
    by (simp add: itemPolicy_def b items GetPolicy_def p(1) genesisItem_def MakeConfigurationItem_def)
  have "isl (processItem C sq (PolicyOf (Some p)) entry m cm1)" for sq entry m
    by (auto simp: processItem_def policy reject bindE_def split: sum.splits)
  then have refused: "items = []" if "processItems C sq (PolicyOf (Some p)) items m cm1 = (x, Inr y)" for sq items m x y
    using that by (cases items) (auto split: sum.splits simp: isl_def, metis sum.distinct(1))
  have "isl (snd (processConfig C tx cm1))"
    by (auto simp: processConfig_def computeChainIDAndSequence_def GetPolicy_def b p(1) dest: refused split: sum.splits prod.splits if_splits)
  then show ?thesis by (auto simp: Validate_def b(1) catchE_def bindE_eq_Inr_conv isl_def split: prod.splits if_splits)
qed

lemma launch_genesis:
  assumes enc: "encodes_genesis K G C unEnvelope v i d p e" and conf: "cGenesisMethod conf = ''static''"
  obtains g s0 w where "GenesisBlock K G (Inr nonce) = Inr g" "hdNumber (bkHeader g) = 0"
    "launchSolo K C unEnvelope conf (Inr g) = Some (Inr (s0, w))"
    "configuration (sCM (oSolo s0)) = mput 0 [(DefaultModificationPolicyID, genesisItem v)] makeConfigMap"
proof -
  let ?m = "int_of_u64 (cHistorySize conf)"
  note enc = enc [unfolded encodes_genesis_def]
  obtain g where g: "GenesisBlock K G (Inr nonce) = Inr g" "hdNumber (bkHeader g) = 0" "bkData g = Some [e]"
    using enc by (auto simp: GenesisBlock_def orPanic_def CreateNonceOrPanic_def data_Hash_def)
  have "\<exists>rl. ram_appendBlock g (newChain ?m) = Inr rl" by (simp add: ram_appendBlock_def newChain_def Let_def)
  then obtain rl where rl: "ram_appendBlock g (newChain ?m) = Inr rl" ..
  have new: "\<exists>rlf. ram_New C unEnvelope ?m g = Inr (rl, rlf)"
    using enc rl by (simp add: ram_New_def g(3) goindex_def of_nbytes_def genesisPayload_def GetOrCreate_def
        MakeChainHeader_def Let_def)
  have "configOf C unEnvelope g = Inr (Some d)"
    using enc by (simp add: configOf_def g(3) ExtractEnvelopeOrPanic_def ExtractPayloadOrPanic_def of_nbytes_def genesisPayload_def MakeChainHeader_def)
  from retrieve_genesis [OF rl g(2) this, of "genesisEnvelope i" K] enc obtain rl' where
    ret: "retrieveConfiguration (ram_ops K) C unEnvelope rl = Some (Inr (rl', Some (genesisEnvelope i)))" by auto
  from bootstrap_genesis enc obtain cm where
    cm: "bootstrapConfigManager C (genesisEnvelope i) = Inr cm" "configuration cm = mput 0 [(DefaultModificationPolicyID, genesisItem v)] makeConfigMap"
    by blast
  show thesis using new ret cm conf
    by (auto simp: launchSolo_def newPlainConsenter_def intro!: that [OF g(1,2)])
qed

section \<open>Blocks that stop a start\<close>

lemma retrieveLoop_panics:
  assumes h: "ram_history K m rl as bs" and k: "k < length bs" "configOf C unEnvelope (bs ! k) = Inl err"
  shows "reader_at rl as bs num it out \<Longrightarrow> unat num + length out \<le> k \<Longrightarrow> k < unat num + length out + fuel \<Longrightarrow> it \<noteq> NotFoundErrorIterator \<Longrightarrow>
    \<exists>e. retrieveLoop (ram_ops K) C unEnvelope rl fuel it env found = Some (Inl e)"
proof (induction fuel arbitrary: it out env found)
  case (Suc fuel)
  from Suc.prems(4) obtain cu where cu: "it = ItCursor cu" by (cases it) auto
  from reader_at_next(2) [OF h Suc.prems(1) cu] Suc.prems(2) k(1) have ready: "it_Ready rl it" by simp
  with reader_at_next(1) [OF h Suc.prems(1)] cu obtain a b where n: "it_Next rl it = Some (ItCursor a, Some b, Status_SUCCESS)"
    by (auto simp: it_Next_def cursor_Next_def split: option.splits)
  from reader_at_next(3) [OF h Suc.prems(1) n] have r: "reader_at rl as bs num (ItCursor a) (out @ [b])" .
  have "out @ [b] = take (length (out @ [b])) (drop (unat num) bs)"
    using r unfolding reader_at_def Iterator.case by (elim conjE)
  then have "(out @ [b]) ! length out = take (length (out @ [b])) (drop (unat num) bs) ! length out" by (rule arg_cong)
  then have b: "b = bs ! (unat num + length out)" using Suc.prems(2) k(1) by simp
  show ?case
  proof (cases "k = unat num + length out")
    case True
    then show ?thesis using ready n b k(2) by simp
  next
    case False
    with Suc.prems(2,3) have "unat num + length (out @ [b]) \<le> k" "k < unat num + length (out @ [b]) + fuel" by simp_all
    from Suc.IH [OF r this] ready n show ?thesis by (auto split: sum.splits option.splits prod.splits)
  qed
qed simp

section \<open>An example\<close>

text \<open>A codec that knows the genesis block: the encodings are [1], [2], [3] and [4], and no other payload can be decoded.\<close>

definition codecG :: MakeCodec where
  "codecG = \<lparr>mItem = \<lambda>_. Inr [2], mPolicy = \<lambda>_. Inr [1], mConfigurationEnvelope = \<lambda>_. Inr [3], mPayload = \<lambda>_. Inr [4]\<rparr>"

definition codecC :: OrdCodec where
  "codecC = \<lparr>unItem = \<lambda>_. Inr (genesisItem [1]), unSignatureHeader = Inr, unPolicy = \<lambda>_. Inr (MakePolicyOrPanic RejectAllPolicy),
     unPayload = \<lambda>b. if b = [4] then Inr (genesisPayload [3]) else Inl ErrUnexpectedEOF,
     unConfigurationEnvelope = \<lambda>_. (genesisEnvelope [2], None)\<rparr>"

definition envOf :: "bytes \<Rightarrow> error + EnvelopeMsg" where
  "envOf d = Inr \<lparr>evPayload = Some d, evSignature = None\<rparr>"

definition conf0 :: TopLevel where
  "conf0 = \<lparr>cBatchSize = 2, cQueueSize = 5, cMaxWindowSize = 5, cHistorySize = 10, cGenesisMethod = ''static''\<rparr>"

lemma encodes0: "encodes_genesis codec0 codecG codecC envOf [1] [2] [3] [4] [4]"
  by (simp add: encodes_genesis_def codec0_def codecG_def codecC_def envOf_def of_nbytes_def)

lemma conf0_static: "cGenesisMethod conf0 = ''static''"
  by (simp add: conf0_def)

definition msg9 :: EnvelopeMsg where
  "msg9 = \<lparr>evPayload = Some [9], evSignature = None\<rparr>"

text \<open>A client connects and broadcasts a message.\<close>

lemma run0:
  obtains g s0 w s where "launchSolo codec0 codecC envOf conf0 (Inr g) = Some (Inr (s0, w))" "hdNumber (bkHeader g) = 0"
    "ord_run (ram_ops codec0) codecC s0 [LOpen 1, LRecv 1 msg9 Status_SUCCESS] s"
proof -
  obtain g s0 w where l: "hdNumber (bkHeader g) = 0" "launchSolo codec0 codecC envOf conf0 (Inr g) = Some (Inr (s0, w))"
    using launch_genesis [OF encodes0 conf0_static] by metis
  note s0 = launch_state(3) [OF l(2,1)]
  let ?b = "newBroadcaster\<lparr>bQueue := [msg9]\<rparr>" and ?s1 = "s0\<lparr>oConns := [(1, newBroadcaster)]\<rparr>"
  have "oConns s0 = []" "oHandler s0 = NewHandlerImpl 5 createBroadcastRuleset"
    by (subst s0, simp add: conf0_def int_of_u64_def)+
  then have c: "map_of (oConns s0) 1 = None" "mput 1 newBroadcaster (oConns s0) = [(1, newBroadcaster)]"
    "queueEnvelopes codecC (oHandler ?s1) False False msg9 (newBroadcaster, sCM (oSolo ?s1)) = Inr (Status_SUCCESS, ?b, sCM (oSolo ?s1))"
    by (simp_all add: queueEnvelopes_def NewHandlerImpl_def createBroadcastRuleset_def rule_Apply_def emptyReject_Apply_def
        newBroadcaster_def msg9_def)
  from ord_snoc [OF ord_nil os_open [OF c(1), of "ram_ops codec0" codecC]]
  have "ord_run (ram_ops codec0) codecC s0 [LOpen 1] ?s1" unfolding c(2) by simp
  moreover have "map_of (oConns ?s1) 1 = Some newBroadcaster" "\<not> bClosed newBroadcaster" by (simp_all add: newBroadcaster_def)
  from os_recv [OF this _ c(3)] have "\<exists>s. ord_step (ram_ops codec0) codecC ?s1 (LRecv 1 msg9 Status_SUCCESS) s" by blast
  ultimately show thesis using that [OF l(2,1)] ord_snoc by fastforce
qed

section \<open>Properties\<close>

text \<open>
  C3: From the start on, whatever the clients, the timer and the scheduler do: the messages a connection was told are accepted are,
  in the order they came, the ones the consenter took from it and those in its queue or on the way; and the messages the
  consenter took are, in the order it took them, in the blocks after the genesis block and in the current batch. No
  block is empty or has more messages than the batch size, a timer runs exactly when the batch is not empty, and the
  configuration is the one of the start, whatever configuration messages were ordered.
\<close>

theorem acknowledged_messages_ordered:
  assumes "launchSolo K C unEnvelope conf (Inr g) = Some (Inr (s0, w))" and "hdNumber (bkHeader g) = 0"
    and "ord_run (ram_ops K) C s0 tr s"
  shows "(\<forall>c. acked c tr = from_conn c (taken tr) @ in_transit s c) \<and>
    (\<exists>new batches. ram_run K (int_of_u64 (cHistorySize conf)) (sRL (oSolo s)) (g # new) \<and> list_all2 (carries K) new batches \<and>
       concat batches @ curBatch (cutter (oSolo s)) = map snd (taken tr) \<and>
       (\<forall>b \<in> set batches. b \<noteq> [] \<and> int (length b) \<le> max 1 (int_of_u64 (cBatchSize conf)))) \<and>
    (sTimer (oSolo s) \<longleftrightarrow> curBatch (cutter (oSolo s)) \<noteq> []) \<and> sCM (oSolo s) = sCM (oSolo s0)"
proof -
  let ?m = "int_of_u64 (cHistorySize conf)"
  note L = launch_state [OF assms(1,2)]
  have idle: "idle (sCM (oSolo s0))" using L(2) by (simp add: config_inv_def)
  have s0: "oConns s0 = []" "hFilters (oHandler s0) = createBroadcastRuleset" "\<not> sTimer (oSolo s0)"
    "cutter (oSolo s0) = \<lparr>batchSize = int_of_u64 (cBatchSize conf), filters = createBroadcastRuleset, curBatch = []\<rparr>"
    by (subst L(3), simp add: newPlainConsenter_def NewHandlerImpl_def NewReceiverImpl_def)+
  have "ramw.solo_inv K ?m [g] [] (oSolo s0)"
    unfolding ramw.solo_inv_def using L(1) s0(3) by (intro conjI exI [of _ "[]"]) (simp_all add: s0(4))
  then have "ramw.sys_inv K ?m C [g] [] s0"
    using idle by (simp add: ramw.sys_inv_def s0 trace_defs in_transit_def)
  from ramw.sys_inv_run [OF assms(3) this] have inv: "ramw.sys_inv K ?m C [g] tr s" .
  have "fixed_parts s = fixed_parts s0" using run_fixed [OF assms(3) idle] ..
  then have "sCM (oSolo s) = sCM (oSolo s0)" "batchSize (cutter (oSolo s)) = int_of_u64 (cBatchSize conf)"
    by (simp_all add: fixed_parts_def s0(4))
  then show ?thesis using inv unfolding ramw.sys_inv_def ramw.solo_inv_def by simp
qed

theorem acknowledged_messages_ordered_witness:
  "\<exists>g s0 w tr s. launchSolo codec0 codecC envOf conf0 (Inr g) = Some (Inr (s0, w)) \<and> ord_run (ram_ops codec0) codecC s0 tr s \<and>
     acked 1 tr = [msg9] \<and> in_transit s 1 = [msg9]"
proof -
  obtain g s0 w s where r: "launchSolo codec0 codecC envOf conf0 (Inr g) = Some (Inr (s0, w))" "hdNumber (bkHeader g) = 0"
    "ord_run (ram_ops codec0) codecC s0 [LOpen 1, LRecv 1 msg9 Status_SUCCESS] s" by (rule run0)
  have "acked 1 [LOpen 1, LRecv 1 msg9 Status_SUCCESS] = [msg9]" "from_conn 1 (taken [LOpen 1, LRecv 1 msg9 Status_SUCCESS]) = []"
    by (simp_all add: trace_defs)
  with acknowledged_messages_ordered [OF r] r show ?thesis by (metis append_Nil)
qed

text \<open>
  C27: The static genesis block starts an orderer and locks its configuration: the start succeeds, and at no later time
  is any configuration transaction accepted, since the one policy there is, which governs every item, accepts nothing. This
  relies on protobuf decoding what it has encoded.
\<close>

theorem genesis_locks_configuration:
  assumes "encodes_genesis K G C unEnvelope v i d p e" and "cGenesisMethod conf = ''static''"
  shows "\<exists>s0 w. launchSolo K C unEnvelope conf (GenesisBlock K G (Inr nonce)) = Some (Inr (s0, w)) \<and>
    (\<forall>tr s tx cm'. ord_run (ram_ops K) C s0 tr s \<longrightarrow> Validate C tx (sCM (oSolo s)) \<noteq> Inr (cm', Inr ()))"
proof -
  obtain g s0 w where l: "GenesisBlock K G (Inr nonce) = Inr g" "hdNumber (bkHeader g) = 0"
      "launchSolo K C unEnvelope conf (Inr g) = Some (Inr (s0, w))"
      "configuration (sCM (oSolo s0)) = mput 0 [(DefaultModificationPolicyID, genesisItem v)] makeConfigMap"
    by (rule launch_genesis [OF assms])
  note inv = launch_state(2) [OF l(3,2)]
  have "sCM (oSolo s) = sCM (oSolo s0)" if "ord_run (ram_ops K) C s0 tr s" for tr s
    using run_fixed [OF that] inv by (simp add: config_inv_def fixed_parts_def)
  moreover have "Validate C tx (sCM (oSolo s0)) \<noteq> Inr (cm', Inr ())" for tx cm'
    using locked_refuses [OF inv l(4)] assms(1) by (simp add: encodes_genesis_def)
  ultimately show ?thesis using l(1,3) by auto
qed

theorem genesis_locks_configuration_witness:
  "\<exists>s0 w. launchSolo codec0 codecC envOf conf0 (GenesisBlock codec0 codecG (Inr [])) = Some (Inr (s0, w)) \<and>
     Validate codecC (genesisEnvelope [2]) (sCM (oSolo s0)) \<noteq> Inr (sCM (oSolo s0), Inr ())"
  using genesis_locks_configuration [OF encodes0 conf0_static, of "[]"] ord_nil by fast

text \<open>
  The filter accepts every message with a payload, and when a block of the ledger holds a single message whose payload does not decode or
  has no header, reading the configuration back fails. The ledger in memory is empty at a start; with one that outlives the
  process, a client can keep the orderer from starting again.
\<close>

theorem poison_block_stops_start:
  assumes "ram_run K m rl bs" and "length bs < 2 ^ 64 - 1" and "length bs - nat (max 1 m) \<le> k" and "k < length bs"
    and "bkData (bs ! k) = Some [x]" and "unEnvelope x = Inr env"
    and "case unPayload C (of_nbytes (evPayload env)) of Inl _ \<Rightarrow> True | Inr pl \<Rightarrow> plHeader pl = None \<or> plHeader pl = Some None"
  shows "(\<forall>msg cm. evPayload msg \<noteq> None \<longrightarrow> verdict C createBroadcastRuleset cm msg = Inr Accept) \<and>
    (\<exists>err. retrieveConfiguration (ram_ops K) C unEnvelope rl = Some (Inl err))"
proof
  show "\<forall>msg cm. evPayload msg \<noteq> None \<longrightarrow> verdict C createBroadcastRuleset cm msg = Inr Accept"
    by (simp add: verdict_def createBroadcastRuleset_def rule_Apply_def emptyReject_Apply_def)
  have "\<exists>err. configOf C unEnvelope (bs ! k) = Inl err"
    using assms(5-7) by (auto simp: configOf_def ExtractEnvelopeOrPanic_def ExtractPayloadOrPanic_def split: sum.splits)
  then obtain err where err: "configOf C unEnvelope (bs ! k) = Inl err" ..
  obtain rl' as it num where op: "ram_history K m rl' as bs" "reader_at rl' as bs num it []" "it \<noteq> NotFoundErrorIterator"
    "unat num = length bs - nat (max 1 m)" "retrieveConfiguration (ram_ops K) C unEnvelope rl =
       map_option (\<lambda>r. bindE r (\<lambda>tx. Inr (rl', tx))) (retrieveLoop (ram_ops K) C unEnvelope rl' (Suc (length bs)) it \<lparr>ceItems = []\<rparr> False)"
    by (rule retrieve_open [OF assms(1,2)])
  have "unat num + length ([] :: BlockMsg list) \<le> k" "k < unat num + length ([] :: BlockMsg list) + Suc (length bs)"
    using op(4) assms(3,4) by simp_all
  from retrieveLoop_panics [OF op(1) assms(4) err op(2) this op(3)] obtain e where
    "retrieveLoop (ram_ops K) C unEnvelope rl' (Suc (length bs)) it \<lparr>ceItems = []\<rparr> False = Some (Inl e)" by blast
  then show "\<exists>err. retrieveConfiguration (ram_ops K) C unEnvelope rl = Some (Inl err)"
    unfolding op(5) by (simp del: retrieveLoop.simps)
qed

theorem poison_block_stops_start_witness:
  "\<exists>err. retrieveConfiguration (ram_ops codec0) codecC envOf rl2 = Some (Inl err)"
proof -
  have "bkData ([block0, block1, block2] ! 1) = Some [[8]]" "envOf [8] = Inr \<lparr>evPayload = Some [8], evSignature = None\<rparr>"
    "case unPayload codecC (of_nbytes (evPayload \<lparr>evPayload = Some [8], evSignature = None\<rparr>)) of
       Inl _ \<Rightarrow> True | Inr pl \<Rightarrow> plHeader pl = None \<or> plHeader pl = Some None"
    by (simp_all add: block1_def envOf_def codecC_def of_nbytes_def)
  with poison_block_stops_start [where K = codec0 and C = codecC and unEnvelope = envOf, OF run2, of 1 "[8]"] show ?thesis by simp
qed

end
