(* ===== verification/Orderer_Deliver.thy ===== *)
theory Orderer_Deliver
  imports Orderer_Solo
begin

text \<open>
  The deliver service (orderer/common/deliver/deliver.go): a client asks for blocks from a position on, the server sends them
  as they come, no further ahead of the acknowledgements than the window the client has chosen.
\<close>

section \<open>Messages\<close>

record SeekInfo =
  skStart :: StartType
  skSpecifiedNumber :: u64
  skWindowSize :: u64

text \<open>The pointers in the two kinds of update may be nil, and so may the update itself.\<close>

datatype DeliverUpdate = DeliverUpdate_Acknowledgement "u64 option" | DeliverUpdate_Seek "SeekInfo option" | DeliverUpdate_nil

datatype DeliverResponse = DeliverResponse_Error Status | DeliverResponse_Block BlockMsg

section \<open>The deliverer\<close>

text \<open>
  \<open>dSignal\<close> is the local variable of \<open>main\<close>: nil, or the ready channel of an iterator. \<open>dExit\<close> says that the exit channel is
  closed, \<open>dDone\<close> that \<open>main\<close> has returned and \<open>dRecvDone\<close> that \<open>recv\<close> has.
\<close>

record 'i deliverer =
  dCursor :: "'i option"
  dNext :: u64
  dWindow :: u64
  dLastAck :: u64
  dSignal :: "'i option"
  dExit :: bool
  dDone :: bool
  dRecvDone :: bool

definition newDeliverer :: "'i deliverer" where
  "newDeliverer = \<lparr>dCursor = None, dNext = 0, dWindow = 0, dLastAck = 0, dSignal = None, dExit = False, dDone = False, dRecvDone = False\<rparr>"

definition deliver_halt :: "'i deliverer \<Rightarrow> error + 'i deliverer" where
  "deliver_halt d = (if dExit d then Inl (Panic ''close of closed channel'') else Inr (d\<lparr>dExit := True\<rparr>))"

text \<open>Sending a reply, which may fail; the result says whether it was sent.\<close>

definition sendReply :: "bool \<Rightarrow> 'i deliverer \<Rightarrow> error + bool \<times> 'i deliverer" where
  "sendReply sendErr d = (if sendErr then bindE (deliver_halt d) (\<lambda>d. Inr (False, d)) else Inr (True, d))"

definition processUpdate ::
  "('l, 'i) ReadWriter \<Rightarrow> int \<Rightarrow> SeekInfo option \<Rightarrow> bool \<Rightarrow> 'i deliverer \<times> 'l \<Rightarrow>
   (error + (bool \<times> DeliverResponse list) \<times> 'i deliverer \<times> 'l) option" where
  "processUpdate L maxWindow update sendErr = (\<lambda>(d, l).
     let d = d\<lparr>dCursor := None\<rparr>;
         bad = bindE (deliver_halt d) (\<lambda>d. bindE (sendReply sendErr d) (\<lambda>(ok, d).
                 Inr ((ok, if ok then [DeliverResponse_Error Status_BAD_REQUEST] else []), d, l)))
     in case update of
          None \<Rightarrow> Some bad
        | Some u \<Rightarrow>
            if skWindowSize u = 0 \<or> u64_of_int maxWindow < skWindowSize u then Some bad
            else (case rwIterator L (skStart u) (skSpecifiedNumber u) l of
                    None \<Rightarrow> None
                  | Some (Inl e) \<Rightarrow> Some (Inl e)
                  | Some (Inr (l, cursor, n)) \<Rightarrow>
                      Some (Inr ((True, []), d\<lparr>dWindow := skWindowSize u, dCursor := Some cursor, dNext := n, dLastAck := n - 1\<rparr>, l))))"

text \<open>The end of a turn of \<open>main\<close>: whether to wait for the next block.\<close>

definition rearm :: "'i deliverer \<Rightarrow> 'i deliverer" where
  "rearm d =
     (if dCursor d = None then d\<lparr>dSignal := None\<rparr>
      else if dLastAck d + dWindow d < dNext d then d\<lparr>dSignal := None\<rparr>
      else d\<lparr>dSignal := dCursor d\<rparr>)"

datatype deliverEvent = RecvChan DeliverUpdate | SignalC | DExitChan

definition deliverable :: "('l, 'i) ReadWriter \<Rightarrow> deliverEvent \<Rightarrow> 'i deliverer \<times> 'l \<Rightarrow> bool" where
  "deliverable L ev = (\<lambda>(d, l). \<not> dDone d \<and>
     (case ev of RecvChan _ \<Rightarrow> \<not> dRecvDone d
      | SignalC \<Rightarrow> (case dSignal d of None \<Rightarrow> False | Some it \<Rightarrow> rwReady L l it)
      | DExitChan \<Rightarrow> dExit d))"

text \<open>One turn of \<open>main\<close>, with the replies it sent. \<open>Next\<close> may have to wait, which is None.\<close>

definition deliver_main ::
  "('l, 'i) ReadWriter \<Rightarrow> int \<Rightarrow> deliverEvent \<Rightarrow> bool \<Rightarrow> 'i deliverer \<times> 'l \<Rightarrow>
   (error + ('i deliverer \<times> 'l) \<times> DeliverResponse list) option" where
  "deliver_main L maxWindow ev sendErr = (\<lambda>(d, l).
     case ev of
       RecvChan update \<Rightarrow>
         (case update of
            DeliverUpdate_Acknowledgement ack \<Rightarrow>
              Some (bindE (deref ack) (\<lambda>n. Inr ((rearm (d\<lparr>dLastAck := n\<rparr>), l), [])))
          | DeliverUpdate_Seek seek \<Rightarrow>
              (case processUpdate L maxWindow seek sendErr (d, l) of
                 None \<Rightarrow> None
               | Some r \<Rightarrow> Some (bindE r (\<lambda>((ok, rs), d, l). Inr ((if ok then rearm d else d\<lparr>dDone := True\<rparr>, l), rs))))
          | DeliverUpdate_nil \<Rightarrow> Some (bindE (deliver_halt d) (\<lambda>d. Inr ((d\<lparr>dDone := True\<rparr>, l), []))))
     | SignalC \<Rightarrow>
         (case dCursor d of
            None \<Rightarrow> Some (Inl (Panic ''nil pointer dereference''))
          | Some cursor \<Rightarrow>
             (case rwNext L l cursor of
                None \<Rightarrow> None
              | Some (cursor, block, status) \<Rightarrow>
                  let d = d\<lparr>dCursor := Some cursor\<rparr> in
                  if status \<noteq> Status_SUCCESS then
                    Some (bindE (sendReply sendErr d) (\<lambda>(ok, d).
                      Inr ((if ok then rearm (d\<lparr>dCursor := None\<rparr>) else d\<lparr>dDone := True\<rparr>, l),
                           if ok then [DeliverResponse_Error status] else [])))
                  else
                    Some (bindE (deref block) (\<lambda>b.
                      let d = d\<lparr>dNext := hdNumber (bkHeader b) + 1\<rparr> in
                      bindE (sendReply sendErr d) (\<lambda>(ok, d).
                        Inr ((if ok then rearm d else d\<lparr>dDone := True\<rparr>, l), if ok then [DeliverResponse_Block b] else []))))))
     | DExitChan \<Rightarrow> Some (Inr ((d\<lparr>dDone := True\<rparr>, l), [])))"

section \<open>Runs\<close>

text \<open>The turns of one deliverer, with the blocks the consenter appends and the iterators of other readers.\<close>

datatype dlabel = DMain deliverEvent "DeliverResponse list" | DRecvEnd | DAppend BlockMsg | DOther

inductive del_step :: "('l, 'i) ReadWriter \<Rightarrow> int \<Rightarrow> 'i deliverer \<times> 'l \<Rightarrow> dlabel \<Rightarrow> 'i deliverer \<times> 'l \<Rightarrow> bool" for L w where
  ds_main: "deliverable L ev s \<Longrightarrow> deliver_main L w ev sendErr s = Some (Inr (s', rs)) \<Longrightarrow> del_step L w s (DMain ev rs) s'"
| ds_recv_end: "del_step L w (d, l) DRecvEnd (d\<lparr>dRecvDone := True\<rparr>, l)"
| ds_append: "rwAppend L msgs md l = Inr (b, l') \<Longrightarrow> del_step L w (d, l) (DAppend b) (d, l')"
| ds_other: "rwIterator L st sp l = Some (Inr (l', it, n)) \<Longrightarrow> del_step L w (d, l) DOther (d, l')"

inductive del_run :: "('l, 'i) ReadWriter \<Rightarrow> int \<Rightarrow> 'l \<Rightarrow> dlabel list \<Rightarrow> 'i deliverer \<times> 'l \<Rightarrow> bool" for L w l0 where
  del_nil: "del_run L w l0 [] (newDeliverer, l0)"
| del_snoc: "del_run L w l0 tr s \<Longrightarrow> del_step L w s lb s' \<Longrightarrow> del_run L w l0 (tr @ [lb]) s'"

text \<open>The blocks appended, and the blocks sent since the last seek.\<close>

fun appended1 :: "dlabel \<Rightarrow> BlockMsg list" where
  "appended1 (DAppend b) = [b]"
| "appended1 _ = []"

definition appended :: "dlabel list \<Rightarrow> BlockMsg list" where
  "appended tr = concat (map appended1 tr)"

fun sent1 :: "BlockMsg list \<Rightarrow> dlabel \<Rightarrow> BlockMsg list" where
  "sent1 acc (DMain (RecvChan (DeliverUpdate_Seek _)) rs) = []"
| "sent1 acc (DMain _ rs) = acc @ concat (map (\<lambda>r. case r of DeliverResponse_Block b \<Rightarrow> [b] | _ \<Rightarrow> []) rs)"
| "sent1 acc _ = acc"

definition sent_since_seek :: "dlabel list \<Rightarrow> BlockMsg list" where
  "sent_since_seek tr = foldl sent1 [] tr"

lemma trace_snoc: "appended (tr @ [lb]) = appended tr @ appended1 lb" "sent_since_seek (tr @ [lb]) = sent1 (sent_since_seek tr) lb"
  by (simp_all add: appended_def sent_since_seek_def)

section \<open>The contract of a reader\<close>

text \<open>
  What the service relies on. \<open>view l bs h\<close>: the ledger holds the blocks \<open>bs\<close>; \<open>h\<close> is what else the ledger has to know. \<open>at l h it p\<close>:
  the iterator reads block number \<open>n\<close> next, for \<open>p = Some n\<close>, or is the one that reports NOT_FOUND.
\<close>

locale raw_reader =
  fixes L :: "('l, 'i) ReadWriter" and K :: BlockCodec and view :: "'l \<Rightarrow> BlockMsg list \<Rightarrow> 'h \<Rightarrow> bool"
    and at :: "'l \<Rightarrow> 'h \<Rightarrow> 'i \<Rightarrow> nat option \<Rightarrow> bool"
  assumes append_law: "view l bs h \<Longrightarrow> rwAppend L msgs md l = Inr (b, l') \<Longrightarrow>
      carries K b msgs \<and> (\<exists>h'. view l' (bs @ [b]) h' \<and> (\<forall>it p. at l h it p \<longrightarrow> at l' h' it p))"
    and iterator_law: "view l bs h \<Longrightarrow> length bs < 2 ^ 64 - 1 \<Longrightarrow> rwIterator L st sp l = Some (Inr (l', it, num)) \<Longrightarrow>
      view l' bs h \<and> (\<forall>j p. at l h j p \<longrightarrow> at l' h j p) \<and> (at l' h it (Some (unat num)) \<or> at l' h it None)"
    and ready_law: "view l bs h \<Longrightarrow> at l h it (Some n) \<Longrightarrow> rwReady L l it \<longleftrightarrow> n < length bs"
    and next_law: "view l bs h \<Longrightarrow> at l h it (Some n) \<Longrightarrow> rwNext L l it = Some (it', blk, status) \<Longrightarrow>
      n < length bs \<and> blk = Some (bs ! n) \<and> status = Status_SUCCESS \<and> at l h it' (Some (Suc n))"
    and missing_law: "at l h it None \<Longrightarrow> rwNext L l it = Some (it, None, Status_NOT_FOUND)"
    and number_law: "view l bs h \<Longrightarrow> length bs < 2 ^ 64 - 1 \<Longrightarrow> n < length bs \<Longrightarrow> hdNumber (bkHeader (bs ! n)) = of_nat n"

sublocale raw_reader \<subseteq> writer: raw_writer L K "\<lambda>l bs. \<exists>h. view l bs h"
  using append_law by unfold_locales blast

context raw_reader
begin

text \<open>
  The cursor stands at the next block number, behind the blocks sent since the seek; the signal is set only within the window.
\<close>

definition cursor_inv :: "BlockMsg list \<Rightarrow> 'l \<Rightarrow> 'h \<Rightarrow> BlockMsg list \<Rightarrow> 'i deliverer \<Rightarrow> bool" where
  "cursor_inv bs l h out d \<longleftrightarrow> (\<forall>it. dCursor d = Some it \<longrightarrow> at l h it None \<and> out = [] \<or>
     at l h it (Some (unat (dNext d))) \<and> length out \<le> unat (dNext d) \<and> out = take (length out) (drop (unat (dNext d) - length out) bs))"

definition signal_inv :: "'i deliverer \<Rightarrow> bool" where
  "signal_inv d \<longleftrightarrow> dSignal d = None \<or> dSignal d = dCursor d \<and> dNext d \<le> dLastAck d + dWindow d"

lemma rearm_inv: "signal_inv (rearm d)" "cursor_inv bs l h out (rearm d) = cursor_inv bs l h out d"
  by (auto simp: rearm_def signal_inv_def cursor_inv_def not_less)

lemma cursor_inv_more:
  assumes "cursor_inv bs l h out d" and "\<And>it p. at l h it p \<Longrightarrow> at l' h' it p" and "view l bs h"
  shows "cursor_inv (bs @ new) l' h' out d"
  unfolding cursor_inv_def
proof (intro allI impI)
  fix it assume c: "dCursor d = Some it"
  let ?n = "unat (dNext d)" and ?k = "length out"
  from assms(1) c consider "at l h it None" "out = []" | "at l h it (Some ?n)" "?k \<le> ?n" "out = take ?k (drop (?n - ?k) bs)"
    unfolding cursor_inv_def by blast
  then show "at l' h' it None \<and> out = [] \<or> at l' h' it (Some ?n) \<and> ?k \<le> ?n \<and> out = take ?k (drop (?n - ?k) (bs @ new))"
  proof cases
    case 2
    then have "?k \<le> length (drop (?n - ?k) bs)" by (metis length_take min.cobounded1)
    then have "take ?k (drop (?n - ?k) (bs @ new)) = take ?k (drop (?n - ?k) bs)" by simp
    with 2 assms(2) show ?thesis by metis
  qed (use assms(2) in blast)
qed

lemma send_ok: "sendReply sendErr d = Inr (ok, d') \<Longrightarrow> ok \<Longrightarrow> d' = d" "sendReply sendErr d = Inr (ok, d') \<Longrightarrow> d' = d\<lparr>dExit := dExit d'\<rparr>"
  by (auto simp: sendReply_def deliver_halt_def bindE_eq_Inr_conv split: if_splits)

lemma cursor_inv_next:
  assumes v: "view l bs h" and len: "length bs < 2 ^ 64 - 1" and at: "at l h it (Some (unat (dNext d)))"
    and out: "length out \<le> unat (dNext d)" "out = take (length out) (drop (unat (dNext d) - length out) bs)"
    and nx: "rwNext L l it = Some (it', blk, status)"
  shows "blk = Some (bs ! unat (dNext d))" "status = Status_SUCCESS" "unat (dNext d) < length bs"
    "cursor_inv bs l h (out @ [bs ! unat (dNext d)])
       (d\<lparr>dCursor := Some it', dNext := hdNumber (bkHeader (bs ! unat (dNext d))) + 1\<rparr>)"
proof -
  let ?n = "unat (dNext d)" and ?k = "length out"
  note N = next_law [OF v at nx]
  then show "blk = Some (bs ! ?n)" "status = Status_SUCCESS" and n: "?n < length bs" by simp_all
  have num: "unat (hdNumber (bkHeader (bs ! ?n)) + 1) = Suc ?n"
  proof -
    have "hdNumber (bkHeader (bs ! ?n)) + 1 = of_nat (Suc ?n)" using number_law [OF v len n] by simp
    then show ?thesis using n len by (metis (no_types, lifting) unat_of_nat_u64 Suc_lessI less_diff_conv less_trans Suc_eq_plus1 add_less_mono1)
  qed
  have "out @ [bs ! ?n] = take (Suc ?k) (drop (?n - ?k) bs)"
    using out n by (simp add: take_Suc_conv_app_nth)
  then show "cursor_inv bs l h (out @ [bs ! ?n]) (d\<lparr>dCursor := Some it', dNext := hdNumber (bkHeader (bs ! ?n)) + 1\<rparr>)"
    using N out(1) unfolding cursor_inv_def by (auto simp: num)
qed

lemma signal_step:
  assumes v: "view l bs h" and len: "length bs < 2 ^ 64 - 1" and c: "cursor_inv bs l h out d" and sig: "signal_inv d"
    and ev: "deliverable L SignalC (d, l)" and step: "deliver_main L w SignalC sendErr (d, l) = Some (Inr ((d', l'), rs))"
  shows "l' = l" "\<not> dDone d' \<Longrightarrow> cursor_inv bs l h (sent1 out (DMain SignalC rs)) d' \<and> signal_inv d'"
    "rs = [DeliverResponse_Block b] \<Longrightarrow> unat (dNext d) < length bs \<and> b = bs ! unat (dNext d) \<and> dNext d \<le> dLastAck d + dWindow d \<and>
       length out \<le> unat (dNext d) \<and> out = take (length out) (drop (unat (dNext d) - length out) bs)"
proof -
  obtain it where it1: "dSignal d = Some it" using ev by (auto simp: deliverable_def split: option.splits)
  then have it: "dSignal d = Some it" "dCursor d = Some it" "dNext d \<le> dLastAck d + dWindow d"
    using sig by (simp_all add: signal_inv_def)
  let ?n = "unat (dNext d)" and ?k = "length out"
  show "l' = l" using step by (auto simp: deliver_main_def it(2) bindE_eq_Inr_conv Let_def split: option.splits if_splits)
  from c it(2) consider "at l h it None" "out = []" | "at l h it (Some ?n)" "?k \<le> ?n" "out = take ?k (drop (?n - ?k) bs)"
    unfolding cursor_inv_def by blast
  then have "(\<not> dDone d' \<longrightarrow> cursor_inv bs l h (sent1 out (DMain SignalC rs)) d' \<and> signal_inv d') \<and>
     (rs = [DeliverResponse_Block b] \<longrightarrow> ?n < length bs \<and> b = bs ! ?n \<and> dNext d \<le> dLastAck d + dWindow d \<and> ?k \<le> ?n \<and> out = take ?k (drop (?n - ?k) bs))"
  proof cases
    case 1
    let ?d = "d\<lparr>dCursor := Some it\<rparr>"
    obtain ok d1 where s: "sendReply sendErr ?d = Inr (ok, d1)"
        "d' = (if ok then rearm (d1\<lparr>dCursor := None\<rparr>) else d1\<lparr>dDone := True\<rparr>)" "rs = (if ok then [DeliverResponse_Error Status_NOT_FOUND] else [])"
      using step missing_law [OF 1(1)] by (auto simp: deliver_main_def it(2) bindE_eq_Inr_conv)
    have "cursor_inv bs l h [] (rearm (d1\<lparr>dCursor := None\<rparr>))" unfolding rearm_inv(2) by (simp add: cursor_inv_def)
    then show ?thesis using s rearm_inv(1) 1(2) by auto
  next
    case 2
    obtain it' blk status where nx: "rwNext L l it = Some (it', blk, status)"
      using step by (auto simp: deliver_main_def it(2) split: option.splits)
    note N = cursor_inv_next [OF v len 2 nx]
    let ?d = "d\<lparr>dCursor := Some it', dNext := hdNumber (bkHeader (bs ! ?n)) + 1\<rparr>"
    obtain ok d1 where s: "sendReply sendErr ?d = Inr (ok, d1)" "d' = (if ok then rearm d1 else d1\<lparr>dDone := True\<rparr>)"
        "rs = (if ok then [DeliverResponse_Block (bs ! ?n)] else [])"
      using step N(1,2) nx by (auto simp: deliver_main_def it(2) bindE_eq_Inr_conv Let_def)
    show ?thesis
    proof (cases ok)
      case True
      then have "d1 = ?d" using send_ok(1) s(1) by blast
      then show ?thesis using N(3,4) 2(2,3) it(3) s(2,3) True rearm_inv by auto
    qed (use s in simp)
  qed
  then show "\<not> dDone d' \<Longrightarrow> cursor_inv bs l h (sent1 out (DMain SignalC rs)) d' \<and> signal_inv d'"
    "rs = [DeliverResponse_Block b] \<Longrightarrow> ?n < length bs \<and> b = bs ! ?n \<and> dNext d \<le> dLastAck d + dWindow d \<and> ?k \<le> ?n \<and> out = take ?k (drop (?n - ?k) bs)"
    by blast+
qed

lemma update_step:
  assumes v: "view l bs h" and len: "length bs < 2 ^ 64 - 1" and c: "cursor_inv bs l h out d"
    and step: "deliver_main L w (RecvChan u) sendErr (d, l) = Some (Inr ((d', l'), rs))"
  shows "view l' bs h \<and> (\<not> dDone d' \<longrightarrow> cursor_inv bs l' h (sent1 out (DMain (RecvChan u) rs)) d' \<and> signal_inv d')"
proof (cases u)
  case (DeliverUpdate_Acknowledgement ack)
  then obtain n where "d' = rearm (d\<lparr>dLastAck := n\<rparr>)" "l' = l" "rs = []" using step by (cases ack) (auto simp: deliver_main_def)
  moreover have "cursor_inv bs l h out (d\<lparr>dLastAck := n\<rparr>)" using c by (simp add: cursor_inv_def)
  ultimately show ?thesis using v rearm_inv DeliverUpdate_Acknowledgement by simp
next
  case DeliverUpdate_nil
  then show ?thesis using step v by (auto simp: deliver_main_def bindE_eq_Inr_conv)
next
  case (DeliverUpdate_Seek seek)
  from step obtain ok d1 where s: "processUpdate L w seek sendErr (d, l) = Some (Inr ((ok, rs), d1, l'))"
      "d' = (if ok then rearm d1 else d1\<lparr>dDone := True\<rparr>)"
    by (auto simp: deliver_main_def DeliverUpdate_Seek bindE_eq_Inr_conv split: option.splits)
  have out: "sent1 out (DMain (RecvChan u) rs) = []" by (simp add: DeliverUpdate_Seek)
  have "view l' bs h \<and> cursor_inv bs l' h [] d1"
  proof (cases "\<exists>x. seek = Some x \<and> \<not> (skWindowSize x = 0 \<or> u64_of_int w < skWindowSize x)")
    case True
    then obtain x where x: "seek = Some x" "\<not> (skWindowSize x = 0 \<or> u64_of_int w < skWindowSize x)" by blast
    with s(1) obtain it n where "rwIterator L (skStart x) (skSpecifiedNumber x) l = Some (Inr (l', it, n))"
        "d1 = d\<lparr>dWindow := skWindowSize x, dCursor := Some it, dNext := n, dLastAck := n - 1\<rparr>"
      by (auto simp: processUpdate_def Let_def split: option.splits sum.splits)
    with iterator_law [OF v len this(1)] show ?thesis by (auto simp: cursor_inv_def)
  next
    case False
    then have "l' = l" "dCursor d1 = None"
      using s(1) by (cases seek; auto simp: processUpdate_def Let_def sendReply_def deliver_halt_def bindE_eq_Inr_conv split: if_splits)+
    then show ?thesis using v by (simp add: cursor_inv_def)
  qed
  then show ?thesis unfolding out s(2) using rearm_inv by auto
qed

text \<open>The state of the deliverer and of the ledger after a run.\<close>

definition del_inv :: "BlockMsg list \<Rightarrow> dlabel list \<Rightarrow> 'i deliverer \<times> 'l \<Rightarrow> bool" where
  "del_inv bs0 tr = (\<lambda>(d, l). \<exists>h. view l (bs0 @ appended tr) h \<and>
     (\<not> dDone d \<longrightarrow> cursor_inv (bs0 @ appended tr) l h (sent_since_seek tr) d \<and> signal_inv d))"

lemma del_inv_step:
  assumes inv: "del_inv bs0 tr s" and step: "del_step L w s lb s'" and len: "length (bs0 @ appended (tr @ [lb])) < 2 ^ 64 - 1"
  shows "del_inv bs0 (tr @ [lb]) s'"
  using step
proof cases
  case (ds_main ev sendErr rs)
  obtain d l d' l' where st: "s = (d, l)" "s' = (d', l')" by (cases s, cases s')
  have app: "appended (tr @ [lb]) = appended tr" by (simp add: trace_snoc ds_main(1))
  let ?bs = "bs0 @ appended tr" and ?out = "sent_since_seek tr"
  have nd: "\<not> dDone d" using ds_main(2) by (simp add: st deliverable_def)
  then obtain h where v: "view l ?bs h" "cursor_inv ?bs l h ?out d" "signal_inv d" using inv by (auto simp: del_inv_def st)
  have l: "length ?bs < 2 ^ 64 - 1" using len by (simp add: app)
  have "view l' ?bs h \<and> (\<not> dDone d' \<longrightarrow> cursor_inv ?bs l' h (sent1 ?out lb) d' \<and> signal_inv d')"
  proof (cases ev)
    case (RecvChan u)
    then show ?thesis using update_step [OF v(1) l v(2)] ds_main(1,3) by (simp add: st)
  next
    case SignalC
    have "deliverable L SignalC (d, l)" "deliver_main L w SignalC sendErr (d, l) = Some (Inr ((d', l'), rs))"
      using ds_main(2,3) by (simp_all add: st SignalC)
    from signal_step(1,2) [OF v(1) l v(2,3) this] v(1) show ?thesis by (simp add: ds_main(1) SignalC)
  next
    case DExitChan
    then show ?thesis using ds_main(3) v(1) by (auto simp: st deliver_main_def)
  qed
  then show ?thesis unfolding del_inv_def st app trace_snoc(2) by auto
next
  case (ds_recv_end d l)
  then show ?thesis using inv by (auto simp: del_inv_def trace_snoc cursor_inv_def signal_inv_def)
next
  case (ds_append msgs md l b l' d)
  then obtain h where h: "view l (bs0 @ appended tr) h" "\<not> dDone d \<longrightarrow> cursor_inv (bs0 @ appended tr) l h (sent_since_seek tr) d \<and> signal_inv d"
    using inv by (auto simp: del_inv_def)
  from append_law [OF h(1) ds_append(4)] obtain h' where
    h': "view l' (bs0 @ appended tr @ [b]) h'" "\<And>it p. at l h it p \<Longrightarrow> at l' h' it p" by auto
  show ?thesis using ds_append h' h(2) cursor_inv_more [OF _ h'(2) h(1), of "sent_since_seek tr" d "[b]"]
    by (auto simp: del_inv_def trace_snoc)
next
  case (ds_other st sp l l' it n d)
  then obtain h where h: "view l (bs0 @ appended tr) h" "\<not> dDone d \<longrightarrow> cursor_inv (bs0 @ appended tr) l h (sent_since_seek tr) d \<and> signal_inv d"
    using inv by (auto simp: del_inv_def)
  have l: "length (bs0 @ appended tr) < 2 ^ 64 - 1" using len by (simp add: ds_other(2) trace_snoc)
  from iterator_law [OF h(1) l ds_other(4)] have h': "view l' (bs0 @ appended tr) h" "\<And>it p. at l h it p \<Longrightarrow> at l' h it p" by auto
  show ?thesis using ds_other(1-3) h' h(2) cursor_inv_more [OF _ h'(2) h(1), of "sent_since_seek tr" d "[]"]
    by (auto simp: del_inv_def trace_snoc)
qed

lemma del_inv_run:
  assumes "del_run L w l0 tr s" and "view l0 bs0 h0" and "length (bs0 @ appended tr) < 2 ^ 64 - 1"
  shows "del_inv bs0 tr s"
  using assms(1,3)
proof (induction rule: del_run.induct)
  case del_nil
  then show ?case using assms(2) by (auto simp: del_inv_def appended_def newDeliverer_def cursor_inv_def signal_inv_def)
next
  case (del_snoc tr s lb s')
  then have "length (bs0 @ appended tr) < 2 ^ 64 - 1" by (simp add: trace_snoc)
  with del_snoc del_inv_step show ?case by blast
qed

lemma del_block_sent:
  assumes run: "del_run L w l0 tr (d, l)" and v: "view l0 bs0 h0" and len: "length (bs0 @ appended tr) < 2 ^ 64 - 1"
    and step: "del_step L w (d, l) (DMain SignalC [DeliverResponse_Block b]) s'"
  shows "unat (dNext d) < length (bs0 @ appended tr) \<and> b = (bs0 @ appended tr) ! unat (dNext d) \<and> dNext d \<le> dLastAck d + dWindow d \<and>
    length (sent_since_seek tr) \<le> unat (dNext d) \<and>
    sent_since_seek tr = take (length (sent_since_seek tr)) (drop (unat (dNext d) - length (sent_since_seek tr)) (bs0 @ appended tr))"
  using step
proof cases
  case (ds_main sendErr)
  then have "\<not> dDone d" by (simp add: deliverable_def)
  with del_inv_run [OF run v len] obtain h where h: "view l (bs0 @ appended tr) h"
      "cursor_inv (bs0 @ appended tr) l h (sent_since_seek tr) d" "signal_inv d" by (auto simp: del_inv_def)
  obtain d' l' where "s' = (d', l')" by fastforce
  with ds_main signal_step(3) [OF h(1) len h(2,3)] show ?thesis by blast
qed

end

section \<open>The in-memory ledger as a reader\<close>

definition ram_at :: "ramLedger \<Rightarrow> nat list \<Rightarrow> Iterator \<Rightarrow> nat option \<Rightarrow> bool" where
  "ram_at rl as it p =
     (case it of NotFoundErrorIterator \<Rightarrow> p = None | ItCursor cu \<Rightarrow> \<exists>n. p = Some n \<and> reads_next rl as cu (Suc n))"

lemma ram_at_reader: "ram_at rl as (ItCursor cu) (Some n) \<Longrightarrow> n < 2 ^ 64 \<Longrightarrow> reader_at rl as bs (of_nat n) (ItCursor cu) []"
  by (simp add: ram_at_def reader_at_def unat_of_nat_u64)

interpretation ramr: raw_reader "ram_ops K" K "\<lambda>rl bs as. ram_run K m rl bs \<and> ram_history K m rl as bs" ram_at for K m
proof
  fix l bs as msgs md b l'
  assume v: "ram_run K m l bs \<and> ram_history K m l as bs" and "rwAppend (ram_ops K) msgs md l = Inr (b, l')"
  then have app: "ram_Append K msgs md l = Inr (b, l')" by simp
  from append_history [OF conjunct2 [OF v] app] obtain a where
    "ram_history K m l' (as @ [a]) (bs @ [b])" "\<forall>cu j. reads_next l as cu j \<longrightarrow> reads_next l' (as @ [a]) cu j" by blast
  moreover have "ram_run K m l' (bs @ [b])" "carries K b msgs"
    using ramw.append_law [of K m l bs msgs md b l'] v app by auto
  ultimately show "carries K b msgs \<and> (\<exists>as'. (ram_run K m l' (bs @ [b]) \<and> ram_history K m l' as' (bs @ [b])) \<and>
      (\<forall>it p. ram_at l as it p \<longrightarrow> ram_at l' as' it p))"
    by (auto simp: ram_at_def split: Iterator.splits)
next
  fix l bs as st sp l' it n
  assume v: "ram_run K m l bs \<and> ram_history K m l as bs" and len: "length bs < 2 ^ 64 - 1"
    and "rwIterator (ram_ops K) st sp l = Some (Inr (l', it, n))"
  then have i: "ram_Iterator st sp l = Some (Inr (l', it, n))" by simp
  from iterator_history [OF conjunct2 [OF v] len Iterator_known [OF i], of sp] i have
    h: "ram_history K m l' as bs" "\<forall>cu j. reads_next l as cu j \<longrightarrow> reads_next l' as cu j"
      "seek_result as (seek_start m (length bs) st (unat sp)) l' it n" by auto
  have "bs \<noteq> []" using h(1) by (simp add: ram_history_def)
  from reader_at_open [OF h(3) len this] have "ram_at l' as it (Some (unat n)) \<or> ram_at l' as it None"
    by (auto simp: reader_at_def ram_at_def split: Iterator.splits)
  with h(1,2) ram_run.iterator [OF conjunct1 [OF v] i]
  show "(ram_run K m l' bs \<and> ram_history K m l' as bs) \<and> (\<forall>j p. ram_at l as j p \<longrightarrow> ram_at l' as j p) \<and>
      (ram_at l' as it (Some (unat n)) \<or> ram_at l' as it None)"
    by (auto simp: ram_at_def split: Iterator.splits)
next
  fix l bs as it n
  assume v: "ram_run K m l bs \<and> ram_history K m l as bs" and a: "ram_at l as it (Some n)"
  note L = history_lengths [OF conjunct2 [OF v]]
  from a obtain cu where "it = ItCursor cu" "reads_next l as cu (Suc n)" by (auto simp: ram_at_def split: Iterator.splits)
  with L show "rwReady (ram_ops K) l it \<longleftrightarrow> n < length bs" by (auto simp: it_Ready_def linked_def)
next
  fix l bs as it n it' blk status
  assume v: "ram_run K m l bs \<and> ram_history K m l as bs" and a: "ram_at l as it (Some n)"
    and nx: "rwNext (ram_ops K) l it = Some (it', blk, status)"
  note L = history_lengths [OF conjunct2 [OF v]]
  from a obtain cu where cu: "it = ItCursor cu" "reads_next l as cu (Suc n)" by (auto simp: ram_at_def split: Iterator.splits)
  with nx L have s: "n < length bs" "it' = ItCursor (as ! Suc n)" "blk = Some (slBlock (node_at l (as ! Suc n)))" "status = Status_SUCCESS"
    by (auto simp: it_Next_def cursor_Next_def linked_def split: option.splits if_splits)
  have "ram_inv l as (bareBlock (- 1) # bs)" using v by (simp add: ram_history_def)
  from ram_invD(5,6) [OF this, of "Suc n"] s L show "n < length bs \<and> blk = Some (bs ! n) \<and> status = Status_SUCCESS \<and> ram_at l as it' (Some (Suc n))"
    by (simp add: ram_at_def)
next
  fix l as it
  assume "ram_at l as it None"
  then show "rwNext (ram_ops K) l it = Some (it, None, Status_NOT_FOUND)" by (auto simp: ram_at_def it_Next_def split: Iterator.splits)
next
  fix l bs as n
  assume v: "ram_run K m l bs \<and> ram_history K m l as bs" and "length bs < 2 ^ 64 - 1" "n < length bs"
  have "ram_inv l as (bareBlock (- 1) # bs)" using v by (simp add: ram_history_def)
  from ram_invD(7) [OF this, of "Suc n"] history_lengths [OF conjunct2 [OF v]] \<open>n < length bs\<close>
  show "hdNumber (bkHeader (bs ! n)) = of_nat n" by simp
qed

section \<open>Properties\<close>

text \<open>
  C8: The deliver service sends the chain in order and within the window. In every run of a client's connection over the
  in-memory ledger, while blocks are appended and dropped and other clients read, a block that is sent is the one of the
  next number; those sent since the last seek are the blocks just before it, without a gap; and its number is at most
  the last acknowledged one plus the window.
\<close>

theorem deliver_in_order_within_window:
  assumes "ram_run K m l0 bs0" and "del_run (ram_ops K) w l0 tr (d, l)" and "length (bs0 @ appended tr) < 2 ^ 64 - 1"
    and "del_step (ram_ops K) w (d, l) (DMain SignalC [DeliverResponse_Block b]) s'"
  shows "unat (dNext d) < length (bs0 @ appended tr) \<and> b = (bs0 @ appended tr) ! unat (dNext d) \<and> dNext d \<le> dLastAck d + dWindow d \<and>
    length (sent_since_seek tr) \<le> unat (dNext d) \<and>
    sent_since_seek tr = take (length (sent_since_seek tr)) (drop (unat (dNext d) - length (sent_since_seek tr)) (bs0 @ appended tr))"
proof -
  have "length bs0 < 2 ^ 64 - 1" using assms(3) by simp
  with run_history [OF assms(1)] assms(1) obtain as where "ram_run K m l0 bs0 \<and> ram_history K m l0 as bs0" by blast
  from ramr.del_block_sent [OF assms(2) this assms(3,4)] show ?thesis .
qed

text \<open>A client seeks block 1 with a window of 5; the server is about to send it.\<close>

definition seek1 :: SeekInfo where
  "seek1 = \<lparr>skStart = SeekInfo_SPECIFIED, skSpecifiedNumber = 1, skWindowSize = 5\<rparr>"

definition del1 :: "Iterator deliverer" where
  "del1 = \<lparr>dCursor = Some (ItCursor 4), dNext = 1, dWindow = 5, dLastAck = 0, dSignal = Some (ItCursor 4), dExit = False, dDone = False,
     dRecvDone = False\<rparr>"

definition rl3 :: ramLedger where
  "rl3 = rl2\<lparr>nodes := nodes rl2 @ [\<lparr>slNext = Some 2, slClosed = True, slBlock = bareBlock 0\<rparr>]\<rparr>"

lemma steps1:
  "deliverable (ram_ops codec0) (RecvChan (DeliverUpdate_Seek (Some seek1))) (newDeliverer, rl2)"
  "deliver_main (ram_ops codec0) 10 (RecvChan (DeliverUpdate_Seek (Some seek1))) False (newDeliverer, rl2) = Some (Inr ((del1, rl3), []))"
  "deliverable (ram_ops codec0) SignalC (del1, rl3)"
  "deliver_main (ram_ops codec0) 10 SignalC False (del1, rl3) =
     Some (Inr ((del1\<lparr>dCursor := Some (ItCursor 2), dNext := 2, dSignal := Some (ItCursor 2)\<rparr>, rl3), [DeliverResponse_Block block1]))"
  by code_simp+

theorem deliver_in_order_within_window_witness:
  "block1 = [block0, block1, block2] ! unat (dNext del1) \<and> dNext del1 \<le> dLastAck del1 + dWindow del1"
proof -
  have "del_run (ram_ops codec0) 10 rl2 [DMain (RecvChan (DeliverUpdate_Seek (Some seek1))) []] (del1, rl3)"
    using del_snoc [OF del_nil ds_main [OF steps1(1,2)]] by simp
  from deliver_in_order_within_window [OF run2(1) this _ ds_main [OF steps1(3,4)]] show ?thesis by (simp add: appended_def)
qed

text \<open>
  A client of the deliver service can end the orderer. A seek with no window, or one larger than allowed, closes the exit
  channel and leaves \<open>main\<close> running: when the reply cannot be sent, or when a second such seek is received before \<open>main\<close> looks
  at the exit channel, the channel is closed again and the process panics. So it does at a seek of an unknown start type.
\<close>

theorem deliver_client_panics:
  assumes "skWindowSize u = 0 \<or> u64_of_int w < skWindowSize u" and "\<not> dExit d" and "\<not> dDone d" and "\<not> dRecvDone d"
    and "skStart u' = StartType_other t" and "skWindowSize u' \<noteq> 0" and "skWindowSize u' \<le> u64_of_int w"
  shows "(\<exists>e. deliver_main L w (RecvChan (DeliverUpdate_Seek (Some u))) True (d, l) = Some (Inl e) \<and> is_panic e) \<and>
    (\<exists>d'. deliver_main L w (RecvChan (DeliverUpdate_Seek (Some u))) False (d, l) = Some (Inr ((d', l), [DeliverResponse_Error Status_BAD_REQUEST])) \<and>
       deliverable L (RecvChan (DeliverUpdate_Seek (Some u))) (d', l) \<and>
       (\<exists>e. deliver_main L w (RecvChan (DeliverUpdate_Seek (Some u))) sendErr (d', l) = Some (Inl e) \<and> is_panic e)) \<and>
    (\<exists>e. deliver_main (ram_ops K) w (RecvChan (DeliverUpdate_Seek (Some u'))) sendErr (d2, rl) = Some (Inl e) \<and> is_panic e)"
  using assms by (auto simp: deliver_main_def processUpdate_def Let_def deliver_halt_def sendReply_def rearm_def deliverable_def ram_Iterator_def)

theorem deliver_client_panics_witness:
  "\<exists>e. deliver_main (ram_ops codec0) 10 (RecvChan (DeliverUpdate_Seek (Some \<lparr>skStart = SeekInfo_NEWEST, skSpecifiedNumber = 0, skWindowSize = 0\<rparr>)))
     True (newDeliverer, rl2) = Some (Inl e) \<and> is_panic e"
  using deliver_client_panics [of "\<lparr>skStart = SeekInfo_NEWEST, skSpecifiedNumber = 0, skWindowSize = 0\<rparr>" 10 newDeliverer
      "\<lparr>skStart = StartType_other 7, skSpecifiedNumber = 0, skWindowSize = 1\<rparr>" 7 "ram_ops codec0" rl2]
  by (simp add: newDeliverer_def u64_of_int_def)

end
