(* ===== verification/Gossip_Msg.thy ===== *)
theory Gossip_Msg
  imports Prelude
begin

text \<open>
  The messages of the gossip layer (gossip/proto/message.pb.go), the policy that decides which of two messages
  replaces the other (gossip/proto/compare.go), and the helpers of gossip/util/misc.go: sets, the index of an element and
  random indices. A byte slice is a list of bytes, since no code here tells a nil slice from an empty one; a
  pointer to a message is an option. The elements of a repeated field are never nil.
\<close>

section \<open>Messages\<close>

record PeerTime =
  IncNumber :: u64
  ptSeqNum :: u64

record Member =
  mbEndpoint :: gostring
  mbMetadata :: bytes
  mbPkiID :: bytes

record AliveMessage =
  amMembership :: "Member option"
  amTimestamp :: "PeerTime option"
  amSignature :: bytes

record StateInfo =
  siMetadata :: bytes
  siTimestamp :: "PeerTime option"
  siPkiID :: bytes
  siSignature :: bytes

record Payload =
  pySeqNum :: u64
  pyHash :: gostring
  pyData :: bytes

record DataMessage =
  dmPayload :: "Payload option"

record MembershipRequest =
  SelfInformation :: "AliveMessage option"
  Known :: "bytes list"

record MembershipResponse =
  mrAlive :: "AliveMessage list"
  mrDead :: "AliveMessage list"

record DataUpdate =
  duNonce :: u64
  duData :: "DataMessage list"

datatype Content =
    GossipMessage_AliveMsg "AliveMessage option"
  | GossipMessage_MemReq "MembershipRequest option"
  | GossipMessage_MemRes "MembershipResponse option"
  | GossipMessage_DataMsg "DataMessage option"
  | GossipMessage_Hello "u64 option"
  | GossipMessage_DataDig "(u64 \<times> u64 list) option"
  | GossipMessage_DataReq "(u64 \<times> u64 list) option"
  | GossipMessage_DataUpdate "DataUpdate option"
  | GossipMessage_ChanCmd bytes
  | GossipMessage_Empty
  | GossipMessage_Conn bytes bytes
  | GossipMessage_StateInfo "StateInfo option"
  | GossipMessage_StateRequest "u64 list option"
  | GossipMessage_StateResponse "Payload list option"
  | Content_nil

datatype Tag = UNDEFINED | EMPTY | ORG_ONLY | CHAN_ONLY | CHAN_AND_ORG | Tag_other "32 word"

record GossipMessage =
  gmNonce :: u64
  gmChannel :: bytes
  gmTag :: Tag
  gmContent :: Content

text \<open>The accessors return nil for a message of another kind.\<close>

definition GetAliveMsg :: "GossipMessage \<Rightarrow> AliveMessage option" where
  "GetAliveMsg m = (case gmContent m of GossipMessage_AliveMsg a \<Rightarrow> a | _ \<Rightarrow> None)"

definition GetMemReq :: "GossipMessage \<Rightarrow> MembershipRequest option" where
  "GetMemReq m = (case gmContent m of GossipMessage_MemReq a \<Rightarrow> a | _ \<Rightarrow> None)"

definition GetMemRes :: "GossipMessage \<Rightarrow> MembershipResponse option" where
  "GetMemRes m = (case gmContent m of GossipMessage_MemRes a \<Rightarrow> a | _ \<Rightarrow> None)"

definition GetDataMsg :: "GossipMessage \<Rightarrow> DataMessage option" where
  "GetDataMsg m = (case gmContent m of GossipMessage_DataMsg a \<Rightarrow> a | _ \<Rightarrow> None)"

definition GetHello :: "GossipMessage \<Rightarrow> u64 option" where
  "GetHello m = (case gmContent m of GossipMessage_Hello a \<Rightarrow> a | _ \<Rightarrow> None)"

definition GetDataDig :: "GossipMessage \<Rightarrow> (u64 \<times> u64 list) option" where
  "GetDataDig m = (case gmContent m of GossipMessage_DataDig a \<Rightarrow> a | _ \<Rightarrow> None)"

definition GetDataReq :: "GossipMessage \<Rightarrow> (u64 \<times> u64 list) option" where
  "GetDataReq m = (case gmContent m of GossipMessage_DataReq a \<Rightarrow> a | _ \<Rightarrow> None)"

definition GetDataUpdate :: "GossipMessage \<Rightarrow> DataUpdate option" where
  "GetDataUpdate m = (case gmContent m of GossipMessage_DataUpdate a \<Rightarrow> a | _ \<Rightarrow> None)"

definition GetStateInfo :: "GossipMessage \<Rightarrow> StateInfo option" where
  "GetStateInfo m = (case gmContent m of GossipMessage_StateInfo a \<Rightarrow> a | _ \<Rightarrow> None)"

definition GetStateRequest :: "GossipMessage \<Rightarrow> u64 list option" where
  "GetStateRequest m = (case gmContent m of GossipMessage_StateRequest a \<Rightarrow> a | _ \<Rightarrow> None)"

definition GetStateResponse :: "GossipMessage \<Rightarrow> Payload list option" where
  "GetStateResponse m = (case gmContent m of GossipMessage_StateResponse a \<Rightarrow> a | _ \<Rightarrow> None)"

lemmas getter_defs = GetAliveMsg_def GetMemReq_def GetMemRes_def GetDataMsg_def GetHello_def GetDataDig_def GetDataReq_def
  GetDataUpdate_def GetStateInfo_def GetStateRequest_def GetStateResponse_def

lemma getter_Some:
  "GetAliveMsg m = Some a \<longleftrightarrow> gmContent m = GossipMessage_AliveMsg (Some a)"
  "GetMemReq m = Some q \<longleftrightarrow> gmContent m = GossipMessage_MemReq (Some q)"
  "GetMemRes m = Some r \<longleftrightarrow> gmContent m = GossipMessage_MemRes (Some r)"
  "GetDataMsg m = Some d \<longleftrightarrow> gmContent m = GossipMessage_DataMsg (Some d)"
  "GetStateInfo m = Some i \<longleftrightarrow> gmContent m = GossipMessage_StateInfo (Some i)"
  by (simp_all add: getter_defs split: Content.splits)

section \<open>Helpers\<close>

text \<open>The test for equality may itself panic.\<close>

fun IndexInSlice_from :: "int \<Rightarrow> 'a list \<Rightarrow> 'b \<Rightarrow> ('a \<Rightarrow> 'b \<Rightarrow> error + bool) \<Rightarrow> error + int" where
  "IndexInSlice_from i [] x equals = Inr (- 1)"
| "IndexInSlice_from i (a # arr) x equals =
     bindE (equals a x) (\<lambda>b. if b then Inr i else IndexInSlice_from (i + 1) arr x equals)"

definition IndexInSlice :: "'a list \<Rightarrow> 'b \<Rightarrow> ('a \<Rightarrow> 'b \<Rightarrow> error + bool) \<Rightarrow> error + int" where
  "IndexInSlice = IndexInSlice_from 0"

text \<open>
  The loop of \<open>GetRandomIndices\<close> draws numbers until it has enough. The draws are an argument: the loop
  has not returned, None, when they do not suffice.
\<close>

fun randomIndices_loop :: "int \<Rightarrow> int list \<Rightarrow> int list \<Rightarrow> int list option" where
  "randomIndices_loop indiceCount indices draws =
     (if int (length indices) < indiceCount then
        (case draws of
           [] \<Rightarrow> None
         | n # draws' \<Rightarrow>
             if IndexInSlice indices n (\<lambda>a b. Inr (a = b)) \<noteq> Inr (- 1) then randomIndices_loop indiceCount indices draws'
             else randomIndices_loop indiceCount (indices @ [n]) draws')
      else Some indices)"

declare randomIndices_loop.simps [simp del]

text \<open>A draw is \<open>rand.Intn (highestIndex + 1)\<close>: a number from 0 to \<open>highestIndex\<close>. A nil result is the empty list.\<close>

definition GetRandomIndices :: "(int \<Rightarrow> int list) \<Rightarrow> int \<Rightarrow> int \<Rightarrow> int list option" where
  "GetRandomIndices rand_Intn indiceCount highestIndex =
     (if highestIndex + 1 < indiceCount then Some []
      else if highestIndex + 1 = indiceCount then Some (map int [0 ..< nat indiceCount])
      else randomIndices_loop indiceCount [] (rand_Intn (highestIndex + 1)))"

definition Abs_u64 :: "u64 \<Rightarrow> u64 \<Rightarrow> u64" where
  "Abs_u64 a b = (if a > b then a - b else b - a)"

text \<open>A set is a map to the empty struct.\<close>

type_synonym 'a Set = "('a, unit) gomap"

definition NewSet :: "'a Set" where
  "NewSet = []"

definition set_Add :: "'a \<Rightarrow> 'a Set \<Rightarrow> 'a Set" where
  "set_Add item s = mput item () s"

definition set_Exists :: "'a \<Rightarrow> 'a Set \<Rightarrow> bool" where
  "set_Exists item s \<longleftrightarrow> map_of s item \<noteq> None"

definition set_ToArray :: "('a, unit) map_order \<Rightarrow> 'a Set \<Rightarrow> 'a list" where
  "set_ToArray ord s = map fst (ord s)"

definition set_Clear :: "'a Set \<Rightarrow> 'a Set" where
  "set_Clear s = []"

definition set_Remove :: "'a \<Rightarrow> 'a Set \<Rightarrow> 'a Set" where
  "set_Remove item s = mdel item s"

definition items :: "'a Set \<Rightarrow> 'a set" where
  "items s = fst ` set s"

lemma set_Exists_items: "set_Exists item s \<longleftrightarrow> item \<in> items s"
  by (auto simp: set_Exists_def items_def map_of_eq_None_iff)

lemma items_simps [simp]:
  "items (set_Add item s) = insert item (items s)" "items (set_Remove item s) = items s - {item}"
  "items (set_Clear s) = {}" "items NewSet = {}"
  by (auto simp: items_def set_Add_def fst_mput set_Remove_def mdel_def set_Clear_def NewSet_def)

lemma set_ToArray_items: "order_ok ord \<Longrightarrow> set (set_ToArray ord s) = items s"
  by (simp add: set_ToArray_def items_def order_ok_set)

lemma IndexInSlice_from_total:
  assumes "\<forall>a \<in> set arr. equals a x = Inr (eq a)"
  shows "IndexInSlice_from i arr x equals =
    Inr (if \<exists>a \<in> set arr. eq a then i + int (LEAST k. k < length arr \<and> eq (arr ! k)) else - 1)"
  using assms
proof (induction arr arbitrary: i)
  case (Cons a arr)
  show ?case
  proof (cases "eq a")
    case True
    then have "(LEAST k. k < length (a # arr) \<and> eq ((a # arr) ! k)) = 0" by (intro Least_equality) auto
    with True Cons.prems show ?thesis by simp
  next
    case False
    have "(LEAST k. k < length (a # arr) \<and> eq ((a # arr) ! k)) = Suc (LEAST k. k < length arr \<and> eq (arr ! k))"
      if ex: "\<exists>b \<in> set arr. eq b"
    proof -
      obtain j where "j < length arr \<and> eq (arr ! j)" using ex by (auto simp: in_set_conv_nth)
      then show ?thesis using False Least_Suc [of "\<lambda>k. k < length (a # arr) \<and> eq ((a # arr) ! k)" "Suc j"] by simp
    qed
    with False Cons show ?thesis by auto
  qed
qed simp

text \<open>A search either fails, and no element is equal, or splits the slice at the first one that is.\<close>

lemma IndexInSlice_cases:
  assumes "\<forall>a \<in> set arr. equals a x = Inr (eq a)"
  obtains (none) "IndexInSlice arr x equals = Inr (- 1)" "\<forall>a \<in> set arr. \<not> eq a"
  | (found) i where "IndexInSlice arr x equals = Inr (int i)" "i < length arr" "eq (arr ! i)" "\<forall>j < i. \<not> eq (arr ! j)"
proof (cases "\<exists>a \<in> set arr. eq a")
  case True
  define P where "P k \<longleftrightarrow> k < length arr \<and> eq (arr ! k)" for k
  obtain j where "P j" using True by (auto simp: in_set_conv_nth P_def)
  then have i: "P (Least P)" by (rule LeastI)
  have "\<not> P k" if "k < Least P" for k using that by (rule not_less_Least)
  then have "\<forall>k < Least P. \<not> eq (arr ! k)" using i unfolding P_def by (meson order.strict_trans)
  moreover have "IndexInSlice arr x equals = Inr (int (Least P))"
    unfolding IndexInSlice_def IndexInSlice_from_total [of arr equals x eq 0, OF assms] P_def using True by simp
  ultimately show thesis using found [of "Least P"] i by (simp add: P_def)
next
  case False
  then have "IndexInSlice arr x equals = Inr (- 1)"
    unfolding IndexInSlice_def IndexInSlice_from_total [of arr equals x eq 0, OF assms] by simp
  with False show thesis using none by blast
qed

lemma IndexInSlice_mem: "IndexInSlice xs n (\<lambda>a b. Inr (a = b)) = Inr (- 1) \<longleftrightarrow> n \<notin> set xs"
  by (rule IndexInSlice_cases [of xs "\<lambda>a b. Inr (a = b)" n "\<lambda>a. a = n"]) auto

lemma randomIndices_loop_simps [simp]:
  "randomIndices_loop k indices [] = (if int (length indices) < k then None else Some indices)"
  "randomIndices_loop k indices (n # draws) =
     (if int (length indices) < k then randomIndices_loop k (if n \<in> set indices then indices else indices @ [n]) draws
      else Some indices)"
  using IndexInSlice_mem [of indices n] by (subst randomIndices_loop.simps, simp)+

lemma randomIndices_loop_sound:
  assumes "randomIndices_loop k indices draws = Some r" and "distinct indices" and "set indices \<union> set draws \<subseteq> D"
    and "int (length indices) \<le> k"
  shows "distinct r \<and> set r \<subseteq> D \<and> int (length r) = k"
  using assms
proof (induction draws arbitrary: indices)
  case (Cons n draws)
  show ?case
  proof (cases "int (length indices) < k")
    case True
    then show ?thesis using Cons.IH [of "if n \<in> set indices then indices else indices @ [n]"] Cons.prems by (auto split: if_splits)
  qed (use Cons.prems in auto)
qed (auto split: if_splits)

text \<open>Enough different draws make the loop return.\<close>

lemma randomIndices_loop_total:
  "k \<le> int (card (set indices \<union> set draws)) \<Longrightarrow> distinct indices \<Longrightarrow> \<exists>r. randomIndices_loop k indices draws = Some r"
proof (induction draws arbitrary: indices)
  case (Cons n draws)
  then show ?case
    using Cons.IH [of "if n \<in> set indices then indices else indices @ [n]"] by (auto simp: insert_absorb)
qed (auto simp: distinct_card)

lemma GetRandomIndices_sound:
  assumes "GetRandomIndices rand_Intn k (h - 1) = Some r" and "set (rand_Intn h) \<subseteq> {0 ..< h}" and "0 \<le> k" and "k \<le> h"
  shows "distinct r \<and> set r \<subseteq> {0 ..< h} \<and> int (length r) = k"
proof (cases "h = k")
  case True
  then have "r = map int [0 ..< nat k]" using assms(1) by (simp add: GetRandomIndices_def)
  then show ?thesis using assms(3) True by (auto simp: distinct_map)
next
  case False
  then have "randomIndices_loop k [] (rand_Intn h) = Some r"
    using assms(1,4) by (simp add: GetRandomIndices_def)
  from randomIndices_loop_sound [OF this, of "{0 ..< h}"] show ?thesis using assms(2,3) by simp
qed

section \<open>Which message replaces which\<close>

datatype InvalidationResult = MessageNoAction | MessageInvalidates | MessageInvalidated

definition compareTimestamps :: "PeerTime option \<Rightarrow> PeerTime option \<Rightarrow> error + InvalidationResult" where
  "compareTimestamps thisTS thatTS =
     bindE (deref thisTS) (\<lambda>a. bindE (deref thatTS) (\<lambda>b.
       if IncNumber a = IncNumber b then
         (if ptSeqNum a > ptSeqNum b then Inr MessageInvalidates else Inr MessageInvalidated)
       else if IncNumber a < IncNumber b then Inr MessageInvalidated
       else Inr MessageInvalidates))"

definition aliveInvalidationPolicy :: "AliveMessage \<Rightarrow> AliveMessage \<Rightarrow> error + InvalidationResult" where
  "aliveInvalidationPolicy thisMsg thatMsg =
     bindE (deref (amMembership thisMsg)) (\<lambda>a. bindE (deref (amMembership thatMsg)) (\<lambda>b.
       if mbPkiID a \<noteq> mbPkiID b then Inr MessageNoAction
       else compareTimestamps (amTimestamp thisMsg) (amTimestamp thatMsg)))"

definition dataInvalidationPolicy :: "int \<Rightarrow> DataMessage \<Rightarrow> DataMessage \<Rightarrow> error + InvalidationResult" where
  "dataInvalidationPolicy dataBlockStorageSize thisDataMsg thatDataMsg =
     bindE (deref (dmPayload thisDataMsg)) (\<lambda>a. bindE (deref (dmPayload thatDataMsg)) (\<lambda>b.
       if pySeqNum a = pySeqNum b then
         (if pyHash a = pyHash b then Inr MessageInvalidated else Inr MessageNoAction)
       else if Abs_u64 (pySeqNum a) (pySeqNum b) \<le> u64_of_int dataBlockStorageSize then Inr MessageNoAction
       else if pySeqNum a > pySeqNum b then Inr MessageInvalidates
       else Inr MessageInvalidated))"

definition stateInvalidationPolicy :: "StateInfo \<Rightarrow> StateInfo \<Rightarrow> error + InvalidationResult" where
  "stateInvalidationPolicy thisStateMsg thatStateMsg =
     (if siPkiID thisStateMsg \<noteq> siPkiID thatStateMsg then Inr MessageNoAction
      else compareTimestamps (siTimestamp thisStateMsg) (siTimestamp thatStateMsg))"

definition invalidationPolicy :: "int \<Rightarrow> GossipMessage \<Rightarrow> GossipMessage \<Rightarrow> error + InvalidationResult" where
  "invalidationPolicy dataBlockStorageSize this that =
     (case (GetAliveMsg this, GetAliveMsg that) of
        (Some a, Some b) \<Rightarrow> aliveInvalidationPolicy a b
      | _ \<Rightarrow>
     (case (GetDataMsg this, GetDataMsg that) of
        (Some a, Some b) \<Rightarrow> dataInvalidationPolicy dataBlockStorageSize a b
      | _ \<Rightarrow>
     (case (GetStateInfo this, GetStateInfo that) of
        (Some a, Some b) \<Rightarrow> stateInvalidationPolicy a b
      | _ \<Rightarrow> Inr MessageNoAction)))"

text \<open>
  A message is complete when the pointers that the policy follows are not nil.
\<close>

definition complete :: "GossipMessage \<Rightarrow> bool" where
  "complete m = (case gmContent m of
     GossipMessage_AliveMsg (Some a) \<Rightarrow> amMembership a \<noteq> None \<and> amTimestamp a \<noteq> None
   | GossipMessage_DataMsg (Some d) \<Rightarrow> dmPayload d \<noteq> None
   | GossipMessage_StateInfo (Some s) \<Rightarrow> siTimestamp s \<noteq> None
   | _ \<Rightarrow> True)"

section \<open>Examples\<close>

definition alive_of :: "byte \<Rightarrow> u64 \<Rightarrow> u64 \<Rightarrow> GossipMessage" where
  "alive_of p i k = \<lparr>gmNonce = 0, gmChannel = [], gmTag = EMPTY, gmContent = GossipMessage_AliveMsg (Some
     \<lparr>amMembership = Some \<lparr>mbEndpoint = [p], mbMetadata = [], mbPkiID = [p]\<rparr>,
      amTimestamp = Some \<lparr>IncNumber = i, ptSeqNum = k\<rparr>, amSignature = []\<rparr>)\<rparr>"

definition data_of :: "u64 \<Rightarrow> gostring \<Rightarrow> bytes \<Rightarrow> GossipMessage" where
  "data_of k h b = \<lparr>gmNonce = 0, gmChannel = [], gmTag = EMPTY, gmContent = GossipMessage_DataMsg (Some
     \<lparr>dmPayload = Some \<lparr>pySeqNum = k, pyHash = h, pyData = b\<rparr>\<rparr>)\<rparr>"

end
