(* ===== verification/Gossip_Store.thy ===== *)
theory Gossip_Store
  imports Gossip_Msg
begin

text \<open>
  The message store (gossip/gossip/msgs.go) and the batching emitter (gossip/gossip/batcher.go). The store
  relies on its replacing policy through the locale \<open>replacing_policy\<close>, which the comparator of gossip messages meets.
\<close>

section \<open>The message store\<close>

text \<open>The trigger is called on each message that is dropped; it acts on a state \<open>'w\<close> outside of the store.\<close>

record ('m, 'w) messageStoreImpl =
  stPol :: "'m \<Rightarrow> 'm \<Rightarrow> error + InvalidationResult"
  messages :: "'m list"
  invTrigger :: "'m \<Rightarrow> 'w \<Rightarrow> error + 'w"

definition newMessageStore ::
  "('m \<Rightarrow> 'm \<Rightarrow> error + InvalidationResult) \<Rightarrow> ('m \<Rightarrow> 'w \<Rightarrow> error + 'w) \<Rightarrow> ('m, 'w) messageStoreImpl" where
  "newMessageStore pol trigger = \<lparr>stPol = pol, messages = [], invTrigger = trigger\<rparr>"

text \<open>The loop of \<open>add\<close>, with the messages before index \<open>i\<close> and those from \<open>i\<close> on.\<close>

fun add_loop ::
  "('m \<Rightarrow> 'm \<Rightarrow> error + InvalidationResult) \<Rightarrow> ('m \<Rightarrow> 'w \<Rightarrow> error + 'w) \<Rightarrow> 'm \<Rightarrow> 'm list \<Rightarrow> 'm list \<Rightarrow> 'w \<Rightarrow>
   error + bool \<times> 'm list \<times> 'w" where
  "add_loop pol trigger message before [] w = Inr (True, before @ [message], w)"
| "add_loop pol trigger message before (m # rest) w =
     bindE (pol message m) (\<lambda>r. case r of
       MessageInvalidated \<Rightarrow> Inr (False, before @ m # rest, w)
     | MessageInvalidates \<Rightarrow> bindE (trigger m w) (add_loop pol trigger message before rest)
     | MessageNoAction \<Rightarrow> add_loop pol trigger message (before @ [m]) rest w)"

definition store_add :: "'m \<Rightarrow> ('m, 'w) messageStoreImpl \<Rightarrow> 'w \<Rightarrow> error + bool \<times> ('m, 'w) messageStoreImpl \<times> 'w" where
  "store_add message s w =
     bindE (add_loop (stPol s) (invTrigger s) message [] (messages s) w)
       (\<lambda>(added, ms, w). Inr (added, s\<lparr>messages := ms\<rparr>, w))"

definition store_size :: "('m, 'w) messageStoreImpl \<Rightarrow> int" where
  "store_size s = int (length (messages s))"

definition store_get :: "('m, 'w) messageStoreImpl \<Rightarrow> 'm list" where
  "store_get s = messages s"

text \<open>Messages added one after the other.\<close>

fun store_adds :: "'m list \<Rightarrow> ('m, 'w) messageStoreImpl \<Rightarrow> 'w \<Rightarrow> error + ('m, 'w) messageStoreImpl \<times> 'w" where
  "store_adds [] s w = Inr (s, w)"
| "store_adds (m # ms) s w = bindE (store_add m s w) (\<lambda>(added, s, w). store_adds ms s w)"

subsection \<open>The contract of a replacing policy\<close>

locale replacing_policy =
  fixes pol :: "'m \<Rightarrow> 'm \<Rightarrow> error + InvalidationResult" and ok :: "'m \<Rightarrow> bool"
  assumes total: "ok a \<Longrightarrow> ok b \<Longrightarrow> \<exists>r. pol a b = Inr r"
    and flip: "ok a \<Longrightarrow> ok b \<Longrightarrow> pol a b = Inr MessageInvalidates \<Longrightarrow> pol b a = Inr MessageInvalidated"
    and unrelated_sym: "ok a \<Longrightarrow> ok b \<Longrightarrow> pol a b = Inr MessageNoAction \<Longrightarrow> pol b a = Inr MessageNoAction"
    and older_trans: "ok a \<Longrightarrow> ok b \<Longrightarrow> ok c \<Longrightarrow> pol a b = Inr MessageInvalidated \<Longrightarrow> pol b c = Inr MessageInvalidated \<Longrightarrow>
      pol a c = Inr MessageInvalidated"
begin

definition store_inv :: "'m list \<Rightarrow> bool" where
  "store_inv ms \<longleftrightarrow> list_all ok ms \<and> sorted_wrt (\<lambda>a b. pol a b = Inr MessageNoAction) ms"

lemma store_inv_unrelated:
  assumes "store_inv ms" and "a \<in> set ms" and "b \<in> set ms"
  shows "a = b \<or> pol a b = Inr MessageNoAction"
proof -
  obtain i j where ij: "i < length ms" "j < length ms" "a = ms ! i" "b = ms ! j"
    using assms(2,3) unfolding in_set_conv_nth by blast
  have ok: "ok a" "ok b" using assms by (auto simp: store_inv_def list_all_iff)
  have s: "pol (ms ! i) (ms ! j) = Inr MessageNoAction" if "i < j" "j < length ms" for i j
    using assms(1) that by (simp add: store_inv_def sorted_wrt_iff_nth_less)
  consider "i < j" | "i = j" | "j < i" by linarith
  then show ?thesis
  proof cases
    case 3
    then have "pol b a = Inr MessageNoAction" using s ij by simp
    then show ?thesis using unrelated_sym [OF ok(2,1)] by simp
  qed (use s ij in simp_all)
qed

lemma result_cases:
  assumes "ok a" and "ok b"
  obtains "pol a b = Inr MessageNoAction" | "pol a b = Inr MessageInvalidates" | "pol a b = Inr MessageInvalidated"
  using total [OF assms] by (metis InvalidationResult.exhaust)

lemma add_loop_accept:
  assumes "ok x" and "list_all ok rest" and "\<forall>m \<in> set rest. pol x m \<noteq> Inr MessageInvalidated"
    and "\<forall>m w. trigger m w = Inr (f m w)"
  shows "add_loop pol trigger x before rest w =
    Inr (True, before @ filter (\<lambda>m. pol x m \<noteq> Inr MessageInvalidates) rest @ [x],
      fold f (filter (\<lambda>m. pol x m = Inr MessageInvalidates) rest) w)"
  using assms(2,3)
proof (induction rest arbitrary: before w)
  case (Cons m rest)
  then have "ok m" by simp
  from assms(1) this show ?case by (rule result_cases) (use Cons assms(4) in auto)
qed simp

lemma add_loop_refuse:
  assumes "ok x" and "list_all ok rest" and "\<exists>m \<in> set rest. pol x m = Inr MessageInvalidated"
    and "\<forall>m \<in> set rest. pol x m \<noteq> Inr MessageInvalidates"
  shows "add_loop pol trigger x before rest w = Inr (False, before @ rest, w)"
  using assms(2-4)
proof (induction rest arbitrary: before)
  case (Cons m rest)
  then have "ok m" by simp
  from assms(1) this show ?case by (rule result_cases) (use Cons in auto)
qed simp

text \<open>A message that an element of the store replaces, replaces none itself.\<close>

lemma replaced_replaces_none:
  assumes "store_inv ms" and "ok x" and "b \<in> set ms" and "pol x b = Inr MessageInvalidated" and "a \<in> set ms"
  shows "pol x a \<noteq> Inr MessageInvalidates"
proof
  assume i: "pol x a = Inr MessageInvalidates"
  have ok: "ok a" "ok b" using assms by (auto simp: store_inv_def list_all_iff)
  then have "pol a b = Inr MessageInvalidated" using older_trans flip [OF assms(2) _ i] assms(2,4) by blast
  with store_inv_unrelated [OF assms(1,5,3)] i assms(4) show False by auto
qed

lemma add_spec:
  assumes "store_inv ms" and "ok x" and "\<forall>m w. trigger m w = Inr (f m w)"
  shows "add_loop pol trigger x [] ms w =
    (if \<exists>m \<in> set ms. pol x m = Inr MessageInvalidated then Inr (False, ms, w)
     else Inr (True, filter (\<lambda>m. pol x m \<noteq> Inr MessageInvalidates) ms @ [x],
       fold f (filter (\<lambda>m. pol x m = Inr MessageInvalidates) ms) w))"
proof (cases "\<exists>m \<in> set ms. pol x m = Inr MessageInvalidated")
  case True
  moreover have "\<forall>m \<in> set ms. pol x m \<noteq> Inr MessageInvalidates" using True replaced_replaces_none [OF assms(1,2)] by blast
  ultimately show ?thesis
    using add_loop_refuse [OF assms(2), of ms trigger "[]" w] assms(1) by (simp add: store_inv_def)
next
  case False
  then show ?thesis
    using add_loop_accept [OF assms(2) _ _ assms(3), of ms "[]" w] assms(1) by (simp add: store_inv_def)
qed

lemma store_inv_accept:
  assumes "store_inv ms" and "ok x" and "\<not> (\<exists>m \<in> set ms. pol x m = Inr MessageInvalidated)"
  shows "store_inv (filter (\<lambda>m. pol x m \<noteq> Inr MessageInvalidates) ms @ [x])"
proof -
  have "pol m x = Inr MessageNoAction" if "m \<in> set ms" "pol x m \<noteq> Inr MessageInvalidates" for m
  proof -
    have "ok m" using assms(1) that(1) by (simp add: store_inv_def list_all_iff)
    moreover have "pol x m \<noteq> Inr MessageInvalidated" using assms(3) that(1) by blast
    ultimately have "pol x m = Inr MessageNoAction" using result_cases [OF assms(2)] that(2) by metis
    then show ?thesis by (rule unrelated_sym [OF assms(2) \<open>ok m\<close>])
  qed
  then show ?thesis using assms by (auto simp: store_inv_def list_all_iff sorted_wrt_append sorted_wrt_filter)
qed

definition superseded :: "'m list \<Rightarrow> 'm \<Rightarrow> bool" where
  "superseded ms x \<longleftrightarrow> x \<in> set ms \<or> (\<exists>m \<in> set ms. pol x m = Inr MessageInvalidated)"

lemma superseded_accept:
  assumes "store_inv ms" and "ok x" and "ok y" and "superseded ms y"
  shows "superseded (filter (\<lambda>m. pol x m \<noteq> Inr MessageInvalidates) ms @ [x]) y"
proof -
  have "pol y x = Inr MessageInvalidated" if "m \<in> set ms" "y = m \<or> pol y m = Inr MessageInvalidated" "pol x m = Inr MessageInvalidates" for m
  proof -
    have "ok m" using assms(1) that(1) by (simp add: store_inv_def list_all_iff)
    then show ?thesis using flip [OF assms(2) _ that(3)] that(2) older_trans assms(2,3) by blast
  qed
  then show ?thesis using assms(4) unfolding superseded_def by (cases "y \<in> set ms") auto
qed

text \<open>What a run of additions from the messages \<open>ms\<close> to \<open>ms'\<close> does, for the messages \<open>xs\<close> offered.\<close>

definition keeps :: "'m list \<Rightarrow> 'm list \<Rightarrow> 'm list \<Rightarrow> bool" where
  "keeps ms xs ms' \<longleftrightarrow> store_inv ms' \<and> set ms' \<subseteq> set ms \<union> set xs \<and>
     (\<forall>y. ok y \<and> superseded ms y \<longrightarrow> superseded ms' y) \<and> (\<forall>y \<in> set xs. superseded ms' y)"

lemma keeps_Nil: "store_inv ms \<Longrightarrow> keeps ms [] ms"
  by (simp add: keeps_def)

lemma keeps_add:
  assumes "store_inv ms" and "ok x" and "\<forall>m w. trigger m w = Inr (f m w)"
  shows "\<exists>added ms' w'. add_loop pol trigger x [] ms w = Inr (added, ms', w') \<and> keeps ms [x] ms'"
proof (cases "\<exists>m \<in> set ms. pol x m = Inr MessageInvalidated")
  case True
  then have "keeps ms [x] ms" using assms(1) by (auto simp: keeps_def superseded_def)
  with True add_spec [OF assms] show ?thesis by auto
next
  case False
  have "superseded (filter (\<lambda>m. pol x m \<noteq> Inr MessageInvalidates) ms @ [x]) x" by (simp add: superseded_def)
  then have "keeps ms [x] (filter (\<lambda>m. pol x m \<noteq> Inr MessageInvalidates) ms @ [x])"
    using store_inv_accept [OF assms(1,2) False] superseded_accept [OF assms(1,2)] unfolding keeps_def by auto
  with False add_spec [OF assms] show ?thesis by auto
qed

lemma keeps_trans: "ok x \<Longrightarrow> keeps ms [x] ms1 \<Longrightarrow> keeps ms1 xs ms2 \<Longrightarrow> keeps ms (x # xs) ms2"
  unfolding keeps_def by auto

lemma store_adds_keeps:
  assumes "\<forall>m w. trigger m w = Inr (f m w)" and "list_all ok xs" and "store_inv (messages s)" and "stPol s = pol"
    and "invTrigger s = trigger"
  shows "\<exists>s' w'. store_adds xs s w = Inr (s', w') \<and> keeps (messages s) xs (messages s')"
  using assms(2-5)
proof (induction xs arbitrary: s w)
  case Nil
  then show ?case using keeps_Nil by simp
next
  case (Cons x xs)
  then have x: "ok x" by simp
  obtain added ms1 w1 where 1: "add_loop pol trigger x [] (messages s) w = Inr (added, ms1, w1)" "keeps (messages s) [x] ms1"
    using keeps_add [OF Cons.prems(2) x assms(1)] by blast
  let ?s = "s\<lparr>messages := ms1\<rparr>"
  have "\<exists>s' w'. store_adds xs ?s w1 = Inr (s', w') \<and> keeps (messages ?s) xs (messages s')"
    by (rule Cons.IH) (use Cons.prems 1(2) in \<open>simp_all add: keeps_def\<close>)
  then obtain s' w' where 2: "store_adds xs ?s w1 = Inr (s', w')" "keeps ms1 xs (messages s')" by auto
  have "store_add x s w = Inr (added, ?s, w1)" using 1(1) Cons.prems(3,4) by (simp add: store_add_def)
  with 2 keeps_trans [OF x 1(2)] show ?case by simp
qed

end

subsection \<open>The comparator of gossip messages meets the contract\<close>

definition ts_older :: "PeerTime \<Rightarrow> PeerTime \<Rightarrow> bool" where
  "ts_older a b \<longleftrightarrow> IncNumber a < IncNumber b \<or> IncNumber a = IncNumber b \<and> ptSeqNum a \<le> ptSeqNum b"

definition data_older :: "int \<Rightarrow> Payload \<Rightarrow> Payload \<Rightarrow> bool" where
  "data_older n a b \<longleftrightarrow> pySeqNum a = pySeqNum b \<and> pyHash a = pyHash b \<or>
     pySeqNum a < pySeqNum b \<and> u64_of_int n < pySeqNum b - pySeqNum a"

text \<open>\<open>older n a b\<close>: the messages are of one kind, about one subject, and \<open>b\<close> is the same or newer.\<close>

inductive older :: "int \<Rightarrow> GossipMessage \<Rightarrow> GossipMessage \<Rightarrow> bool" where
  older_alive: "gmContent a = GossipMessage_AliveMsg (Some x) \<Longrightarrow> gmContent b = GossipMessage_AliveMsg (Some y) \<Longrightarrow>
    amMembership x = Some mx \<Longrightarrow> amMembership y = Some my \<Longrightarrow> amTimestamp x = Some tx \<Longrightarrow> amTimestamp y = Some ty \<Longrightarrow>
    mbPkiID mx = mbPkiID my \<Longrightarrow> ts_older tx ty \<Longrightarrow> older n a b"
| older_data: "gmContent a = GossipMessage_DataMsg (Some x) \<Longrightarrow> gmContent b = GossipMessage_DataMsg (Some y) \<Longrightarrow>
    dmPayload x = Some px \<Longrightarrow> dmPayload y = Some py \<Longrightarrow> data_older n px py \<Longrightarrow> older n a b"
| older_state: "gmContent a = GossipMessage_StateInfo (Some x) \<Longrightarrow> gmContent b = GossipMessage_StateInfo (Some y) \<Longrightarrow>
    siPkiID x = siPkiID y \<Longrightarrow> siTimestamp x = Some tx \<Longrightarrow> siTimestamp y = Some ty \<Longrightarrow> ts_older tx ty \<Longrightarrow> older n a b"

inductive_simps older_iff: "older n a b"

lemma ts_older_trans: "ts_older a b \<Longrightarrow> ts_older b c \<Longrightarrow> ts_older a c"
  by (auto simp: ts_older_def)

lemma word_gap_trans:
  fixes a b c n :: u64
  assumes "a < b" and "n < b - a" and "b \<le> c"
  shows "a < c \<and> n < c - a"
proof -
  have "unat (c - a) = unat c - unat a" "unat (b - a) = unat b - unat a"
    using assms by (simp_all add: unat_sub less_imp_le order.strict_implies_order)
  then show ?thesis using assms by (simp add: word_less_nat_alt word_le_nat_alt)
qed

lemma data_older_trans:
  assumes "data_older n a b" and "data_older n b c"
  shows "data_older n a c"
proof (cases "pySeqNum a = pySeqNum b")
  case True
  then show ?thesis using assms by (auto simp: data_older_def)
next
  case False
  then have "pySeqNum a < pySeqNum b" "u64_of_int n < pySeqNum b - pySeqNum a" "pySeqNum b \<le> pySeqNum c"
    using assms by (auto simp: data_older_def)
  from word_gap_trans [OF this] show ?thesis by (simp add: data_older_def)
qed

lemma older_trans: "older n a b \<Longrightarrow> older n b c \<Longrightarrow> older n a c"
  by (auto simp: older_iff intro: ts_older_trans data_older_trans)

lemma compareTimestamps_older:
  "compareTimestamps (Some a) (Some b) = Inr (if ts_older a b then MessageInvalidated else MessageInvalidates)"
  "ts_older a b \<or> ts_older b a"
  by (auto simp: compareTimestamps_def ts_older_def)

lemma dataInvalidationPolicy_older:
  "dataInvalidationPolicy n \<lparr>dmPayload = Some a\<rparr> \<lparr>dmPayload = Some b\<rparr> =
     Inr (if data_older n a b then MessageInvalidated else if data_older n b a then MessageInvalidates else MessageNoAction)"
  by (auto simp: dataInvalidationPolicy_def data_older_def Abs_u64_def not_less not_le)

lemma invalidationPolicy_older:
  assumes "complete a" and "complete b"
  shows "invalidationPolicy n a b =
    Inr (if older n a b then MessageInvalidated else if older n b a then MessageInvalidates else MessageNoAction)"
proof -
  consider (alive) x y where "gmContent a = GossipMessage_AliveMsg (Some x)" "gmContent b = GossipMessage_AliveMsg (Some y)"
    | (data) x y where "gmContent a = GossipMessage_DataMsg (Some x)" "gmContent b = GossipMessage_DataMsg (Some y)"
    | (state) x y where "gmContent a = GossipMessage_StateInfo (Some x)" "gmContent b = GossipMessage_StateInfo (Some y)"
    | (other) "GetAliveMsg a = None \<or> GetAliveMsg b = None" "GetDataMsg a = None \<or> GetDataMsg b = None"
        "GetStateInfo a = None \<or> GetStateInfo b = None"
    unfolding not_Some_eq [symmetric] getter_Some by blast
  then show ?thesis
  proof cases
    case alive
    then obtain mx my tx ty where "amMembership x = Some mx" "amMembership y = Some my" "amTimestamp x = Some tx" "amTimestamp y = Some ty"
      using assms by (auto simp: complete_def)
    then show ?thesis using alive compareTimestamps_older(2) [of tx ty]
      by (auto simp: invalidationPolicy_def getter_defs aliveInvalidationPolicy_def compareTimestamps_older(1) older_iff)
  next
    case data
    then obtain px py where "x = \<lparr>dmPayload = Some px\<rparr>" "y = \<lparr>dmPayload = Some py\<rparr>"
      using assms by (cases x; cases y) (auto simp: complete_def)
    then show ?thesis using data
      by (auto simp: invalidationPolicy_def getter_defs dataInvalidationPolicy_older older_iff)
  next
    case state
    then obtain tx ty where "siTimestamp x = Some tx" "siTimestamp y = Some ty" using assms by (auto simp: complete_def)
    then show ?thesis using state compareTimestamps_older(2) [of tx ty]
      by (auto simp: invalidationPolicy_def getter_defs stateInvalidationPolicy_def compareTimestamps_older(1) older_iff)
  next
    case other
    then have "\<not> older n a b" "\<not> older n b a" unfolding not_Some_eq [symmetric] getter_Some by (auto simp: older_iff)
    then show ?thesis using other by (auto simp: invalidationPolicy_def split: option.splits)
  qed
qed

interpretation comparator: replacing_policy "invalidationPolicy n" complete for n
  by unfold_locales (auto simp: invalidationPolicy_older intro: older_trans split: if_splits)

text \<open>
  C21: The message store keeps what matters of the messages it has been offered, and nothing else. Whatever complete messages are
  added one after the other, no addition panics; the store holds only offered messages; none of two messages in it replaces
  the other; and every offered message is in the store, or a message of the same sender or of a far
  later block in the store replaces it.
\<close>

theorem message_store_keeps_newest:
  assumes "list_all complete ms" and "\<forall>m w. trigger m w = Inr (f m w)"
  shows "\<exists>s w'. store_adds ms (newMessageStore (invalidationPolicy n) trigger) w = Inr (s, w') \<and>
    set (store_get s) \<subseteq> set ms \<and>
    (\<forall>a \<in> set (store_get s). \<forall>b \<in> set (store_get s). a = b \<or> invalidationPolicy n a b = Inr MessageNoAction) \<and>
    (\<forall>a \<in> set ms. a \<in> set (store_get s) \<or>
      (\<exists>b \<in> set (store_get s). invalidationPolicy n a b = Inr MessageInvalidated))"
proof -
  let ?s = "newMessageStore (invalidationPolicy n) trigger"
  have "comparator.store_inv n (messages ?s)" by (simp add: newMessageStore_def comparator.store_inv_def)
  then obtain s w' where s: "store_adds ms ?s w = Inr (s, w')" and k: "comparator.keeps n (messages ?s) ms (messages s)"
    using comparator.store_adds_keeps [OF assms(2,1), of n ?s w] by (auto simp: newMessageStore_def)
  have "set (messages s) \<subseteq> set ms" "\<forall>a \<in> set ms. comparator.superseded n (messages s) a"
    using k by (simp_all add: comparator.keeps_def newMessageStore_def)
  moreover have "comparator.store_inv n (messages s)" using k by (simp add: comparator.keeps_def)
  ultimately show ?thesis
    using s comparator.store_inv_unrelated [of n "messages s"] by (auto simp: store_get_def comparator.superseded_def)
qed

lemma example_messages_complete: "list_all complete [alive_of 1 1 1, data_of 1 [7] [], alive_of 1 1 2, data_of 9 [8] [], alive_of 1 1 1]"
  by code_simp

lemma message_store_keeps_newest_witness:
  "\<exists>s w'. store_adds [alive_of 1 1 1, data_of 1 [7] [], alive_of 1 1 2, data_of 9 [8] [], alive_of 1 1 1]
     (newMessageStore (invalidationPolicy 5) (\<lambda>m w. Inr (w + 1))) (0::nat) = Inr (s, w') \<and>
     set (store_get s) \<subseteq> {alive_of 1 1 1, data_of 1 [7] [], alive_of 1 1 2, data_of 9 [8] []}"
  using message_store_keeps_newest [OF example_messages_complete, of "\<lambda>m w. Inr (w + 1)" "\<lambda>m w. w + 1" 5 "0::nat"]
  by auto

section \<open>The batching emitter\<close>

record 'm batchedMessage =
  bmData :: 'm
  iterationsLeft :: int

record 'm batchingEmitterImpl =
  iterations :: int
  burstSize :: int
  buff :: "'m batchedMessage list"
  emStop :: bool

definition newBatchingEmitter :: "int \<Rightarrow> int \<Rightarrow> 'm batchingEmitterImpl" where
  "newBatchingEmitter its burst = \<lparr>iterations = its, burstSize = burst, buff = [], emStop = False\<rparr>"

fun decrement_loop :: "'m batchedMessage list \<Rightarrow> 'm batchedMessage list" where
  "decrement_loop [] = []"
| "decrement_loop (m # rest) =
     (let m = m\<lparr>iterationsLeft := goint (iterationsLeft m - 1)\<rparr>
      in if iterationsLeft m = 0 then decrement_loop rest else m # decrement_loop rest)"

definition decrementCounters :: "'m batchingEmitterImpl \<Rightarrow> 'm batchingEmitterImpl" where
  "decrementCounters p = p\<lparr>buff := decrement_loop (buff p)\<rparr>"

text \<open>\<open>emit\<close> returns the calls of the callback, each with the messages to send.\<close>

definition emit :: "'m batchingEmitterImpl \<Rightarrow> 'm batchingEmitterImpl \<times> 'm list list" where
  "emit p =
     (if emStop p then (p, [])
      else if length (buff p) = 0 then (p, [])
      else (decrementCounters p, [map bmData (buff p)]))"

definition emitter_Stop :: "'m batchingEmitterImpl \<Rightarrow> 'm batchingEmitterImpl" where
  "emitter_Stop p = p\<lparr>emStop := True\<rparr>"

definition emitter_Size :: "'m batchingEmitterImpl \<Rightarrow> int" where
  "emitter_Size p = int (length (buff p))"

definition emitter_Add :: "'m \<Rightarrow> 'm batchingEmitterImpl \<Rightarrow> 'm batchingEmitterImpl \<times> 'm list list" where
  "emitter_Add message p =
     (let p = p\<lparr>buff := buff p @ [\<lparr>bmData = message, iterationsLeft = iterations p\<rparr>]\<rparr>
      in if int (length (buff p)) \<ge> burstSize p then emit p else (p, []))"

text \<open>What happens to an emitter until it is stopped: additions, and turns of the loop of \<open>periodicEmit\<close>.\<close>

datatype 'm emitterEvent = EmAdd 'm | EmTick

fun emitter_run :: "'m emitterEvent list \<Rightarrow> 'm batchingEmitterImpl \<Rightarrow> 'm batchingEmitterImpl \<times> 'm list list" where
  "emitter_run [] p = (p, [])"
| "emitter_run (e # es) p =
     (let (p, out) = (case e of EmAdd m \<Rightarrow> emitter_Add m p | EmTick \<Rightarrow> emit p); (p, outs) = emitter_run es p
      in (p, out @ outs))"

text \<open>How often the emitter still is to emit a message, and how often it has.\<close>

definition left_of :: "'m \<Rightarrow> 'm batchedMessage list \<Rightarrow> int" where
  "left_of m bs = (\<Sum>b\<leftarrow>filter (\<lambda>b. bmData b = m) bs. iterationsLeft b)"

definition emitted :: "'m \<Rightarrow> 'm list list \<Rightarrow> int" where
  "emitted m out = int (count_list (concat out) m)"

definition em_ok :: "int \<Rightarrow> 'm batchingEmitterImpl \<Rightarrow> bool" where
  "em_ok k p \<longleftrightarrow> \<not> emStop p \<and> iterations p = k \<and> (\<forall>b \<in> set (buff p). 0 < iterationsLeft b \<and> iterationsLeft b \<le> k)"

lemma emitted_simps [simp]: "emitted m (xs @ ys) = emitted m xs + emitted m ys" "emitted m [] = 0" "emitted m [zs] = int (count_list zs m)"
  by (simp_all add: emitted_def)

lemma left_of_simps [simp]:
  "left_of m [] = 0" "left_of m (bs @ cs) = left_of m bs + left_of m cs"
  "left_of m (b # bs) = (if bmData b = m then iterationsLeft b else 0) + left_of m bs"
  by (simp_all add: left_of_def)

lemma decrement_loop_spec:
  assumes "k \<le> maxint" and "\<forall>b \<in> set bs. 0 < iterationsLeft b \<and> iterationsLeft b \<le> k"
  shows "left_of m (decrement_loop bs) + int (count_list (map bmData bs) m) = left_of m bs"
    "\<forall>b \<in> set (decrement_loop bs). 0 < iterationsLeft b \<and> iterationsLeft b \<le> k - 1"
  using assms(2) by (induction bs) (use assms(1) in \<open>auto simp: goint_id Let_def\<close>)

lemma emit_spec:
  assumes "em_ok k p" and "k \<le> maxint" and "emit p = (p', out)"
  shows "em_ok k p' \<and> left_of m (buff p') + emitted m out = left_of m (buff p) \<and>
    (\<forall>b \<in> set (buff p'). iterationsLeft b \<le> k - 1) \<and>
    (\<forall>j. (\<forall>b \<in> set (buff p). iterationsLeft b \<le> j) \<longrightarrow> (\<forall>b \<in> set (buff p'). iterationsLeft b \<le> j - 1))"
proof (cases "buff p = []")
  case True
  then show ?thesis using assms by (auto simp: emit_def em_ok_def)
next
  case False
  then have p': "p' = decrementCounters p" "out = [map bmData (buff p)]" using assms by (auto simp: emit_def em_ok_def)
  have le: "\<forall>b \<in> set (buff p'). 0 < iterationsLeft b \<and> iterationsLeft b \<le> min k j - 1"
    if "\<forall>b \<in> set (buff p). iterationsLeft b \<le> j" for j
    using decrement_loop_spec(2) [of "min k j" "buff p"] that assms(1,2) by (auto simp: p' em_ok_def decrementCounters_def)
  have "\<forall>b \<in> set (buff p). iterationsLeft b \<le> k" using assms(1) by (simp add: em_ok_def)
  then have "\<forall>b \<in> set (buff p'). 0 < iterationsLeft b \<and> iterationsLeft b \<le> k - 1" using le [of k] by simp
  moreover have "left_of m (buff p') + emitted m out = left_of m (buff p)"
    using decrement_loop_spec(1) [OF assms(2), of "buff p" m] assms(1) by (simp add: p' em_ok_def decrementCounters_def)
  moreover have "\<not> emStop p' \<and> iterations p' = k" using assms(1) by (simp add: p' em_ok_def decrementCounters_def)
  ultimately show ?thesis using le unfolding em_ok_def by fastforce
qed

lemma emitter_run_inv:
  assumes "em_ok k p" and "0 < k" and "k \<le> maxint" and "emitter_run es p = (p', out)"
  shows "em_ok k p' \<and> left_of m (buff p') + emitted m out = left_of m (buff p) + k * int (count_list es (EmAdd m))"
  using assms(1,4)
proof (induction es arbitrary: p out)
  case (Cons e es)
  obtain p1 out1 where 1: "(case e of EmAdd m \<Rightarrow> emitter_Add m p | EmTick \<Rightarrow> emit p) = (p1, out1)" by fastforce
  obtain out2 where 2: "emitter_run es p1 = (p', out2)" "out = out1 @ out2" using Cons.prems(2) 1 by (auto split: prod.splits)
  have "em_ok k p1 \<and> left_of m (buff p1) + emitted m out1 = left_of m (buff p) + (if e = EmAdd m then k else 0)"
  proof (cases e)
    case (EmAdd x)
    let ?p = "p\<lparr>buff := buff p @ [\<lparr>bmData = x, iterationsLeft = iterations p\<rparr>]\<rparr>"
    have "em_ok k ?p" using Cons.prems(1) assms(2) by (auto simp: em_ok_def)
    moreover have "left_of m (buff ?p) = left_of m (buff p) + (if x = m then k else 0)" using Cons.prems(1) by (simp add: em_ok_def)
    ultimately show ?thesis
      using EmAdd 1 emit_spec [of k ?p p1 out1 m] assms(3) by (auto simp: emitter_Add_def Let_def split: if_splits)
  next
    case EmTick
    then show ?thesis using 1 emit_spec [OF Cons.prems(1) assms(3)] by simp
  qed
  then show ?case using Cons.IH [OF _ 2(1)] 2(2) by (simp add: algebra_simps)
qed simp

lemma ticks_drain:
  assumes "em_ok k p" and "k \<le> maxint" and "\<forall>b \<in> set (buff p). iterationsLeft b \<le> int j"
  shows "buff (fst (emitter_run (replicate j EmTick) p)) = []"
  using assms(1,3)
proof (induction j arbitrary: p)
  case 0
  then show ?case by (cases "buff p") (auto simp: em_ok_def)
next
  case (Suc j)
  obtain p1 out where 1: "emit p = (p1, out)" by fastforce
  have "em_ok k p1" "\<forall>b \<in> set (buff p1). iterationsLeft b \<le> int j"
    using emit_spec [OF Suc.prems(1) assms(2) 1] Suc.prems(2) by (force)+
  from Suc.IH [OF this] 1 show ?case by (simp add: Let_def case_prod_unfold)
qed

text \<open>
  C22: A message given to the emitter is emitted exactly as often as configured, whatever the burst size and the order of
  additions and rounds. At any time, the emissions made and the iterations left add up to the configured number for each
  addition; and after that number of further rounds nothing is left, so all have been made.
\<close>

theorem messages_emitted_exactly:
  assumes "0 < k" and "k \<le> maxint" and "emitter_run es (newBatchingEmitter k burst) = (p, out)"
    and "emitter_run (replicate (nat k) EmTick) p = (p', out')"
  shows "emitted m out + left_of m (buff p) = k * int (count_list es (EmAdd m)) \<and>
    buff p' = [] \<and> emitted m (out @ out') = k * int (count_list es (EmAdd m))"
proof -
  have 0: "em_ok k (newBatchingEmitter k burst)" "left_of m (buff (newBatchingEmitter k burst)) = 0"
    by (simp_all add: em_ok_def newBatchingEmitter_def)
  from emitter_run_inv [OF this(1) assms(1-3), of m] 0(2)
  have 1: "em_ok k p" "emitted m out + left_of m (buff p) = k * int (count_list es (EmAdd m))" by (simp_all add: add.commute)
  have "buff (fst (emitter_run (replicate (nat k) EmTick) p)) = []"
    by (rule ticks_drain [OF 1(1) assms(2)]) (use 1(1) assms(1) in \<open>simp add: em_ok_def\<close>)
  then have 2: "buff p' = []" using assms(4) by simp
  have "count_list (replicate (nat k) EmTick) (EmAdd m) = 0" by (simp add: count_list_0_iff)
  with emitter_run_inv [OF 1(1) assms(1,2,4), of m] 1(2) 2 show ?thesis by simp
qed

lemma messages_emitted_exactly_witness:
  "\<exists>p out p' out'. emitter_run [EmAdd 7, EmAdd 8, EmTick, EmAdd 7] (newBatchingEmitter 2 3) = (p, out) \<and>
     emitter_run (replicate (nat 2) EmTick) p = (p', out') \<and> emitted (7::nat) (out @ out') = 4"
proof -
  obtain p out where 1: "emitter_run [EmAdd (7::nat), EmAdd 8, EmTick, EmAdd 7] (newBatchingEmitter 2 3) = (p, out)" by fastforce
  obtain p' out' where 2: "emitter_run (replicate (nat 2) EmTick) p = (p', out')" by fastforce
  have "emitted 7 (out @ out') = 4" using messages_emitted_exactly [OF _ _ 1 2, of 7] by (simp add: maxint_def)
  with 1 2 show ?thesis by blast
qed

end
