(* ===== verification/Gossip_Pull.thy ===== *)
theory Gossip_Pull
  imports Gossip_Msg
begin

text \<open>
  The pull engine (gossip/gossip/algo/pull.go): an initiator asks peers which items they hold, and requests the ones it
  misses. The adapter that sends messages is not called but its calls are returned. Random numbers and the order of
  iteration over maps are arguments. Timers are not modelled: \<open>processIncomingDigests\<close>, \<open>endPull\<close> and
  \<open>forgetNONCE\<close> are what they run.
\<close>

section \<open>The engine\<close>

record PullEngine =
  peStop :: bool
  peState :: "u64 Set"
  item2owners :: "(u64, gostring list) gomap"
  peers2nonces :: "(gostring, u64) gomap"
  nonces2peers :: "(u64, gostring) gomap"
  acceptingDigests :: bool
  acceptingResponses :: bool
  outgoingNONCES :: "u64 Set"
  incomingNONCES :: "u64 Set"

text \<open>The calls of the adapter. The context \<open>'c\<close> is the connection on which to answer.\<close>

datatype 'c pullCall =
    Hello gostring u64
  | SendDigest "u64 list" u64 'c
  | SendReq gostring "u64 list" u64
  | SendRes "u64 list" 'c u64

definition NewPullEngine :: PullEngine where
  "NewPullEngine = \<lparr>peStop = False, peState = NewSet, item2owners = [], peers2nonces = [], nonces2peers = [],
     acceptingDigests = False, acceptingResponses = False, outgoingNONCES = NewSet, incomingNONCES = NewSet\<rparr>"

text \<open>Reading a map gives the zero value for a key that is not in it.\<close>

definition mget :: "'v \<Rightarrow> 'k \<Rightarrow> ('k, 'v) gomap \<Rightarrow> 'v" where
  "mget z k m = (case map_of m k of None \<Rightarrow> z | Some v \<Rightarrow> v)"

definition acceptResponses :: "PullEngine \<Rightarrow> PullEngine" where
  "acceptResponses e = e\<lparr>acceptingResponses := True\<rparr>"

definition acceptDigests :: "PullEngine \<Rightarrow> PullEngine" where
  "acceptDigests e = e\<lparr>acceptingDigests := True\<rparr>"

definition ignoreDigests :: "PullEngine \<Rightarrow> PullEngine" where
  "ignoreDigests e = e\<lparr>acceptingDigests := False\<rparr>"

definition pull_Stop :: "PullEngine \<Rightarrow> PullEngine" where
  "pull_Stop e = e\<lparr>peStop := True\<rparr>"

text \<open>\<open>newNONCE\<close> draws until the number is new; it returns the remaining draws too.\<close>

fun newNONCE :: "u64 list \<Rightarrow> PullEngine \<Rightarrow> (u64 \<times> u64 list) option" where
  "newNONCE [] e = None"
| "newNONCE (n # draws) e = (if \<not> set_Exists n (outgoingNONCES e) then Some (n, draws) else newNONCE draws e)"

fun hello_loop :: "gostring list \<Rightarrow> u64 list \<Rightarrow> PullEngine \<Rightarrow> (PullEngine \<times> 'c pullCall list) option" where
  "hello_loop [] draws e = Some (e, [])"
| "hello_loop (peer # peers) draws e =
     (case newNONCE draws e of
        None \<Rightarrow> None
      | Some (nonce, draws) \<Rightarrow>
          (case hello_loop peers draws
              (e\<lparr>outgoingNONCES := set_Add nonce (outgoingNONCES e), nonces2peers := mput nonce peer (nonces2peers e),
                 peers2nonces := mput peer nonce (peers2nonces e)\<rparr>) of
             None \<Rightarrow> None
           | Some (e, calls) \<Rightarrow> Some (e, Hello peer nonce # calls)))"

definition initiatePull :: "gostring list \<Rightarrow> u64 list \<Rightarrow> PullEngine \<Rightarrow> (PullEngine \<times> 'c pullCall list) option" where
  "initiatePull selectPeers draws e = hello_loop selectPeers draws (acceptDigests e)"

text \<open>For each item a random one of the peers that hold it is asked.\<close>

fun request_loop ::
  "(u64 \<Rightarrow> nat \<Rightarrow> nat) \<Rightarrow> (u64, gostring list) gomap \<Rightarrow> (gostring, u64 list) gomap \<Rightarrow> error + (gostring, u64 list) gomap" where
  "request_loop rand_Intn [] requestMapping = Inr requestMapping"
| "request_loop rand_Intn ((n, sources) # rest) requestMapping =
     (if sources = [] then Inl (Panic ''invalid argument to Intn'')
      else
        let source = sources ! rand_Intn n (length sources);
            requestMapping = (if map_of requestMapping source = None then mput source [] requestMapping else requestMapping)
        in request_loop rand_Intn rest (mput source (mget [] source requestMapping @ [n]) requestMapping))"

definition processIncomingDigests ::
  "(u64 \<Rightarrow> nat \<Rightarrow> nat) \<Rightarrow> (u64, gostring list) map_order \<Rightarrow> (gostring, u64 list) map_order \<Rightarrow> PullEngine \<Rightarrow>
   error + PullEngine \<times> 'c pullCall list" where
  "processIncomingDigests rand_Intn ord ord' e =
     (let e = ignoreDigests e
      in bindE (request_loop rand_Intn (ord (item2owners e)) []) (\<lambda>requestMapping.
           Inr (acceptResponses e,
             map (\<lambda>(dest, seqsToReq). SendReq dest seqsToReq (mget 0 dest (peers2nonces e))) (ord' requestMapping))))"

definition endPull :: "PullEngine \<Rightarrow> PullEngine" where
  "endPull e = e\<lparr>acceptingResponses := False, outgoingNONCES := set_Clear (outgoingNONCES e), item2owners := [],
     peers2nonces := [], nonces2peers := []\<rparr>"

text \<open>\<open>OnDigest\<close> tests two conditions and then takes the lock; between the two other goroutines may run.\<close>

definition digest_expected :: "u64 \<Rightarrow> PullEngine \<Rightarrow> bool" where
  "digest_expected nonce e \<longleftrightarrow> \<not> (\<not> acceptingDigests e \<or> \<not> set_Exists nonce (outgoingNONCES e))"

fun digest_loop :: "u64 list \<Rightarrow> u64 \<Rightarrow> PullEngine \<Rightarrow> PullEngine" where
  "digest_loop [] nonce e = e"
| "digest_loop (n # digest) nonce e =
     (if set_Exists n (peState e) then digest_loop digest nonce e
      else
        let owners = (if map_of (item2owners e) n = None then mput n [] (item2owners e) else item2owners e)
        in digest_loop digest nonce
             (e\<lparr>item2owners := mput n (mget [] n owners @ [mget [] nonce (nonces2peers e)]) owners\<rparr>))"

definition OnDigest :: "u64 list \<Rightarrow> u64 \<Rightarrow> PullEngine \<Rightarrow> PullEngine" where
  "OnDigest digest nonce e = (if \<not> digest_expected nonce e then e else digest_loop digest nonce e)"

definition pull_Add :: "u64 list \<Rightarrow> PullEngine \<Rightarrow> PullEngine" where
  "pull_Add seqs e = e\<lparr>peState := fold set_Add seqs (peState e)\<rparr>"

definition pull_Remove :: "u64 list \<Rightarrow> PullEngine \<Rightarrow> PullEngine" where
  "pull_Remove seqs e = e\<lparr>peState := fold set_Remove seqs (peState e)\<rparr>"

definition OnHello :: "(u64, unit) map_order \<Rightarrow> u64 \<Rightarrow> 'c \<Rightarrow> PullEngine \<Rightarrow> PullEngine \<times> 'c pullCall list" where
  "OnHello ord nonce ctxt e =
     (e\<lparr>incomingNONCES := set_Add nonce (incomingNONCES e)\<rparr>, [SendDigest (set_ToArray ord (peState e)) nonce ctxt])"

definition forgetNONCE :: "u64 \<Rightarrow> PullEngine \<Rightarrow> PullEngine" where
  "forgetNONCE nonce e = e\<lparr>incomingNONCES := set_Remove nonce (incomingNONCES e)\<rparr>"

definition OnReq :: "u64 list \<Rightarrow> u64 \<Rightarrow> 'c \<Rightarrow> PullEngine \<Rightarrow> 'c pullCall list" where
  "OnReq its nonce ctxt e =
     (if \<not> set_Exists nonce (incomingNONCES e) then []
      else [SendRes (filter (\<lambda>item. set_Exists item (peState e)) its) ctxt nonce])"

definition OnRes :: "u64 list \<Rightarrow> u64 \<Rightarrow> PullEngine \<Rightarrow> PullEngine" where
  "OnRes its nonce e =
     (if \<not> set_Exists nonce (outgoingNONCES e) \<or> \<not> acceptingResponses e then e else pull_Add its e)"

section \<open>A round of pulling\<close>

text \<open>
  The engines of the peers by endpoint, and the delivery of the calls of one side to the other. The connection on which
  a peer answers is named by its endpoint.
\<close>

fun to_peers :: "(u64, unit) map_order \<Rightarrow> gostring pullCall list \<Rightarrow> (gostring \<Rightarrow> PullEngine) \<Rightarrow>
    (gostring \<Rightarrow> PullEngine) \<times> gostring pullCall list" where
  "to_peers ord [] E = (E, [])"
| "to_peers ord (call # calls) E =
     (let (E, out) = (case call of
            Hello p nonce \<Rightarrow> (let (e, out) = OnHello ord nonce p (E p) in (E(p := e), out))
          | SendReq p its nonce \<Rightarrow> (E, OnReq its nonce p (E p))
          | _ \<Rightarrow> (E, []));
          (E, outs) = to_peers ord calls E
      in (E, out @ outs))"

fun to_initiator :: "gostring pullCall list \<Rightarrow> PullEngine \<Rightarrow> PullEngine" where
  "to_initiator [] e = e"
| "to_initiator (call # calls) e =
     to_initiator calls (case call of
         SendDigest digest nonce p \<Rightarrow> OnDigest digest nonce e
       | SendRes its p nonce \<Rightarrow> OnRes its nonce e
       | _ \<Rightarrow> e)"

text \<open>A round in which every message arrives in time.\<close>

definition pull_round ::
  "gostring list \<Rightarrow> u64 list \<Rightarrow> (u64 \<Rightarrow> nat \<Rightarrow> nat) \<Rightarrow> (u64, unit) map_order \<Rightarrow> (u64, gostring list) map_order \<Rightarrow>
   (gostring, u64 list) map_order \<Rightarrow> (gostring \<Rightarrow> PullEngine) \<Rightarrow> PullEngine \<Rightarrow> (error + PullEngine) option" where
  "pull_round peers draws rand_Intn ord1 ord2 ord3 E e =
     (case initiatePull peers draws e of
        None \<Rightarrow> None
      | Some (e, hellos) \<Rightarrow>
          (let (E, digests) = to_peers ord1 hellos E; e = to_initiator digests e
           in Some (bindE (processIncomingDigests rand_Intn ord2 ord3 e) (\<lambda>(e, reqs).
                let (E, ress) = to_peers ord1 reqs E in Inr (endPull (to_initiator ress e))))))"

subsection \<open>Greeting the peers\<close>

lemma mget_mput [simp]: "mget z k (mput k' v m) = (if k = k' then v else mget z k m)"
  by (simp add: mget_def)

definition greeted :: "gostring list \<Rightarrow> u64 list \<Rightarrow> PullEngine \<Rightarrow> PullEngine" where
  "greeted peers nonces e = e\<lparr>outgoingNONCES := fold set_Add nonces (outgoingNONCES e),
     nonces2peers := fold (\<lambda>(n, p). mput n p) (zip nonces peers) (nonces2peers e),
     peers2nonces := fold (\<lambda>(p, n). mput p n) (zip peers nonces) (peers2nonces e)\<rparr>"

lemma hello_loop_spec:
  "distinct draws \<Longrightarrow> set draws \<inter> items (outgoingNONCES e) = {} \<Longrightarrow> length peers \<le> length draws \<Longrightarrow>
   hello_loop peers draws e =
     Some (greeted peers (take (length peers) draws) e, map2 Hello peers (take (length peers) draws))"
proof (induction peers draws e rule: hello_loop.induct)
  case (2 peer peers draws e)
  then obtain n draws' where d: "draws = n # draws'" by (cases draws) auto
  then have "newNONCE draws e = Some (n, draws')" using "2.prems"(2) by (auto simp: set_Exists_items)
  from "2.IH" [OF this refl] this show ?case using "2.prems" d by (simp add: greeted_def)
qed (simp add: greeted_def)

lemma items_fold_Add [simp]: "items (fold set_Add xs s) = set xs \<union> items s"
  by (induction xs arbitrary: s) auto

lemma map_of_fold_mput:
  "length ks = length vs \<Longrightarrow> distinct ks \<Longrightarrow> i < length ks \<Longrightarrow>
   map_of (fold (\<lambda>(k, v). mput k v) (zip ks vs) m) (ks ! i) = Some (vs ! i)"
proof (induction ks vs arbitrary: m i rule: list_induct2)
  case (Cons k ks v vs)
  have other: "map_of (fold (\<lambda>(k, v). mput k v) (zip ks vs) m) k = map_of m k" if "k \<notin> set ks" "length ks = length vs" for ks m and vs :: "'b list"
    using that(2,1) by (induction ks vs arbitrary: m rule: list_induct2) auto
  show ?case
  proof (cases i)
    case 0
    then show ?thesis using Cons other [of ks vs "mput k v m"] by simp
  next
    case (Suc j)
    then show ?thesis using Cons by simp
  qed
qed simp

lemma to_peers_hellos:
  "length peers = length nonces \<Longrightarrow> distinct peers \<Longrightarrow>
   to_peers ord (map2 Hello peers nonces) E =
     ((\<lambda>p. case map_of (zip peers nonces) p of
         None \<Rightarrow> E p | Some n \<Rightarrow> (E p)\<lparr>incomingNONCES := set_Add n (incomingNONCES (E p))\<rparr>),
      map2 (\<lambda>p n. SendDigest (set_ToArray ord (peState (E p))) n p) peers nonces)"
proof (induction peers nonces arbitrary: E rule: list_induct2)
  case (Cons p peers n nonces)
  let ?E = "E(p := (E p)\<lparr>incomingNONCES := set_Add n (incomingNONCES (E p))\<rparr>)"
  have p: "p \<notin> set peers" using Cons.prems by simp
  then have "map2 (\<lambda>p n. SendDigest (set_ToArray ord (peState (?E p))) n p) peers nonces =
      map2 (\<lambda>p n. SendDigest (set_ToArray ord (peState (E p))) n p) peers nonces"
    by (auto dest!: set_zip_leftD)
  moreover have "(\<lambda>q. case map_of (zip peers nonces) q of
         None \<Rightarrow> ?E q | Some n \<Rightarrow> (?E q)\<lparr>incomingNONCES := set_Add n (incomingNONCES (?E q))\<rparr>) =
      (\<lambda>q. case map_of (zip (p # peers) (n # nonces)) q of
         None \<Rightarrow> E q | Some n \<Rightarrow> (E q)\<lparr>incomingNONCES := set_Add n (incomingNONCES (E q))\<rparr>)" (is "?l = ?r")
  proof
    fix q
    have "map_of (zip peers nonces) p = None" using p by (auto simp: map_of_eq_None_iff dest!: set_zip_leftD)
    then show "?l q = ?r q" by (cases "q = p") (auto split: option.split)
  qed
  moreover have "distinct peers" using Cons.prems by simp
  ultimately have "to_peers ord (map2 Hello peers nonces) ?E = (?r, map2 (\<lambda>p n. SendDigest (set_ToArray ord (peState (E p))) n p) peers nonces)"
    by (simp only: Cons.IH)
  then show ?case by (simp add: OnHello_def)
qed simp

subsection \<open>Collecting the digests\<close>

definition owner :: "PullEngine \<Rightarrow> u64 \<Rightarrow> gostring \<Rightarrow> bool" where
  "owner e n p \<longleftrightarrow> p \<in> set (mget [] n (item2owners e))"

definition owners_ok :: "PullEngine \<Rightarrow> bool" where
  "owners_ok e \<longleftrightarrow> map_wf (item2owners e) \<and> (\<forall>n. map_of (item2owners e) n \<noteq> Some [])"

text \<open>\<open>learned e A e'\<close>: in addition to the owners in \<open>e\<close>, those in \<open>A\<close> of unknown items are recorded in \<open>e'\<close>.\<close>

definition learned :: "PullEngine \<Rightarrow> (u64 \<times> gostring) set \<Rightarrow> PullEngine \<Rightarrow> bool" where
  "learned e A e' \<longleftrightarrow> owners_ok e' \<and> e' = e\<lparr>item2owners := item2owners e'\<rparr> \<and>
     (\<forall>n p. owner e' n p \<longleftrightarrow> owner e n p \<or> (n, p) \<in> A \<and> n \<notin> items (peState e))"

lemma learned_refl: "owners_ok e \<Longrightarrow> learned e {} e"
  by (simp add: learned_def)

lemma learnedD:
  assumes "learned e A e'"
  shows "owners_ok e'" "peState e' = peState e" "nonces2peers e' = nonces2peers e" "peers2nonces e' = peers2nonces e"
    "outgoingNONCES e' = outgoingNONCES e" "acceptingDigests e' = acceptingDigests e"
    "owner e' n p \<longleftrightarrow> owner e n p \<or> (n, p) \<in> A \<and> n \<notin> items (peState e)"
proof -
  obtain m where m: "e' = e\<lparr>item2owners := m\<rparr>" using assms unfolding learned_def by blast
  show "peState e' = peState e" "nonces2peers e' = nonces2peers e" "peers2nonces e' = peers2nonces e"
    "outgoingNONCES e' = outgoingNONCES e" "acceptingDigests e' = acceptingDigests e"
    by (simp_all add: m)
  show "owners_ok e'" "owner e' n p \<longleftrightarrow> owner e n p \<or> (n, p) \<in> A \<and> n \<notin> items (peState e)"
    using assms unfolding learned_def by blast+
qed

lemma learned_trans:
  assumes "learned e A e1" and "learned e1 B e2"
  shows "learned e (A \<union> B) e2"
proof -
  obtain m1 m2 where m: "e1 = e\<lparr>item2owners := m1\<rparr>" "e2 = e1\<lparr>item2owners := m2\<rparr>" using assms unfolding learned_def by blast
  have "owner e2 n p \<longleftrightarrow> owner e n p \<or> (n, p) \<in> A \<union> B \<and> n \<notin> items (peState e)" for n p
    unfolding learnedD(7) [OF assms(2)] learnedD(7) [OF assms(1)] learnedD(2) [OF assms(1)] by blast
  then show ?thesis using learnedD(1) [OF assms(2)] m unfolding learned_def by simp
qed

lemma digest_loop_learned:
  assumes "owners_ok e"
  shows "learned e (set digest \<times> {mget [] nonce (nonces2peers e)}) (digest_loop digest nonce e)"
  using assms
proof (induction digest arbitrary: e)
  case Nil
  then show ?case using learned_refl by simp
next
  case (Cons n digest)
  let ?q = "mget [] nonce (nonces2peers e)"
  define e1 where "e1 = (if n \<in> items (peState e) then e
    else e\<lparr>item2owners := mput n (mget [] n (item2owners e) @ [?q])
      (if map_of (item2owners e) n = None then mput n [] (item2owners e) else item2owners e)\<rparr>)"
  have step: "digest_loop (n # digest) nonce e = digest_loop digest nonce e1"
    by (simp add: set_Exists_items e1_def mget_def Let_def)
  have ok: "owners_ok e1" using Cons.prems by (auto simp: owners_ok_def e1_def)
  have "owner e1 k p \<longleftrightarrow> owner e k p \<or> (k, p) \<in> {n} \<times> {?q} \<and> k \<notin> items (peState e)" for k p
    by (auto simp: owner_def e1_def)
  moreover have "e1 = e\<lparr>item2owners := item2owners e1\<rparr>" by (simp add: e1_def)
  ultimately have 1: "learned e ({n} \<times> {?q}) e1" using ok unfolding learned_def by blast
  have "learned e1 (set digest \<times> {?q}) (digest_loop digest nonce e1)"
    using Cons.IH [OF ok] learnedD(3) [OF 1] by simp
  from learned_trans [OF 1 this] step show ?case by (simp add: Sigma_Un_distrib1 [symmetric])
qed

lemma to_initiator_digests:
  assumes "length peers = length nonces" and "order_ok ord" and "owners_ok e" and "acceptingDigests e"
    and "set nonces \<subseteq> items (outgoingNONCES e)"
  shows "learned e {(n, mget [] k (nonces2peers e)) | n q k. (q, k) \<in> set (zip peers nonces) \<and> n \<in> items (peState (E q))}
    (to_initiator (map2 (\<lambda>p n. SendDigest (set_ToArray ord (peState (E p))) n p) peers nonces) e)"
  using assms(1,3-5)
proof (induction peers nonces arbitrary: e rule: list_induct2)
  case Nil
  then show ?case using learned_refl by simp
next
  case (Cons q peers k nonces)
  let ?d = "set_ToArray ord (peState (E q))"
  let ?e = "digest_loop ?d k e"
  let ?A = "\<lambda>ps ns. {(n, mget [] k (nonces2peers e)) | n q k. (q, k) \<in> set (zip ps ns) \<and> n \<in> items (peState (E q))}"
  have d: "OnDigest ?d k e = ?e" using Cons.prems by (simp add: OnDigest_def digest_expected_def set_Exists_items)
  have 1: "learned e (set ?d \<times> {mget [] k (nonces2peers e)}) ?e" by (rule digest_loop_learned [OF Cons.prems(1)])
  have "learned ?e (?A peers nonces) (to_initiator (map2 (\<lambda>p n. SendDigest (set_ToArray ord (peState (E p))) n p) peers nonces) ?e)"
    using Cons.IH [of ?e] learnedD [OF 1] Cons.prems by simp
  from learned_trans [OF 1 this]
  have "learned e (set ?d \<times> {mget [] k (nonces2peers e)} \<union> ?A peers nonces)
    (to_initiator (map2 (\<lambda>p n. SendDigest (set_ToArray ord (peState (E p))) n p) (q # peers) (k # nonces)) e)"
    using d by simp
  moreover have "set ?d \<times> {mget [] k (nonces2peers e)} \<union> ?A peers nonces = ?A (q # peers) (k # nonces)"
    unfolding set_ToArray_items [OF assms(2)] by auto
  ultimately show ?case by simp
qed

subsection \<open>Requests and responses\<close>

definition requests :: "(gostring, u64 list) gomap \<Rightarrow> (u64 \<times> gostring) set" where
  "requests m = {(n, p). n \<in> set (mget [] p m)}"

lemma request_loop_spec:
  assumes "\<forall>(n, ss) \<in> set l. ss \<noteq> []" and "map_wf m" and "\<forall>p. map_of m p \<noteq> Some []"
  shows "\<exists>m'. request_loop rand l m = Inr m' \<and> map_wf m' \<and> (\<forall>p. map_of m' p \<noteq> Some []) \<and>
    requests m' = requests m \<union> {(n, ss ! rand n (length ss)) | n ss. (n, ss) \<in> set l}"
  using assms
proof (induction l arbitrary: m)
  case (Cons a l)
  obtain n ss where a: "a = (n, ss)" by (cases a)
  let ?p = "ss ! rand n (length ss)"
  define m1 where "m1 = mput ?p (mget [] ?p m @ [n]) (if map_of m ?p = None then mput ?p [] m else m)"
  have step: "request_loop rand (a # l) m = request_loop rand l m1"
    using Cons.prems a by (simp add: m1_def Let_def mget_def)
  have "map_wf m1" "\<forall>p. map_of m1 p \<noteq> Some []" using Cons.prems by (auto simp: m1_def)
  moreover have "requests m1 = requests m \<union> {(n, ?p)}" by (auto simp: requests_def m1_def)
  moreover have "\<forall>(n, ss) \<in> set l. ss \<noteq> []" using Cons.prems by simp
  ultimately obtain m' where "request_loop rand l m1 = Inr m'" "map_wf m'" "\<forall>p. map_of m' p \<noteq> Some []"
    "requests m' = requests m \<union> {(n, ?p)} \<union> {(n, ss ! rand n (length ss)) | n ss. (n, ss) \<in> set l}"
    using Cons.IH [of m1] by auto
  with step show ?case by (auto simp: a)
qed simp

lemma processIncomingDigests_spec:
  assumes "owners_ok e" and "order_ok ord" and "order_ok ord'" and "\<forall>n k. 0 < k \<longrightarrow> rand_Intn n k < k"
  obtains l where "processIncomingDigests rand_Intn ord ord' e =
      Inr (acceptResponses (ignoreDigests e), map (\<lambda>(p, its). SendReq p its (mget 0 p (peers2nonces e))) l)"
    "\<And>p its. (p, its) \<in> set l \<Longrightarrow> its \<noteq> [] \<and> (\<forall>n \<in> set its. owner e n p)"
    "\<And>n p. owner e n p \<Longrightarrow> \<exists>(q, its) \<in> set l. n \<in> set its"
proof -
  have wf: "map_wf (item2owners e)" using assms(1) by (simp add: owners_ok_def)
  have mem: "(n, ss) \<in> set (ord (item2owners e)) \<longleftrightarrow> map_of (item2owners e) n = Some ss" for n ss
    using order_ok_set [OF assms(2)] wf by (auto simp: map_wf_def)
  then have "\<forall>(n, ss) \<in> set (ord (item2owners e)). ss \<noteq> []" using assms(1) by (auto simp: owners_ok_def)
  then obtain m where m: "request_loop rand_Intn (ord (item2owners e)) [] = Inr m" "map_wf m" "\<forall>p. map_of m p \<noteq> Some []"
    "requests m = {(n, ss ! rand_Intn n (length ss)) | n ss. map_of (item2owners e) n = Some ss}"
    using request_loop_spec [of "ord (item2owners e)" "[]" rand_Intn] by (auto simp: mem requests_def mget_def)
  have mem': "(p, its) \<in> set (ord' m) \<longleftrightarrow> map_of m p = Some its" for p its
    using order_ok_set [OF assms(3)] m(2) by (auto simp: map_wf_def)
  have asked: "owner e n p" if r: "(n, p) \<in> requests m" for n p
  proof -
    obtain ss where ss: "map_of (item2owners e) n = Some ss" "p = ss ! rand_Intn n (length ss)" using r m(4) by auto
    then have "ss \<noteq> []" using assms(1) by (auto simp: owners_ok_def)
    then show ?thesis using ss assms(4) by (simp add: owner_def mget_def)
  qed
  show thesis
  proof (rule that [of "ord' m"])
    show "processIncomingDigests rand_Intn ord ord' e =
      Inr (acceptResponses (ignoreDigests e), map (\<lambda>(p, its). SendReq p its (mget 0 p (peers2nonces e))) (ord' m))"
      using m(1) by (simp add: processIncomingDigests_def ignoreDigests_def)
  next
    fix p its
    assume "(p, its) \<in> set (ord' m)"
    then have its: "map_of m p = Some its" by (simp add: mem')
    then have "its \<noteq> []" using m(3) by auto
    moreover have "(n, p) \<in> requests m" if "n \<in> set its" for n using its that by (simp add: requests_def mget_def)
    ultimately show "its \<noteq> [] \<and> (\<forall>n \<in> set its. owner e n p)" using asked by blast
  next
    fix n p
    assume "owner e n p"
    then obtain ss where "map_of (item2owners e) n = Some ss"
      by (cases "map_of (item2owners e) n") (simp_all add: owner_def mget_def)
    then obtain q where "(n, q) \<in> requests m" using m(4) by blast
    then obtain its where "map_of m q = Some its" "n \<in> set its"
      by (cases "map_of m q") (simp_all add: requests_def mget_def)
    then show "\<exists>(q, its) \<in> set (ord' m). n \<in> set its" using mem' by blast
  qed
qed

lemma to_peers_reqs:
  "to_peers ord (map (\<lambda>(p, its). SendReq p its (f p)) l) E = (E, concat (map (\<lambda>(p, its). OnReq its (f p) p (E p)) l))"
  by (induction l) auto

lemma to_initiator_append: "to_initiator (xs @ ys) e = to_initiator ys (to_initiator xs e)"
  by (induction xs arbitrary: e) simp_all

lemma to_initiator_ress:
  assumes "acceptingResponses e" and "\<forall>(p, its) \<in> set l. f p \<in> items (outgoingNONCES e) \<and> f p \<in> items (incomingNONCES (E p))"
  shows "items (peState (to_initiator (concat (map (\<lambda>(p, its). OnReq its (f p) p (E p)) l)) e)) =
    items (peState e) \<union> {n. \<exists>(p, its) \<in> set l. n \<in> set its \<and> n \<in> items (peState (E p))}"
  using assms
proof (induction l arbitrary: e)
  case (Cons a l)
  obtain p its where a: "a = (p, its)" by (cases a)
  let ?e = "pull_Add (filter (\<lambda>n. set_Exists n (peState (E p))) its) e"
  have "to_initiator (OnReq its (f p) p (E p)) e = ?e"
    using Cons.prems a by (simp add: OnReq_def OnRes_def set_Exists_items)
  moreover have "items (peState ?e) = items (peState e) \<union> {n \<in> set its. n \<in> items (peState (E p))}"
    by (auto simp: pull_Add_def set_Exists_items)
  moreover have "acceptingResponses ?e" "outgoingNONCES ?e = outgoingNONCES e" using Cons.prems by (simp_all add: pull_Add_def)
  ultimately show ?case using Cons.IH [of ?e] Cons.prems by (auto simp: a to_initiator_append)
qed simp

subsection \<open>The whole round\<close>

text \<open>An engine between two rounds: what \<open>endPull\<close> and \<open>NewPullEngine\<close> leave.\<close>

definition between_rounds :: "PullEngine \<Rightarrow> bool" where
  "between_rounds e \<longleftrightarrow> item2owners e = [] \<and> peers2nonces e = [] \<and> nonces2peers e = [] \<and> outgoingNONCES e = []"

lemma between_rounds_reached: "between_rounds NewPullEngine" "between_rounds (endPull e)"
  by (simp_all add: between_rounds_def NewPullEngine_def NewSet_def endPull_def set_Clear_def)

text \<open>The engine after the greetings and the digests, in a form that the rest of the round needs.\<close>

lemma round_digests:
  assumes "between_rounds e" and "distinct peers" and "distinct draws" and "length peers \<le> length draws" and "order_ok ord"
  obtains nonces e1 E1 where "length nonces = length peers"
    "initiatePull peers draws e = Some (greeted peers nonces (acceptDigests e), map2 Hello peers nonces :: gostring pullCall list)"
    "to_peers ord (map2 Hello peers nonces) E = (E1, map2 (\<lambda>p n. SendDigest (set_ToArray ord (peState (E p))) n p) peers nonces)"
    "to_initiator (map2 (\<lambda>p n. SendDigest (set_ToArray ord (peState (E p))) n p) peers nonces) (greeted peers nonces (acceptDigests e)) = e1"
    "owners_ok e1" "peState e1 = peState e" "\<And>p. peState (E1 p) = peState (E p)"
    "\<And>p. p \<in> set peers \<Longrightarrow> mget 0 p (peers2nonces e1) \<in> items (outgoingNONCES e1) \<and> mget 0 p (peers2nonces e1) \<in> items (incomingNONCES (E1 p))"
    "\<And>n p. owner e1 n p \<longleftrightarrow> p \<in> set peers \<and> n \<in> items (peState (E p)) \<and> n \<notin> items (peState e)"
proof -
  define nonces where "nonces = take (length peers) draws"
  have len: "length nonces = length peers" and dist: "distinct nonces" using assms by (simp_all add: nonces_def)
  let ?e = "greeted peers nonces (acceptDigests e)"
  define e1 where "e1 = to_initiator (map2 (\<lambda>p n. SendDigest (set_ToArray ord (peState (E p))) n p) peers nonces) ?e"
  define E1 where "E1 = (\<lambda>p. case map_of (zip peers nonces) p of
         None \<Rightarrow> E p | Some n \<Rightarrow> (E p)\<lparr>incomingNONCES := set_Add n (incomingNONCES (E p))\<rparr>)"
  have out0: "items (outgoingNONCES e) = {}" using assms(1) by (simp add: between_rounds_def items_def)
  have g: "peState ?e = peState e" "item2owners ?e = []" "acceptingDigests ?e" "items (outgoingNONCES ?e) = set nonces"
    using assms(1) out0 by (simp_all add: greeted_def acceptDigests_def between_rounds_def)
  have n2p: "mget [] (nonces ! i) (nonces2peers ?e) = peers ! i" "mget 0 (peers ! i) (peers2nonces ?e) = nonces ! i" if "i < length peers" for i
    using map_of_fold_mput [of nonces peers i] map_of_fold_mput [of peers nonces i] that len dist assms(2)
    by (simp_all add: greeted_def acceptDigests_def mget_def)
  have "owners_ok ?e" using g(2) by (simp add: owners_ok_def)
  from to_initiator_digests [OF len [symmetric] assms(5) this g(3), of E] g(4)
  have l: "learned ?e {(n, mget [] k (nonces2peers ?e)) | n q k. (q, k) \<in> set (zip peers nonces) \<and> n \<in> items (peState (E q))} e1"
    by (simp add: e1_def)
  note lD = learnedD [OF l]
  have "(n, p) \<in> {(n, mget [] k (nonces2peers ?e)) | n q k. (q, k) \<in> set (zip peers nonces) \<and> n \<in> items (peState (E q))} \<longleftrightarrow>
      p \<in> set peers \<and> n \<in> items (peState (E p))" for n p
    using n2p(1) len by (force simp: in_set_zip in_set_conv_nth)
  moreover have "\<not> owner ?e n p" for n p using g(2) by (simp add: owner_def mget_def)
  ultimately have own: "owner e1 n p \<longleftrightarrow> p \<in> set peers \<and> n \<in> items (peState (E p)) \<and> n \<notin> items (peState e)" for n p
    using lD(7) [of n p] g(1) by simp
  have ans: "mget 0 p (peers2nonces e1) \<in> items (outgoingNONCES e1) \<and> mget 0 p (peers2nonces e1) \<in> items (incomingNONCES (E1 p))"
    if p: "p \<in> set peers" for p
  proof -
    obtain i where i: "i < length peers" "p = peers ! i" using p by (auto simp: in_set_conv_nth)
    then have "map_of (zip peers nonces) p = Some (nonces ! i)" using len assms(2) by (simp add: map_of_zip_nth)
    then show ?thesis using n2p(2) [OF i(1)] lD(4,5) g(4) i len by (simp add: E1_def)
  qed
  have st: "peState (E1 p) = peState (E p)" for p by (simp add: E1_def split: option.split)
  have "initiatePull peers draws e = Some (?e, map2 Hello peers nonces)"
    using hello_loop_spec [of draws "acceptDigests e" peers] assms(3,4) out0 by (simp add: initiatePull_def nonces_def acceptDigests_def)
  moreover have "to_peers ord (map2 Hello peers nonces) E = (E1, map2 (\<lambda>p n. SendDigest (set_ToArray ord (peState (E p))) n p) peers nonces)"
    unfolding E1_def by (rule to_peers_hellos [OF len [symmetric] assms(2)])
  ultimately show thesis using that [of nonces E1 e1] len e1_def lD(1,2) g(1) own ans st by simp
qed

text \<open>
  C20: A round of pulling completes. Whichever of the owners is asked for an item, and in whatever order maps are
  visited, a round in which all messages arrive in time leaves the initiator with its own items and all those of the peers it has
  selected, and ready for the next round.
\<close>

theorem pull_round_completes:
  assumes "between_rounds e" and "distinct peers" and "distinct draws" and "length peers \<le> length draws"
    and "order_ok ord1" and "order_ok ord2" and "order_ok ord3" and "\<forall>n k. 0 < k \<longrightarrow> rand_Intn n k < k"
  shows "\<exists>e'. pull_round peers draws rand_Intn ord1 ord2 ord3 E e = Some (Inr e') \<and> between_rounds e' \<and>
    items (peState e') = items (peState e) \<union> (\<Union>p \<in> set peers. items (peState (E p)))"
proof (rule round_digests [OF assms(1-5), of E])
  fix nonces and e1 :: PullEngine and E1 :: "gostring \<Rightarrow> PullEngine"
  let ?f = "\<lambda>p. mget 0 p (peers2nonces e1)"
  let ?e2 = "acceptResponses (ignoreDigests e1)"
  assume r: "initiatePull peers draws e = Some (greeted peers nonces (acceptDigests e), map2 Hello peers nonces :: gostring pullCall list)"
    "to_peers ord1 (map2 Hello peers nonces) E = (E1, map2 (\<lambda>p n. SendDigest (set_ToArray ord1 (peState (E p))) n p) peers nonces)"
    "to_initiator (map2 (\<lambda>p n. SendDigest (set_ToArray ord1 (peState (E p))) n p) peers nonces) (greeted peers nonces (acceptDigests e)) = e1"
  assume ok: "owners_ok e1" and st: "peState e1 = peState e" "\<And>p. peState (E1 p) = peState (E p)"
    and ans: "\<And>p. p \<in> set peers \<Longrightarrow> ?f p \<in> items (outgoingNONCES e1) \<and> ?f p \<in> items (incomingNONCES (E1 p))"
    and own: "\<And>n p. owner e1 n p \<longleftrightarrow> p \<in> set peers \<and> n \<in> items (peState (E p)) \<and> n \<notin> items (peState e)"
  obtain l where l: "processIncomingDigests rand_Intn ord2 ord3 e1 =
      Inr (?e2, map (\<lambda>(p, its). SendReq p its (?f p)) l :: gostring pullCall list)"
    and asked: "\<And>p its. (p, its) \<in> set l \<Longrightarrow> its \<noteq> [] \<and> (\<forall>n \<in> set its. owner e1 n p)"
    and all: "\<And>n p. owner e1 n p \<Longrightarrow> \<exists>(q, its) \<in> set l. n \<in> set its"
    by (rule processIncomingDigests_spec [OF ok assms(6-8)]) blast
  have e2: "acceptingResponses ?e2" "peState ?e2 = peState e" "outgoingNONCES ?e2 = outgoingNONCES e1"
    using st(1) by (simp_all add: acceptResponses_def ignoreDigests_def)
  have "p \<in> set peers" if "(p, its) \<in> set l" for p its
    using asked [OF that] own by (cases its) simp_all
  then have "\<forall>(p, its) \<in> set l. ?f p \<in> items (outgoingNONCES ?e2) \<and> ?f p \<in> items (incomingNONCES (E1 p))"
    using ans e2(3) by auto
  from to_initiator_ress [OF e2(1) this] have "items (peState (to_initiator (concat (map (\<lambda>(p, its). OnReq its (?f p) p (E1 p)) l)) ?e2)) =
      items (peState e) \<union> {n. \<exists>(p, its) \<in> set l. n \<in> set its \<and> n \<in> items (peState (E p))}"
    by (simp add: e2 st)
  also have "\<dots> = items (peState e) \<union> (\<Union>p \<in> set peers. items (peState (E p)))"
  proof (intro equalityI subsetI)
    fix n
    assume "n \<in> items (peState e) \<union> {n. \<exists>(p, its) \<in> set l. n \<in> set its \<and> n \<in> items (peState (E p))}"
    then show "n \<in> items (peState e) \<union> (\<Union>p \<in> set peers. items (peState (E p)))" using asked own by blast
  next
    fix n
    assume "n \<in> items (peState e) \<union> (\<Union>p \<in> set peers. items (peState (E p)))"
    then have "n \<in> items (peState e) \<or> (\<exists>p. owner e1 n p)" using own by blast
    then show "n \<in> items (peState e) \<union> {n. \<exists>(p, its) \<in> set l. n \<in> set its \<and> n \<in> items (peState (E p))}"
      using all asked own by blast
  qed
  finally show ?thesis
    using r l to_peers_reqs [of ord1 ?f l E1] between_rounds_reached(2) by (simp add: pull_round_def endPull_def)
qed

definition pull_example :: "u64 list \<Rightarrow> PullEngine" where
  "pull_example ns = pull_Add ns NewPullEngine"

lemma pull_round_completes_witness:
  "\<exists>e'. pull_round [[1], [2]] [7, 8] (\<lambda>n k. k - 1) rev rev rev
      (\<lambda>p. pull_example (if p = [1] then [3, 5] else [5, 9])) (pull_example [4]) = Some (Inr e') \<and>
     items (peState e') = {3, 4, 5, 9}"
proof -
  have "between_rounds (pull_example [4])" by (simp add: pull_example_def pull_Add_def between_rounds_def NewPullEngine_def NewSet_def)
  from pull_round_completes [OF this, of "[[1], [2]]" "[7, 8]" rev rev rev "\<lambda>n k. k - 1"
      "\<lambda>p. pull_example (if p = [1] then [3, 5] else [5, 9])"]
  show ?thesis by (auto simp: order_ok_rev pull_example_def pull_Add_def NewPullEngine_def)
qed

section \<open>A digest that is late\<close>

text \<open>
  A digest that was expected when it arrived but gets the lock only after the end of the round is filed under the empty
  endpoint; the next round asks that endpoint for the items.
\<close>

lemma late_digest_asks_nobody:
  assumes "digest_expected nonce e" and "n \<notin> items (peState e)" and "\<forall>n k. 0 < k \<longrightarrow> rand_Intn n k < k"
  shows "\<exists>e'. processIncomingDigests rand_Intn (\<lambda>m. m) (\<lambda>m. m) (digest_loop [n] nonce (endPull e)) = Inr (e', [SendReq [] [n] 0])"
proof -
  have "rand_Intn n 1 = 0" using assms(3) by (metis less_one)
  then show ?thesis
    using assms(2) by (simp add: endPull_def set_Exists_items processIncomingDigests_def ignoreDigests_def mget_def Let_def)
qed

end
