(* ===== verification/Gossip_Discovery.thy ===== *)
theory Gossip_Discovery
  imports Gossip_Msg
begin

text \<open>
  The membership service (gossip/discovery): which peers are known, which of them are alive, and the time of
  the last sign of life of each. The crypto service is an argument: \<open>V\<close> validates an alive message and \<open>sign\<close> signs one. The
  time of the clock, in nanoseconds, is an argument \<open>now\<close>. A handler takes the lock several times; what
  other goroutines do in between is an argument \<open>env\<close>, a sequence of changes of the state.
\<close>

section \<open>State\<close>

record NetworkMember =
  nmEndpoint :: gostring
  nmMetadata :: bytes
  nmPKIid :: bytes

record timestamp =
  incTime :: int
  tsSeqNum :: u64
  lastSeen :: int

record gossipDiscoveryImpl =
  dPkiID :: bytes
  dEndpoint :: gostring
  dIncTime :: u64
  dMetadata :: bytes
  dSeqNum :: u64
  deadLastTS :: "(gostring, timestamp) gomap"
  aliveLastTS :: "(gostring, timestamp) gomap"
  id2Member :: "(gostring, NetworkMember) gomap"
  cachedMembership :: MembershipResponse
  dToDie :: bool

definition NewDiscoveryService :: "NetworkMember \<Rightarrow> int \<Rightarrow> gossipDiscoveryImpl" where
  "NewDiscoveryService self now = \<lparr>dPkiID = nmPKIid self, dEndpoint = nmEndpoint self, dIncTime = u64_of_int now,
     dMetadata = nmMetadata self, dSeqNum = 0, deadLastTS = [], aliveLastTS = [], id2Member = [],
     cachedMembership = \<lparr>mrAlive = [], mrDead = []\<rparr>, dToDie = False\<rparr>"

text \<open>The messages that the service sends.\<close>

datatype discCall = SendToPeer NetworkMember GossipMessage | Gossip_msg GossipMessage | CloseConn NetworkMember

definition member_of :: "Member \<Rightarrow> NetworkMember" where
  "member_of m = \<lparr>nmEndpoint = mbEndpoint m, nmMetadata = mbMetadata m, nmPKIid = mbPkiID m\<rparr>"

definition samePKIidAliveMessage :: "AliveMessage \<Rightarrow> AliveMessage \<Rightarrow> error + bool" where
  "samePKIidAliveMessage a b =
     bindE (deref (amMembership a)) (\<lambda>x. bindE (deref (amMembership b)) (\<lambda>y. Inr (mbPkiID x = mbPkiID y)))"

definition tsToTime :: "u64 \<Rightarrow> int" where
  "tsToTime ts = int_of_u64 ts"

definition same :: "timestamp \<Rightarrow> PeerTime option \<Rightarrow> error + bool" where
  "same a b = bindE (deref b) (\<lambda>b. Inr (u64_of_int (incTime a) = IncNumber b \<and> tsSeqNum a = ptSeqNum b))"

definition before :: "timestamp \<Rightarrow> PeerTime option \<Rightarrow> error + bool" where
  "before a b = bindE (deref b) (\<lambda>b.
     Inr (u64_of_int (incTime a) = IncNumber b \<and> tsSeqNum a < ptSeqNum b \<or> u64_of_int (incTime a) < IncNumber b))"

section \<open>Changes of the membership\<close>

definition mkTimestamp :: "int \<Rightarrow> PeerTime \<Rightarrow> timestamp" where
  "mkTimestamp now t = \<lparr>incTime = tsToTime (IncNumber t), tsSeqNum = ptSeqNum t, lastSeen = now\<rparr>"

fun learnAlive :: "int \<Rightarrow> AliveMessage list \<Rightarrow> gossipDiscoveryImpl \<Rightarrow> error + gossipDiscoveryImpl" where
  "learnAlive now [] d = Inr d"
| "learnAlive now (am # ams) d =
     bindE (deref (amMembership am)) (\<lambda>m.
       if mbPkiID m = dPkiID d then learnAlive now ams d
       else bindE (deref (amTimestamp am)) (\<lambda>t.
         learnAlive now ams (d\<lparr>aliveLastTS := mput (mbPkiID m) (mkTimestamp now t) (aliveLastTS d),
           cachedMembership := (cachedMembership d)\<lparr>mrAlive := mrAlive (cachedMembership d) @ [am]\<rparr>\<rparr>)))"

fun learnDead :: "int \<Rightarrow> AliveMessage list \<Rightarrow> gossipDiscoveryImpl \<Rightarrow> error + gossipDiscoveryImpl" where
  "learnDead now [] d = Inr d"
| "learnDead now (dm # dms) d =
     bindE (deref (amMembership dm)) (\<lambda>m.
       if mbPkiID m = dPkiID d then learnDead now dms d
       else bindE (deref (amTimestamp dm)) (\<lambda>t.
         learnDead now dms (d\<lparr>deadLastTS := mput (mbPkiID m) (mkTimestamp now t) (deadLastTS d),
           cachedMembership := (cachedMembership d)\<lparr>mrDead := mrDead (cachedMembership d) @ [dm]\<rparr>\<rparr>)))"

fun updateMembers :: "AliveMessage list \<Rightarrow> gossipDiscoveryImpl \<Rightarrow> error + gossipDiscoveryImpl" where
  "updateMembers [] d = Inr d"
| "updateMembers (am # ams) d =
     bindE (deref (amMembership am)) (\<lambda>m. updateMembers ams (d\<lparr>id2Member := mput (mbPkiID m) (member_of m) (id2Member d)\<rparr>))"

definition learnNewMembers ::
  "int \<Rightarrow> AliveMessage list \<Rightarrow> AliveMessage list \<Rightarrow> gossipDiscoveryImpl \<Rightarrow> error + gossipDiscoveryImpl" where
  "learnNewMembers now aliveMembers deadMembers d =
     bindE (learnAlive now aliveMembers d) (\<lambda>d. bindE (learnDead now deadMembers d) (\<lambda>d.
       updateMembers (aliveMembers @ deadMembers) d))"

fun learnExistingMembers :: "int \<Rightarrow> AliveMessage list \<Rightarrow> gossipDiscoveryImpl \<Rightarrow> error + gossipDiscoveryImpl" where
  "learnExistingMembers now [] d = Inr d"
| "learnExistingMembers now (am # ams) d =
     bindE (deref (amMembership am)) (\<lambda>m.
     bindE (deref (map_of (id2Member d) (mbPkiID m))) (\<lambda>member.
       let d = d\<lparr>id2Member := mput (mbPkiID m) (member\<lparr>nmEndpoint := mbEndpoint m, nmMetadata := mbMetadata m\<rparr>) (id2Member d)\<rparr>
       in if map_of (deadLastTS d) (mbPkiID m) \<noteq> None then learnExistingMembers now ams d
          else (case map_of (aliveLastTS d) (mbPkiID m) of
             None \<Rightarrow> learnExistingMembers now ams d
           | Some alive \<Rightarrow>
               bindE (deref (amTimestamp am)) (\<lambda>t.
               bindE (IndexInSlice (mrAlive (cachedMembership d)) am samePKIidAliveMessage) (\<lambda>i.
                 learnExistingMembers now ams
                   (d\<lparr>aliveLastTS := mput (mbPkiID m) (mkTimestamp now t) (aliveLastTS d),
                     cachedMembership := (cachedMembership d)\<lparr>mrAlive :=
                       (if i = - 1 then mrAlive (cachedMembership d) @ [am]
                        else (mrAlive (cachedMembership d))[nat i := am])\<rparr>\<rparr>))))))"

text \<open>The message with nothing but an id that the searches in the cached membership use.\<close>

definition msgWithID :: "bytes \<Rightarrow> AliveMessage" where
  "msgWithID pkiID = \<lparr>amMembership = Some \<lparr>mbEndpoint = [], mbMetadata = [], mbPkiID = pkiID\<rparr>, amTimestamp = None, amSignature = []\<rparr>"

definition resurrectMember :: "int \<Rightarrow> AliveMessage \<Rightarrow> PeerTime \<Rightarrow> gossipDiscoveryImpl \<Rightarrow> error + gossipDiscoveryImpl" where
  "resurrectMember now am t d =
     bindE (deref (amMembership am)) (\<lambda>member.
       let pkiID = mbPkiID member;
           d = d\<lparr>aliveLastTS := mput pkiID (mkTimestamp now t) (aliveLastTS d),
             id2Member := mput pkiID (member_of member) (id2Member d), deadLastTS := mdel pkiID (deadLastTS d)\<rparr>;
           cm = cachedMembership d
       in bindE (IndexInSlice (mrDead cm) (msgWithID pkiID) samePKIidAliveMessage) (\<lambda>i.
            let cm = (if i \<noteq> - 1 then cm\<lparr>mrDead := take (nat i) (mrDead cm) @ drop (nat i + 1) (mrDead cm)\<rparr> else cm)
            in bindE (IndexInSlice (mrAlive cm) am samePKIidAliveMessage) (\<lambda>j.
                 Inr (d\<lparr>cachedMembership := (if j = - 1 then cm\<lparr>mrAlive := mrAlive cm @ [am]\<rparr> else cm)\<rparr>))))"

text \<open>The loop of \<open>expireDeadMembers\<close> under the lock; the members whose connections to close may be nil pointers.\<close>

fun expire_loop :: "bytes list \<Rightarrow> gossipDiscoveryImpl \<Rightarrow> error + gossipDiscoveryImpl \<times> NetworkMember option list" where
  "expire_loop [] d = Inr (d, [])"
| "expire_loop (pkiID # dead) d =
     (case map_of (aliveLastTS d) pkiID of
        None \<Rightarrow> expire_loop dead d
      | Some lastTS \<Rightarrow>
          (let member = map_of (id2Member d) pkiID;
               cm = cachedMembership d
           in bindE (IndexInSlice (mrAlive cm) (msgWithID pkiID) samePKIidAliveMessage) (\<lambda>i.
                bindE (expire_loop dead
                    (d\<lparr>deadLastTS := mput pkiID lastTS (deadLastTS d), aliveLastTS := mdel pkiID (aliveLastTS d),
                       cachedMembership := (if i \<noteq> - 1
                         then cm\<lparr>mrDead := mrDead cm @ [mrAlive cm ! nat i],
                                mrAlive := take (nat i) (mrAlive cm) @ drop (nat i + 1) (mrAlive cm)\<rparr>
                         else cm)\<rparr>))
                  (\<lambda>(d, ms). Inr (d, member # ms)))))"

fun closeAll :: "NetworkMember option list \<Rightarrow> error + discCall list" where
  "closeAll [] = Inr []"
| "closeAll (m # ms) = bindE (deref m) (\<lambda>m. bindE (closeAll ms) (\<lambda>cs. Inr (CloseConn m # cs)))"

definition expireDeadMembers :: "bytes list \<Rightarrow> gossipDiscoveryImpl \<Rightarrow> error + gossipDiscoveryImpl \<times> discCall list" where
  "expireDeadMembers dead d = bindE (expire_loop dead d) (\<lambda>(d, ms). bindE (closeAll ms) (\<lambda>cs. Inr (d, cs)))"

section \<open>Reading the membership\<close>

definition isAlive :: "bytes \<Rightarrow> gossipDiscoveryImpl \<Rightarrow> bool" where
  "isAlive pkiID d \<longleftrightarrow> map_of (aliveLastTS d) pkiID \<noteq> None"

definition getDeadMembers :: "(gostring, timestamp) map_order \<Rightarrow> int \<Rightarrow> int \<Rightarrow> gossipDiscoveryImpl \<Rightarrow> bytes list" where
  "getDeadMembers ord now aliveExpirationTimeout d =
     map fst (filter (\<lambda>(_, last). now - lastSeen last > aliveExpirationTimeout) (ord (aliveLastTS d)))"

definition getKnownPeers :: "(gostring, NetworkMember) map_order \<Rightarrow> gossipDiscoveryImpl \<Rightarrow> bytes list" where
  "getKnownPeers ord d = map fst (ord (id2Member d))"

fun copyLastSeen_loop :: "(gostring \<times> timestamp) list \<Rightarrow> gossipDiscoveryImpl \<Rightarrow> error + NetworkMember list" where
  "copyLastSeen_loop [] d = Inr []"
| "copyLastSeen_loop ((pkiID, _) # rest) d =
     bindE (deref (map_of (id2Member d) pkiID)) (\<lambda>m. bindE (copyLastSeen_loop rest d) (\<lambda>ms. Inr (m # ms)))"

definition copyLastSeen :: "(gostring, timestamp) map_order \<Rightarrow> (gostring, timestamp) gomap \<Rightarrow> gossipDiscoveryImpl \<Rightarrow> error + NetworkMember list" where
  "copyLastSeen ord lastSeenMap d = copyLastSeen_loop (ord lastSeenMap) d"

fun membersOf :: "AliveMessage list \<Rightarrow> error + NetworkMember list" where
  "membersOf [] = Inr []"
| "membersOf (am # ams) = bindE (deref (amMembership am)) (\<lambda>m. bindE (membersOf ams) (\<lambda>ms. Inr (member_of m # ms)))"

definition GetMembership :: "gossipDiscoveryImpl \<Rightarrow> error + NetworkMember list" where
  "GetMembership d = (if dToDie d then Inr [] else membersOf (mrAlive (cachedMembership d)))"

definition Self :: "gossipDiscoveryImpl \<Rightarrow> NetworkMember" where
  "Self d = \<lparr>nmEndpoint = dEndpoint d, nmMetadata = dMetadata d, nmPKIid = dPkiID d\<rparr>"

definition disc_UpdateMetadata :: "bytes \<Rightarrow> gossipDiscoveryImpl \<Rightarrow> gossipDiscoveryImpl" where
  "disc_UpdateMetadata md d = d\<lparr>dMetadata := md\<rparr>"

definition disc_UpdateEndpoint :: "gostring \<Rightarrow> gossipDiscoveryImpl \<Rightarrow> gossipDiscoveryImpl" where
  "disc_UpdateEndpoint endpoint d = d\<lparr>dEndpoint := endpoint\<rparr>"

definition disc_Stop :: "gossipDiscoveryImpl \<Rightarrow> gossipDiscoveryImpl" where
  "disc_Stop d = d\<lparr>dToDie := True\<rparr>"

section \<open>Messages sent\<close>

definition createAliveMessage :: "(AliveMessage \<Rightarrow> AliveMessage) \<Rightarrow> gossipDiscoveryImpl \<Rightarrow> gossipDiscoveryImpl \<times> AliveMessage" where
  "createAliveMessage sign d =
     (let d = d\<lparr>dSeqNum := dSeqNum d + 1\<rparr>
      in (d, sign \<lparr>amMembership = Some \<lparr>mbEndpoint = dEndpoint d, mbMetadata = dMetadata d, mbPkiID = dPkiID d\<rparr>,
            amTimestamp = Some \<lparr>IncNumber = dIncTime d, ptSeqNum = dSeqNum d\<rparr>, amSignature = []\<rparr>))"

definition createMembershipRequest ::
  "(AliveMessage \<Rightarrow> AliveMessage) \<Rightarrow> (gostring, NetworkMember) map_order \<Rightarrow> gossipDiscoveryImpl \<Rightarrow> gossipDiscoveryImpl \<times> GossipMessage" where
  "createMembershipRequest sign ord d =
     (let (d, am) = createAliveMessage sign d
      in (d, \<lparr>gmNonce = 0, gmChannel = [], gmTag = EMPTY,
            gmContent = GossipMessage_MemReq (Some \<lparr>SelfInformation = Some am, Known = getKnownPeers ord d\<rparr>)\<rparr>))"

definition sendMembershipRequest ::
  "(AliveMessage \<Rightarrow> AliveMessage) \<Rightarrow> (gostring, NetworkMember) map_order \<Rightarrow> NetworkMember \<Rightarrow> gossipDiscoveryImpl \<Rightarrow>
   gossipDiscoveryImpl \<times> discCall list" where
  "sendMembershipRequest sign ord member d =
     (let (d, req) = createMembershipRequest sign ord d in (d, [SendToPeer member req]))"

definition connect2BootstrapPeers ::
  "(AliveMessage \<Rightarrow> AliveMessage) \<Rightarrow> (gostring, NetworkMember) map_order \<Rightarrow> gostring list \<Rightarrow> gossipDiscoveryImpl \<Rightarrow>
   gossipDiscoveryImpl \<times> discCall list" where
  "connect2BootstrapPeers sign ord endpoints d =
     (let (d, req) = createMembershipRequest sign ord d
      in (d, map (\<lambda>endpoint. SendToPeer \<lparr>nmEndpoint = endpoint, nmMetadata = [], nmPKIid = []\<rparr> req) endpoints))"

fun pulledPeers :: "int list \<Rightarrow> AliveMessage list \<Rightarrow> error + NetworkMember list" where
  "pulledPeers [] alive = Inr []"
| "pulledPeers (i # is) alive =
     (if 0 \<le> i \<and> nat i < length alive then
        bindE (deref (amMembership (alive ! nat i))) (\<lambda>m. bindE (pulledPeers is alive) (\<lambda>ms. Inr (member_of m # ms)))
      else Inl (Panic ''index out of range''))"

definition InitiateSync ::
  "(AliveMessage \<Rightarrow> AliveMessage) \<Rightarrow> (gostring, NetworkMember) map_order \<Rightarrow> (int \<Rightarrow> int list) \<Rightarrow> int \<Rightarrow> gossipDiscoveryImpl \<Rightarrow>
   (error + gossipDiscoveryImpl \<times> discCall list) option" where
  "InitiateSync sign ord rand_Intn peerNum d =
     (if dToDie d then Some (Inr (d, []))
      else
        let (d, memReq) = createMembershipRequest sign ord d;
            n = int (length (mrAlive (cachedMembership d)));
            k = (if peerNum > n then n else peerNum)
        in map_option (\<lambda>indices.
             bindE (pulledPeers indices (mrAlive (cachedMembership d))) (\<lambda>ms. Inr (d, map (\<lambda>m. SendToPeer m memReq) ms)))
           (GetRandomIndices rand_Intn k (n - 1)))"

text \<open>A turn of \<open>periodicalSendAlive\<close>.\<close>

definition periodicalSendAlive :: "(AliveMessage \<Rightarrow> AliveMessage) \<Rightarrow> gossipDiscoveryImpl \<Rightarrow> gossipDiscoveryImpl \<times> discCall list" where
  "periodicalSendAlive sign d =
     (let (d, am) = createAliveMessage sign d
      in (d, [Gossip_msg \<lparr>gmNonce = 0, gmChannel = [], gmTag = EMPTY, gmContent = GossipMessage_AliveMsg (Some am)\<rparr>]))"

text \<open>The search for dead peers that the requester does not know ends at the first one.\<close>

fun unknownDead :: "AliveMessage list \<Rightarrow> bytes list \<Rightarrow> error + AliveMessage list" where
  "unknownDead [] known = Inr []"
| "unknownDead (dm # dms) known =
     bindE (if known = [] then Inr False else bindE (deref (amMembership dm)) (\<lambda>m. Inr (mbPkiID m \<in> set known))) (\<lambda>isKnown.
       if \<not> isKnown then Inr [dm] else unknownDead dms known)"

definition createMembershipResponse ::
  "(AliveMessage \<Rightarrow> AliveMessage) \<Rightarrow> bytes list \<Rightarrow> gossipDiscoveryImpl \<Rightarrow> error + gossipDiscoveryImpl \<times> MembershipResponse" where
  "createMembershipResponse sign known d =
     (let (d, aliveMsg) = createAliveMessage sign d
      in bindE (unknownDead (mrDead (cachedMembership d)) known) (\<lambda>deadPeers.
           Inr (d, \<lparr>mrAlive = mrAlive (cachedMembership d) @ [aliveMsg], mrDead = deadPeers\<rparr>)))"

definition sendMemResponse ::
  "(AliveMessage \<Rightarrow> AliveMessage) \<Rightarrow> Member option \<Rightarrow> bytes list \<Rightarrow> gossipDiscoveryImpl \<Rightarrow> error + gossipDiscoveryImpl \<times> discCall list" where
  "sendMemResponse sign member known d =
     bindE (createMembershipResponse sign known d) (\<lambda>(d, memResp).
     bindE (deref member) (\<lambda>m.
       Inr (d, [SendToPeer (member_of m) \<lparr>gmNonce = 0, gmChannel = [], gmTag = EMPTY, gmContent = GossipMessage_MemRes (Some memResp)\<rparr>])))"

section \<open>Messages received\<close>

definition handleAliveMessage ::
  "(AliveMessage option \<Rightarrow> bool) \<Rightarrow> int \<Rightarrow> (nat \<Rightarrow> gossipDiscoveryImpl \<Rightarrow> gossipDiscoveryImpl) \<Rightarrow> AliveMessage option \<Rightarrow>
   gossipDiscoveryImpl \<Rightarrow> error + gossipDiscoveryImpl" where
  "handleAliveMessage V now env msg d =
     (if \<not> V msg then bindE (deref msg) (\<lambda>m. bindE (deref (amMembership m)) (\<lambda>_. Inr d))
      else bindE (deref msg) (\<lambda>m. bindE (deref (amMembership m)) (\<lambda>member.
        let pkiID = mbPkiID member in
        if pkiID = dPkiID d then Inr d
        else
          let known = map_of (id2Member d) pkiID \<noteq> None; d = env 0 d in
          if \<not> known then learnNewMembers now [m] [] d
          else
            let lastAliveTS = map_of (aliveLastTS d) pkiID; lastDeadTS = map_of (deadLastTS d) pkiID; d = env 1 d in
            if lastAliveTS = None \<and> lastDeadTS = None then Inl (Panic ''known but neither alive nor dead'')
            else if lastAliveTS \<noteq> None \<and> lastDeadTS \<noteq> None then Inl (Panic ''both alive and dead'')
            else case lastDeadTS of
              Some ts \<Rightarrow>
                bindE (before ts (amTimestamp m)) (\<lambda>b.
                  if b then bindE (deref (amTimestamp m)) (\<lambda>t. resurrectMember now m t d) else Inr d)
            | None \<Rightarrow>
                let lastAliveTS = map_of (aliveLastTS d) pkiID; d = env 2 d in
                case lastAliveTS of
                  Some ts \<Rightarrow> bindE (before ts (amTimestamp m)) (\<lambda>b. if b then learnExistingMembers now [m] d else Inr d)
                | None \<Rightarrow> Inr d)))"

fun handleAlives ::
  "(AliveMessage option \<Rightarrow> bool) \<Rightarrow> int \<Rightarrow> (nat \<Rightarrow> gossipDiscoveryImpl \<Rightarrow> gossipDiscoveryImpl) \<Rightarrow> AliveMessage list \<Rightarrow>
   gossipDiscoveryImpl \<Rightarrow> error + gossipDiscoveryImpl" where
  "handleAlives V now env [] d = Inr d"
| "handleAlives V now env (am # ams) d =
     bindE (handleAliveMessage V now env (Some am) d) (handleAlives V now (\<lambda>i. env (i + 3)) ams)"

fun handleDeads ::
  "(AliveMessage option \<Rightarrow> bool) \<Rightarrow> int \<Rightarrow> (nat \<Rightarrow> gossipDiscoveryImpl \<Rightarrow> gossipDiscoveryImpl) \<Rightarrow> AliveMessage list \<Rightarrow>
   gossipDiscoveryImpl \<Rightarrow> error + gossipDiscoveryImpl" where
  "handleDeads V now env [] d = Inr d"
| "handleDeads V now env (dm # dms) d =
     bindE (deref (amMembership dm)) (\<lambda>m.
       if \<not> V (Some dm) then handleDeads V now env dms d
       else
         let known = map_of (id2Member d) (mbPkiID m) \<noteq> None
         in bindE (learnNewMembers now [] (if known then [] else [dm]) (env 0 d)) (handleDeads V now (\<lambda>i. env (i + 1)) dms))"

text \<open>The result includes the goroutines that are started to send a membership response, by their arguments.\<close>

definition handleMsgFromComm ::
  "(AliveMessage option \<Rightarrow> bool) \<Rightarrow> int \<Rightarrow> (nat \<Rightarrow> gossipDiscoveryImpl \<Rightarrow> gossipDiscoveryImpl) \<Rightarrow> GossipMessage option \<Rightarrow>
   gossipDiscoveryImpl \<Rightarrow> error + gossipDiscoveryImpl \<times> (Member option \<times> bytes list) list" where
  "handleMsgFromComm V now env msg d =
     (case msg of
        None \<Rightarrow> Inr (d, [])
      | Some m \<Rightarrow>
          (case GetMemReq m of
             Some memReq \<Rightarrow>
               bindE (handleAliveMessage V now env (SelfInformation memReq) d) (\<lambda>d.
               bindE (deref (SelfInformation memReq)) (\<lambda>s. Inr (d, [(amMembership s, Known memReq)])))
           | None \<Rightarrow>
          (case GetAliveMsg m of
             Some alive \<Rightarrow> bindE (handleAliveMessage V now env (Some alive) d) (\<lambda>d. Inr (d, []))
           | None \<Rightarrow>
          (case GetMemRes m of
             Some memResp \<Rightarrow>
               bindE (handleAlives V now env (mrAlive memResp) d) (\<lambda>d.
               bindE (handleDeads V now (\<lambda>i. env (i + 3 * length (mrAlive memResp))) (mrDead memResp) d) (\<lambda>d. Inr (d, [])))
           | None \<Rightarrow> Inr (d, [])))))"

end
