(* ===== verification/Gossip_Discovery_Props.thy ===== *)
theory Gossip_Discovery_Props
  imports Gossip_Discovery
begin

text \<open>
  The invariant of the membership service, that handlers keep it while other goroutines interfere, and what follows: the
  handler's two panics about an inconsistent membership cannot happen, and signs of life only get newer.
\<close>

section \<open>The invariant\<close>

definition pki :: "AliveMessage \<Rightarrow> bytes" where
  "pki am = mbPkiID (the (amMembership am))"

text \<open>The cached messages are about the peers in \<open>K\<close>, one each.\<close>

definition cached :: "AliveMessage list \<Rightarrow> bytes set \<Rightarrow> bool" where
  "cached ms K \<longleftrightarrow> (\<forall>m \<in> set ms. amMembership m \<noteq> None) \<and> distinct (map pki ms) \<and> set (map pki ms) = K"

definition aliveIds :: "gossipDiscoveryImpl \<Rightarrow> bytes set" where
  "aliveIds d = dom (map_of (aliveLastTS d))"

definition deadIds :: "gossipDiscoveryImpl \<Rightarrow> bytes set" where
  "deadIds d = dom (map_of (deadLastTS d))"

definition knownIds :: "gossipDiscoveryImpl \<Rightarrow> bytes set" where
  "knownIds d = dom (map_of (id2Member d))"

definition disc_inv :: "gossipDiscoveryImpl \<Rightarrow> bool" where
  "disc_inv d \<longleftrightarrow> aliveIds d \<inter> deadIds d = {} \<and> aliveIds d \<union> deadIds d = knownIds d - {dPkiID d} \<and>
     cached (mrAlive (cachedMembership d)) (aliveIds d) \<and> cached (mrDead (cachedMembership d)) (deadIds d)"

lemmas ids_defs = aliveIds_def deadIds_def knownIds_def

lemma disc_invD:
  assumes "disc_inv d"
  shows "aliveIds d \<inter> deadIds d = {}" "aliveIds d \<union> deadIds d = knownIds d - {dPkiID d}"
    "cached (mrAlive (cachedMembership d)) (aliveIds d)" "cached (mrDead (cachedMembership d)) (deadIds d)"
  using assms by (simp_all add: disc_inv_def)

lemma cached_nth: "cached ms K \<Longrightarrow> i < length ms \<Longrightarrow> \<exists>m. amMembership (ms ! i) = Some m \<and> mbPkiID m = pki (ms ! i)"
  by (metis cached_def nth_mem option.collapse pki_def)

lemma cached_append: "cached ms K \<Longrightarrow> amMembership am = Some m \<Longrightarrow> mbPkiID m \<notin> K \<Longrightarrow> cached (ms @ [am]) (insert (mbPkiID m) K)"
  by (auto simp: cached_def pki_def)

lemma cached_remove:
  assumes "cached ms K" and "i < length ms"
  shows "cached (take i ms @ drop (i + 1) ms) (K - {pki (ms ! i)})"
proof -
  have "cached (xs @ ys) (K - {pki y})" if c: "cached (xs @ y # ys) K" for xs y ys
  proof -
    have "set (map pki (xs @ ys)) = K - {pki y}" using c unfolding cached_def by force
    with c show ?thesis by (simp add: cached_def)
  qed
  moreover have "take i ms @ ms ! i # drop (i + 1) ms = ms" using assms(2) by (simp add: id_take_nth_drop [symmetric])
  ultimately show ?thesis using assms(1) by metis
qed

lemma cached_replace:
  assumes "cached ms K" and "i < length ms" and "amMembership am \<noteq> None" and "pki am = pki (ms ! i)"
  shows "cached (ms[i := am]) K"
proof -
  have "map pki (ms[i := am]) = map pki ms" using assms(2,4) by (simp add: map_update list_update_same_conv)
  moreover have "\<forall>m \<in> set (ms[i := am]). amMembership m \<noteq> None"
    using assms(1,3) set_update_subset_insert [of ms i am] unfolding cached_def by blast
  ultimately show ?thesis using assms(1) unfolding cached_def by (simp only: simp_thms)
qed

lemma cached_index:
  assumes "cached ms K" and "amMembership x = Some m"
  obtains (none) "IndexInSlice ms x samePKIidAliveMessage = Inr (- 1)" "mbPkiID m \<notin> K"
  | (found) i where "IndexInSlice ms x samePKIidAliveMessage = Inr (int i)" "i < length ms" "pki (ms ! i) = mbPkiID m" "mbPkiID m \<in> K"
proof -
  have "\<forall>a \<in> set ms. samePKIidAliveMessage a x = Inr (pki a = mbPkiID m)"
    using assms by (auto simp: cached_def samePKIidAliveMessage_def pki_def)
  then show thesis
  proof (cases rule: IndexInSlice_cases)
    case none
    have "mbPkiID m \<notin> K" using none(2) assms(1) unfolding cached_def by auto
    with none(1) show thesis by (rule that(1))
  next
    case (found i)
    have "mbPkiID m \<in> K" using found(2,3) assms(1) by (metis cached_def image_eqI list.set_map nth_mem)
    with found show thesis using that(2) by blast
  qed
qed

section \<open>Freshness\<close>

text \<open>The last sign of life of a peer, whether it is taken to be alive or dead, and the order of these.\<close>

definition lastTS :: "gossipDiscoveryImpl \<Rightarrow> bytes \<Rightarrow> timestamp option" where
  "lastTS d p = (case map_of (aliveLastTS d) p of Some t \<Rightarrow> Some t | None \<Rightarrow> map_of (deadLastTS d) p)"

definition ts_less :: "timestamp \<Rightarrow> timestamp \<Rightarrow> bool" where
  "ts_less a b \<longleftrightarrow> u64_of_int (incTime a) = u64_of_int (incTime b) \<and> tsSeqNum a < tsSeqNum b \<or> u64_of_int (incTime a) < u64_of_int (incTime b)"

definition ts_le :: "timestamp \<Rightarrow> timestamp \<Rightarrow> bool" where
  "ts_le a b \<longleftrightarrow> ts_less a b \<or> u64_of_int (incTime a) = u64_of_int (incTime b) \<and> tsSeqNum a = tsSeqNum b"

lemma ts_trans: "ts_le a b \<Longrightarrow> ts_le b c \<Longrightarrow> ts_le a c" "ts_less a b \<Longrightarrow> ts_le b c \<Longrightarrow> ts_less a c" "ts_le a b \<Longrightarrow> ts_less b c \<Longrightarrow> ts_less a c"
  by (auto simp: ts_le_def ts_less_def)

lemma ts_le_refl: "ts_le a a"
  by (simp add: ts_le_def)

lemma ts_less_le: "ts_less a b \<Longrightarrow> ts_le a b"
  by (simp add: ts_le_def)

lemma u64_of_int_tsToTime: "u64_of_int (tsToTime w) = w"
  by (simp add: u64_of_int_def tsToTime_def int_of_u64_def)

lemma before_less: "before a (Some t) = Inr (ts_less a (mkTimestamp now t))"
  by (simp add: before_def ts_less_def mkTimestamp_def u64_of_int_tsToTime)

text \<open>What a handler may do, and what the other goroutines may do.\<close>

definition evolves :: "gossipDiscoveryImpl \<Rightarrow> gossipDiscoveryImpl \<Rightarrow> bool" where
  "evolves d d' \<longleftrightarrow> disc_inv d' \<and> dPkiID d' = dPkiID d \<and> knownIds d \<subseteq> knownIds d' \<and>
     (\<forall>p t. lastTS d p = Some t \<longrightarrow>
       (\<exists>t'. lastTS d' p = Some t' \<and> ts_le t t' \<and> (p \<in> deadIds d \<and> p \<in> aliveIds d' \<longrightarrow> ts_less t t')))"

definition quiet :: "gossipDiscoveryImpl \<Rightarrow> gossipDiscoveryImpl \<Rightarrow> bool" where
  "quiet d d' \<longleftrightarrow> disc_inv d' \<and> dPkiID d' = dPkiID d \<and> knownIds d' = knownIds d \<and> lastTS d' = lastTS d \<and> aliveIds d' \<subseteq> aliveIds d"

lemma lastTS_ids: "lastTS d p \<noteq> None \<longleftrightarrow> p \<in> aliveIds d \<union> deadIds d"
  by (auto simp: lastTS_def ids_defs split: option.split)

lemma quiet_refl: "disc_inv d \<Longrightarrow> quiet d d"
  by (simp add: quiet_def)

lemma quiet_trans: "quiet a b \<Longrightarrow> quiet b c \<Longrightarrow> quiet a c"
  unfolding quiet_def by auto

lemma quiet_evolves: "disc_inv d \<Longrightarrow> quiet d d' \<Longrightarrow> evolves d d'"
  unfolding quiet_def evolves_def using disc_invD(1) [of d] ts_le_refl by (metis IntI emptyE order_refl subsetD)

lemma disc_evolves_trans:
  assumes "evolves a b" and "evolves b c"
  shows "evolves a c"
  unfolding evolves_def
proof (intro conjI allI impI)
  show "disc_inv c" "dPkiID c = dPkiID a" "knownIds a \<subseteq> knownIds c" using assms by (auto simp: evolves_def)
next
  fix p t
  assume t: "lastTS a p = Some t"
  obtain t1 where t1: "lastTS b p = Some t1" "ts_le t t1" "p \<in> deadIds a \<and> p \<in> aliveIds b \<Longrightarrow> ts_less t t1"
    using assms(1) t unfolding evolves_def by blast
  obtain t2 where t2: "lastTS c p = Some t2" "ts_le t1 t2" "p \<in> deadIds b \<and> p \<in> aliveIds c \<Longrightarrow> ts_less t1 t2"
    using assms(2) t1(1) unfolding evolves_def by blast
  have "p \<in> aliveIds b \<or> p \<in> deadIds b" using t1(1) lastTS_ids [of b p] by simp
  then have "p \<in> deadIds a \<and> p \<in> aliveIds c \<longrightarrow> ts_less t t2" using t1(2,3) t2(2,3) ts_trans(2,3) by blast
  then show "\<exists>t'. lastTS c p = Some t' \<and> ts_le t t' \<and> (p \<in> deadIds a \<and> p \<in> aliveIds c \<longrightarrow> ts_less t t')"
    using t2(1) ts_trans(1) [OF t1(2) t2(2)] by blast
qed

section \<open>Steps\<close>

text \<open>The three ways in which the record of a peer changes: it becomes alive at a newer time, it becomes known as dead, it expires.\<close>

lemma evolves_alive:
  assumes "disc_inv d" and "p \<noteq> dPkiID d" and "dPkiID d' = dPkiID d"
    and "map_of (aliveLastTS d') = (map_of (aliveLastTS d))(p \<mapsto> t')" and "map_of (deadLastTS d') = (map_of (deadLastTS d))(p := None)"
    and "knownIds d' = insert p (knownIds d)"
    and "cached (mrAlive (cachedMembership d')) (insert p (aliveIds d))" and "cached (mrDead (cachedMembership d')) (deadIds d - {p})"
    and "\<And>t. lastTS d p = Some t \<Longrightarrow> ts_less t t'"
  shows "evolves d d'"
proof -
  have ids: "aliveIds d' = insert p (aliveIds d)" "deadIds d' = deadIds d - {p}" using assms(4,5) by (auto simp: ids_defs)
  have "disc_inv d'" using disc_invD [OF assms(1)] assms(2,3,6-8) unfolding disc_inv_def ids by auto
  moreover have "lastTS d' q = (if q = p then Some t' else lastTS d q)" for q
    using assms(4,5) by (simp add: lastTS_def split: option.split)
  moreover have "q \<notin> deadIds d \<or> q \<notin> aliveIds d'" if "q \<noteq> p" for q using disc_invD(1) [OF assms(1)] that ids(1) by auto
  ultimately show ?thesis unfolding evolves_def using assms(3,6,9) ts_le_refl ts_less_le by auto
qed

lemma evolves_dead:
  assumes "disc_inv d" and "p \<noteq> dPkiID d" and "p \<notin> knownIds d" and "dPkiID d' = dPkiID d"
    and "aliveLastTS d' = aliveLastTS d" and "map_of (deadLastTS d') = (map_of (deadLastTS d))(p \<mapsto> t')" and "knownIds d' = insert p (knownIds d)"
    and "mrAlive (cachedMembership d') = mrAlive (cachedMembership d)" and "cached (mrDead (cachedMembership d')) (insert p (deadIds d))"
  shows "evolves d d'"
proof -
  have ids: "aliveIds d' = aliveIds d" "deadIds d' = insert p (deadIds d)" using assms(5,6) by (auto simp: ids_defs)
  have new: "p \<notin> aliveIds d" "p \<notin> deadIds d" using disc_invD(2) [OF assms(1)] assms(3) by auto
  have "disc_inv d'" using disc_invD [OF assms(1)] assms(2,4,7-9) new unfolding disc_inv_def ids by auto
  moreover have "lastTS d p = None" using new lastTS_ids [of d p] by auto
  moreover have "lastTS d' q = (if q = p then Some t' else lastTS d q)" for q
    using assms(5,6) new by (auto simp: lastTS_def ids_defs split: option.split)
  moreover have "q \<notin> deadIds d \<or> q \<notin> aliveIds d'" for q using disc_invD(1) [OF assms(1)] ids(1) by auto
  ultimately show ?thesis unfolding evolves_def using assms(4,7) ts_le_refl by auto
qed

lemma quiet_expired:
  assumes "disc_inv d" and "map_of (aliveLastTS d) p = Some t" and "dPkiID d' = dPkiID d"
    and "map_of (aliveLastTS d') = (map_of (aliveLastTS d))(p := None)" and "map_of (deadLastTS d') = (map_of (deadLastTS d))(p \<mapsto> t)"
    and "id2Member d' = id2Member d"
    and "cached (mrAlive (cachedMembership d')) (aliveIds d - {p})" and "cached (mrDead (cachedMembership d')) (insert p (deadIds d))"
  shows "quiet d d'"
proof -
  have ids: "aliveIds d' = aliveIds d - {p}" "deadIds d' = insert p (deadIds d)" "knownIds d' = knownIds d" "p \<in> aliveIds d"
    using assms(2,4-6) by (auto simp: ids_defs)
  have "disc_inv d'" using disc_invD [OF assms(1)] assms(3,7,8) ids(4) unfolding disc_inv_def ids by auto
  moreover have "lastTS d' q = lastTS d q" for q using assms(2,4,5) by (simp add: lastTS_def split: option.split)
  ultimately show ?thesis unfolding quiet_def using assms(3) ids by auto
qed

lemma quietI:
  assumes "disc_inv d" and "aliveLastTS d' = aliveLastTS d" and "deadLastTS d' = deadLastTS d" and "id2Member d' = id2Member d"
    and "cachedMembership d' = cachedMembership d" and "dPkiID d' = dPkiID d"
  shows "quiet d d'"
  using assms by (simp add: quiet_def disc_inv_def ids_defs lastTS_def fun_eq_iff split: option.split)

subsection \<open>Expiry\<close>

lemma expire_loop_quiet:
  assumes "disc_inv d"
  shows "\<exists>d' ms. expire_loop ids d = Inr (d', ms) \<and> quiet d d' \<and> None \<notin> set ms"
  using assms
proof (induction ids arbitrary: d)
  case Nil
  then show ?case using quiet_refl by simp
next
  case (Cons p ids)
  show ?case
  proof (cases "map_of (aliveLastTS d) p")
    case None
    then show ?thesis using Cons by simp
  next
    case (Some t)
    let ?cm = "cachedMembership d"
    have p: "p \<in> aliveIds d" "p \<notin> deadIds d" "p \<in> knownIds d" using Some disc_invD(1,2) [OF Cons.prems] by (auto simp: ids_defs)
    have "amMembership (msgWithID p) = Some \<lparr>mbEndpoint = [], mbMetadata = [], mbPkiID = p\<rparr>" by (simp add: msgWithID_def)
    from disc_invD(3) [OF Cons.prems] this obtain i where i: "IndexInSlice (mrAlive ?cm) (msgWithID p) samePKIidAliveMessage = Inr (int i)"
      "i < length (mrAlive ?cm)" "pki (mrAlive ?cm ! i) = p"
      by (rule cached_index) (use p(1) in simp_all)
    define d1 where "d1 = d\<lparr>deadLastTS := mput p t (deadLastTS d), aliveLastTS := mdel p (aliveLastTS d),
      cachedMembership := ?cm\<lparr>mrDead := mrDead ?cm @ [mrAlive ?cm ! i], mrAlive := take i (mrAlive ?cm) @ drop (i + 1) (mrAlive ?cm)\<rparr>\<rparr>"
    obtain m where m: "amMembership (mrAlive ?cm ! i) = Some m" "mbPkiID m = p"
      using cached_nth [OF disc_invD(3) [OF Cons.prems] i(2)] i(3) by auto
    have "quiet d d1"
      by (rule quiet_expired [OF Cons.prems Some])
        (use cached_remove [OF disc_invD(3) [OF Cons.prems] i(2)] cached_append [OF disc_invD(4) [OF Cons.prems] m(1)] i(3) m(2) p(2) in \<open>simp_all add: d1_def\<close>)
    moreover obtain d' ms where "expire_loop ids d1 = Inr (d', ms)" "quiet d1 d'" "None \<notin> set ms"
      using Cons.IH [of d1] calculation by (auto simp: quiet_def)
    moreover have "expire_loop (p # ids) d = bindE (expire_loop ids d1) (\<lambda>(d, ms). Inr (d, map_of (id2Member d1) p # ms))"
      using Some i(1) by (simp add: d1_def Let_def)
    moreover have "map_of (id2Member d1) p \<noteq> None" using p(3) by (auto simp: d1_def knownIds_def)
    ultimately show ?thesis using quiet_trans [of d d1 d'] by auto
  qed
qed

lemma closeAll_total: "None \<notin> set ms \<Longrightarrow> \<exists>cs. closeAll ms = Inr cs"
proof (induction ms)
  case (Cons m ms)
  then show ?case by (cases m) auto
qed simp

lemma expireDeadMembers_quiet:
  assumes "disc_inv d"
  shows "\<exists>d' cs. expireDeadMembers ids d = Inr (d', cs) \<and> quiet d d'"
proof -
  obtain d' ms where r: "expire_loop ids d = Inr (d', ms)" "quiet d d'" "None \<notin> set ms"
    using expire_loop_quiet [OF assms] by blast
  obtain cs where "closeAll ms = Inr cs" using closeAll_total [OF r(3)] by blast
  with r show ?thesis by (simp add: expireDeadMembers_def)
qed

subsection \<open>Learning\<close>

lemma new_ids: "disc_inv d \<Longrightarrow> p \<notin> knownIds d \<Longrightarrow> p \<notin> aliveIds d \<and> p \<notin> deadIds d"
  using disc_invD(2) by blast

lemma learnNew_alive:
  assumes "disc_inv d" and "amMembership am = Some m" and "amTimestamp am = Some t" and "mbPkiID m \<notin> knownIds d" and "mbPkiID m \<noteq> dPkiID d"
  shows "\<exists>d'. learnNewMembers now [am] [] d = Inr d' \<and> evolves d d'"
proof -
  let ?d = "d\<lparr>aliveLastTS := mput (mbPkiID m) (mkTimestamp now t) (aliveLastTS d),
    cachedMembership := (cachedMembership d)\<lparr>mrAlive := mrAlive (cachedMembership d) @ [am]\<rparr>,
    id2Member := mput (mbPkiID m) (member_of m) (id2Member d)\<rparr>"
  note new = new_ids [OF assms(1,4)]
  have "learnNewMembers now [am] [] d = Inr ?d" using assms(2,3,5) by (simp add: learnNewMembers_def)
  moreover have "evolves d ?d"
  proof (rule evolves_alive [OF assms(1,5), where t' = "mkTimestamp now t"])
    show "cached (mrAlive (cachedMembership ?d)) (insert (mbPkiID m) (aliveIds d))"
      using cached_append [OF disc_invD(3) [OF assms(1)] assms(2)] new by simp
    show "map_of (deadLastTS ?d) = (map_of (deadLastTS d))(mbPkiID m := None)" using new by (auto simp: fun_eq_iff ids_defs)
    show "cached (mrDead (cachedMembership ?d)) (deadIds d - {mbPkiID m})" using disc_invD(4) [OF assms(1)] new by simp
    show "ts_less t' (mkTimestamp now t)" if "lastTS d (mbPkiID m) = Some t'" for t' using that new lastTS_ids [of d "mbPkiID m"] by simp
  qed (simp_all add: knownIds_def)
  ultimately show ?thesis by blast
qed

lemma learnNew_dead:
  assumes "disc_inv d" and "amMembership dm = Some m" and "amTimestamp dm = Some t" and "mbPkiID m \<notin> knownIds d"
  shows "\<exists>d'. learnNewMembers now [] [dm] d = Inr d' \<and> evolves d d'"
proof (cases "mbPkiID m = dPkiID d")
  case True
  let ?d = "d\<lparr>id2Member := mput (mbPkiID m) (member_of m) (id2Member d)\<rparr>"
  have "learnNewMembers now [] [dm] d = Inr ?d" using assms(2) True by (simp add: learnNewMembers_def)
  moreover have "disc_inv ?d" using assms(1) True by (simp add: disc_inv_def ids_defs)
  moreover have "lastTS ?d p = lastTS d p" for p by (simp add: lastTS_def split: option.split)
  moreover have "p \<notin> deadIds d \<or> p \<notin> aliveIds ?d" for p using disc_invD(1) [OF assms(1)] by (auto simp: ids_defs)
  moreover have "knownIds d \<subseteq> knownIds ?d" by (auto simp: knownIds_def)
  ultimately show ?thesis unfolding evolves_def using ts_le_refl by auto
next
  case False
  let ?d = "d\<lparr>deadLastTS := mput (mbPkiID m) (mkTimestamp now t) (deadLastTS d),
    cachedMembership := (cachedMembership d)\<lparr>mrDead := mrDead (cachedMembership d) @ [dm]\<rparr>,
    id2Member := mput (mbPkiID m) (member_of m) (id2Member d)\<rparr>"
  have "learnNewMembers now [] [dm] d = Inr ?d" using assms(2,3) False by (simp add: learnNewMembers_def)
  moreover have "evolves d ?d"
    by (rule evolves_dead [OF assms(1) False assms(4), where t' = "mkTimestamp now t"])
      (use cached_append [OF disc_invD(4) [OF assms(1)] assms(2)] new_ids [OF assms(1,4)] in \<open>simp_all add: knownIds_def\<close>)
  ultimately show ?thesis by blast
qed

lemma resurrectMember_evolves:
  assumes "disc_inv d" and "amMembership am = Some m" and "mbPkiID m \<in> deadIds d" and "lastTS d (mbPkiID m) = Some t'"
    and "ts_less t' (mkTimestamp now t)"
  shows "\<exists>d'. resurrectMember now am t d = Inr d' \<and> evolves d d'"
proof -
  let ?p = "mbPkiID m" and ?cm = "cachedMembership d"
  have p: "?p \<notin> aliveIds d" "?p \<in> knownIds d" "?p \<noteq> dPkiID d" using disc_invD(1,2) [OF assms(1)] assms(3) by auto
  have "amMembership (msgWithID ?p) = Some \<lparr>mbEndpoint = [], mbMetadata = [], mbPkiID = ?p\<rparr>" by (simp add: msgWithID_def)
  from disc_invD(4) [OF assms(1)] this obtain i where i: "IndexInSlice (mrDead ?cm) (msgWithID ?p) samePKIidAliveMessage = Inr (int i)"
    "i < length (mrDead ?cm)" "pki (mrDead ?cm ! i) = ?p"
    by (rule cached_index) (use assms(3) in simp_all)
  from disc_invD(3) [OF assms(1)] assms(2) have j: "IndexInSlice (mrAlive ?cm) am samePKIidAliveMessage = Inr (- 1)"
    by (rule cached_index) (use p(1) in simp_all)
  let ?d = "d\<lparr>aliveLastTS := mput ?p (mkTimestamp now t) (aliveLastTS d), id2Member := mput ?p (member_of m) (id2Member d),
    deadLastTS := mdel ?p (deadLastTS d),
    cachedMembership := ?cm\<lparr>mrDead := take i (mrDead ?cm) @ drop (i + 1) (mrDead ?cm), mrAlive := mrAlive ?cm @ [am]\<rparr>\<rparr>"
  have "resurrectMember now am t d = Inr ?d" using assms(2) i(1) j by (simp add: resurrectMember_def Let_def)
  moreover have "evolves d ?d"
  proof (rule evolves_alive [OF assms(1) p(3), where t' = "mkTimestamp now t"])
    show "ts_less t'' (mkTimestamp now t)" if "lastTS d ?p = Some t''" for t'' using that assms(4,5) by simp
  qed (use cached_remove [OF disc_invD(4) [OF assms(1)] i(2)] cached_append [OF disc_invD(3) [OF assms(1)] assms(2) p(1)] i(3) in
      \<open>simp_all add: knownIds_def\<close>)
  ultimately show ?thesis by blast
qed

lemma learnExisting_evolves:
  assumes "disc_inv d" and "amMembership am = Some m" and "amTimestamp am = Some t" and "mbPkiID m \<in> knownIds d" and "mbPkiID m \<noteq> dPkiID d"
    and "lastTS d (mbPkiID m) = Some t'" and "ts_less t' (mkTimestamp now t)"
  shows "\<exists>d'. learnExistingMembers now [am] d = Inr d' \<and> evolves d d'"
proof -
  let ?p = "mbPkiID m" and ?cm = "cachedMembership d"
  obtain mem where mem: "map_of (id2Member d) ?p = Some mem" using assms(4) by (auto simp: knownIds_def)
  let ?d1 = "d\<lparr>id2Member := mput ?p (mem\<lparr>nmEndpoint := mbEndpoint m, nmMetadata := mbMetadata m\<rparr>) (id2Member d)\<rparr>"
  show ?thesis
  proof (cases "?p \<in> deadIds d")
    case True
    then have "learnExistingMembers now [am] d = Inr ?d1" using assms(2) mem by (auto simp: deadIds_def Let_def)
    moreover have "quiet d ?d1" using assms(1) mem
      by (auto simp: quiet_def disc_inv_def ids_defs lastTS_def fun_eq_iff insert_absorb domI split: option.split)
    ultimately show ?thesis using quiet_evolves [OF assms(1)] by blast
  next
    case False
    then have p: "?p \<in> aliveIds d" using disc_invD(2) [OF assms(1)] assms(4,5) by blast
    from disc_invD(3) [OF assms(1)] assms(2) obtain i where i: "IndexInSlice (mrAlive ?cm) am samePKIidAliveMessage = Inr (int i)"
      "i < length (mrAlive ?cm)" "pki (mrAlive ?cm ! i) = ?p"
      by (rule cached_index) (use p in simp_all)
    let ?d = "?d1\<lparr>aliveLastTS := mput ?p (mkTimestamp now t) (aliveLastTS d), cachedMembership := ?cm\<lparr>mrAlive := (mrAlive ?cm)[i := am]\<rparr>\<rparr>"
    have "map_of (deadLastTS d) ?p = None" "\<exists>a. map_of (aliveLastTS d) ?p = Some a" using False p by (auto simp: ids_defs)
    then have "learnExistingMembers now [am] d = Inr ?d" using assms(2,3) mem i(1) by (auto simp: Let_def)
    moreover have "evolves d ?d"
    proof (rule evolves_alive [OF assms(1,5), where t' = "mkTimestamp now t"])
      have "pki am = ?p" using assms(2) by (simp add: pki_def)
      then show "cached (mrAlive (cachedMembership ?d)) (insert ?p (aliveIds d))"
        using cached_replace [OF disc_invD(3) [OF assms(1)] i(2), of am] i(3) assms(2) p by (simp add: insert_absorb)
      show "map_of (deadLastTS ?d) = (map_of (deadLastTS d))(?p := None)" using False by (auto simp: fun_eq_iff ids_defs)
      show "cached (mrDead (cachedMembership ?d)) (deadIds d - {?p})" using disc_invD(4) [OF assms(1)] False by simp
      show "ts_less t'' (mkTimestamp now t)" if "lastTS d ?p = Some t''" for t'' using that assms(6,7) by simp
    qed (simp_all add: knownIds_def)
    ultimately show ?thesis by blast
  qed
qed

section \<open>Handlers under interference\<close>

text \<open>
  What the other goroutines do: members expire, alive messages of its own are created, also for requests and responses, and
  the metadata, the endpoint and the stop flag are set.
\<close>

inductive interferes :: "(AliveMessage \<Rightarrow> AliveMessage) \<Rightarrow> gossipDiscoveryImpl \<Rightarrow> gossipDiscoveryImpl \<Rightarrow> bool"
  for sign :: "AliveMessage \<Rightarrow> AliveMessage" where
  idle: "interferes sign d d"
| expires: "interferes sign d d1 \<Longrightarrow> expireDeadMembers dead d1 = Inr (d2, cs) \<Longrightarrow> interferes sign d d2"
| announces: "interferes sign d d1 \<Longrightarrow> createAliveMessage sign d1 = (d2, am) \<Longrightarrow> interferes sign d d2"
| metadata: "interferes sign d d1 \<Longrightarrow> interferes sign d (disc_UpdateMetadata md d1)"
| endpoint: "interferes sign d d1 \<Longrightarrow> interferes sign d (disc_UpdateEndpoint ep d1)"
| stops: "interferes sign d d1 \<Longrightarrow> interferes sign d (disc_Stop d1)"

lemma interferes_quiet: "interferes sign d d' \<Longrightarrow> disc_inv d \<Longrightarrow> quiet d d'"
proof (induction rule: interferes.induct)
  case (idle d)
  then show ?case by (rule quiet_refl)
next
  case (expires d d1 dead d2 cs)
  then have q: "quiet d d1" "disc_inv d1" by (simp_all add: quiet_def)
  then have "quiet d1 d2" using expireDeadMembers_quiet [OF q(2), of dead] expires.hyps(2) by auto
  with q(1) show ?case by (rule quiet_trans)
next
  case (announces d d1 d2 am)
  then have q: "quiet d d1" "disc_inv d1" by (simp_all add: quiet_def)
  have "quiet d1 d2" by (rule quietI [OF q(2)]) (use announces.hyps(2) in \<open>auto simp: createAliveMessage_def Let_def\<close>)
  with q(1) show ?case by (rule quiet_trans)
next
  case (metadata d d1 md)
  then have q: "quiet d d1" "disc_inv d1" by (simp_all add: quiet_def)
  have "quiet d1 (disc_UpdateMetadata md d1)" by (rule quietI [OF q(2)]) (simp_all add: disc_UpdateMetadata_def)
  with q(1) show ?case by (rule quiet_trans)
next
  case (endpoint d d1 ep)
  then have q: "quiet d d1" "disc_inv d1" by (simp_all add: quiet_def)
  have "quiet d1 (disc_UpdateEndpoint ep d1)" by (rule quietI [OF q(2)]) (simp_all add: disc_UpdateEndpoint_def)
  with q(1) show ?case by (rule quiet_trans)
next
  case (stops d d1)
  then have q: "quiet d d1" "disc_inv d1" by (simp_all add: quiet_def)
  have "quiet d1 (disc_Stop d1)" by (rule quietI [OF q(2)]) (simp_all add: disc_Stop_def)
  with q(1) show ?case by (rule quiet_trans)
qed

definition env_ok :: "(AliveMessage \<Rightarrow> AliveMessage) \<Rightarrow> (nat \<Rightarrow> gossipDiscoveryImpl \<Rightarrow> gossipDiscoveryImpl) \<Rightarrow> bool" where
  "env_ok sign env \<longleftrightarrow> (\<forall>i d. interferes sign d (env i d))"

lemma env_quiet: "env_ok sign env \<Longrightarrow> disc_inv d \<Longrightarrow> quiet d (env i d)"
  unfolding env_ok_def using interferes_quiet by blast

text \<open>An alive message, and a message, with all the parts that the handlers read.\<close>

definition alive_wf :: "AliveMessage \<Rightarrow> bool" where
  "alive_wf am \<longleftrightarrow> amMembership am \<noteq> None \<and> amTimestamp am \<noteq> None"

definition msg_wf :: "GossipMessage \<Rightarrow> bool" where
  "msg_wf m \<longleftrightarrow> (case gmContent m of
     GossipMessage_AliveMsg (Some am) \<Rightarrow> alive_wf am
   | GossipMessage_MemReq (Some req) \<Rightarrow> (case SelfInformation req of None \<Rightarrow> False | Some am \<Rightarrow> alive_wf am)
   | GossipMessage_MemRes (Some res) \<Rightarrow> list_all alive_wf (mrAlive res) \<and> list_all alive_wf (mrDead res)
   | _ \<Rightarrow> True)"

text \<open>The cases of the handler for a peer that was known when it looked.\<close>

lemma handleKnown_evolves:
  assumes "disc_inv d" and "env_ok sign env" and "amMembership m = Some mb" and "amTimestamp m = Some t" and "mbPkiID mb \<noteq> dPkiID d"
    and "mbPkiID mb \<in> knownIds d" and "V (Some m)"
  shows "\<exists>d'. handleAliveMessage V now env (Some m) d = Inr d' \<and> evolves d d'"
proof -
  let ?p = "mbPkiID mb"
  define d0 where "d0 = env 0 d"
  define d1 where "d1 = env 1 d0"
  define d2 where "d2 = env 2 d1"
  have q0: "quiet d d0" unfolding d0_def by (rule env_quiet [OF assms(2,1)])
  then have i0: "disc_inv d0" by (simp add: quiet_def)
  have q1: "quiet d0 d1" unfolding d1_def by (rule env_quiet [OF assms(2) i0])
  then have i1: "disc_inv d1" by (simp add: quiet_def)
  have q2: "quiet d1 d2" unfolding d2_def by (rule env_quiet [OF assms(2) i1])
  then have i2: "disc_inv d2" by (simp add: quiet_def)
  have e1: "evolves d d1" by (rule quiet_evolves [OF assms(1) quiet_trans [OF q0 q1]])
  have e2: "evolves d d2" by (rule quiet_evolves [OF assms(1) quiet_trans [OF quiet_trans [OF q0 q1] q2]])
  have known: "map_of (id2Member d) ?p \<noteq> None" using assms(6) by (auto simp: knownIds_def)
  have same: "knownIds d0 = knownIds d" "dPkiID d0 = dPkiID d" "knownIds d1 = knownIds d" "dPkiID d1 = dPkiID d"
    "knownIds d2 = knownIds d" "dPkiID d2 = dPkiID d" "aliveIds d1 \<subseteq> aliveIds d0"
    using q0 q1 q2 by (simp_all add: quiet_def)
  have "?p \<in> aliveIds d0 \<union> deadIds d0" unfolding disc_invD(2) [OF i0] same using assms(5,6) by simp
  then consider (dead) t0 where "map_of (aliveLastTS d0) ?p = None" "map_of (deadLastTS d0) ?p = Some t0"
    | (alive) t0 where "map_of (aliveLastTS d0) ?p = Some t0" "map_of (deadLastTS d0) ?p = None"
    using disc_invD(1) [OF i0] unfolding ids_defs disjoint_iff domIff Un_iff by (metis option.exhaust)
  then show ?thesis
  proof cases
    case dead
    let ?b = "ts_less t0 (mkTimestamp now t)"
    have h: "handleAliveMessage V now env (Some m) d = (if ?b then resurrectMember now m t d1 else Inr d1)"
      using assms(3,4,5,7) known dead before_less [of t0 t now] by (simp add: handleAliveMessage_def d1_def d0_def)
    have "lastTS d1 ?p = Some t0" using q1 dead by (simp add: quiet_def lastTS_def)
    moreover have "?p \<in> aliveIds d1 \<union> deadIds d1" unfolding disc_invD(2) [OF i1] same using assms(5,6) by simp
    moreover have "?p \<notin> aliveIds d0" using dead(1) by (simp add: aliveIds_def domIff)
    ultimately have "lastTS d1 ?p = Some t0" "?p \<in> deadIds d1" using same(7) by auto
    then have "\<exists>d'. resurrectMember now m t d1 = Inr d' \<and> evolves d1 d'" if ?b
      using resurrectMember_evolves [OF i1 assms(3)] that by blast
    then show ?thesis using h e1 disc_evolves_trans [OF e1] by (cases ?b) (simp_all, blast)
  next
    case alive
    show ?thesis
    proof (cases "map_of (aliveLastTS d1) ?p")
      case None
      then have "handleAliveMessage V now env (Some m) d = Inr d2"
        using assms(3,4,5,7) known alive by (simp add: handleAliveMessage_def d2_def d1_def d0_def)
      with e2 show ?thesis by blast
    next
      case (Some t1)
      let ?b = "ts_less t1 (mkTimestamp now t)"
      have h: "handleAliveMessage V now env (Some m) d = (if ?b then learnExistingMembers now [m] d2 else Inr d2)"
        using assms(3,4,5,7) known alive Some before_less [of t1 t now]
        by (simp add: handleAliveMessage_def d2_def d1_def d0_def del: learnExistingMembers.simps)
      have "lastTS d2 ?p = Some t1" using q2 Some by (simp add: quiet_def lastTS_def)
      moreover have "?p \<in> knownIds d2" "?p \<noteq> dPkiID d2" using same assms(5,6) by simp_all
      ultimately have "\<exists>d'. learnExistingMembers now [m] d2 = Inr d' \<and> evolves d2 d'" if ?b
        using learnExisting_evolves [OF i2 assms(3,4)] that by blast
      then show ?thesis using h e2 disc_evolves_trans [OF e2] by (cases ?b) (simp_all del: learnExistingMembers.simps, blast)
    qed
  qed
qed

lemma disc_evolves_refl: "disc_inv d \<Longrightarrow> evolves d d"
  using quiet_evolves quiet_refl by blast

lemma handleAlive_evolves:
  assumes "disc_inv d" and "env_ok sign env" and "alive_wf m"
  shows "\<exists>d'. handleAliveMessage V now env (Some m) d = Inr d' \<and> evolves d d'"
proof -
  obtain mb t where m: "amMembership m = Some mb" "amTimestamp m = Some t" using assms(3) by (auto simp: alive_wf_def)
  consider "\<not> V (Some m) \<or> mbPkiID mb = dPkiID d" | (new) "V (Some m)" "mbPkiID mb \<noteq> dPkiID d" "mbPkiID mb \<notin> knownIds d"
    | (known) "V (Some m)" "mbPkiID mb \<noteq> dPkiID d" "mbPkiID mb \<in> knownIds d" by blast
  then show ?thesis
  proof cases
    case 1
    then show ?thesis using m(1) disc_evolves_refl [OF assms(1)] by (auto simp: handleAliveMessage_def)
  next
    case new
    have q: "quiet d (env 0 d)" by (rule env_quiet [OF assms(2,1)])
    then have "disc_inv (env 0 d)" "mbPkiID mb \<notin> knownIds (env 0 d)" "mbPkiID mb \<noteq> dPkiID (env 0 d)"
      using new by (simp_all add: quiet_def)
    then obtain d' where "learnNewMembers now [m] [] (env 0 d) = Inr d'" "evolves (env 0 d) d'"
      using learnNew_alive [of "env 0 d" m mb t now] m by auto
    moreover have "handleAliveMessage V now env (Some m) d = learnNewMembers now [m] [] (env 0 d)"
      using new m(1) by (auto simp: handleAliveMessage_def knownIds_def domIff)
    ultimately show ?thesis using disc_evolves_trans [OF quiet_evolves [OF assms(1) q]] by auto
  next
    case known
    then show ?thesis using handleKnown_evolves [OF assms(1,2) m] by blast
  qed
qed

lemma env_ok_shift: "env_ok sign env \<Longrightarrow> env_ok sign (\<lambda>i. env (i + k))"
  by (simp add: env_ok_def)

lemma handleAlives_evolves:
  "disc_inv d \<Longrightarrow> env_ok sign env \<Longrightarrow> list_all alive_wf ms \<Longrightarrow> \<exists>d'. handleAlives V now env ms d = Inr d' \<and> evolves d d'"
proof (induction ms arbitrary: d env)
  case Nil
  then show ?case using disc_evolves_refl by simp
next
  case (Cons m ms)
  then have "alive_wf m" by simp
  from handleAlive_evolves [OF Cons.prems(1,2) this, of V now]
  obtain d1 where 1: "handleAliveMessage V now env (Some m) d = Inr d1" "evolves d d1" by blast
  then have "disc_inv d1" by (simp add: evolves_def)
  from Cons.IH [OF this env_ok_shift [OF Cons.prems(2)]] Cons.prems(3)
  obtain d2 where "handleAlives V now (\<lambda>i. env (i + 3)) ms d1 = Inr d2" "evolves d1 d2" by auto
  with 1 show ?case using disc_evolves_trans [OF 1(2)] by auto
qed

lemma handleDeads_evolves:
  "disc_inv d \<Longrightarrow> env_ok sign env \<Longrightarrow> list_all alive_wf ms \<Longrightarrow> \<exists>d'. handleDeads V now env ms d = Inr d' \<and> evolves d d'"
proof (induction ms arbitrary: d env)
  case Nil
  then show ?case using disc_evolves_refl by simp
next
  case (Cons dm ms)
  then obtain m t where m: "amMembership dm = Some m" "amTimestamp dm = Some t" by (auto simp: alive_wf_def)
  show ?case
  proof (cases "V (Some dm)")
    case False
    then show ?thesis using Cons m(1) by simp
  next
    case True
    let ?n = "if map_of (id2Member d) (mbPkiID m) \<noteq> None then [] else [dm]"
    have q: "quiet d (env 0 d)" by (rule env_quiet [OF Cons.prems(2,1)])
    then have i: "disc_inv (env 0 d)" "knownIds (env 0 d) = knownIds d" by (simp_all add: quiet_def)
    have "\<exists>d1. learnNewMembers now [] ?n (env 0 d) = Inr d1 \<and> evolves (env 0 d) d1"
    proof (cases "mbPkiID m \<in> knownIds d")
      case True
      then show ?thesis using disc_evolves_refl [OF i(1)] by (auto simp: knownIds_def learnNewMembers_def)
    next
      case False
      then have "?n = [dm]" by (auto simp: knownIds_def domIff)
      moreover have "mbPkiID m \<notin> knownIds (env 0 d)" using False i(2) by simp
      ultimately show ?thesis using learnNew_dead [OF i(1) m] by simp
    qed
    then obtain d1 where 1: "learnNewMembers now [] ?n (env 0 d) = Inr d1" "evolves (env 0 d) d1" by blast
    then have "disc_inv d1" by (simp add: evolves_def)
    moreover have "list_all alive_wf ms" using Cons.prems(3) by simp
    ultimately obtain d2 where 2: "handleDeads V now (\<lambda>i. env (i + 1)) ms d1 = Inr d2" "evolves d1 d2"
      using Cons.IH [OF _ env_ok_shift [OF Cons.prems(2), of 1]] by blast
    have "handleDeads V now env (dm # ms) d = Inr d2" using True m(1) 1(1) 2(1) by (simp add: Let_def)
    moreover have "evolves d d2" using disc_evolves_trans [OF disc_evolves_trans [OF quiet_evolves [OF Cons.prems(1) q] 1(2)] 2(2)] .
    ultimately show ?thesis by blast
  qed
qed

lemma handleMsg_evolves:
  assumes "disc_inv d" and "env_ok sign env" and "msg_wf m"
  shows "\<exists>d' rs. handleMsgFromComm V now env (Some m) d = Inr (d', rs) \<and> evolves d d'"
proof -
  consider (req) req am where "gmContent m = GossipMessage_MemReq (Some req)" "SelfInformation req = Some am" "alive_wf am"
    | (alive) am where "gmContent m = GossipMessage_AliveMsg (Some am)" "alive_wf am"
    | (res) res where "gmContent m = GossipMessage_MemRes (Some res)" "list_all alive_wf (mrAlive res)" "list_all alive_wf (mrDead res)"
    | (other) "GetMemReq m = None" "GetAliveMsg m = None" "GetMemRes m = None"
    using assms(3) unfolding msg_wf_def not_Some_eq [symmetric] getter_Some
    by (cases "gmContent m") (auto split: option.splits)
  then show ?thesis
  proof cases
    case req
    then show ?thesis using handleAlive_evolves [OF assms(1,2) req(3), of V now] by (auto simp: handleMsgFromComm_def getter_defs)
  next
    case alive
    then show ?thesis using handleAlive_evolves [OF assms(1,2) alive(2), of V now] by (auto simp: handleMsgFromComm_def getter_defs)
  next
    case res
    obtain d1 where 1: "handleAlives V now env (mrAlive res) d = Inr d1" "evolves d d1"
      using handleAlives_evolves [OF assms(1,2) res(2)] by blast
    then have "disc_inv d1" by (simp add: evolves_def)
    from handleDeads_evolves [OF this env_ok_shift [OF assms(2)] res(3)]
    obtain d2 where "handleDeads V now (\<lambda>i. env (i + 3 * length (mrAlive res))) (mrDead res) d1 = Inr d2" "evolves d1 d2" by blast
    then show ?thesis using 1 res(1) disc_evolves_trans [OF 1(2)] by (auto simp: handleMsgFromComm_def getter_defs)
  next
    case other
    then show ?thesis using disc_evolves_refl [OF assms(1)] by (simp add: handleMsgFromComm_def)
  qed
qed

section \<open>Runs\<close>

inductive disc_run ::
  "(AliveMessage \<Rightarrow> AliveMessage) \<Rightarrow> (AliveMessage option \<Rightarrow> bool) \<Rightarrow> gossipDiscoveryImpl \<Rightarrow> gossipDiscoveryImpl \<Rightarrow> bool"
  for sign :: "AliveMessage \<Rightarrow> AliveMessage" and V :: "AliveMessage option \<Rightarrow> bool" and d0 :: gossipDiscoveryImpl where
  disc_start: "disc_run sign V d0 d0"
| disc_other: "disc_run sign V d0 d \<Longrightarrow> interferes sign d d' \<Longrightarrow> disc_run sign V d0 d'"
| disc_msg: "disc_run sign V d0 d \<Longrightarrow> env_ok sign env \<Longrightarrow> msg_wf m \<Longrightarrow> handleMsgFromComm V now env (Some m) d = Inr (d', rs) \<Longrightarrow>
    disc_run sign V d0 d'"

lemma disc_inv_new: "disc_inv (NewDiscoveryService self now)"
  by (simp add: disc_inv_def NewDiscoveryService_def ids_defs cached_def)

lemma disc_run_evolves: "disc_run sign V d0 d \<Longrightarrow> disc_inv d0 \<Longrightarrow> evolves d0 d"
proof (induction rule: disc_run.induct)
  case disc_start
  then show ?case by (rule disc_evolves_refl)
next
  case (disc_other d d')
  then have "evolves d0 d" "disc_inv d" by (simp_all add: evolves_def)
  then show ?case using interferes_quiet [OF disc_other.hyps(2)] quiet_evolves disc_evolves_trans by blast
next
  case (disc_msg d env m now d' rs)
  then have "evolves d0 d" "disc_inv d" by (simp_all add: evolves_def)
  moreover obtain d1 rs1 where "handleMsgFromComm V now env (Some m) d = Inr (d1, rs1)" "evolves d d1"
    using handleMsg_evolves [OF \<open>disc_inv d\<close> disc_msg.hyps(2,3)] by blast
  ultimately show ?case using disc_msg.hyps(4) disc_evolves_trans by auto
qed

lemma membersOf_cached:
  "cached ms K \<Longrightarrow> \<exists>ns. membersOf ms = Inr ns \<and> map nmPKIid ns = map pki ms"
proof (induction ms arbitrary: K)
  case (Cons m ms)
  then obtain mb where m: "amMembership m = Some mb" by (auto simp: cached_def)
  have "cached ms (set (map pki ms))" using Cons.prems by (simp add: cached_def)
  from Cons.IH [OF this] m show ?case by (auto simp: member_of_def pki_def)
qed simp

lemma copyLastSeen_total: "fst ` set l \<subseteq> knownIds d \<Longrightarrow> \<exists>ms. copyLastSeen_loop l d = Inr ms"
proof (induction l)
  case (Cons a l)
  then obtain p t where a: "a = (p, t)" by (cases a)
  then obtain m where "map_of (id2Member d) p = Some m" using Cons.prems by (auto simp: knownIds_def)
  with Cons a show ?case by auto
qed simp

text \<open>
  C19: The membership is consistent at all times, under every interleaving of the handler with the other goroutines. A known
  peer other than oneself is either alive or dead and not both; \<open>GetMembership\<close> reports exactly the peers that are alive, each
  once; and the periodic reconnection to dead peers does not follow a nil pointer.
\<close>

theorem membership_consistent:
  assumes "disc_run sign V (NewDiscoveryService self t0) d" and "order_ok ord"
  shows "aliveIds d \<inter> deadIds d = {} \<and> aliveIds d \<union> deadIds d = knownIds d - {nmPKIid self} \<and>
    (\<exists>ms. GetMembership d = Inr ms \<and> distinct (map nmPKIid ms) \<and> (\<not> dToDie d \<longrightarrow> set (map nmPKIid ms) = aliveIds d)) \<and>
    (\<exists>ms. copyLastSeen ord (deadLastTS d) d = Inr ms)"
proof -
  have e: "evolves (NewDiscoveryService self t0) d" by (rule disc_run_evolves [OF assms(1) disc_inv_new])
  then have i: "disc_inv d" and self: "dPkiID d = nmPKIid self" by (simp_all add: evolves_def NewDiscoveryService_def)
  obtain ms where ms: "membersOf (mrAlive (cachedMembership d)) = Inr ms" "map nmPKIid ms = map pki (mrAlive (cachedMembership d))"
    using membersOf_cached [OF disc_invD(3) [OF i]] by blast
  have "distinct (map nmPKIid ms) \<and> set (map nmPKIid ms) = aliveIds d"
    using disc_invD(3) [OF i] unfolding ms(2) cached_def by blast
  then have "\<exists>ms. GetMembership d = Inr ms \<and> distinct (map nmPKIid ms) \<and> (\<not> dToDie d \<longrightarrow> set (map nmPKIid ms) = aliveIds d)"
    using ms(1) by (cases "dToDie d") (simp_all add: GetMembership_def)
  moreover have "fst ` set (ord (deadLastTS d)) = deadIds d"
    unfolding order_ok_set [OF assms(2)] deadIds_def by (rule dom_map_of_conv_image_fst [symmetric])
  then have "\<exists>ms. copyLastSeen ord (deadLastTS d) d = Inr ms"
    using copyLastSeen_total [of "ord (deadLastTS d)" d] disc_invD(2) [OF i] unfolding copyLastSeen_def by blast
  ultimately show ?thesis using disc_invD(1,2) [OF i] self by simp
qed

text \<open>
  C18: Signs of life only get newer. A message whose parts are all present is handled without a panic, whatever the
  validity of its signatures and whatever the other goroutines do meanwhile; the recorded time of every known peer does not go back; and a peer
  that was dead is alive afterwards only if a strictly newer time has been recorded, so that a replay revives nobody.
\<close>

theorem signs_of_life_fresh:
  assumes "disc_run sign V (NewDiscoveryService self t0) d" and "env_ok sign env" and "msg_wf m"
  shows "\<exists>d' rs. handleMsgFromComm V now env (Some m) d = Inr (d', rs) \<and>
    (\<forall>p t. lastTS d p = Some t \<longrightarrow>
      (\<exists>t'. lastTS d' p = Some t' \<and> ts_le t t' \<and> (p \<in> deadIds d \<and> p \<in> aliveIds d' \<longrightarrow> ts_less t t')))"
proof -
  have "disc_inv d" using disc_run_evolves [OF assms(1) disc_inv_new] by (simp add: evolves_def)
  from handleMsg_evolves [OF this assms(2,3), of V now] show ?thesis unfolding evolves_def by blast
qed

definition disc_example :: gossipDiscoveryImpl where
  "disc_example = NewDiscoveryService \<lparr>nmEndpoint = [9], nmMetadata = [], nmPKIid = [9]\<rparr> 0"

definition disc_example1 :: gossipDiscoveryImpl where
  "disc_example1 = fst (projr (handleMsgFromComm (\<lambda>_. True) 5 (\<lambda>i d. d) (Some (alive_of 1 1 1)) disc_example))"

definition disc_example2 :: gossipDiscoveryImpl where
  "disc_example2 = fst (projr (expireDeadMembers [[1]] disc_example1))"

lemma disc_example_run: "disc_run (\<lambda>m. m) (\<lambda>_. True) disc_example disc_example2"
proof -
  have "handleMsgFromComm (\<lambda>_. True) 5 (\<lambda>i d. d) (Some (alive_of 1 1 1)) disc_example = Inr (disc_example1, [])" by code_simp
  moreover have "msg_wf (alive_of 1 1 1)" by code_simp
  moreover have "env_ok (\<lambda>m. m) (\<lambda>i d. d)" by (simp add: env_ok_def idle)
  ultimately have "disc_run (\<lambda>m. m) (\<lambda>_. True) disc_example disc_example1" by (blast intro: disc_start disc_msg)
  moreover have "expireDeadMembers [[1]] disc_example1 = Inr (disc_example2, [CloseConn \<lparr>nmEndpoint = [1], nmMetadata = [], nmPKIid = [1]\<rparr>])"
    by code_simp
  ultimately show ?thesis by (blast intro: disc_other idle expires)
qed

lemma membership_consistent_witness:
  "deadIds disc_example2 = {[1]} \<and> aliveIds disc_example2 \<inter> deadIds disc_example2 = {} \<and>
   (\<exists>ms. GetMembership disc_example2 = Inr ms \<and> distinct (map nmPKIid ms))"
proof -
  have "deadLastTS disc_example2 = [([1], \<lparr>incTime = 1, tsSeqNum = 1, lastSeen = 5\<rparr>)]" by code_simp
  then have "deadIds disc_example2 = {[1]}" by (simp add: deadIds_def)
  then show ?thesis
    using membership_consistent [OF disc_example_run [unfolded disc_example_def] order_ok_id] by blast
qed

lemma signs_of_life_fresh_witness:
  "\<exists>d' rs t'. handleMsgFromComm (\<lambda>_. True) 7 (\<lambda>i d. d) (Some (alive_of 1 1 1)) disc_example2 = Inr (d', rs) \<and>
     lastTS d' [1] = Some t' \<and> ts_le \<lparr>incTime = 1, tsSeqNum = 1, lastSeen = 5\<rparr> t'"
proof -
  have "msg_wf (alive_of 1 1 1)" by code_simp
  moreover have "env_ok (\<lambda>m. m) (\<lambda>i d. d)" by (simp add: env_ok_def idle)
  moreover have "lastTS disc_example2 [1] = Some \<lparr>incTime = 1, tsSeqNum = 1, lastSeen = 5\<rparr>" by code_simp
  ultimately show ?thesis using signs_of_life_fresh [OF disc_example_run [unfolded disc_example_def]] by metis
qed

section \<open>Messages that are not complete\<close>

text \<open>
  C25: An alive message without a membership part stops the process, whether or not it is authentic: rejecting it reads the endpoint
  for the log. So does, if it is authentic, one about a known peer that has no timestamp.
\<close>

theorem incomplete_alive_message_panics:
  assumes "gmContent m = GossipMessage_AliveMsg (Some am)"
    and "amMembership am = None \<or>
      V (Some am) \<and> amTimestamp am = None \<and> amMembership am = Some mb \<and> mbPkiID mb \<noteq> dPkiID d \<and> mbPkiID mb \<in> aliveIds d \<inter> knownIds d \<and>
      mbPkiID mb \<notin> deadIds d"
  shows "\<exists>e. handleMsgFromComm V now (\<lambda>i d. d) (Some m) d = Inl e \<and> is_panic e"
  using assms by (auto simp: handleMsgFromComm_def getter_defs handleAliveMessage_def before_def ids_defs domIff)

lemma incomplete_alive_message_panics_witness:
  "\<exists>e. handleMsgFromComm (\<lambda>_. False) 7 (\<lambda>i d. d) (Some \<lparr>gmNonce = 0, gmChannel = [], gmTag = EMPTY,
     gmContent = GossipMessage_AliveMsg (Some \<lparr>amMembership = None, amTimestamp = None, amSignature = []\<rparr>)\<rparr>) disc_example = Inl e \<and> is_panic e"
  by (rule incomplete_alive_message_panics [where am = "\<lparr>amMembership = None, amTimestamp = None, amSignature = []\<rparr>"]) simp_all

text \<open>A response tells of at most one dead peer, however many the requester does not know.\<close>

lemma response_one_dead: "createMembershipResponse sign known d = Inr (d', r) \<Longrightarrow> length (mrDead r) \<le> 1"
proof -
  have "unknownDead dms known = Inr r \<Longrightarrow> length r \<le> 1" for dms r
    by (induction dms) (auto simp: bindE_eq_Inr_conv split: if_splits)
  then show "createMembershipResponse sign known d = Inr (d', r) \<Longrightarrow> length (mrDead r) \<le> 1"
    by (auto simp: createMembershipResponse_def bindE_eq_Inr_conv split: prod.splits)
qed

end
