(* ===== verification/Gossip_State.thy ===== *)
theory Gossip_State
  imports Byte_Order KV_Ledger Gossip_Discovery
begin

text \<open>
  The committer (core/committer/committer_impl.go) and the transfer of blocks between peers (gossip/state): a buffer puts
  payloads into the order of their numbers, a provider commits them to the ledger, answers requests for blocks and requests missing
  blocks from peers that have more. The codec of blocks is an argument: \<open>un\<close> and \<open>ma\<close> are its two directions.
\<close>

section \<open>The committer\<close>

text \<open>The interface, for an implementation with state \<open>'c\<close>.\<close>

record 'c Committer =
  cCommitBlock :: "Block2 \<Rightarrow> 'c \<Rightarrow> 'c \<times> (error + unit)"
  cLedgerHeight :: "'c \<Rightarrow> error + u64"
  cGetBlocks :: "u64 list \<Rightarrow> 'c \<Rightarrow> error + Block2 list"
  cClose :: "'c \<Rightarrow> 'c"

definition CommitBlock ::
  "('b, 'i, 'tx) BlockStoreOps \<Rightarrow> ('t, 's, 'q) TxMgrOps \<Rightarrow> Block2 \<Rightarrow> ('b, 't) KVLedger \<Rightarrow> ('b, 't) KVLedger \<times> (error + unit)" where
  "CommitBlock B T block l =
     (case RemoveInvalidTransactionsAndPrepare T block l of
        (l, Inl err) \<Rightarrow> (l, Inl err)
      | (l, Inr _) \<Rightarrow> (case kv_Commit B T l of (l, Inl err) \<Rightarrow> (l, Inl err) | (l, Inr _) \<Rightarrow> (l, Inr ())))"

definition LedgerHeight :: "('b, 'i, 'tx) BlockStoreOps \<Rightarrow> ('b, 't) KVLedger \<Rightarrow> error + u64" where
  "LedgerHeight B l = bindE (kv_GetBlockchainInfo B l) (\<lambda>info. Inr (Height info))"

fun GetBlocks :: "('b, 'i, 'tx) BlockStoreOps \<Rightarrow> u64 list \<Rightarrow> ('b, 't) KVLedger \<Rightarrow> error + Block2 list" where
  "GetBlocks B [] l = Inr []"
| "GetBlocks B (seqNum # blockSeqs) l =
     catchE (GetBlockByNumber B l seqNum) (\<lambda>err. GetBlocks B blockSeqs l)
       (\<lambda>blck. bindE (GetBlocks B blockSeqs l) (\<lambda>blocks. Inr (blck # blocks)))"

definition LedgerCommitter ::
  "('b, 'i, 'tx) BlockStoreOps \<Rightarrow> ('t, 's, 'q) TxMgrOps \<Rightarrow> ('b, 't) KVLedger Committer" where
  "LedgerCommitter B T = \<lparr>cCommitBlock = CommitBlock B T, cLedgerHeight = LedgerHeight B, cGetBlocks = GetBlocks B, cClose = kv_Close B T\<rparr>"

section \<open>The height in the metadata of a node\<close>

definition NewNodeMetastate :: "u64 \<Rightarrow> u64" where
  "NewNodeMetastate height = height"

definition Metastate_Bytes :: "u64 \<Rightarrow> bytes" where
  "Metastate_Bytes n = BigEndian_PutUint64 n"

definition Metastate_FromBytes :: "bytes \<Rightarrow> error + u64" where
  "Metastate_FromBytes bs =
     (if length bs = 0 then Inl (ErrMsg ''EOF'')
      else if length bs < 8 then Inl ErrUnexpectedEOF
      else Inr (BigEndian_Uint64 (take 8 bs)))"

section \<open>The buffer of payloads\<close>

text \<open>\<open>pbReady\<close> counts the goroutines that wait to send on the channel \<open>readyChan\<close>.\<close>

record PayloadsBufferImpl =
  pbBuf :: "(u64, Payload) gomap"
  pbNext :: u64
  pbReady :: nat

definition NewPayloadsBuffer :: "u64 \<Rightarrow> PayloadsBufferImpl" where
  "NewPayloadsBuffer n = \<lparr>pbBuf = [], pbNext = n, pbReady = 0\<rparr>"

text \<open>An error that \<open>Push\<close> returns is a part of its result; a panic is not.\<close>

definition Push :: "Payload option \<Rightarrow> PayloadsBufferImpl \<Rightarrow> error + PayloadsBufferImpl \<times> error option" where
  "Push payload b =
     bindE (deref payload) (\<lambda>p.
       let seqNum = pySeqNum p in
       if seqNum < pbNext b \<or> map_of (pbBuf b) seqNum \<noteq> None then Inr (b, Some (ErrMsg ''Payload has been already processed''))
       else
         let b = b\<lparr>pbBuf := mput seqNum p (pbBuf b)\<rparr>
         in Inr (if seqNum = pbNext b then b\<lparr>pbReady := pbReady b + 1\<rparr> else b, None))"

definition Next :: "PayloadsBufferImpl \<Rightarrow> u64" where
  "Next b = pbNext b"

definition Pop :: "PayloadsBufferImpl \<Rightarrow> PayloadsBufferImpl \<times> Payload option" where
  "Pop b =
     (case map_of (pbBuf b) (Next b) of
        None \<Rightarrow> (b, None)
      | Some result \<Rightarrow> (b\<lparr>pbBuf := mdel (Next b) (pbBuf b), pbNext := pbNext b + 1\<rparr>, Some result))"

definition pb_Size :: "PayloadsBufferImpl \<Rightarrow> int" where
  "pb_Size b = int (length (pbBuf b))"

section \<open>The state provider\<close>

text \<open>\<open>stMeta\<close> is the metadata last given to the gossip service with \<open>UpdateMetadata\<close>.\<close>

record 'c GossipStateProviderImpl =
  stCommitter :: 'c
  stPayloads :: PayloadsBufferImpl
  stStop :: bool
  stMeta :: bytes

definition NewGossipStateProvider :: "'c Committer \<Rightarrow> 'c \<Rightarrow> error + 'c GossipStateProviderImpl" where
  "NewGossipStateProvider C c =
     bindE (cLedgerHeight C c) (\<lambda>height.
       Inr \<lparr>stCommitter = c, stPayloads = NewPayloadsBuffer (height + 1), stStop = False,
            stMeta = Metastate_Bytes (NewNodeMetastate height)\<rparr>)"

definition state_isDone :: "'c GossipStateProviderImpl \<Rightarrow> bool" where
  "state_isDone s = stStop s"

definition state_Stop :: "'c GossipStateProviderImpl \<Rightarrow> 'c GossipStateProviderImpl" where
  "state_Stop s = s\<lparr>stStop := True\<rparr>"

definition commitBlock ::
  "'c Committer \<Rightarrow> Block2 \<Rightarrow> u64 \<Rightarrow> 'c GossipStateProviderImpl \<Rightarrow> 'c GossipStateProviderImpl \<times> (error + unit)" where
  "commitBlock C block seqNum s =
     (case cCommitBlock C block (stCommitter s) of
        (c, Inl err) \<Rightarrow> (s\<lparr>stCommitter := c\<rparr>, Inl err)
      | (c, Inr _) \<Rightarrow> (s\<lparr>stCommitter := c, stMeta := Metastate_Bytes (NewNodeMetastate seqNum)\<rparr>, Inr ()))"

text \<open>
  A turn of the inner loop of \<open>deliverPayloads\<close>: what it popped, if anything, and what became of it. An error of
  the commit is logged; a panic ends the process.
\<close>

datatype outcome = Dropped error | Failed error | Committed Block2

definition deliver_turn ::
  "'c Committer \<Rightarrow> (bytes \<Rightarrow> error + Block2) \<Rightarrow> 'c GossipStateProviderImpl \<Rightarrow> 'c GossipStateProviderImpl \<times> (Payload \<times> outcome) option" where
  "deliver_turn C un s =
     (case Pop (stPayloads s) of
        (b, None) \<Rightarrow> (s, None)
      | (b, Some payload) \<Rightarrow>
          let s = s\<lparr>stPayloads := b\<rparr> in
          (case un (pyData payload) of
             Inl err \<Rightarrow> (s, Some (payload, Dropped err))
           | Inr rawblock \<Rightarrow>
               (case commitBlock C rawblock (pySeqNum payload) s of
                  (s, Inl err) \<Rightarrow> (s, Some (payload, Failed err))
                | (s, Inr _) \<Rightarrow> (s, Some (payload, Committed rawblock)))))"

lemma Pop_shrinks: "Pop b = (b', Some p) \<Longrightarrow> length (pbBuf b') < length (pbBuf b)"
proof -
  assume "Pop b = (b', Some p)"
  then have m: "map_of (pbBuf b) (pbNext b) = Some p" "pbBuf b' = mdel (pbNext b) (pbBuf b)"
    by (auto simp: Pop_def Next_def split: option.splits)
  then have "(pbNext b, p) \<in> set (pbBuf b)" by (simp add: map_of_SomeD)
  then show ?thesis unfolding m(2) mdel_def by (intro length_filter_less) auto
qed

lemma commitBlock_payloads: "commitBlock C block k s = (s', r) \<Longrightarrow> stPayloads s' = stPayloads s"
  by (auto simp: commitBlock_def split: prod.splits sum.splits)

lemma deliver_turn_Pop: "deliver_turn C un s = (s', Some x) \<Longrightarrow> Pop (stPayloads s) = (stPayloads s', Some (fst x))"
  by (auto simp: deliver_turn_def Let_def split: prod.splits option.splits sum.splits dest!: commitBlock_payloads)

text \<open>The loop, when nothing is pushed meanwhile: it ends when the next payload is not in the buffer, or with a panic.\<close>

function deliver_loop ::
  "'c Committer \<Rightarrow> (bytes \<Rightarrow> error + Block2) \<Rightarrow> 'c GossipStateProviderImpl \<Rightarrow> 'c GossipStateProviderImpl \<times> (Payload \<times> outcome) list" where
  "deliver_loop C un s =
     (case deliver_turn C un s of
        (s', None) \<Rightarrow> (s', [])
      | (s', Some x) \<Rightarrow>
          if (case snd x of Failed err \<Rightarrow> is_panic err | _ \<Rightarrow> False) then (s', [x])
          else (case deliver_loop C un s' of (s'', xs) \<Rightarrow> (s'', x # xs)))"
  by pat_completeness auto
termination
  by (relation "measure (\<lambda>(C, un, s). length (pbBuf (stPayloads s)))")
    (auto dest!: sym [of "(_, _)"] deliver_turn_Pop Pop_shrinks)

declare deliver_loop.simps [simp del]

definition AddPayload :: "Payload option \<Rightarrow> 'c GossipStateProviderImpl \<Rightarrow> error + 'c GossipStateProviderImpl \<times> error option" where
  "AddPayload payload s = bindE (Push payload (stPayloads s)) (\<lambda>(b, err). Inr (s\<lparr>stPayloads := b\<rparr>, err))"

definition queueNewMessage :: "GossipMessage \<Rightarrow> 'c GossipStateProviderImpl \<Rightarrow> error + 'c GossipStateProviderImpl" where
  "queueNewMessage msg s =
     (case GetDataMsg msg of
        Some dataMsg \<Rightarrow>
          bindE (deref (dmPayload dataMsg)) (\<lambda>_. bindE (AddPayload (dmPayload dataMsg) s) (\<lambda>(s, err). Inr s))
      | None \<Rightarrow> Inr s)"

fun handleStateResponse :: "Payload list \<Rightarrow> 'c GossipStateProviderImpl \<Rightarrow> error + 'c GossipStateProviderImpl" where
  "handleStateResponse [] s = Inr s"
| "handleStateResponse (payload # payloads) s =
     bindE (AddPayload (Some payload) s) (\<lambda>(s, err). handleStateResponse payloads s)"

text \<open>The answer to a request. A block that cannot be encoded is sent without data.\<close>

fun handleStateRequest ::
  "'c Committer \<Rightarrow> (Block2 \<Rightarrow> error + bytes) \<Rightarrow> u64 list \<Rightarrow> 'c GossipStateProviderImpl \<Rightarrow> error + Payload list" where
  "handleStateRequest C ma [] s = Inr []"
| "handleStateRequest C ma (seqNum # seqNums) s =
     bindE (cGetBlocks C [seqNum] (stCommitter s)) (\<lambda>blocks.
       case blocks of
         [] \<Rightarrow> handleStateRequest C ma seqNums s
       | block # _ \<Rightarrow>
           bindE (handleStateRequest C ma seqNums s) (\<lambda>payloads.
             Inr (\<lparr>pySeqNum = seqNum, pyHash = [], pyData = (case ma block of Inl err \<Rightarrow> [] | Inr bytes \<Rightarrow> bytes)\<rparr> # payloads)))"

definition directMessage ::
  "'c Committer \<Rightarrow> (Block2 \<Rightarrow> error + bytes) \<Rightarrow> GossipMessage \<Rightarrow> 'c GossipStateProviderImpl \<Rightarrow>
   error + 'c GossipStateProviderImpl \<times> GossipMessage list" where
  "directMessage C ma incoming s =
     (case GetStateRequest incoming of
        Some seqNums \<Rightarrow>
          bindE (handleStateRequest C ma seqNums s) (\<lambda>payloads.
            Inr (s, [\<lparr>gmNonce = 0, gmChannel = [], gmTag = UNDEFINED, gmContent = GossipMessage_StateResponse (Some payloads)\<rparr>]))
      | None \<Rightarrow>
          (case GetStateResponse incoming of
             Some payloads \<Rightarrow> bindE (handleStateResponse payloads s) (\<lambda>s. Inr (s, []))
           | None \<Rightarrow> Inr (s, [])))"

definition state_GetBlock :: "'c Committer \<Rightarrow> u64 \<Rightarrow> 'c GossipStateProviderImpl \<Rightarrow> error + Block2 option" where
  "state_GetBlock C idx s =
     bindE (cGetBlocks C [idx] (stCommitter s)) (\<lambda>blocks. Inr (case blocks of [] \<Rightarrow> None | b # _ \<Rightarrow> Some b))"

section \<open>Anti-entropy\<close>

text \<open>The loop that fills a request; None when it does not end.\<close>

partial_function (option) seqRange :: "u64 \<Rightarrow> u64 \<Rightarrow> u64 list \<Rightarrow> u64 list option" where
  "seqRange i end seqNums = (if i \<le> end then seqRange (i + 1) end (seqNums @ [i]) else Some seqNums)"

text \<open>The peers that have enough blocks; \<open>rand_Intn\<close> chooses one of them.\<close>

definition peersAtHeight :: "u64 \<Rightarrow> NetworkMember list \<Rightarrow> NetworkMember list" where
  "peersAtHeight end members =
     filter (\<lambda>v. case Metastate_FromBytes (nmMetadata v) of Inl err \<Rightarrow> False | Inr h \<Rightarrow> h \<ge> end) members"

definition requestBlocksInRange ::
  "(nat \<Rightarrow> nat) \<Rightarrow> NetworkMember list \<Rightarrow> u64 \<Rightarrow> u64 \<Rightarrow> (NetworkMember \<times> GossipMessage) list option" where
  "requestBlocksInRange rand_Intn members start end =
     (let peers = peersAtHeight end members; n = length peers in
      if n = 0 then Some []
      else
        map_option (\<lambda>seqNums.
            [(peers ! rand_Intn n, \<lparr>gmNonce = 0, gmChannel = [], gmTag = UNDEFINED, gmContent = GossipMessage_StateRequest (Some seqNums)\<rparr>)])
          (seqRange start end []))"

definition maxHeight :: "u64 \<Rightarrow> NetworkMember list \<Rightarrow> u64" where
  "maxHeight current members =
     fold (\<lambda>p m. case Metastate_FromBytes (nmMetadata p) of Inl err \<Rightarrow> m | Inr h \<Rightarrow> if m < h then h else m) members current"

text \<open>A turn of the loop of \<open>antiEntropy\<close> after its interval has passed. The error of \<open>LedgerHeight\<close> is ignored, with height 0.\<close>

definition antiEntropy ::
  "'c Committer \<Rightarrow> (nat \<Rightarrow> nat) \<Rightarrow> NetworkMember list \<Rightarrow> 'c GossipStateProviderImpl \<Rightarrow> (NetworkMember \<times> GossipMessage) list option" where
  "antiEntropy C rand_Intn members s =
     (let current = (case cLedgerHeight C (stCommitter s) of Inl _ \<Rightarrow> 0 | Inr h \<Rightarrow> h);
          m = maxHeight current members
      in if current = m then Some [] else requestBlocksInRange rand_Intn members (current + 1) m)"

end
