(* ===== verification/Gossip_State_Props.thy ===== *)
theory Gossip_State_Props
  imports Gossip_State
begin

text \<open>
  Runs of the state provider over the contract \<open>block_committer\<close> of a committer, which the committer of the key-value ledger
  meets: payloads are committed in the order of their numbers, and a peer that asks another for the blocks it misses gets the
  same chain and the same state.
\<close>

section \<open>Metadata and ranges\<close>

lemma Metastate_roundtrip: "Metastate_FromBytes (Metastate_Bytes n) = Inr n"
proof -
  have "length (BigEndian_PutUint64 n) = 8" by (simp add: BigEndian_PutUint64_def)
  then show ?thesis
    using unsigned_less [where 'a = nat, of n]
    by (simp add: Metastate_FromBytes_def Metastate_Bytes_def BigEndian_Uint64_def BigEndian_PutUint64_def be_word_be_bytes)
qed

lemma of_nat_u64_le: "m < 2 ^ 64 \<Longrightarrow> n < 2 ^ 64 \<Longrightarrow> (of_nat m :: u64) \<le> of_nat n \<longleftrightarrow> m \<le> n"
  by (simp add: word_le_nat_alt unat_of_nat64)

lemma seqRange_Some:
  assumes "m + 1 < 2 ^ 64" and "k \<le> m + 1"
  shows "seqRange (of_nat k) (of_nat m) acc = Some (acc @ map of_nat [k ..< m + 1])"
  using assms(2)
proof (induction "m + 1 - k" arbitrary: k acc)
  case 0
  then have "k = m + 1" by simp
  then show ?case using assms(1) of_nat_u64_le [of k m] by (subst seqRange.simps) simp
next
  case (Suc j)
  then have k: "k \<le> m" by simp
  have "seqRange (of_nat k) (of_nat m) acc = seqRange (of_nat (k + 1)) (of_nat m) (acc @ [of_nat k])"
    using k assms(1) of_nat_u64_le [of k m] by (subst seqRange.simps) (simp add: add.commute)
  also have "\<dots> = Some ((acc @ [of_nat k]) @ map of_nat [k + 1 ..< m + 1])" by (rule Suc.hyps(1)) (use Suc.hyps(2) k in simp_all)
  also have "(acc @ [of_nat k]) @ map of_nat [k + 1 ..< m + 1] = acc @ map of_nat [k ..< m + 1]"
    using k by (simp add: upt_conv_Cons del: upt_Suc)
  finally show ?case .
qed

text \<open>When the end is the largest number, every number is at most the end, and the loop goes on for ever.\<close>

lemma seqRange_diverges: "seqRange i (- 1) acc = None"
proof -
  have "seqRange i e acc = Some r \<Longrightarrow> e \<noteq> - 1" for i e acc r
  proof (rule seqRange.raw_induct [of "\<lambda>i e acc r. e \<noteq> - 1"])
    fix seqRange' i e acc r
    assume "\<And>i e acc r. seqRange' i e acc = Some r \<Longrightarrow> e \<noteq> (- 1 :: u64)"
      and "(if i \<le> e then seqRange' (i + 1) e (acc @ [i]) else Some acc) = Some r"
    then show "e \<noteq> - 1" by (auto split: if_splits)
  qed
  then show ?thesis by (cases "seqRange i (- 1) acc") blast+
qed

section \<open>Runs\<close>

text \<open>
  \<open>gs_run C un s0 acc log dr s\<close>: from \<open>s0\<close>, pushes and turns of the delivering goroutine in any order lead to \<open>s\<close>; \<open>acc\<close> are the
  payloads that the buffer accepted, \<open>log\<close> those that were popped and what became of them, and \<open>dr\<close> says that the
  delivering goroutine is in its inner loop.
\<close>

inductive gs_run ::
  "'c Committer \<Rightarrow> (bytes \<Rightarrow> error + Block2) \<Rightarrow> 'c GossipStateProviderImpl \<Rightarrow> Payload list \<Rightarrow> (Payload \<times> outcome) list \<Rightarrow> bool \<Rightarrow>
   'c GossipStateProviderImpl \<Rightarrow> bool"
  for C :: "'c Committer" and un :: "bytes \<Rightarrow> error + Block2" and s0 :: "'c GossipStateProviderImpl" where
  gs_start: "gs_run C un s0 [] [] False s0"
| gs_push: "gs_run C un s0 acc log dr s \<Longrightarrow> AddPayload (Some p) s = Inr (s', None) \<Longrightarrow> gs_run C un s0 (acc @ [p]) log dr s'"
| gs_refused: "gs_run C un s0 acc log dr s \<Longrightarrow> AddPayload (Some p) s = Inr (s', Some err) \<Longrightarrow> gs_run C un s0 acc log dr s'"
| gs_ready: "gs_run C un s0 acc log False s \<Longrightarrow> pbReady (stPayloads s) = Suc k \<Longrightarrow>
    gs_run C un s0 acc log True (s\<lparr>stPayloads := (stPayloads s)\<lparr>pbReady := k\<rparr>\<rparr>)"
| gs_turn: "gs_run C un s0 acc log True s \<Longrightarrow> deliver_turn C un s = (s', Some (p, out)) \<Longrightarrow> (\<forall>err. out = Failed err \<longrightarrow> \<not> is_panic err) \<Longrightarrow>
    gs_run C un s0 acc (log @ [(p, out)]) True s'"
| gs_empty: "gs_run C un s0 acc log True s \<Longrightarrow> deliver_turn C un s = (s', None) \<Longrightarrow> gs_run C un s0 acc log False s'"

text \<open>What holds of the buffer: its keys are the numbers of its payloads, none below the next, and no wake-up is lost.\<close>

definition buffer_inv :: "nat \<Rightarrow> Payload list \<Rightarrow> Payload list \<Rightarrow> bool \<Rightarrow> PayloadsBufferImpl \<Rightarrow> bool" where
  "buffer_inv h acc popped dr b \<longleftrightarrow>
     map pySeqNum popped = map of_nat [h + 1 ..< h + 1 + length popped] \<and> pbNext b = of_nat (h + 1 + length popped) \<and>
     (\<forall>k p. map_of (pbBuf b) k = Some p \<longrightarrow> pySeqNum p = k \<and> pbNext b \<le> k) \<and>
     set acc = set popped \<union> ran (map_of (pbBuf b)) \<and>
     (\<not> dr \<and> map_of (pbBuf b) (pbNext b) \<noteq> None \<longrightarrow> 0 < pbReady b)"

lemma buffer_invD:
  assumes "buffer_inv h acc popped dr b"
  shows "map pySeqNum popped = map of_nat [h + 1 ..< h + 1 + length popped]" "pbNext b = of_nat (h + 1 + length popped)"
    "map_of (pbBuf b) k = Some p \<Longrightarrow> pySeqNum p = k \<and> pbNext b \<le> k" "set acc = set popped \<union> ran (map_of (pbBuf b))"
    "\<not> dr \<Longrightarrow> map_of (pbBuf b) (pbNext b) \<noteq> None \<Longrightarrow> 0 < pbReady b"
  using assms unfolding buffer_inv_def by blast+

lemma buffer_inv_push:
  assumes "buffer_inv h acc popped dr b" and "Push (Some p) b = Inr (b', None)"
  shows "buffer_inv h (acc @ [p]) popped dr b'"
proof -
  note D = buffer_invD [OF assms(1)]
  have new: "\<not> pySeqNum p < pbNext b" "map_of (pbBuf b) (pySeqNum p) = None"
    using assms(2) by (auto simp: Push_def Let_def split: if_splits)
  have b': "pbBuf b' = mput (pySeqNum p) p (pbBuf b)" "pbNext b' = pbNext b" "pbReady b \<le> pbReady b'"
    "pySeqNum p = pbNext b \<Longrightarrow> 0 < pbReady b'"
    using assms(2) new by (auto simp: Push_def Let_def)
  have "ran (map_of (pbBuf b')) = insert p (ran (map_of (pbBuf b)))" using new(2) by (simp add: b'(1))
  moreover have "\<forall>k q. map_of (pbBuf b') k = Some q \<longrightarrow> pySeqNum q = k \<and> pbNext b' \<le> k"
    using D(3) new(1) by (auto simp: b' not_less)
  moreover have "0 < pbReady b'" if "\<not> dr" "map_of (pbBuf b') (pbNext b') \<noteq> None"
    using that D(5) b' by (cases "pySeqNum p = pbNext b") auto
  ultimately show ?thesis unfolding buffer_inv_def using D(1,2,4) by (auto simp: b'(2))
qed

lemma buffer_inv_pop:
  assumes "buffer_inv h acc popped True b" and "Pop b = (b', Some p)" and "h + 2 + length popped < 2 ^ 64"
  shows "buffer_inv h acc (popped @ [p]) True b'"
proof -
  note D = buffer_invD [OF assms(1)]
  have p: "map_of (pbBuf b) (pbNext b) = Some p" and b': "pbBuf b' = mdel (pbNext b) (pbBuf b)" "pbNext b' = pbNext b + 1"
    using assms(2) by (auto simp: Pop_def Next_def split: option.splits)
  have n: "pySeqNum p = pbNext b" using D(3) [OF p] by simp
  have nx: "pbNext b' = of_nat (h + 1 + length (popped @ [p]))" using D(2) b'(2) by simp
  have "pbNext b' \<le> k" if "map_of (pbBuf b') k = Some q" for k q
  proof -
    have "pbNext b \<le> k" "k \<noteq> pbNext b" using that D(3) [of k q] by (auto simp: b'(1) split: if_splits)
    then have "unat (pbNext b) < unat k" by (metis order_le_less word_less_nat_alt)
    moreover have "unat (pbNext b) = h + 1 + length popped" "unat (pbNext b') = h + 2 + length popped"
      using assms(3) unfolding nx D(2) by (simp_all add: unat_of_nat64 del: of_nat_add of_nat_Suc)
    ultimately show ?thesis by (simp add: word_le_nat_alt)
  qed
  moreover have "pySeqNum q = k" if "map_of (pbBuf b') k = Some q" for k q using that D(3) [of k q] by (auto simp: b'(1) split: if_splits)
  moreover have "set acc = set (popped @ [p]) \<union> ran (map_of (pbBuf b'))"
    using D(4) p by (auto simp: b'(1) ran_def) (metis option.inject)
  moreover have "map pySeqNum (popped @ [p]) = map of_nat [h + 1 ..< h + 1 + length (popped @ [p])]" using D(1,2) n by simp
  ultimately show ?thesis unfolding buffer_inv_def using nx by blast
qed

lemma AddPayload_frame:
  "AddPayload (Some p) s = Inr (s', err) \<Longrightarrow>
    stCommitter s' = stCommitter s \<and> Push (Some p) (stPayloads s) = Inr (stPayloads s', err)"
  by (auto simp: AddPayload_def bindE_eq_Inr_conv)

lemma Push_refused: "Push (Some p) b = Inr (b', Some err) \<Longrightarrow> b' = b"
  by (auto simp: Push_def Let_def split: if_splits)

lemma deliver_turn_committed: "deliver_turn C un s = (s', Some (p, Committed b)) \<Longrightarrow> un (pyData p) = Inr b"
  by (auto simp: deliver_turn_def Let_def split: option.splits sum.splits prod.splits)

lemma gs_run_buffer:
  assumes "gs_run C un s0 acc log dr s" and "stPayloads s0 = NewPayloadsBuffer (of_nat h + 1)" and "h + 1 + length log < 2 ^ 64"
  shows "buffer_inv h acc (map fst log) dr (stPayloads s) \<and> (\<forall>p b. (p, Committed b) \<in> set log \<longrightarrow> un (pyData p) = Inr b)"
  using assms(1,3)
proof (induction rule: gs_run.induct)
  case gs_start
  have "buffer_inv h [] [] False (NewPayloadsBuffer (of_nat h + 1))"
    by (simp add: buffer_inv_def NewPayloadsBuffer_def add.commute)
  with assms(2) show ?case by simp
next
  case (gs_push acc log dr s p s')
  then show ?case using AddPayload_frame [OF gs_push.hyps(2)] buffer_inv_push by auto
next
  case (gs_refused acc log dr s p s' err)
  then show ?case using AddPayload_frame [OF gs_refused.hyps(2)] Push_refused by force
next
  case (gs_ready acc log s k)
  then show ?case by (auto simp: buffer_inv_def)
next
  case (gs_turn acc log s s' p out)
  then have ih: "buffer_inv h acc (map fst log) True (stPayloads s)" "\<forall>p b. (p, Committed b) \<in> set log \<longrightarrow> un (pyData p) = Inr b" by simp_all
  have "Pop (stPayloads s) = (stPayloads s', Some p)" using deliver_turn_Pop [OF gs_turn.hyps(2)] by simp
  from buffer_inv_pop [OF ih(1) this] gs_turn.prems
  have "buffer_inv h acc (map fst (log @ [(p, out)])) True (stPayloads s')" by simp
  moreover have "un (pyData p) = Inr b" if "out = Committed b" for b
    using deliver_turn_committed gs_turn.hyps(2) that by blast
  ultimately show ?case using ih(2) by auto
next
  case (gs_empty acc log s s')
  have "s' = s" "map_of (pbBuf (stPayloads s)) (pbNext (stPayloads s)) = None"
    using gs_empty.hyps(2)
    by (auto simp: deliver_turn_def Pop_def Next_def Let_def split: option.splits sum.splits prod.splits)
  with gs_empty.IH gs_empty.prems show ?case by (auto simp: buffer_inv_def)
qed

text \<open>Payloads that are new to the buffer are all accepted, and the loop without interleaving is a run that empties it.\<close>

lemma response_run:
  assumes "gs_run C un s0 acc log dr s" and "distinct (map pySeqNum ps)"
    and "\<forall>p \<in> set ps. \<not> pySeqNum p < pbNext (stPayloads s) \<and> map_of (pbBuf (stPayloads s)) (pySeqNum p) = None"
  shows "\<exists>s'. handleStateResponse ps s = Inr s' \<and> gs_run C un s0 (acc @ ps) log dr s'"
  using assms
proof (induction ps arbitrary: acc s)
  case (Cons p ps)
  have ok: "\<not> pySeqNum p < pbNext (stPayloads s)" "map_of (pbBuf (stPayloads s)) (pySeqNum p) = None" using Cons.prems(3) by simp_all
  define b where "b = (stPayloads s)\<lparr>pbBuf := mput (pySeqNum p) p (pbBuf (stPayloads s)),
    pbReady := (if pySeqNum p = pbNext (stPayloads s) then pbReady (stPayloads s) + 1 else pbReady (stPayloads s))\<rparr>"
  let ?s = "s\<lparr>stPayloads := b\<rparr>"
  have add: "AddPayload (Some p) s = Inr (?s, None)" using ok by (simp add: AddPayload_def Push_def Let_def b_def)
  have "gs_run C un s0 (acc @ [p]) log dr ?s" by (rule gs_push [OF Cons.prems(1) add])
  moreover have "\<forall>q \<in> set ps. \<not> pySeqNum q < pbNext (stPayloads ?s) \<and> map_of (pbBuf (stPayloads ?s)) (pySeqNum q) = None"
    using Cons.prems(2,3) by (auto simp: b_def) (metis image_eqI)
  ultimately obtain s' where "handleStateResponse ps ?s = Inr s'" "gs_run C un s0 ((acc @ [p]) @ ps) log dr s'"
    using Cons.IH [of "acc @ [p]" ?s] Cons.prems(2) by auto
  with add show ?case by simp
qed simp

lemma loop_run:
  assumes "gs_run C un s0 acc log True s" and "deliver_loop C un s = (s', log')" and "\<forall>p err. (p, Failed err) \<in> set log' \<longrightarrow> \<not> is_panic err"
  shows "gs_run C un s0 acc (log @ log') False s' \<and> map_of (pbBuf (stPayloads s')) (pbNext (stPayloads s')) = None"
  using assms
proof (induction C un s arbitrary: log log' rule: deliver_loop.induct)
  case (1 C un s)
  obtain s1 o1 where t: "deliver_turn C un s = (s1, o1)" by fastforce
  show ?case
  proof (cases o1)
    case None
    then have "s' = s1" "log' = []" using "1.prems"(2) t by (auto simp: deliver_loop.simps [of C un s])
    moreover have "s1 = s" "map_of (pbBuf (stPayloads s)) (pbNext (stPayloads s)) = None"
      using t None by (auto simp: deliver_turn_def Pop_def Next_def Let_def split: option.splits sum.splits prod.splits)
    ultimately show ?thesis using gs_empty [OF "1.prems"(1)] t None by simp
  next
    case (Some x)
    obtain p out where x: "x = (p, out)" by (cases x)
    obtain s2 log2 where 2: "deliver_loop C un s1 = (s2, log2)" by fastforce
    define pan where "pan \<longleftrightarrow> (case out of Failed err \<Rightarrow> is_panic err | _ \<Rightarrow> False)"
    have "deliver_loop C un s = (if pan then (s1, [(p, out)]) else (s2, (p, out) # log2))"
      using t Some x 2 unfolding pan_def by (simp add: deliver_loop.simps [of C un s])
    with "1.prems"(2) have log': "(s', log') = (if pan then (s1, [(p, out)]) else (s2, (p, out) # log2))" by simp
    have fail: "\<not> is_panic err" if "out = Failed err" for err
    proof -
      have "(p, out) \<in> set log'" using log' by (cases pan) simp_all
      then show ?thesis using "1.prems"(3) that by blast
    qed
    then have ok: "\<not> pan" by (auto simp: pan_def split: outcome.splits)
    then have r: "s' = s2" "log' = (p, out) # log2" using log' by simp_all
    have "gs_run C un s0 acc (log @ [(p, out)]) True s1" by (rule gs_turn [OF "1.prems"(1)]) (use t Some x fail in simp_all)
    moreover have "\<forall>p err. (p, Failed err) \<in> set log2 \<longrightarrow> \<not> is_panic err" using "1.prems"(3) r(2) by simp
    ultimately have "gs_run C un s0 acc ((log @ [(p, out)]) @ log2) False s2 \<and> map_of (pbBuf (stPayloads s2)) (pbNext (stPayloads s2)) = None"
      using "1.IH" [OF t [symmetric] Some _ _ 2 [folded r(1)], of "log @ [(p, out)]"] x ok [unfolded pan_def] r(1) by simp
    then show ?thesis using r by simp
  qed
qed

lemma response_loop_run:
  assumes "stPayloads s0 = NewPayloadsBuffer k" and "handleStateResponse ps s0 = Inr s" and "distinct (map pySeqNum ps)"
    and "\<forall>p \<in> set ps. \<not> pySeqNum p < k" and "pbReady (stPayloads s) = Suc j"
    and "deliver_loop C un (s\<lparr>stPayloads := (stPayloads s)\<lparr>pbReady := j\<rparr>\<rparr>) = (s', log)" and "\<forall>p err. (p, Failed err) \<in> set log \<longrightarrow> \<not> is_panic err"
  shows "gs_run C un s0 ps log False s' \<and> map_of (pbBuf (stPayloads s')) (pbNext (stPayloads s')) = None"
proof -
  have "gs_run C un s0 ps [] False s"
    using response_run [OF gs_start assms(3), of s0 C un] assms(1,2,4) by (auto simp: NewPayloadsBuffer_def)
  from loop_run [OF gs_ready [OF this assms(5)] assms(6,7)] show ?thesis by simp
qed

text \<open>The payloads with the encodings of the blocks numbered \<open>k + 1\<close> to \<open>m\<close> of a chain.\<close>

definition answer :: "(Block2 \<Rightarrow> error + bytes) \<Rightarrow> Block2 list \<Rightarrow> nat \<Rightarrow> nat \<Rightarrow> Payload list" where
  "answer ma bs k m =
     map (\<lambda>i. \<lparr>pySeqNum = of_nat (Suc i), pyHash = [], pyData = (case ma (norm_block (bs ! i)) of Inl err \<Rightarrow> [] | Inr d \<Rightarrow> d)\<rparr>) [k ..< m]"

section \<open>The contract of a committer\<close>

text \<open>
  The chain after a log, when \<open>valid bs b\<close> is what a block \<open>b\<close> adds to the chain \<open>bs\<close>, and the condition that the blocks which
  the payloads of a log decode to are \<open>good\<close>.
\<close>

fun chain_after :: "(Block2 list \<Rightarrow> Block2 \<Rightarrow> Block2) \<Rightarrow> (Payload \<times> outcome) list \<Rightarrow> Block2 list \<Rightarrow> Block2 list" where
  "chain_after valid [] bs = bs"
| "chain_after valid ((p, Committed b) # log) bs = chain_after valid log (bs @ [valid bs b])"
| "chain_after valid ((p, _) # log) bs = chain_after valid log bs"

definition good_log :: "(Block2 \<Rightarrow> bool) \<Rightarrow> (bytes \<Rightarrow> error + Block2) \<Rightarrow> (Payload \<times> outcome) list \<Rightarrow> bool" where
  "good_log good un log \<longleftrightarrow> (\<forall>(p, out) \<in> set log. \<forall>b. un (pyData p) = Inr b \<longrightarrow> good b)"

definition committed :: "(Payload \<times> outcome) list \<Rightarrow> (Payload \<times> outcome) list" where
  "committed log = filter (\<lambda>(p, out). \<exists>b. out = Committed b) log"

lemma chain_after_append: "chain_after valid (log @ log') bs = chain_after valid log' (chain_after valid log bs)"
  by (induction valid log bs rule: chain_after.induct) simp_all

lemma good_log_append [simp]: "good_log good un (log @ log') \<longleftrightarrow> good_log good un log \<and> good_log good un log'"
  by (auto simp: good_log_def)

lemma length_chain_after: "length (chain_after valid log bs) = length bs + length (committed log)"
  by (induction valid log bs rule: chain_after.induct) (simp_all add: committed_def)

text \<open>
  \<open>chain n c bs\<close>: after \<open>n\<close> commits the committer \<open>c\<close> holds the blocks \<open>bs\<close>. A \<open>good\<close> block is
  committed, as its \<open>valid\<close> part, or an error is returned and the chain is as before.
\<close>

locale block_committer =
  fixes C :: "'c Committer" and chain :: "nat \<Rightarrow> 'c \<Rightarrow> Block2 list \<Rightarrow> bool"
    and good :: "Block2 \<Rightarrow> bool" and valid :: "Block2 list \<Rightarrow> Block2 \<Rightarrow> Block2"
  assumes chain_height: "chain n c bs \<Longrightarrow> cLedgerHeight C c = Inr (of_nat (length bs))"
    and chain_get: "chain n c bs \<Longrightarrow> i < length bs \<Longrightarrow> cGetBlocks C [of_nat (Suc i)] c = Inr [norm_block (bs ! i)]"
    and chain_commit: "chain n c bs \<Longrightarrow> n < 2 ^ 62 \<Longrightarrow> good b \<Longrightarrow> cCommitBlock C b c = (c', r) \<Longrightarrow>
      \<exists>n' \<le> Suc n. chain n' c' (if r = Inr () then bs @ [valid bs b] else bs)"
begin

text \<open>A turn: what it adds to the log is what the committer did.\<close>

lemma deliver_turn_chain:
  assumes "deliver_turn C un s = (s', Some (p, out))" and "chain n (stCommitter s) bs" and "n < 2 ^ 62"
    and "good_log good un [(p, out)]"
  shows "\<exists>n'. n' \<le> Suc n \<and> chain n' (stCommitter s') (chain_after valid [(p, out)] bs)"
proof -
  obtain b where pop: "Pop (stPayloads s) = (b, Some p)" using deliver_turn_Pop [OF assms(1)] by auto
  show ?thesis
  proof (cases "un (pyData p)")
    case (Inl e)
    then have "stCommitter s' = stCommitter s" "out = Dropped e" using assms(1) pop by (auto simp: deliver_turn_def)
    then show ?thesis using assms(2) by (intro exI [of _ n]) simp
  next
    case (Inr blk)
    obtain c r where c: "cCommitBlock C blk (stCommitter s) = (c, r)" by fastforce
    have "good blk" using assms(4) Inr by (simp add: good_log_def)
    from chain_commit [OF assms(2,3) this c]
    obtain n' where ch: "n' \<le> Suc n" "chain n' c (if r = Inr () then bs @ [valid bs blk] else bs)" by blast
    have "stCommitter s' = c \<and> (case r of Inl e \<Rightarrow> out = Failed e | Inr _ \<Rightarrow> out = Committed blk)"
      using assms(1) pop Inr c by (auto simp: deliver_turn_def commitBlock_def Let_def split: sum.splits)
    then show ?thesis using ch by (intro exI [of _ n']) (auto split: sum.splits)
  qed
qed

lemma gs_run_chain:
  assumes "gs_run C un s0 acc log dr s" and "stCommitter s0 = c0" and "chain n0 c0 bs0"
    and "good_log good un log" and "n0 + length log < 2 ^ 62"
  shows "\<exists>n. n \<le> n0 + length log \<and> chain n (stCommitter s) (chain_after valid log bs0)"
  using assms(1,4,5)
proof (induction rule: gs_run.induct)
  case gs_start
  then show ?case using assms(2,3) by auto
next
  case (gs_push acc log dr s p s')
  then show ?case using AddPayload_frame [OF gs_push.hyps(2)] by auto
next
  case (gs_refused acc log dr s p s' err)
  then show ?case using AddPayload_frame [OF gs_refused.hyps(2)] by auto
next
  case (gs_ready acc log s k)
  then show ?case by auto
next
  case (gs_turn acc log s s' p out)
  have good: "good_log good un log" "good_log good un [(p, out)]"
    using gs_turn.prems(1) by simp_all
  from gs_turn.IH [OF good(1)] gs_turn.prems(2)
  obtain n where n: "n \<le> n0 + length log" "chain n (stCommitter s) (chain_after valid log bs0)" by auto
  have "n < 2 ^ 62" using n(1) gs_turn.prems(2) by simp
  from deliver_turn_chain [OF gs_turn.hyps(2) n(2) this good(2)]
  obtain n' where n': "n' \<le> Suc n" "chain n' (stCommitter s') (chain_after valid (log @ [(p, out)]) bs0)"
    unfolding chain_after_append by blast
  have "n' \<le> n0 + length (log @ [(p, out)])" using n(1) n'(1) by simp
  with n'(2) show ?case by blast
next
  case (gs_empty acc log s s')
  have "s' = s" using gs_empty.hyps(2) by (auto simp: deliver_turn_def Let_def split: option.splits sum.splits prod.splits)
  with gs_empty show ?case by simp
qed

text \<open>A peer that holds the blocks answers a request for a range of them with their encodings.\<close>

lemma request_answered:
  assumes "chain n (stCommitter s) bs" and "k \<le> m" and "m \<le> length bs"
  shows "handleStateRequest C ma (map of_nat [k + 1 ..< m + 1]) s = Inr (answer ma bs k m)"
  using assms(2)
proof (induction "m - k" arbitrary: k)
  case 0
  then show ?case by (simp add: answer_def)
next
  case (Suc j)
  then have k: "k < m" by simp
  have "[k + 1 ..< m + 1] = (k + 1) # [k + 2 ..< m + 1]" "[k ..< m] = k # [k + 1 ..< m]"
    using k by (simp_all add: upt_conv_Cons del: upt_Suc)
  moreover have "handleStateRequest C ma (map of_nat [(k + 1) + 1 ..< m + 1]) s = Inr (answer ma bs (k + 1) m)"
    by (rule Suc.hyps(1)) (use Suc.hyps(2) k in simp_all)
  moreover have "cGetBlocks C [of_nat (Suc k)] (stCommitter s) = Inr [norm_block (bs ! k)]"
    by (rule chain_get [OF assms(1)]) (use k assms(3) in simp)
  ultimately show ?case by (simp add: answer_def del: upt_Suc of_nat_Suc)
qed

end

section \<open>The committer of the key-value ledger meets the contract\<close>

context kv_ledger
begin

definition valid_part :: "'w \<Rightarrow> Block2 list \<Rightarrow> Block2 \<Rightarrow> Block2" where
  "valid_part w0 bs b = fst (snd (run b (replay bs w0)))"

lemma CommitBlock_inv:
  assumes "ledger_inv w0 n bs c l" and "n < 2 ^ 62" and "bounded_block b" and "CommitBlock B T b l = (l', r)"
  shows "\<exists>n' \<le> Suc n. \<exists>c'. ledger_inv w0 n' (if r = Inr () then bs @ [valid_part w0 bs b] else bs) c' l'"
proof -
  obtain l1 r1 where p: "RemoveInvalidTransactionsAndPrepare T b l = (l1, r1)" by fastforce
  show ?thesis
  proof (cases r1)
    case (Inl e)
    then have "l' = l1" "r \<noteq> Inr ()" using assms(4) p by (auto simp: CommitBlock_def)
    then show ?thesis using ledger_inv_prepare(1) [OF assms(1) p] by (intro exI [of _ n]) auto
  next
    case (Inr x)
    obtain vb bad where x: "r1 = Inr (vb, bad)" using Inr by (cases x) simp
    have vb: "pendingBlockToCommit l1 = Some vb" "vb = valid_part w0 bs b"
      using ledger_inv_prepare(2) [OF assms(1) p x] ledger_inv_reads(1) [OF assms(1)] by (auto simp: valid_part_def)
    obtain r2 where c: "kv_Commit B T l1 = (l', r2)" "r = Inr () \<longleftrightarrow> r2 = Inr ()"
      using assms(4) p x by (auto simp: CommitBlock_def split: prod.splits sum.splits)
    from ledger_inv_commit [OF ledger_inv_prepare(3) [OF assms(1) p x assms(3)] assms(2) vb(1) c(1)] c(2) vb(2)
    show ?thesis by (intro exI [of _ "Suc n"]) (cases "r2 = Inr ()", auto)
  qed
qed

end

sublocale kv_ledger \<subseteq> committing: block_committer "LedgerCommitter B T" "\<lambda>n l bs. \<exists>c. ledger_inv w0 n bs c l" bounded_block "valid_part w0" for w0
proof
  fix n bs l
  assume "\<exists>c. ledger_inv w0 n bs c l"
  then obtain c where "ledger_inv w0 n bs c l" by blast
  from ledger_inv_reads(3) [OF this] show "cLedgerHeight (LedgerCommitter B T) l = Inr (of_nat (length bs))"
    by (auto simp: LedgerCommitter_def LedgerHeight_def)
next
  fix n bs l i
  assume "\<exists>c. ledger_inv w0 n bs c l" and i: "i < length bs"
  then obtain c where "ledger_inv w0 n bs c l" by blast
  from ledger_inv_reads(4) [OF this i] show "cGetBlocks (LedgerCommitter B T) [of_nat (Suc i)] l = Inr [norm_block (bs ! i)]"
    by (simp add: LedgerCommitter_def del: of_nat_Suc)
next
  fix n bs l b l' r
  assume "\<exists>c. ledger_inv w0 n bs c l" and n: "n < 2 ^ 62" and b: "bounded_block b" and "cCommitBlock (LedgerCommitter B T) b l = (l', r)"
  then obtain c where c: "ledger_inv w0 n bs c l" "CommitBlock B T b l = (l', r)" by (auto simp: LedgerCommitter_def)
  show "\<exists>n' \<le> Suc n. \<exists>c. ledger_inv w0 n' (if r = Inr () then bs @ [valid_part w0 bs b] else bs) c l'"
    by (rule CommitBlock_inv [OF c(1) n b c(2)])
qed

context kv_ledger
begin

lemma committer_contract: "block_committer (LedgerCommitter B T) (\<lambda>n l bs. \<exists>c. ledger_inv w0 n bs c l) bounded_block (valid_part w0)"
  by (rule committing.block_committer_axioms)

end

interpretation kvcommitter: block_committer "LedgerCommitter (fsBlockStore mem_ops rev Inr) (lockBasedTxMgr mem_ops (\<lambda>m. m) Inr)"
  "\<lambda>n l bs. \<exists>c. kvmem.ledger_inv (\<lambda>_. (None, 0)) n bs c l" bounded_block "kvmem.valid_part (\<lambda>_. (None, 0))"
  by (rule kvmem.committing.block_committer_axioms)

end
