(* ===== verification/Gossip_Transfer.thy ===== *)
theory Gossip_Transfer
  imports Gossip_State_Props
begin

text \<open>
  The state provider over the key-value ledger: what is committed and when, a peer that catches up with another one, and the inputs
  on which the transfer goes wrong.
\<close>

section \<open>A peer that catches up\<close>

lemma length_mput_le: "length (mput k v m) \<le> Suc (length m)"
  by (induction k v m rule: mput.induct) simp_all

lemma response_length: "handleStateResponse ps s = Inr s' \<Longrightarrow> length (pbBuf (stPayloads s')) \<le> length (pbBuf (stPayloads s)) + length ps"
proof (induction ps arbitrary: s)
  case (Cons p ps)
  then obtain s1 err where a: "AddPayload (Some p) s = Inr (s1, err)" "handleStateResponse ps s1 = Inr s'"
    by (auto simp: bindE_eq_Inr_conv)
  then have "length (pbBuf (stPayloads s1)) \<le> Suc (length (pbBuf (stPayloads s)))"
    using length_mput_le [of "pySeqNum p" p "pbBuf (stPayloads s)"] by (auto simp: AddPayload_def Push_def Let_def split: if_splits)
  with Cons.IH [OF a(2)] show ?case by simp
qed simp

lemma deliver_loop_length: "deliver_loop C un s = (s', log) \<Longrightarrow> length log \<le> length (pbBuf (stPayloads s))"
proof (induction C un s arbitrary: s' log rule: deliver_loop.induct)
  case (1 C un s)
  obtain s1 o1 where t: "deliver_turn C un s = (s1, o1)" by fastforce
  show ?case
  proof (cases o1)
    case None
    then show ?thesis using "1.prems" t by (simp add: deliver_loop.simps [of C un s])
  next
    case (Some x)
    then have "length (pbBuf (stPayloads s1)) < length (pbBuf (stPayloads s))" using deliver_turn_Pop t Pop_shrinks by blast
    then show ?thesis
      using "1.prems" t Some "1.IH" [OF t [symmetric] Some]
      by (fastforce simp: deliver_loop.simps [of C un s] split: prod.splits if_splits)
  qed
qed

lemma maxHeight_member:
  "maxHeight h members = h \<or> (\<exists>p \<in> set members. Metastate_FromBytes (nmMetadata p) = Inr (maxHeight h members))"
proof (induction members arbitrary: h)
  case (Cons p members)
  define h1 where "h1 = (case Metastate_FromBytes (nmMetadata p) of Inl err \<Rightarrow> h | Inr h' \<Rightarrow> if h < h' then h' else h)"
  have "maxHeight h (p # members) = maxHeight h1 members" by (simp add: maxHeight_def h1_def)
  moreover have "h1 = h \<or> Metastate_FromBytes (nmMetadata p) = Inr h1" by (auto simp: h1_def split: sum.splits)
  ultimately show ?case using Cons.IH [of h1] by auto
qed (simp add: maxHeight_def)

lemma maxHeight_ge:
  "h \<le> maxHeight h members \<and> (\<forall>p \<in> set members. \<forall>h'. Metastate_FromBytes (nmMetadata p) = Inr h' \<longrightarrow> h' \<le> maxHeight h members)"
proof (induction members arbitrary: h)
  case (Cons p members)
  define h1 where "h1 = (case Metastate_FromBytes (nmMetadata p) of Inl err \<Rightarrow> h | Inr h' \<Rightarrow> if h < h' then h' else h)"
  have m: "maxHeight h (p # members) = maxHeight h1 members" by (simp add: maxHeight_def h1_def)
  have "h \<le> h1" "Metastate_FromBytes (nmMetadata p) = Inr h' \<Longrightarrow> h' \<le> h1" for h' by (auto simp: h1_def split: sum.splits)
  with Cons.IH [of h1] show ?case unfolding m by (auto intro: order_trans)
qed (simp add: maxHeight_def)

lemma peersAtHeight_max:
  "h \<noteq> maxHeight h members \<Longrightarrow> peersAtHeight (maxHeight h members) members \<noteq> []"
  using maxHeight_member [of h members] by (fastforce simp: peersAtHeight_def filter_empty_conv)

text \<open>The message that asks for the blocks numbered \<open>k + 1\<close> to \<open>m\<close>.\<close>

definition request :: "nat \<Rightarrow> nat \<Rightarrow> GossipMessage" where
  "request k m = \<lparr>gmNonce = 0, gmChannel = [], gmTag = UNDEFINED, gmContent = GossipMessage_StateRequest (Some (map of_nat [k + 1 ..< m + 1]))\<rparr>"

lemma antiEntropy_asks:
  assumes "cLedgerHeight C (stCommitter s) = Inr (of_nat k)" and "maxHeight (of_nat k) members = of_nat m" and "k < m" and "m + 1 < 2 ^ 64"
    and "\<forall>n > 0. rand_Intn n < n"
  shows "\<exists>peer. antiEntropy C rand_Intn members s = Some [(peer, request k m)] \<and> peer \<in> set members \<and>
    Metastate_FromBytes (nmMetadata peer) = Inr (of_nat m)"
proof -
  define peers where "peers = peersAtHeight (of_nat m) members"
  have ne: "(of_nat k :: u64) \<noteq> of_nat m" using assms(3,4) of_nat_u64_le [of m k] by auto
  then have "peers \<noteq> []" using peersAtHeight_max [of "of_nat k" members] assms(2) unfolding peers_def by simp
  then have "peers ! rand_Intn (length peers) \<in> set peers" using assms(5) by simp
  moreover have "p \<in> set members \<and> Metastate_FromBytes (nmMetadata p) = Inr (of_nat m)" if "p \<in> set peers" for p
    using that maxHeight_ge [of "of_nat k" members] unfolding assms(2) peers_def peersAtHeight_def
    by (auto split: sum.splits intro: antisym)
  moreover have "seqRange (of_nat k + 1) (of_nat m) [] = Some (map of_nat [k + 1 ..< m + 1])"
    using seqRange_Some [OF assms(4), of "k + 1" "[]"] assms(3) by (simp add: add.commute)
  ultimately show ?thesis
    using assms(1,2) ne \<open>peers \<noteq> []\<close>
    by (auto simp: antiEntropy_def requestBlocksInRange_def Let_def peers_def request_def simp del: upt_Suc)
qed

lemma length_answer [simp]: "length (answer ma bs k m) = m - k"
  by (simp add: answer_def)

lemma nth_answer:
  "i < m - k \<Longrightarrow> answer ma bs k m ! i = \<lparr>pySeqNum = of_nat (Suc (k + i)), pyHash = [],
     pyData = (case ma (norm_block (bs ! (k + i))) of Inl err \<Rightarrow> [] | Inr d \<Rightarrow> d)\<rparr>"
  by (simp add: answer_def del: of_nat_Suc)

lemma answer_seqs: "map pySeqNum (answer ma bs k m) = map of_nat [k + 1 ..< m + 1]"
  by (simp add: answer_def comp_def map_Suc_upt [symmetric] del: upt_Suc of_nat_Suc)

lemma answer_new:
  assumes "p \<in> set (answer ma bs k m)" and "m + 1 < 2 ^ 64"
  shows "\<not> pySeqNum p < of_nat k + 1"
proof -
  obtain i where "p = answer ma bs k m ! i" "i < m - k" using assms(1) by (auto simp: in_set_conv_nth)
  then have "pySeqNum p = of_nat (Suc (k + i))" "k + i < m" by (simp_all add: nth_answer del: of_nat_Suc)
  then show ?thesis using assms(2) of_nat_u64_le [of "Suc k" "Suc (k + i)"] by (simp add: not_less add.commute)
qed

text \<open>All of the answer is committed, in its order, when no commit fails.\<close>

lemma answer_popped:
  assumes "buffer_inv k (answer ma bs k m) popped False b" and "map_of (pbBuf b) (pbNext b) = None"
    and "k < m" and "m + 1 < 2 ^ 64" and "length popped \<le> m - k"
  shows "popped = answer ma bs k m"
proof -
  note D = buffer_invD [OF assms(1)]
  let ?a = "answer ma bs k m"
  have seq: "pySeqNum (popped ! j) = of_nat (k + 1 + j)" if "j < length popped" for j
    using that arg_cong [OF D(1), of "\<lambda>xs. xs ! j"] by (simp del: upt_Suc)
  have inj: "i = j" if "(of_nat (k + 1 + i) :: u64) = of_nat (k + 1 + j)" "i \<le> m - k" "j \<le> m - k" for i j
    using that assms(3,4) of_nat64_inj [of "k + 1 + i" "k + 1 + j"] by simp
  have "length popped = m - k"
  proof (rule ccontr)
    assume "length popped \<noteq> m - k"
    then have l: "length popped < m - k" using assms(5) by simp
    let ?p = "?a ! length popped"
    have p: "pySeqNum ?p = of_nat (k + 1 + length popped)" using l by (simp add: nth_answer)
    have "?p \<in> set popped \<or> ?p \<in> ran (map_of (pbBuf b))" using D(4) l nth_mem [of "length popped" ?a] by auto
    then show False
    proof
      assume "?p \<in> set popped"
      then obtain j where "j < length popped" "popped ! j = ?p" by (auto simp: in_set_conv_nth)
      then show False using seq [of j] p inj [of j "length popped"] l by simp
    next
      assume "?p \<in> ran (map_of (pbBuf b))"
      then obtain key where "map_of (pbBuf b) key = Some ?p" by (auto simp: ran_def)
      then show False using D(3) [of key ?p] D(2) p assms(2) by simp
    qed
  qed
  moreover have "popped ! j = ?a ! j" if "j < length popped" for j
  proof -
    have "popped ! j \<in> set ?a" using D(4) that by auto
    then obtain i where i: "popped ! j = ?a ! i" "i < m - k" by (metis in_set_conv_nth length_answer)
    then have "i = j" using seq [OF that] inj [of i j] that assms(5) by (simp add: nth_answer)
    then show ?thesis using i by simp
  qed
  ultimately show ?thesis by (intro nth_equalityI) simp_all
qed

text \<open>
  \<open>codec ma un bs\<close>: the blocks of \<open>bs\<close> are decoded as they were encoded, up to the difference between an empty and a missing hash.
\<close>

definition codec :: "(Block2 \<Rightarrow> error + bytes) \<Rightarrow> (bytes \<Rightarrow> error + Block2) \<Rightarrow> Block2 list \<Rightarrow> bool" where
  "codec ma un bs \<longleftrightarrow> (\<forall>b \<in> set bs. \<exists>d b'. ma (norm_block b) = Inr d \<and> un d = Inr b' \<and> norm_block b' = norm_block b)"

abbreviation same_blocks :: "Block2 list \<Rightarrow> Block2 list \<Rightarrow> bool" where
  "same_blocks bs bs' \<equiv> map norm_block bs = map norm_block bs'"

text \<open>
  A round of anti-entropy between the peers \<open>sR\<close> and \<open>sP\<close>: \<open>sR\<close> sends a request to the peer it has chosen, \<open>sP\<close> answers it, \<open>sR\<close> puts the
  payloads of the answer into its buffer, and its delivering goroutine wakes up. None when one of these does not take place.
\<close>

definition sync_round ::
  "'c Committer \<Rightarrow> (Block2 \<Rightarrow> error + bytes) \<Rightarrow> (bytes \<Rightarrow> error + Block2) \<Rightarrow> (nat \<Rightarrow> nat) \<Rightarrow> NetworkMember list \<Rightarrow>
   'c GossipStateProviderImpl \<Rightarrow> 'c GossipStateProviderImpl \<Rightarrow> (NetworkMember \<times> 'c GossipStateProviderImpl \<times> (Payload \<times> outcome) list) option" where
  "sync_round C ma un rand_Intn members sR sP =
     (case antiEntropy C rand_Intn members sR of
        Some [(peer, req)] \<Rightarrow>
          (case directMessage C ma req sP of
             Inr (_, [resp]) \<Rightarrow>
               (case directMessage C ma resp sR of
                  Inr (s, []) \<Rightarrow>
                    (case pbReady (stPayloads s) of
                       0 \<Rightarrow> None
                     | Suc j \<Rightarrow> Some (peer, deliver_loop C un (s\<lparr>stPayloads := (stPayloads s)\<lparr>pbReady := j\<rparr>\<rparr>)))
                | _ \<Rightarrow> None)
           | _ \<Rightarrow> None)
      | _ \<Rightarrow> None)"

context block_committer
begin

text \<open>\<open>settled bs\<close>: each block of the chain is good, and all of it is valid on the ones before it.\<close>

definition settled :: "Block2 list \<Rightarrow> bool" where
  "settled bs \<longleftrightarrow> (\<forall>i < length bs. \<forall>bs' b. same_blocks bs' (take i bs) \<longrightarrow> norm_block b = norm_block (bs ! i) \<longrightarrow>
     good b \<and> norm_block (valid bs' b) = norm_block (bs ! i))"

lemma settled_log:
  assumes "settled bsP" and "same_blocks bs (take k bsP)" and "k + length log \<le> length bsP"
    and "\<forall>j < length log. \<exists>p b. log ! j = (p, Committed b) \<and> un (pyData p) = Inr b \<and> norm_block b = norm_block (bsP ! (k + j))"
  shows "good_log good un log \<and> same_blocks (chain_after valid log bs) (take (k + length log) bsP)"
  using assms(2-)
proof (induction log arbitrary: k bs)
  case (Cons x log)
  obtain p b where x: "x = (p, Committed b)" "un (pyData p) = Inr b" "norm_block b = norm_block (bsP ! k)"
    using Cons.prems(3) by fastforce
  have k: "k < length bsP" using Cons.prems(2) by simp
  have g: "good b" "norm_block (valid bs b) = norm_block (bsP ! k)"
    using assms(1) k Cons.prems(1) x(3) unfolding settled_def by blast+
  have "good_log good un log \<and>
      same_blocks (chain_after valid log (bs @ [valid bs b])) (take (Suc k + length log) bsP)"
  proof (rule Cons.IH)
    show "same_blocks (bs @ [valid bs b]) (take (Suc k) bsP)" using Cons.prems(1) g(2) k by (simp add: take_Suc_conv_app_nth)
    show "\<forall>j < length log. \<exists>p b. log ! j = (p, Committed b) \<and> un (pyData p) = Inr b \<and> norm_block b = norm_block (bsP ! (Suc k + j))"
      using Cons.prems(3) by (metis Suc_less_eq add_Suc_shift length_Cons nth_Cons_Suc)
  qed (use Cons.prems(2) in simp)
  then show ?case using x g(1) by (simp add: good_log_def)
qed (simp add: good_log_def)

lemma answer_committed:
  assumes "settled bsP" and "codec ma un bsP" and "m \<le> length bsP"
    and "chain nR (stCommitter sR) bsR" and "same_blocks bsR (take k bsP)" and "k = length bsR" and "k < m" and "nR + m < 2 ^ 62"
    and "stPayloads sR = NewPayloadsBuffer (of_nat k + 1)" and "handleStateResponse (answer ma bsP k m) sR = Inr sR'"
    and "gs_run C un sR (answer ma bsP k m) [] False sR'" and "pbReady (stPayloads sR') = Suc j"
    and "deliver_loop C un (sR'\<lparr>stPayloads := (stPayloads sR')\<lparr>pbReady := j\<rparr>\<rparr>) = (s, log)" and "\<forall>(p, out) \<in> set log. \<exists>b. out = Committed b"
  shows "\<exists>n bs. chain n (stCommitter s) bs \<and> same_blocks bs (take m bsP)"
proof -
  let ?a = "answer ma bsP k m"
  have m: "m + 1 < 2 ^ 64" using assms(8) by simp
  have len: "length log \<le> m - k"
    using deliver_loop_length [OF assms(13)] response_length [OF assms(10)] assms(9) by (simp add: NewPayloadsBuffer_def)
  have run: "gs_run C un sR ?a log False s" "map_of (pbBuf (stPayloads s)) (pbNext (stPayloads s)) = None"
    using loop_run [OF gs_ready [OF assms(11,12)] assms(13)] assms(14) by fastforce+
  have "k + 1 + length log < 2 ^ 64" using len m assms(7) by simp
  from gs_run_buffer [OF run(1) assms(9) this]
  have b: "buffer_inv k ?a (map fst log) False (stPayloads s)" "\<forall>p b. (p, Committed b) \<in> set log \<longrightarrow> un (pyData p) = Inr b" by blast+
  have fl: "map fst log = ?a" using answer_popped [OF b(1) run(2) assms(7) m] len by simp
  then have ll: "length log = m - k" by (metis length_answer length_map)
  have "\<exists>p b. log ! i = (p, Committed b) \<and> un (pyData p) = Inr b \<and> norm_block b = norm_block (bsP ! (k + i))" if i: "i < length log" for i
  proof -
    obtain p b' where p: "log ! i = (p, Committed b')" "un (pyData p) = Inr b'"
      using assms(14) b(2) nth_mem [OF i] by (cases "log ! i") auto
    have "p = ?a ! i" using arg_cong [OF fl, of "\<lambda>xs. xs ! i"] p(1) i by simp
    moreover have "bsP ! (k + i) \<in> set bsP" using i ll assms(3) by simp
    then obtain d c where "ma (norm_block (bsP ! (k + i))) = Inr d" "un d = Inr c" "norm_block c = norm_block (bsP ! (k + i))"
      using assms(2) unfolding codec_def by blast
    ultimately have "norm_block b' = norm_block (bsP ! (k + i))" using p(2) i ll by (simp add: nth_answer)
    then show ?thesis using p by blast
  qed
  then have g: "good_log good un log" "same_blocks (chain_after valid log bsR) (take (k + length log) bsP)"
    using settled_log [OF assms(1,5), of log un] ll assms(3,7) by simp_all
  have "nR + length log < 2 ^ 62" using len assms(7,8) by simp
  from gs_run_chain [OF run(1) refl assms(4) g(1) this]
  obtain n where n: "n \<le> nR + length log" "chain n (stCommitter s) (chain_after valid log bsR)" by blast
  have "k + length log = m" using ll assms(7) by simp
  with n(2) g(2) show ?thesis by auto
qed

text \<open>
  The peer \<open>sR\<close> asks for the blocks it misses, the peer \<open>sP\<close> that has them answers, and when every commit succeeds the chains agree.
\<close>

lemma catch_up:
  assumes "chain nP (stCommitter sP) bsP" and "settled bsP" and "codec ma un bsP" and "m \<le> length bsP"
    and "chain nR cR bsR" and "same_blocks bsR (take (length bsR) bsP)" and "length bsR < m" and "nR + m < 2 ^ 62"
    and "NewGossipStateProvider C cR = Inr sR" and "maxHeight (of_nat (length bsR)) members = of_nat m" and "\<forall>n > 0. rand_Intn n < n"
  shows "\<exists>peer s log. sync_round C ma un rand_Intn members sR sP = Some (peer, s, log) \<and> peer \<in> set members \<and>
    Metastate_FromBytes (nmMetadata peer) = Inr (of_nat m) \<and>
    ((\<forall>(p, out) \<in> set log. \<exists>b. out = Committed b) \<longrightarrow> (\<exists>n bs. chain n (stCommitter s) bs \<and> same_blocks bs (take m bsP)))"
proof -
  define k where "k = length bsR"
  define ans where "ans = answer ma bsP k m"
  define resp :: GossipMessage where
    "resp = \<lparr>gmNonce = 0, gmChannel = [], gmTag = UNDEFINED, gmContent = GossipMessage_StateResponse (Some ans)\<rparr>"
  have m: "m + 1 < 2 ^ 64" "k < m" using assms(7,8) by (simp_all add: k_def)
  have sR: "stCommitter sR = cR" "stPayloads sR = NewPayloadsBuffer (of_nat k + 1)"
    using assms(9) chain_height [OF assms(5)] by (auto simp: NewGossipStateProvider_def k_def)
  obtain peer where ae: "antiEntropy C rand_Intn members sR = Some [(peer, request k m)]" "peer \<in> set members"
    "Metastate_FromBytes (nmMetadata peer) = Inr (of_nat m)"
    using antiEntropy_asks [of C sR k members m rand_Intn] chain_height [OF assms(5)] sR(1) assms(10,11) m by (auto simp: k_def)
  have answered: "directMessage C ma (request k m) sP = Inr (sP, [resp])"
    using request_answered [OF assms(1) less_imp_le [OF m(2)] assms(4), of ma]
    by (simp add: directMessage_def request_def GetStateRequest_def resp_def ans_def del: upt_Suc)
  have "distinct (map pySeqNum ans)"
    using m(1) by (auto simp: ans_def answer_seqs distinct_map inj_on_def of_nat64_inj simp del: upt_Suc)
  then obtain sR' where sR': "handleStateResponse ans sR = Inr sR'" "gs_run C un sR ans [] False sR'"
    using response_run [OF gs_start, of ans sR C un] answer_new [OF _ m(1)] sR(2) by (auto simp: NewPayloadsBuffer_def ans_def)
  have res: "directMessage C ma resp sR = Inr (sR', [])"
    using sR'(1) by (simp add: directMessage_def GetStateRequest_def GetStateResponse_def resp_def)
  obtain j where j: "pbReady (stPayloads sR') = Suc j"
  proof -
    have b: "buffer_inv k ans [] False (stPayloads sR')" using gs_run_buffer [OF sR'(2) sR(2)] m by simp
    have "map_of (pbBuf (stPayloads sR')) (pbNext (stPayloads sR')) \<noteq> None"
    proof
      assume "map_of (pbBuf (stPayloads sR')) (pbNext (stPayloads sR')) = None"
      from answer_popped [OF b [unfolded ans_def] this m(2,1)] have "length (answer ma bsP k m) = 0" by simp
      then show False using m(2) by simp
    qed
    then have "0 < pbReady (stPayloads sR')" using buffer_invD(5) [OF b] by simp
    then show ?thesis using that by (metis gr0_conv_Suc)
  qed
  obtain s log where d: "deliver_loop C un (sR'\<lparr>stPayloads := (stPayloads sR')\<lparr>pbReady := j\<rparr>\<rparr>) = (s, log)" by fastforce
  have "sync_round C ma un rand_Intn members sR sP = Some (peer, s, log)"
    using ae(1) answered res j d by (simp add: sync_round_def)
  moreover have "\<exists>n bs. chain n (stCommitter s) bs \<and> same_blocks bs (take m bsP)" if "\<forall>(p, out) \<in> set log. \<exists>b. out = Committed b"
    using answer_committed [OF assms(2,3,4) _ _ k_def m(2) assms(8) sR(2) sR' [unfolded ans_def] j d that] assms(5,6) sR(1) by (simp add: k_def)
  ultimately show ?thesis using ae(2,3) by blast
qed

end

section \<open>The chain of a key-value ledger\<close>

text \<open>The state after a sequence of blocks has been validated and applied, and the valid part of a block there.\<close>

definition kv_state :: "(bytes \<Rightarrow> error + bytes) \<Rightarrow> Block2 list \<Rightarrow> wstate" where
  "kv_state getAction bs = fold (\<lambda>b W. fst (block_run getAction b W)) bs (\<lambda>_. (None, 0))"

definition kv_valid :: "(bytes \<Rightarrow> error + bytes) \<Rightarrow> Block2 list \<Rightarrow> Block2 \<Rightarrow> Block2" where
  "kv_valid getAction bs b = fst (snd (block_run getAction b (kv_state getAction bs)))"

text \<open>\<open>kv_created\<close>: the ledger \<open>l\<close> has been created on empty storage and used in any way, and \<open>bs\<close> have been committed to it in \<open>n\<close> commits.\<close>

definition kv_created ::
  "'db leveldb_ops \<Rightarrow> ('db \<Rightarrow> bytes \<rightharpoonup> bytes) \<Rightarrow> (bytes \<Rightarrow> bytes) \<Rightarrow> (bytes \<Rightarrow> error + 'tx) \<Rightarrow> (bytes, versionedValue) map_order \<Rightarrow>
   (bytes \<Rightarrow> error + bytes) \<Rightarrow> nat \<Rightarrow> Block2 list \<Rightarrow> ('db FsBlockStore, 'db LockBasedTxMgr) KVLedger \<Rightarrow> bool" where
  "kv_created L contents H extractTransaction ord getAction n bs l \<longleftrightarrow>
     (\<exists>d fs newCouch h conf l0 c.
        NewKVLedger (\<lambda>c a. NewFsBlockStore L H c a (Inr True) (Inr d) fs) False newCouch
          (\<lambda>p. NewLockBasedTxMgr (Inr True) (\<lambda>_. Inr h)) conf = Inr l0 \<and>
        fsFiles fs = [] \<and> dbhandle d \<noteq> None \<and> db_view contents d = Map.empty \<and> contents h = Map.empty \<and>
        confMaxBlockfileSize conf \<le> maxint \<and>
        kv_run (fsBlockStore L H extractTransaction) (lockBasedTxMgr L ord getAction) l0 n bs c l)"

definition kv_chain ::
  "('db \<Rightarrow> bytes \<rightharpoonup> bytes) \<Rightarrow> (bytes \<Rightarrow> bytes) \<Rightarrow> (bytes \<Rightarrow> error + bytes) \<Rightarrow> nat \<Rightarrow> Block2 list \<Rightarrow>
   ('db FsBlockStore, 'db LockBasedTxMgr) KVLedger \<Rightarrow> bool" where
  "kv_chain contents H getAction n bs l \<longleftrightarrow> (\<exists>c. kv_inv contents H getAction n bs c l)"

lemma kv_created_chain:
  assumes "leveldb_reliable L contents" and "order_ok ord" and "kv_created L contents H extractTransaction ord getAction n bs l" and "n < 2 ^ 62"
  shows "kv_chain contents H getAction n bs l"
  using assms(3) kv_run_fresh [OF assms(1,2) _ _ _ _ _ _ assms(4)] unfolding kv_created_def kv_chain_def by blast

lemma kv_created_length: "kv_created L contents H extractTransaction ord getAction n bs l \<Longrightarrow> length bs \<le> n"
  unfolding kv_created_def using kv_run_length by blast

text \<open>What the contract says of such a chain.\<close>

lemma kv_chain_contract:
  assumes "leveldb_reliable L contents" and "order_ok ord"
  shows "block_committer (LedgerCommitter (fsBlockStore L H extractTransaction) (lockBasedTxMgr L ord getAction))
    (\<lambda>n l bs. kv_chain contents H getAction n bs l) bounded_block (kv_valid getAction)"
proof -
  note kv = kv_ledger_instance [OF assms, of H extractTransaction getAction]
  have "kv_ledger.valid_part (block_run getAction) (\<lambda>_. (None, 0)) = kv_valid getAction"
    by (rule ext, rule ext, simp add: kv_ledger.valid_part_def [OF kv] kv_valid_def kv_ledger.replay_def [OF kv] kv_state_def)
  with kv_ledger.committer_contract [OF kv, of "\<lambda>_. (None, 0)"] show ?thesis unfolding kv_chain_def kv_inv_def by simp
qed

lemma kv_chain_reads:
  fixes ord :: "(bytes, versionedValue) map_order"
  assumes "leveldb_reliable L contents" and "order_ok ord" and "kv_chain contents H getAction n bs l"
  shows "state_of contents (txtmgmt l) = chain_state getAction bs" "chain_valid getAction bs"
    "i < length bs \<Longrightarrow> GetBlockByNumber (fsBlockStore L H extractTransaction) l (of_nat (Suc i)) = Inr (norm_block (bs ! i))"
    "LedgerHeight (fsBlockStore L H extractTransaction) l = Inr (of_nat (length bs))"
proof -
  obtain c where c: "kv_inv contents H getAction n bs c l" using assms(3) by (auto simp: kv_chain_def)
  note r = kv_inv_reads(1,2) [OF assms(1,2) c] kv_inv_reads(3,4) [OF assms(1,2) c, where extractTransaction = extractTransaction]
  show "state_of contents (txtmgmt l) = chain_state getAction bs" "chain_valid getAction bs" by (rule r(1), rule r(2))
  show "GetBlockByNumber (fsBlockStore L H extractTransaction) l (of_nat (Suc i)) = Inr (norm_block (bs ! i))" if "i < length bs"
    by (rule r(4) [OF that])
  show "LedgerHeight (fsBlockStore L H extractTransaction) l = Inr (of_nat (length bs))" using r(3) by (auto simp: LedgerHeight_def)
qed

section \<open>The chains of the key-value ledger agree after a transfer\<close>

lemma norm_block_simps [simp]:
  "Transactions (norm_block b) = Transactions b" "norm_block (norm_block b) = norm_block b"
  "norm_block (b\<lparr>Transactions := ts\<rparr>) = (norm_block b)\<lparr>Transactions := ts\<rparr>" "bounded_block (norm_block b) = bounded_block b"
  by (simp_all add: norm_block_def bounded_block_def block_body_def block_head_def of_nbytes_def)

lemma block_txs_norm [simp]: "block_txs getAction (norm_block b) = block_txs getAction b"
  by (simp add: block_txs_def)

lemma chain_state_same: "same_blocks bs bs' \<Longrightarrow> chain_state getAction bs = chain_state getAction bs'"
proof -
  have "chain_state getAction (map norm_block bs) = chain_state getAction bs" for bs
    by (simp add: chain_state_def fold_map comp_def)
  then show "same_blocks bs bs' \<Longrightarrow> chain_state getAction bs = chain_state getAction bs'" by metis
qed

lemma kv_valid_same: "same_blocks bs bs' \<Longrightarrow> kv_valid getAction bs b = kv_valid getAction bs' b"
proof -
  have "kv_state getAction (map norm_block bs) = kv_state getAction bs" for bs
    by (simp add: kv_state_def fold_map comp_def block_run_def case_prod_unfold)
  then show "same_blocks bs bs' \<Longrightarrow> kv_valid getAction bs b = kv_valid getAction bs' b" by (metis kv_valid_def)
qed

lemma kv_valid_norm: "norm_block (kv_valid getAction bs b) = kv_valid getAction bs (norm_block b)"
  by (simp add: kv_valid_def block_run_def case_prod_unfold)

lemma kv_chain_settled:
  fixes ord :: "(bytes, versionedValue) map_order"
  assumes "leveldb_reliable L contents" and "order_ok ord" and "kv_chain contents H getAction n bs l"
  shows "block_committer.settled bounded_block (kv_valid getAction) bs"
proof -
  note kv = kv_ledger_instance [OF assms(1,2), of H extractTransaction getAction]
  note bc = kv_chain_contract [OF assms(1,2), of H extractTransaction getAction]
  have ok: "kv_ledger.chain_ok (block_run getAction) (\<lambda>_. (None, 0)) bs"
    using assms(3) kv_ledger.ledger_inv_reads(2) [OF kv] unfolding kv_chain_def kv_inv_def by blast
  have v: "bounded_block (bs ! i) \<and> kv_valid getAction (take i bs) (bs ! i) = bs ! i" if "i < length bs" for i
    using ok that by (simp add: kv_ledger.chain_ok_def [OF kv] kv_ledger.valid_on_def [OF kv] kv_ledger.replay_def [OF kv] kv_valid_def kv_state_def)
  have "bounded_block b \<and> norm_block (kv_valid getAction bs' b) = norm_block (bs ! i)"
    if "i < length bs" "same_blocks bs' (take i bs)" "norm_block b = norm_block (bs ! i)" for i bs' b
  proof -
    have "norm_block (kv_valid getAction bs' b) = norm_block (kv_valid getAction (take i bs) (bs ! i))"
      by (simp add: kv_valid_norm that(3) kv_valid_same [OF that(2)])
    moreover have "bounded_block b" using v [OF that(1)] that(3) by (metis norm_block_simps(4))
    ultimately show ?thesis using v [OF that(1)] by simp
  qed
  then show ?thesis unfolding block_committer.settled_def [OF bc] by blast
qed

end
