(* ===== verification/Gossip_Catchup.thy ===== *)
theory Gossip_Catchup
  imports Gossip_Transfer
begin

text \<open>
  A peer that has fallen behind catches up with another one over the key-value ledger, and the inputs on which the transfer goes
  wrong: a payload that cannot be decoded, and a peer that claims the largest height.
\<close>

section \<open>Payloads are committed in order\<close>

text \<open>
  C11: Whatever payloads arrive, in whatever order and however the pushes interleave with the delivering goroutine, the ledger is given the
  payloads in the order of their numbers, without gap or repetition, from the one after its height on. Each payload that
  the buffer accepted has been given to the ledger or is in the buffer. The chain grows by the valid
  part of each block that decodes and whose commit succeeds, and by nothing when it does not decode, when its validation fails or when
  it cannot be added; its blocks can be read back, and the state is what their write sets make. And when the next
  payload is in the buffer, the delivering goroutine is at work or a wake-up is pending. Payloads may be anything; of those that decode to a
  block it is assumed that the block has less than 4 GiB.
\<close>

theorem payloads_committed_in_order:
  assumes "leveldb_reliable L contents" and "order_ok ord" and "kv_created L contents H extractTransaction ord getAction n bs l"
    and "NewGossipStateProvider (LedgerCommitter (fsBlockStore L H extractTransaction) (lockBasedTxMgr L ord getAction)) l = Inr s0"
    and "gs_run (LedgerCommitter (fsBlockStore L H extractTransaction) (lockBasedTxMgr L ord getAction)) un s0 acc log dr s"
    and "good_log bounded_block un log" and "n + length log < 2 ^ 62"
    and "bs' = chain_after (kv_valid getAction) log bs"
  shows "map (\<lambda>(p, out). pySeqNum p) log = map of_nat [length bs + 1 ..< length bs + 1 + length log] \<and>
    set acc = fst ` set log \<union> ran (map_of (pbBuf (stPayloads s))) \<and>
    LedgerHeight (fsBlockStore L H extractTransaction) (stCommitter s) = Inr (of_nat (length bs + length (committed log))) \<and>
    (\<forall>i < length bs'. GetBlockByNumber (fsBlockStore L H extractTransaction) (stCommitter s) (of_nat (Suc i)) = Inr (norm_block (bs' ! i))) \<and>
    state_of contents (txtmgmt (stCommitter s)) = chain_state getAction bs' \<and> chain_valid getAction bs' \<and>
    (map_of (pbBuf (stPayloads s)) (Next (stPayloads s)) \<noteq> None \<longrightarrow> dr \<or> 0 < pbReady (stPayloads s))"
proof -
  note bc = kv_chain_contract [OF assms(1,2), of H extractTransaction getAction]
  have n: "n < 2 ^ 62" using assms(7) by simp
  have len: "length bs + 1 + length log < 2 ^ 64" using kv_created_length [OF assms(3)] assms(7) by simp
  note ch = kv_created_chain [OF assms(1-3) n]
  have s0: "stCommitter s0 = l" "stPayloads s0 = NewPayloadsBuffer (of_nat (length bs) + 1)"
    using assms(4) block_committer.chain_height [OF bc ch] by (auto simp: NewGossipStateProvider_def)
  have b: "buffer_inv (length bs) acc (map fst log) dr (stPayloads s)" using gs_run_buffer [OF assms(5) s0(2) len] by blast
  obtain m where c: "kv_chain contents H getAction m bs' (stCommitter s)"
    using block_committer.gs_run_chain [OF bc assms(5) s0(1) ch assms(6,7)] assms(8) by blast
  note D = buffer_invD [OF b]
  have "map (\<lambda>(p, out). pySeqNum p) log = map pySeqNum (map fst log)" by (simp add: case_prod_unfold comp_def)
  with D(1) have "map (\<lambda>(p, out). pySeqNum p) log = map of_nat [length bs + 1 ..< length bs + 1 + length log]" by simp
  moreover have "length bs' = length bs + length (committed log)" using assms(8) by (simp add: length_chain_after)
  moreover have "dr \<or> 0 < pbReady (stPayloads s)" if "map_of (pbBuf (stPayloads s)) (Next (stPayloads s)) \<noteq> None"
    using D(5) that unfolding Next_def by (cases dr) simp_all
  ultimately show ?thesis
    using D(4) kv_chain_reads(1,2) [OF assms(1,2) c] kv_chain_reads(3,4) [OF assms(1,2) c, where extractTransaction = extractTransaction]
    by (simp del: of_nat_Suc of_nat_add upt_Suc)
qed

section \<open>Catching up\<close>


section \<open>Examples\<close>

text \<open>
  Ledgers in memory. Each block is decoded from the bytes of a payload, which become its hash; a payload without data cannot be decoded.
  A block has no transactions, except that one transaction that cannot be decoded is in a block whose data starts with zero.
\<close>

definition mem_C :: "memledger Committer" where
  "mem_C = LedgerCommitter mem_B mem_T"

definition mem_un :: "bytes \<Rightarrow> error + Block2" where
  "mem_un d = (if d = [] then Inl ErrUnexpectedEOF else Inr \<lparr>PreviousBlockHash = Some d, Transactions = (if hd d = 0 then [[]] else [])\<rparr>)"


definition payload_of :: "u64 \<Rightarrow> bytes \<Rightarrow> Payload" where
  "payload_of n d = \<lparr>pySeqNum = n, pyHash = [], pyData = d\<rparr>"

definition peer0 :: "memledger GossipStateProviderImpl" where
  "peer0 = projr (NewGossipStateProvider mem_C ledger0)"

definition peer1 :: "memledger GossipStateProviderImpl" where
  "peer1 = projr (handleStateResponse [payload_of 2 [8], payload_of 1 [7]] peer0)"

definition peer2 :: "memledger GossipStateProviderImpl \<times> (Payload \<times> outcome) list" where
  "peer2 = deliver_loop mem_C mem_un (peer1\<lparr>stPayloads := (stPayloads peer1)\<lparr>pbReady := 0\<rparr>\<rparr>)"

lemma ledger0_created: "kv_created mem_ops RBT.lookup rev Inr (\<lambda>m. m) Inr 0 [] ledger0"
proof -
  have "fsFiles example_fs = []" "confMaxBlockfileSize (NewConf [47] 0) \<le> maxint" by (simp_all add: example_fs_def NewConf_def maxint_def Let_def)
  moreover have "RBT.lookup (RBT.empty :: memdb) = Map.empty" by simp
  ultimately show ?thesis
    unfolding kv_created_def using example_db_props
    by (intro exI [of _ example_db] exI [of _ example_fs] exI [of _ "\<lambda>_. Inl ErrNotSupported"] exI [of _ RBT.empty] exI [of _ "NewConf [47] 0"]
        exI [of _ ledger0] exI [of _ True] conjI ledger0_new [unfolded mem_new_def] kv_start) simp_all
qed

lemma peers_run:
  "\<not> isl (NewGossipStateProvider mem_C ledger0)" "\<not> isl (handleStateResponse [payload_of 2 [8], payload_of 1 [7]] peer0)"
  "pbReady (stPayloads peer1) = 1"
  "snd peer2 = [(payload_of 1 [7], Committed \<lparr>PreviousBlockHash = Some [7], Transactions = []\<rparr>),
     (payload_of 2 [8], Committed \<lparr>PreviousBlockHash = Some [8], Transactions = []\<rparr>)]"
  by code_simp+

lemma peer0_buffer: "stPayloads peer0 = NewPayloadsBuffer 1"
  by code_simp


lemma plain_valid: "kv_valid Inr bs \<lparr>PreviousBlockHash = h, Transactions = []\<rparr> = \<lparr>PreviousBlockHash = h, Transactions = []\<rparr>"
  by (simp add: kv_valid_def block_run_def block_txs_def select_def)

lemma small_bounded:
  "bounded_block \<lparr>PreviousBlockHash = Some [7], Transactions = []\<rparr>" "bounded_block \<lparr>PreviousBlockHash = Some [8], Transactions = []\<rparr>"
  "bounded_block \<lparr>PreviousBlockHash = Some [0], Transactions = [[]]\<rparr>"
proof -
  have "length (block_body \<lparr>PreviousBlockHash = Some [7], Transactions = []\<rparr>) < 100" "length (block_body \<lparr>PreviousBlockHash = Some [8], Transactions = []\<rparr>) < 100"
    "length (block_body \<lparr>PreviousBlockHash = Some [0], Transactions = [[]]\<rparr>) < 100" by code_simp+
  then show "bounded_block \<lparr>PreviousBlockHash = Some [7], Transactions = []\<rparr>" "bounded_block \<lparr>PreviousBlockHash = Some [8], Transactions = []\<rparr>"
    "bounded_block \<lparr>PreviousBlockHash = Some [0], Transactions = [[]]\<rparr>" by (simp_all add: bounded_block_def)
qed


lemma peer0_new: "NewGossipStateProvider mem_C ledger0 = Inr peer0"
  using peers_run(1) by (simp add: peer0_def)

text \<open>The block of payload 2 fails validation: its number is used up, and payload 3 becomes the block number 2.\<close>

definition fail1 :: "memledger GossipStateProviderImpl" where
  "fail1 = projr (handleStateResponse [payload_of 3 [8], payload_of 2 [0], payload_of 1 [7]] peer0)"

definition fail2 :: "memledger GossipStateProviderImpl \<times> (Payload \<times> outcome) list" where
  "fail2 = deliver_loop mem_C mem_un (fail1\<lparr>stPayloads := (stPayloads fail1)\<lparr>pbReady := 0\<rparr>\<rparr>)"

lemma fail_runs:
  "\<not> isl (handleStateResponse [payload_of 3 [8], payload_of 2 [0], payload_of 1 [7]] peer0)" "pbReady (stPayloads fail1) = 1"
  "snd fail2 = [(payload_of 1 [7], Committed \<lparr>PreviousBlockHash = Some [7], Transactions = []\<rparr>), (payload_of 2 [0], Failed ErrUnexpectedEOF),
     (payload_of 3 [8], Committed \<lparr>PreviousBlockHash = Some [8], Transactions = []\<rparr>)]"
  by code_simp+

lemma payloads_committed_in_order_witness:
  "LedgerHeight mem_B (stCommitter (fst fail2)) = Inr 2 \<and>
   GetBlockByNumber mem_B (stCommitter (fst fail2)) 2 = Inr \<lparr>PreviousBlockHash = Some [8], Transactions = []\<rparr>"
proof -
  have "handleStateResponse [payload_of 3 [8], payload_of 2 [0], payload_of 1 [7]] peer0 = Inr fail1" using fail_runs(1) by (simp add: fail1_def)
  from response_loop_run [OF peer0_buffer this, of 0 mem_C mem_un "fst fail2" "snd fail2"]
  have run: "gs_run mem_C mem_un peer0 [payload_of 3 [8], payload_of 2 [0], payload_of 1 [7]] (snd fail2) False (fst fail2)"
    using fail_runs(2) prod.collapse [of fail2, symmetric] by (simp add: fail2_def [symmetric] fail_runs(3) payload_of_def is_panic_def)
  have good: "good_log bounded_block mem_un (snd fail2)"
    by (simp add: fail_runs(3) good_log_def payload_of_def mem_un_def small_bounded)
  note h = payloads_committed_in_order [OF mem.leveldb_reliable_axioms order_ok_id ledger0_created
      peer0_new [unfolded mem_C_def mem_B_def mem_T_def] run [unfolded mem_C_def mem_B_def mem_T_def] good _ refl]
  show ?thesis
    using h by (simp add: fail_runs(3) committed_def mem_B_def plain_valid norm_block_def of_nbytes_def All_less_Suc2)
qed








section \<open>Where the transfer goes wrong\<close>

text \<open>
  C23: A payload that has been taken from the buffer is never replaced, whatever became of it: when its data could not be decoded or its
  commit failed, a payload with the same number and good data is refused as already processed, from the network and from
  the answers of other peers.
\<close>

theorem lost_payload_not_replaced:
  assumes "NewGossipStateProvider C c = Inr s0" and "cLedgerHeight C c = Inr (of_nat h)" and "gs_run C un s0 acc log dr s"
    and "h + 1 + length log < 2 ^ 64" and "(p, out) \<in> set log" and "pySeqNum q = pySeqNum p"
  shows "AddPayload (Some q) s = Inr (s, Some (ErrMsg ''Payload has been already processed''))"
proof -
  have "stPayloads s0 = NewPayloadsBuffer (of_nat h + 1)" using assms(1,2) by (auto simp: NewGossipStateProvider_def)
  from gs_run_buffer [OF assms(3) this assms(4)] have b: "buffer_inv h acc (map fst log) dr (stPayloads s)" by blast
  obtain j where j: "j < length log" "map fst log ! j = p" using assms(5) by (metis fst_conv in_set_conv_nth nth_map)
  then have "pySeqNum p = of_nat (h + 1 + j)"
    using arg_cong [OF buffer_invD(1) [OF b], of "\<lambda>xs. xs ! j"] by (simp del: upt_Suc of_nat_add of_nat_Suc)
  moreover have "pbNext (stPayloads s) = of_nat (h + 1 + length log)" using buffer_invD(2) [OF b] by simp
  ultimately have "pySeqNum q < pbNext (stPayloads s)"
    using assms(4,6) j(1) by (simp add: word_less_nat_alt unat_of_nat64 del: of_nat_add of_nat_Suc)
  then show ?thesis by (simp add: AddPayload_def Push_def)
qed

text \<open>Payload 1 cannot be decoded: payload 2 becomes the block number 1, and the peer advertises the height 2.\<close>

definition gap1 :: "memledger GossipStateProviderImpl" where
  "gap1 = projr (handleStateResponse [payload_of 1 [], payload_of 2 [8]] peer0)"

definition gap2 :: "memledger GossipStateProviderImpl \<times> (Payload \<times> outcome) list" where
  "gap2 = deliver_loop mem_C mem_un (gap1\<lparr>stPayloads := (stPayloads gap1)\<lparr>pbReady := 0\<rparr>\<rparr>)"

lemma gap_facts:
  "\<not> isl (handleStateResponse [payload_of 1 [], payload_of 2 [8]] peer0)" "pbReady (stPayloads gap1) = 1"
  "snd gap2 = [(payload_of 1 [], Dropped ErrUnexpectedEOF), (payload_of 2 [8], Committed \<lparr>PreviousBlockHash = Some [8], Transactions = []\<rparr>)]"
  "LedgerHeight mem_B (stCommitter (fst gap2)) = Inr 1" "stMeta (fst gap2) = Metastate_Bytes 2"
  "GetBlockByNumber mem_B (stCommitter (fst gap2)) 1 = Inr \<lparr>PreviousBlockHash = Some [8], Transactions = []\<rparr>"
  "cLedgerHeight mem_C ledger0 = Inr 0"
  by code_simp+

lemma lost_payload_not_replaced_witness:
  "AddPayload (Some (payload_of 1 [7])) (fst gap2) = Inr (fst gap2, Some (ErrMsg ''Payload has been already processed'')) \<and>
   LedgerHeight mem_B (stCommitter (fst gap2)) = Inr 1 \<and> stMeta (fst gap2) = Metastate_Bytes 2 \<and>
   GetBlockByNumber mem_B (stCommitter (fst gap2)) 1 = Inr \<lparr>PreviousBlockHash = Some [8], Transactions = []\<rparr>"
proof -
  have "handleStateResponse [payload_of 1 [], payload_of 2 [8]] peer0 = Inr gap1" using gap_facts(1) by (simp add: gap1_def)
  from response_loop_run [OF peer0_buffer this, of 0 mem_C mem_un "fst gap2" "snd gap2"]
  have run: "gs_run mem_C mem_un peer0 [payload_of 1 [], payload_of 2 [8]] (snd gap2) False (fst gap2)"
    using gap_facts(2) prod.collapse [of gap2, symmetric] by (simp add: gap2_def [symmetric] gap_facts(3) payload_of_def)
  have "AddPayload (Some (payload_of 1 [7])) (fst gap2) = Inr (fst gap2, Some (ErrMsg ''Payload has been already processed''))"
    by (rule lost_payload_not_replaced [OF peer0_new, of 0, OF _ run]) (use gap_facts(3,7) in \<open>auto simp: payload_of_def\<close>)
  then show ?thesis using gap_facts(4-6) by simp
qed

text \<open>
  C24: A peer that advertises the largest number as its height keeps every other peer busy for ever: the loop that lists the blocks to ask for
  has no last number, so that a turn of anti-entropy does not end, whichever peer it has chosen.
\<close>

theorem forged_height_hangs:
  assumes "cLedgerHeight C (stCommitter s) = Inr h" and "h \<noteq> - 1" and "v \<in> set members" and "nmMetadata v = replicate 8 255"
  shows "antiEntropy C rand_Intn members s = None"
proof -
  have "Metastate_FromBytes (replicate 8 255) = Inr (- 1)" by code_simp
  then have "- 1 \<le> maxHeight h members" using maxHeight_ge [of h members] assms(3,4) by metis
  then have m: "maxHeight h members = - 1" by (simp add: antisym)
  then have "peersAtHeight (- 1) members \<noteq> []" using peersAtHeight_max [of h members] assms(2) by simp
  then show ?thesis using assms(1,2) m by (simp add: antiEntropy_def requestBlocksInRange_def Let_def seqRange_diverges)
qed

lemma forged_height_hangs_witness:
  "antiEntropy mem_C (\<lambda>_. 0) [\<lparr>nmEndpoint = [50], nmMetadata = replicate 8 255, nmPKIid = [2]\<rparr>] peer0 = None"
proof -
  have "cLedgerHeight mem_C (stCommitter peer0) = Inr 0" by code_simp
  from forged_height_hangs [OF this, of "\<lparr>nmEndpoint = [50], nmMetadata = replicate 8 255, nmPKIid = [2]\<rparr>"] show ?thesis by simp
qed

end
