(* ===== verification/Spec2Isabelle.thy ===== *)
theory Spec2Isabelle
  imports Byte_Order Snapshot KV_Ledger SBFT_Props Orderer_Launch_Props Orderer_Deliver Gossip_Store Gossip_Pull Gossip_Discovery_Props Gossip_Catchup
begin

text \<open>
  Verification of the ledger, the ordering service and the gossip layer of Hyperledger Fabric.

  \<^bold>\<open>The program.\<close> A peer keeps a ledger: a chain of blocks in files and a world state in a key-value database
  (core/ledger). Transactions are simulated against the state, which gives a set of reads with versions and a set
  of writes; a block of them is validated, written to the block store and committed to the state. The blocks come from the
  ordering service (orderer): clients broadcast envelopes, a consenter puts them in order and cuts blocks, the blocks are
  kept in a raw ledger and delivered to clients. The consenter is the solo orderer, or the replicas of SBFT, a
  Byzantine-fault-tolerant protocol (orderer/sbft/simplebft). Peers spread the blocks among themselves by gossip (gossip): they keep
  track of which peers are alive, push and pull messages, and a peer that misses blocks asks another one for them and gives them to
  its ledger through the committer (core/committer).

  \<^bold>\<open>How it is modelled.\<close> Structs are records, enumerations and interfaces with a fixed set of implementations are
  datatypes, and every function or method is a function on them, with the state passed along. Errors and panics are values of
  the type \<open>error\<close>; an operation that may fail returns \<open>error + 'a\<close>, one that may wait or run for ever an option.
  A \<open>uint64\<close> is a 64-bit word; an \<open>int\<close> is an integer, with \<open>goint\<close> where a result may not fit. A nil slice or pointer is
  None. Maps are association lists (\<open>gomap\<close>), and the order in which Go iterates over one is an argument. Code that is
  not in the repository, and the protobuf library, is an argument: a record of operations, with what is relied on as the
  assumptions of a locale or of the theorem. Goroutines are steps of a relation that interleave at the points where they
  wait on a channel or hold a lock.

  \<^bold>\<open>Theories.\<close>

  \<^item> Prelude: bytes, machine integers, errors and their sequencing, Go maps, generic lemmas.

  \<^item> Proto_Wire (vendor/github.com/golang/protobuf/proto: encode.go, decode.go): varints and length-prefixed bytes, and that
    decoding inverts encoding.

  \<^item> Byte_Order (core/ledger/util/util.go): integers encoded so that the order of the bytes is that of the numbers.

  \<^item> RWSet (core/ledger/kvledger/txmgmt/rwset.go): read-write sets and their encoding, with the round trip.

  \<^item> LevelDB (core/ledger/util/db/db.go): the database wrapper over an interface of goleveldb, whose laws are the locales
    \<open>leveldb\<close> and \<open>leveldb_reliable\<close>, interpreted on the wrapper over an in-memory database.

  \<^item> TxMgr, TxSimulator, Snapshot (core/ledger/kvledger/txmgmt/lockbasedtxmgmt): the transaction manager, the simulator and the
    query executor. Validation refines a sequential specification, a committed block has the effect of running its
    valid transactions one after the other, and a simulation reads one snapshot under the lock.

  \<^item> SerBlock2, Decimal, BlockIndex, BlockFiles, BlockfileMgr, BlockStore, BlockRecovery, BlockLedger
    (protos/serblock.go and core/ledger/blkstorage/fsblkstorage): serialized blocks, the index, block files on a model of the
    file system with faults, the block file manager, and its recovery. The acknowledged blocks are read back, also after a
    stop at any point of adding one.

  \<^item> Fs_Store (fs_blockstore.go) and KV_Ledger (kv_ledger.go, kv_ledgers.go): the block store behind its interface, the locale
    \<open>block_store\<close>, and the ledger over it and over the locale \<open>tx_manager\<close>. Over all runs in which calls may fail, but
    \<open>Commit\<close> does not follow a failed preparation, the state is what the write sets of the committed blocks make. A stop between the two
    steps of a commit leaves the state behind.

  \<^item> SBFT_State, SBFT_Xset, SBFT_Replica, SBFT_Views, SBFT_Backlog, SBFT_Safety, SBFT_Runs, SBFT_Props
    (orderer/sbft/simplebft): the state and the messages of a replica, the selection of a new view, normal operation,
    view changes and the backlog, over the interface \<open>System\<close>, with the locale \<open>bft_system\<close> for signatures and hashes. The
    theorems are about one replica, whatever it is sent: quorums, certified batches, views, the backlog, and the inputs that
    make it panic.

  \<^item> Orderer_Policy (orderer/common/cauthdsl, policies): signature policies and their compiler, against a direct reading.

  \<^item> Orderer_Config, Orderer_Config_Props (orderer/common/configtx): the configuration manager with its handlers.

  \<^item> Orderer_Ledger, Orderer_Ledger_Props (orderer/rawledger/ramledger, protos/common/block.go): the in-memory ledger as a linked
    list in a store of nodes, since readers keep pointers into it.

  \<^item> Orderer_Cut, Orderer_Solo, Orderer_Broadcast (broadcastfilter, blockcutter, solo, broadcast): filters, batches, the consenter
    over the interface of the raw ledger, and the connections of the broadcast service.

  \<^item> Orderer_Launch, Orderer_Launch_Props (orderer/main.go, common/util, bootstrap/static): the genesis block, reading the
    configuration back, and the start; the properties that span the orderer.

  \<^item> Orderer_Deliver (orderer/common/deliver): the deliver service over the same interface. The locales \<open>raw_writer\<close> and
    \<open>raw_reader\<close> are the contracts of the raw ledger, interpreted on the in-memory ledger.

  \<^item> Gossip_Msg (gossip/proto, util, common): the messages and when one replaces another. Gossip_Store (gossip/gossip/msgs.go,
    batcher.go): the message store over the locale \<open>replacing_policy\<close> of such an order, and the batching emitter. Gossip_Pull
    (gossip/gossip/algo/pull.go): the pull engine and a whole round of it between an initiator and its peers.

  \<^item> Gossip_Discovery, Gossip_Discovery_Props (gossip/discovery): the tables of alive and dead peers, every handler with the other
    goroutines interfering where it holds no lock, and the invariant that all of them keep.

  \<^item> Gossip_State, Gossip_State_Props, Gossip_Transfer, Gossip_Catchup (gossip/state, core/committer): the payload buffer, the state
    provider and the ledger committer. The locale \<open>block_committer\<close> is the contract between the last two, and the key-value ledger
    meets it, so that the theorems on the order of commits and on a peer that catches up are about the ledger of KV_Ledger.

  \<^bold>\<open>Bounds and fuel.\<close> Loops over lists and files are total functions with a termination proof. Fuel is used in three places:
  the backlog of a replica, with a number computed from the backlog, which is proved enough; the search of the in-memory
  ledger, with the number of nodes, and the loop that reads the configuration back, with the height of the ledger, both
  proved enough. Theorems about numbered blocks assume fewer than \<open>2 ^ 62\<close> or \<open>2 ^ 64 - 1\<close> of them, so that the numbers do not
  wrap, and blocks of less than 4 GiB, since a block is stored with offsets of 32 bits. The loop that lists the blocks to ask for is a partial function, since it does not end on every input.

  \<^bold>\<open>Not modelled.\<close> The reflection-driven codec of protobuf, goleveldb, the cryptographic primitives and gRPC are libraries, and
  appear as arguments. The file ledger and the Kafka orderer, the CouchDB manager, the network side of SBFT and of
  gossip, the gossip service that dispatches to the parts above, the chaincode containers, the membership services, the event
  service and the command line are not modelled: they are input and output, or layers over libraries. Time is not modelled: a timer that is set may fire at any time. Data races are not
  modelled; a goroutine runs from one channel operation or lock to the next without interruption.
\<close>

end
